(* ===== verification/Prelude.thy ===== *)
theory Prelude
  imports Main "HOL-Library.Char_ord" "HOL-Library.List_Lexorder"
begin

text \<open>
  Shared vocabulary of the development: C strings as byte lists, the few C library string
  functions the daemon uses, and the generic list lemmas its components share.

  A C string is a \<open>string\<close> (a list of bytes, the terminating NUL left out). With
  \<open>Char_ord\<close> and \<open>List_Lexorder\<close> the type is a linear order that compares bytes as
  unsigned numbers from the left: \<open>s < t\<close> is \<open>strcmp(s, t) < 0\<close>.
\<close>

named_theorems cstr_simps \<open>evaluation rules of the C string functions\<close>

type_synonym sha = string
type_synonym path = string

text \<open>The values of \<open>errno\<close> the code compares with; any other is \<open>EOTHER n\<close>.\<close>

datatype errno =
    EPERM | ENOENT | EIO | EEXIST | EXDEV | ENOTDIR | EISDIR | EINVAL | ENOSPC | ENAMETOOLONG
  | ENOTEMPTY | EWOULDBLOCK | EINTR | EOTHER nat

abbreviation nl :: char where "nl \<equiv> CHR 0x0A"
abbreviation slash :: char where "slash \<equiv> CHR ''/''"

section \<open>C string functions\<close>

text \<open>\<open>strncmp(s, p, strlen p) == 0\<close>: the remainder of \<open>s\<close> after the prefix \<open>p\<close>.\<close>

fun strip_prefix :: "string \<Rightarrow> string \<Rightarrow> string option" where
  "strip_prefix [] s = Some s"
| "strip_prefix (p # ps) [] = None"
| "strip_prefix (p # ps) (c # cs) = (if p = c then strip_prefix ps cs else None)"

lemma strip_prefix_Some [simp]: "strip_prefix p s = Some t \<longleftrightarrow> s = p @ t"
  by (induction p s rule: strip_prefix.induct) auto

lemma strip_prefix_append [simp]: "strip_prefix p (p @ t) = Some t"
  by simp

lemma strip_prefix_None: "strip_prefix p s = None \<longleftrightarrow> (\<nexists>t. s = p @ t)"
  by (metis not_Some_eq strip_prefix_Some)

text \<open>
  \<open>strrchr(s, c)\<close>: the text before the last \<open>c\<close> and the text after it.
\<close>

definition split_last :: "char \<Rightarrow> string \<Rightarrow> (string \<times> string) option" where
  "split_last c s =
     (if c \<in> set s
      then Some (rev (tl (dropWhile (\<lambda>x. x \<noteq> c) (rev s))), rev (takeWhile (\<lambda>x. x \<noteq> c) (rev s)))
      else None)"

lemma split_last_None [simp]: "split_last c s = None \<longleftrightarrow> c \<notin> set s"
  by (simp add: split_last_def)

lemma split_last_SomeD:
  assumes "split_last c s = Some (a, b)"
  shows "s = a @ c # b \<and> c \<notin> set b"
proof -
  let ?P = "\<lambda>x. x \<noteq> c"
  from assms have c: "c \<in> set (rev s)"
    and a: "a = rev (tl (dropWhile ?P (rev s)))" and b: "b = rev (takeWhile ?P (rev s))"
    by (auto simp: split_last_def split: if_splits)
  from c obtain y ys where d: "dropWhile ?P (rev s) = y # ys"
    by (cases "dropWhile ?P (rev s)") auto
  then have "y = c" using hd_dropWhile [of ?P "rev s"] by auto
  have "rev s = takeWhile ?P (rev s) @ y # ys" using d by (metis takeWhile_dropWhile_id)
  then have "s = rev (takeWhile ?P (rev s) @ y # ys)" by (metis rev_rev_ident)
  moreover have "c \<notin> set b" unfolding b by (auto dest: set_takeWhileD)
  ultimately show ?thesis using a b d \<open>y = c\<close> by simp
qed

lemma split_last_append:
  assumes "c \<notin> set b"
  shows "split_last c (a @ c # b) = Some (a, b)"
proof -
  have "takeWhile (\<lambda>x. x \<noteq> c) (rev b @ c # rev a) = rev b"
    using assms by (subst takeWhile_append2) auto
  moreover have "dropWhile (\<lambda>x. x \<noteq> c) (rev b @ c # rev a) = c # rev a"
    using assms by (subst dropWhile_append2) auto
  ultimately show ?thesis by (simp add: split_last_def)
qed

lemma split_last_Some_iff:
  "split_last c s = Some (a, b) \<longleftrightarrow> s = a @ c # b \<and> c \<notin> set b"
  using split_last_SomeD split_last_append by metis

text \<open>\<open>memchr(s, LF, n)\<close>: the index of the first newline.\<close>

definition memchr_nl :: "string \<Rightarrow> nat option" where
  "memchr_nl s = (if nl \<in> set s then Some (length (takeWhile (\<lambda>c. c \<noteq> nl) s)) else None)"

lemma memchr_nl_None [simp]: "memchr_nl s = None \<longleftrightarrow> nl \<notin> set s"
  by (simp add: memchr_nl_def)

lemma memchr_nl_SomeD:
  assumes "memchr_nl s = Some k"
  shows "s = take k s @ nl # drop (Suc k) s \<and> nl \<notin> set (take k s) \<and> k < length s"
proof -
  let ?P = "\<lambda>c. c \<noteq> nl"
  from assms have nl: "nl \<in> set s" and k: "k = length (takeWhile ?P s)"
    by (auto simp: memchr_nl_def split: if_splits)
  from nl obtain y ys where d: "dropWhile ?P s = y # ys" by (cases "dropWhile ?P s") auto
  then have "y = nl" using hd_dropWhile [of ?P s] by auto
  have s: "s = takeWhile ?P s @ nl # ys" using d \<open>y = nl\<close> by (metis takeWhile_dropWhile_id)
  have t: "take k s = takeWhile ?P s" unfolding k by (metis takeWhile_eq_take)
  have "drop (Suc k) s = ys" by (subst s) (simp add: k)
  with s t have "s = take k s @ nl # drop (Suc k) s" by simp
  moreover have "nl \<notin> set (take k s)" unfolding t by (auto dest: set_takeWhileD)
  moreover have "k < length s" by (subst s) (simp add: k)
  ultimately show ?thesis by blast
qed

lemma memchr_nl_append:
  assumes "nl \<notin> set a"
  shows "memchr_nl (a @ nl # b) = Some (length a)"
proof -
  have "takeWhile (\<lambda>c. c \<noteq> nl) (a @ nl # b) = a"
    using assms by (subst takeWhile_append2) auto
  then show ?thesis by (simp add: memchr_nl_def)
qed

text \<open>\<open>tolower\<close> in the C locale.\<close>

definition to_lower :: "char \<Rightarrow> char" where
  "to_lower c = (if CHR ''A'' \<le> c \<and> c \<le> CHR ''Z'' then char_of (of_char c + (32 :: nat)) else c)"

section \<open>Lists\<close>

lemma sorted_wrt_distinct_less: "sorted_wrt (<) (xs :: 'a :: linorder list) \<Longrightarrow> distinct xs"
  by (simp add: strict_sorted_iff)

lemma sum_list_filter_split:
  "sum_list (map f xs) = sum_list (map f (filter P xs)) + sum_list (map f (filter (\<lambda>x. \<not> P x) xs))"
  for f :: "'a \<Rightarrow> int"
  by (induction xs) auto

lemma sum_list_nonneg_int: "(\<And>x. x \<in> set xs \<Longrightarrow> 0 \<le> f x) \<Longrightarrow> (0::int) \<le> sum_list (map f xs)"
  by (induction xs) auto

lemma sum_list_append_one: "sum_list (map f (xs @ [x])) = sum_list (map f xs) + (f x :: int)"
  by simp

section \<open>Tables: lists of rows with a primary key\<close>

text \<open>
  A SQL table is the list of its rows in insertion order. \<open>upsert key f r\<close> is
  \<open>INSERT ... ON CONFLICT(key) DO UPDATE\<close>: \<open>f old new\<close> is the row the update leaves.
\<close>

fun upsert :: "('r \<Rightarrow> 'k) \<Rightarrow> ('r \<Rightarrow> 'r \<Rightarrow> 'r) \<Rightarrow> 'r \<Rightarrow> 'r list \<Rightarrow> 'r list" where
  "upsert key f r [] = [r]"
| "upsert key f r (x # xs) = (if key x = key r then f x r # xs else x # upsert key f r xs)"

definition find_row :: "('r \<Rightarrow> 'k) \<Rightarrow> 'k \<Rightarrow> 'r list \<Rightarrow> 'r option" where
  "find_row key k xs = find (\<lambda>r. key r = k) xs"

lemma find_row_Nil [simp]: "find_row key k [] = None"
  by (simp add: find_row_def)

lemma find_row_Cons [simp]:
  "find_row key k (x # xs) = (if key x = k then Some x else find_row key k xs)"
  by (simp add: find_row_def)

lemma find_row_None [simp]: "find_row key k xs = None \<longleftrightarrow> k \<notin> key ` set xs"
  by (induction xs) auto

lemma find_row_SomeD: "find_row key k xs = Some r \<Longrightarrow> r \<in> set xs \<and> key r = k"
  by (induction xs) (auto split: if_splits)

lemma find_row_in: "r \<in> set xs \<Longrightarrow> distinct (map key xs) \<Longrightarrow> find_row key (key r) xs = Some r"
  by (induction xs) force+

lemma upsert_keys:
  assumes "\<And>x. key (f x r) = key x"
  shows "map key (upsert key f r xs) =
    (if key r \<in> key ` set xs then map key xs else map key xs @ [key r])"
  using assms by (induction xs) auto

lemma upsert_distinct:
  assumes "\<And>x. key (f x r) = key x" and "distinct (map key xs)"
  shows "distinct (map key (upsert key f r xs))"
  using assms by (simp add: upsert_keys)

lemma find_row_upsert:
  assumes "\<And>x. key (f x r) = key x"
  shows "find_row key k (upsert key f r xs) =
    (if k = key r then Some (case find_row key k xs of None \<Rightarrow> r | Some x \<Rightarrow> f x r)
     else find_row key k xs)"
  using assms by (induction xs) auto

lemma set_upsert: "y \<in> set (upsert key f r xs) \<Longrightarrow> y = r \<or> y \<in> set xs \<or> (\<exists>x\<in>set xs. y = f x r)"
  by (induction xs) (auto split: if_splits)

lemma keys_upsert: "(\<And>x. key (f x r) = key x) \<Longrightarrow> key ` set (upsert key f r xs) = insert (key r) (key ` set xs)"
  by (induction xs) auto

lemma distinct_map_filter_key: "distinct (map key xs) \<Longrightarrow> distinct (map key (filter P xs))"
  by (simp add: distinct_map_filter)

lemma find_row_map_upd:
  assumes "\<And>x. key (g x) = key x"
  shows "find_row key k (map g xs) = map_option g (find_row key k xs)"
  using assms by (induction xs) auto

section \<open>Optional results\<close>

text \<open>\<open>opt_post P r\<close>: if \<open>r\<close> is a result, \<open>P\<close> holds of it. The rules follow the code of a parser.\<close>

definition opt_post :: "('a \<Rightarrow> bool) \<Rightarrow> 'a option \<Rightarrow> bool" where
  "opt_post P r \<longleftrightarrow> (\<forall>x. r = Some x \<longrightarrow> P x)"

named_theorems post_intros \<open>introduction rules of opt_post\<close>

lemma opt_postD: "opt_post P r \<Longrightarrow> r = Some x \<Longrightarrow> P x"
  by (simp add: opt_post_def)

lemma opt_post_Some [post_intros]: "P x \<Longrightarrow> opt_post P (Some x)"
  by (simp add: opt_post_def)

lemma opt_post_None [post_intros]: "opt_post P None"
  by (simp add: opt_post_def)

lemma opt_post_if [post_intros]: "(b \<Longrightarrow> opt_post P x) \<Longrightarrow> (\<not> b \<Longrightarrow> opt_post P y) \<Longrightarrow> opt_post P (if b then x else y)"
  by simp

lemma opt_post_bind [post_intros]: "(\<And>v. x = Some v \<Longrightarrow> opt_post P (f v)) \<Longrightarrow> opt_post P (Option.bind x f)"
  by (cases x) (simp_all add: opt_post_def)

lemma opt_post_case [post_intros]:
  "opt_post P a \<Longrightarrow> (\<And>v. x = Some v \<Longrightarrow> opt_post P (f v)) \<Longrightarrow> opt_post P (case x of None \<Rightarrow> a | Some v \<Rightarrow> f v)"
  by (cases x) simp_all

end
