(* ===== verification/Fs.thy ===== *)
theory Fs
  imports Prelude "HOL-Library.AList"
begin

text \<open>
  The POSIX file system the daemon drives, and the directory helpers of \<open>paths.c\<close>.

  A file system is a finite map from absolute, canonical paths to nodes; a regular file is an
  inode number, so hard links share their bytes (\<open>fs_data\<close>). Every call that changes the tree
  first consumes one entry of the fault schedule \<open>fs_faults\<close>: \<open>Some e\<close> makes it fail with
  \<open>errno = e\<close> and change nothing (\<open>EXDEV\<close>, \<open>ENOSPC\<close>, \<open>EIO\<close>, ...). A schedule of failures from
  some point on leaves the tree a crash at that point would leave. Symbolic links are not
  modelled: \<open>stat\<close> and \<open>lstat\<close> answer alike.
\<close>

datatype node = Dir | Reg nat | Special

record fs =
  fs_nodes :: "(path \<times> node) list"
  fs_data :: "(nat \<times> string) list"
  fs_next :: nat
  fs_faults :: "errno option list"

section \<open>Reading the tree\<close>

definition fs_get :: "fs \<Rightarrow> path \<Rightarrow> node option" where
  "fs_get s p = map_of (fs_nodes s) p"

definition fs_inode :: "fs \<Rightarrow> path \<Rightarrow> nat option" where
  "fs_inode s p = (case fs_get s p of Some (Reg i) \<Rightarrow> Some i | _ \<Rightarrow> None)"

definition file_data :: "fs \<Rightarrow> nat \<Rightarrow> string" where
  "file_data s i = (case map_of (fs_data s) i of None \<Rightarrow> [] | Some d \<Rightarrow> d)"

definition fs_content :: "fs \<Rightarrow> path \<Rightarrow> string option" where
  "fs_content s p = map_option (file_data s) (fs_inode s p)"

definition is_reg :: "fs \<Rightarrow> path \<Rightarrow> bool" where
  "is_reg s p \<longleftrightarrow> fs_inode s p \<noteq> None"

definition is_dir :: "fs \<Rightarrow> path \<Rightarrow> bool" where
  "is_dir s p \<longleftrightarrow> fs_get s p = Some Dir"

definition parent_ok :: "fs \<Rightarrow> path \<Rightarrow> bool" where
  "parent_ok s p = (case split_last slash p of
     None \<Rightarrow> True
   | Some (d, b) \<Rightarrow> d = [] \<or> is_dir s d)"

text \<open>The names in a directory, as \<open>readdir\<close> lists them (\<open>.\<close> and \<open>..\<close> left out).\<close>

definition fs_entries :: "fs \<Rightarrow> path \<Rightarrow> string list" where
  "fs_entries s d = [b. (p, n) \<leftarrow> fs_nodes s, b \<leftarrow> (case split_last slash p of
      Some (d', b) \<Rightarrow> if d' = d then [b] else [] | None \<Rightarrow> [])]"

section \<open>System calls\<close>

type_synonym sysres = "errno option"

definition injected :: "(fs \<Rightarrow> sysres \<times> fs) \<Rightarrow> fs \<Rightarrow> sysres \<times> fs" where
  "injected call s = (case fs_faults s of
     [] \<Rightarrow> call s
   | None # fr \<Rightarrow> call (s\<lparr>fs_faults := fr\<rparr>)
   | Some e # fr \<Rightarrow> (Some e, s\<lparr>fs_faults := fr\<rparr>))"

definition put_node :: "path \<Rightarrow> node \<Rightarrow> fs \<Rightarrow> fs" where
  "put_node p n s = s\<lparr>fs_nodes := AList.update p n (fs_nodes s)\<rparr>"

definition del_node :: "path \<Rightarrow> fs \<Rightarrow> fs" where
  "del_node p s = s\<lparr>fs_nodes := AList.delete p (fs_nodes s)\<rparr>"

definition sys_mkdir :: "path \<Rightarrow> fs \<Rightarrow> sysres \<times> fs" where
  "sys_mkdir p = injected (\<lambda>s.
     if fs_get s p \<noteq> None then (Some EEXIST, s)
     else if \<not> parent_ok s p then (Some ENOENT, s)
     else (None, put_node p Dir s))"

definition sys_link :: "path \<Rightarrow> path \<Rightarrow> fs \<Rightarrow> sysres \<times> fs" where
  "sys_link old new = injected (\<lambda>s.
     case fs_get s old of
       None \<Rightarrow> (Some ENOENT, s)
     | Some Dir \<Rightarrow> (Some EPERM, s)
     | Some n \<Rightarrow> if fs_get s new \<noteq> None then (Some EEXIST, s)
                 else if \<not> parent_ok s new then (Some ENOENT, s)
                 else (None, put_node new n s))"

definition sys_unlink :: "path \<Rightarrow> fs \<Rightarrow> sysres \<times> fs" where
  "sys_unlink p = injected (\<lambda>s.
     case fs_get s p of
       None \<Rightarrow> (Some ENOENT, s)
     | Some Dir \<Rightarrow> (Some EISDIR, s)
     | Some n \<Rightarrow> (None, del_node p s))"

text \<open>\<open>rename\<close> of a non-directory; two links of one inode are left as they are (POSIX).\<close>

definition sys_rename :: "path \<Rightarrow> path \<Rightarrow> fs \<Rightarrow> sysres \<times> fs" where
  "sys_rename old new = injected (\<lambda>s.
     case fs_get s old of
       None \<Rightarrow> (Some ENOENT, s)
     | Some Dir \<Rightarrow> (Some EISDIR, s)
     | Some n \<Rightarrow>
         if \<not> parent_ok s new then (Some ENOENT, s)
         else if fs_get s new = Some Dir then (Some EISDIR, s)
         else if fs_get s new = Some n then (None, s)
         else (None, del_node old (put_node new n s)))"

definition sys_rmdir :: "path \<Rightarrow> fs \<Rightarrow> sysres \<times> fs" where
  "sys_rmdir p = injected (\<lambda>s.
     if fs_get s p = None then (Some ENOENT, s)
     else if \<not> is_dir s p then (Some ENOTDIR, s)
     else if fs_entries s p \<noteq> [] then (Some ENOTEMPTY, s)
     else (None, del_node p s))"

text \<open>
  \<open>open(p, O_CREAT | O_EXCL)\<close> and \<open>open(p, O_CREAT | O_TRUNC)\<close> for writing, and one
  \<open>write(2)\<close> that appends to the file of that name.
\<close>

definition sys_create_excl :: "path \<Rightarrow> fs \<Rightarrow> sysres \<times> fs" where
  "sys_create_excl p = injected (\<lambda>s.
     if fs_get s p \<noteq> None then (Some EEXIST, s)
     else if \<not> parent_ok s p then (Some ENOENT, s)
     else (None, (put_node p (Reg (fs_next s)) s)
                   \<lparr>fs_next := Suc (fs_next s), fs_data := AList.update (fs_next s) [] (fs_data s)\<rparr>))"

definition sys_create_trunc :: "path \<Rightarrow> fs \<Rightarrow> sysres \<times> fs" where
  "sys_create_trunc p = injected (\<lambda>s.
     case fs_get s p of
       Some Dir \<Rightarrow> (Some EISDIR, s)
     | Some (Reg i) \<Rightarrow> (None, s\<lparr>fs_data := AList.update i [] (fs_data s)\<rparr>)
     | Some Special \<Rightarrow> (None, s)
     | None \<Rightarrow>
         if \<not> parent_ok s p then (Some ENOENT, s)
         else (None, (put_node p (Reg (fs_next s)) s)
                \<lparr>fs_next := Suc (fs_next s), fs_data := AList.update (fs_next s) [] (fs_data s)\<rparr>))"

definition sys_write :: "path \<Rightarrow> string \<Rightarrow> fs \<Rightarrow> sysres \<times> fs" where
  "sys_write p bs = injected (\<lambda>s.
     case fs_inode s p of
       None \<Rightarrow> (None, s)
     | Some i \<Rightarrow> (None, s\<lparr>fs_data := AList.update i (file_data s i @ bs) (fs_data s)\<rparr>))"

definition sys_fsync :: "fs \<Rightarrow> sysres \<times> fs" where
  "sys_fsync = injected (\<lambda>s. (None, s))"

section \<open>paths.c\<close>

text \<open>
  \<open>resolve_xdg\<close>: the environment variable when it is an absolute path, else the default under
  \<open>$HOME\<close>; \<open>cap\<close> is the size of the static buffer.
\<close>

fun absolute :: "string option \<Rightarrow> bool" where
  "absolute (Some (c # r)) = (c = slash)"
| "absolute _ = False"

definition resolve_xdg :: "nat \<Rightarrow> string option \<Rightarrow> string option \<Rightarrow> string \<Rightarrow> string \<Rightarrow> path option" where
  "resolve_xdg cap xdg home default_subdir tail =
     (let fit = (\<lambda>p. if length p \<ge> cap then None else Some p)
      in if absolute xdg then fit (the xdg @ [slash] @ tail)
         else if \<not> absolute home then None
         else fit (the home @ [slash] @ default_subdir @ [slash] @ tail))"

text \<open>The prefixes of a path that \<open>paths_mkdir_p\<close> creates, outermost first.\<close>

definition mkdir_prefixes :: "path \<Rightarrow> path list" where
  "mkdir_prefixes d = [take i d. i \<leftarrow> [1..<Suc (length d)], i = length d \<or> d ! i = slash]"

fun mkdir_each :: "path list \<Rightarrow> fs \<Rightarrow> sysres \<times> fs" where
  "mkdir_each [] s = (None, s)"
| "mkdir_each (p # ps) s =
     (case sys_mkdir p s of
        (None, s') \<Rightarrow> mkdir_each ps s'
      | (Some e, s') \<Rightarrow> if e \<noteq> EEXIST \<and> \<not> is_dir s' p then (Some e, s') else mkdir_each ps s')"

definition paths_mkdir_p :: "path \<Rightarrow> fs \<Rightarrow> sysres \<times> fs" where
  "paths_mkdir_p d s =
     (if d = [] then (Some EINVAL, s)
      else if length d \<ge> 4096 then (Some ENAMETOOLONG, s)
      else mkdir_each (mkdir_prefixes d) s)"

text \<open>\<open>mkparents\<close> of \<open>rotate.c\<close> and \<open>migrate.c\<close>: every directory above a file.\<close>

definition mkparents :: "path \<Rightarrow> fs \<Rightarrow> sysres \<times> fs" where
  "mkparents p s = (case split_last slash p of
     None \<Rightarrow> (None, s)
   | Some (d, b) \<Rightarrow> if d = [] then (None, s) else paths_mkdir_p d s)"

section \<open>What the calls leave of the tree\<close>

text \<open>Two states with the same tree: only the fault schedule may differ.\<close>

definition same_tree :: "fs \<Rightarrow> fs \<Rightarrow> bool" where
  "same_tree s s' \<longleftrightarrow> fs_nodes s' = fs_nodes s \<and> fs_data s' = fs_data s \<and> fs_next s' = fs_next s"

definition fs_wf :: "fs \<Rightarrow> bool" where
  "fs_wf s \<longleftrightarrow> (\<forall>p i. fs_inode s p = Some i \<longrightarrow> i < fs_next s)"

lemma same_tree_refl [simp]: "same_tree s s"
  by (simp add: same_tree_def)

lemma same_tree_trans: "same_tree s s' \<Longrightarrow> same_tree s' s'' \<Longrightarrow> same_tree s s''"
  by (simp add: same_tree_def)

lemma same_tree_faults [simp]: "same_tree s (s'\<lparr>fs_faults := fr\<rparr>) = same_tree s s'"
  by (simp add: same_tree_def)

lemma same_tree_get:
  assumes "same_tree s s'"
  shows "fs_get s' = fs_get s" "fs_inode s' = fs_inode s" "fs_content s' = fs_content s"
    "is_reg s' = is_reg s" "is_dir s' = is_dir s" "parent_ok s' = parent_ok s"
    "fs_entries s' = fs_entries s"
proof -
  from assms have nodes: "fs_nodes s' = fs_nodes s" and data: "fs_data s' = fs_data s"
    by (simp_all add: same_tree_def)
  show get: "fs_get s' = fs_get s" using nodes by (simp add: fun_eq_iff fs_get_def)
  show inode: "fs_inode s' = fs_inode s" by (simp add: fun_eq_iff fs_inode_def get)
  have fd: "file_data s' = file_data s" by (simp add: fun_eq_iff file_data_def data)
  show "fs_content s' = fs_content s" by (rule ext) (simp only: fs_content_def inode fd)
  show "is_reg s' = is_reg s" by (simp add: fun_eq_iff is_reg_def inode)
  show dir: "is_dir s' = is_dir s" by (simp add: fun_eq_iff is_dir_def get)
  show "parent_ok s' = parent_ok s" by (simp only: fun_eq_iff parent_ok_def dir) simp
  show "fs_entries s' = fs_entries s" by (simp add: fun_eq_iff fs_entries_def nodes)
qed

lemma same_tree_wf: "same_tree s s' \<Longrightarrow> fs_wf s' = fs_wf s"
  using same_tree_get(2) [of s s'] by (auto simp: fs_wf_def same_tree_def)

lemma get_put_node: "fs_get (put_node p n s) q = (if q = p then Some n else fs_get s q)"
  by (simp add: fs_get_def put_node_def update_conv')

lemma get_del_node: "fs_get (del_node p s) q = (if q = p then None else fs_get s q)"
  by (simp add: fs_get_def del_node_def delete_conv')

lemma inode_put_node: "fs_inode (put_node p n s) q = (if q = p then (case n of Reg i \<Rightarrow> Some i | _ \<Rightarrow> None) else fs_inode s q)"
  by (auto simp: fs_inode_def get_put_node split: node.splits)

lemma inode_del_node: "fs_inode (del_node p s) q = (if q = p then None else fs_inode s q)"
  by (simp add: fs_inode_def get_del_node)

lemma data_nodes [simp]:
  "file_data (put_node p n s) = file_data s" "file_data (del_node p s) = file_data s"
  "file_data (s\<lparr>fs_faults := fr\<rparr>) = file_data s"
  "fs_next (put_node p n s) = fs_next s" "fs_next (del_node p s) = fs_next s"
  by (simp_all add: fun_eq_iff file_data_def put_node_def del_node_def)

lemma content_put_node:
  "fs_content (put_node p n s) q =
     (if q = p then (case n of Reg i \<Rightarrow> Some (file_data s i) | _ \<Rightarrow> None) else fs_content s q)"
  by (simp add: fs_content_def inode_put_node split: node.splits)

lemma content_del_node: "fs_content (del_node p s) q = (if q = p then None else fs_content s q)"
  by (simp add: fs_content_def inode_del_node)

lemma faults_upd [simp]:
  "fs_get (s\<lparr>fs_faults := fr\<rparr>) = fs_get s" "fs_inode (s\<lparr>fs_faults := fr\<rparr>) = fs_inode s"
  "fs_content (s\<lparr>fs_faults := fr\<rparr>) = fs_content s" "is_reg (s\<lparr>fs_faults := fr\<rparr>) = is_reg s"
  "is_dir (s\<lparr>fs_faults := fr\<rparr>) = is_dir s" "parent_ok (s\<lparr>fs_faults := fr\<rparr>) = parent_ok s"
  "fs_entries (s\<lparr>fs_faults := fr\<rparr>) = fs_entries s"
  by (auto intro: same_tree_get)

text \<open>An injected call either fails and keeps the tree, or is the call on the same tree.\<close>

lemma injected_cases:
  assumes "injected call s = (r, s')"
  obtains (fault) e where "r = Some e" "same_tree s s'"
  | (run) s0 where "same_tree s s0" "call s0 = (r, s')"
proof (cases "fs_faults s")
  case Nil
  with assms have "call s = (r, s')" by (simp add: injected_def)
  then show thesis by (rule run [OF same_tree_refl])
next
  case (Cons f fr)
  show thesis
  proof (cases f)
    case None
    with Cons assms have "call (s\<lparr>fs_faults := fr\<rparr>) = (r, s')" by (simp add: injected_def)
    then show thesis by (rule run [rotated]) simp
  next
    case (Some e)
    with Cons assms have "r = Some e" "s' = s\<lparr>fs_faults := fr\<rparr>" by (simp_all add: injected_def)
    then show thesis using fault [of e] by simp
  qed
qed

lemma sys_mkdir_cases:
  assumes "sys_mkdir p s = (r, s')"
  obtains (fail) e where "r = Some e" "same_tree s s'"
  | (ok) s0 where "r = None" "same_tree s s0" "fs_get s p = None" "s' = put_node p Dir s0"
using assms [unfolded sys_mkdir_def]
proof (cases rule: injected_cases)
  case (fault e)
  then show thesis by (rule fail)
next
  case (run s0)
  then have "(\<exists>e. r = Some e \<and> same_tree s s') \<or> (\<exists>s0. r = None \<and> same_tree s s0 \<and> fs_get s p = None \<and> s' = put_node p Dir s0)"
    by (auto simp: same_tree_get is_dir_def split: if_splits)
  with fail ok show thesis by metis
qed

lemma sys_link_cases:
  assumes "sys_link old new s = (r, s')"
  obtains (fail) e where "r = Some e" "same_tree s s'"
  | (ok) s0 n where "r = None" "same_tree s s0" "fs_get s old = Some n" "n \<noteq> Dir"
      "fs_get s new = None" "s' = put_node new n s0"
using assms [unfolded sys_link_def]
proof (cases rule: injected_cases)
  case (fault e)
  then show thesis by (rule fail)
next
  case (run s0)
  then have "(\<exists>e. r = Some e \<and> same_tree s s') \<or> (\<exists>s0 n. r = None \<and> same_tree s s0 \<and> fs_get s old = Some n \<and> n \<noteq> Dir \<and> fs_get s new = None \<and> s' = put_node new n s0)"
    by (auto simp: same_tree_get is_dir_def split: if_splits option.splits node.splits)
  with fail ok show thesis by metis
qed

lemma sys_unlink_cases:
  assumes "sys_unlink p s = (r, s')"
  obtains (fail) e where "r = Some e" "same_tree s s'"
  | (ok) s0 n where "r = None" "same_tree s s0" "fs_get s p = Some n" "n \<noteq> Dir" "s' = del_node p s0"
using assms [unfolded sys_unlink_def]
proof (cases rule: injected_cases)
  case (fault e)
  then show thesis by (rule fail)
next
  case (run s0)
  then have "(\<exists>e. r = Some e \<and> same_tree s s') \<or> (\<exists>s0 n. r = None \<and> same_tree s s0 \<and> fs_get s p = Some n \<and> n \<noteq> Dir \<and> s' = del_node p s0)"
    by (auto simp: same_tree_get is_dir_def split: if_splits option.splits node.splits)
  with fail ok show thesis by metis
qed

lemma sys_rename_cases:
  assumes "sys_rename old new s = (r, s')"
  obtains (fail) e where "r = Some e" "same_tree s s'"
  | (same) n where "r = None" "same_tree s s'" "fs_get s old = Some n" "n \<noteq> Dir" "fs_get s new = Some n"
  | (ok) s0 n where "r = None" "same_tree s s0" "fs_get s old = Some n" "n \<noteq> Dir" "old \<noteq> new"
      "s' = del_node old (put_node new n s0)"
using assms [unfolded sys_rename_def]
proof (cases rule: injected_cases)
  case (fault e)
  then show thesis by (rule fail)
next
  case (run s0)
  then have "(\<exists>e. r = Some e \<and> same_tree s s') \<or> (\<exists>n. r = None \<and> same_tree s s' \<and> fs_get s old = Some n \<and> n \<noteq> Dir \<and> fs_get s new = Some n) \<or> (\<exists>s0 n. r = None \<and> same_tree s s0 \<and> fs_get s old = Some n \<and> n \<noteq> Dir \<and> old \<noteq> new \<and> s' = del_node old (put_node new n s0))"
    by (auto simp: same_tree_get is_dir_def split: if_splits option.splits node.splits)
  with fail same ok show thesis by metis
qed

lemma sys_rmdir_cases:
  assumes "sys_rmdir p s = (r, s')"
  obtains (fail) e where "r = Some e" "same_tree s s'"
  | (ok) s0 where "r = None" "same_tree s s0" "fs_get s p = Some Dir" "fs_entries s p = []"
      "s' = del_node p s0"
using assms [unfolded sys_rmdir_def]
proof (cases rule: injected_cases)
  case (fault e)
  then show thesis by (rule fail)
next
  case (run s0)
  then have "(\<exists>e. r = Some e \<and> same_tree s s') \<or> (\<exists>s0. r = None \<and> same_tree s s0 \<and> fs_get s p = Some Dir \<and> fs_entries s p = [] \<and> s' = del_node p s0)"
    by (auto simp: same_tree_get is_dir_def split: if_splits)
  with fail ok show thesis by metis
qed

text \<open>Making directories never takes a file away or changes one.\<close>

definition files_kept :: "fs \<Rightarrow> fs \<Rightarrow> bool" where
  "files_kept s s' \<longleftrightarrow> (\<forall>p i. fs_inode s p = Some i \<longrightarrow>
     fs_inode s' p = Some i \<and> fs_content s' p = fs_content s p) \<and> fs_next s \<le> fs_next s'"

lemma files_kept_refl [simp]: "files_kept s s"
  by (simp add: files_kept_def)

lemma files_kept_trans: "files_kept s s' \<Longrightarrow> files_kept s' s'' \<Longrightarrow> files_kept s s''"
  by (fastforce simp: files_kept_def)

lemma same_tree_files: "same_tree s s' \<Longrightarrow> files_kept s s'"
  by (simp add: files_kept_def same_tree_get) (simp add: same_tree_def)

lemma sys_mkdir_files:
  assumes "sys_mkdir p s = (r, s')"
  shows "files_kept s s' \<and> (\<forall>q. fs_inode s' q = fs_inode s q)"
  using assms
proof (cases rule: sys_mkdir_cases)
  case (fail e)
  then show ?thesis by (simp add: same_tree_files same_tree_get)
next
  case (ok s0)
  then have "fs_inode s0 p = None" by (simp add: fs_inode_def same_tree_get)
  with ok show ?thesis
    by (auto simp: files_kept_def inode_put_node content_put_node same_tree_get)
      (simp add: put_node_def same_tree_def)
qed

lemma mkdir_each_files:
  "mkdir_each ps s = (r, s') \<Longrightarrow> files_kept s s' \<and> (\<forall>q. fs_inode s' q = fs_inode s q)"
proof (induction ps arbitrary: s)
  case (Cons p ps)
  obtain x s1 where m: "sys_mkdir p s = (x, s1)" by fastforce
  from sys_mkdir_files [OF m] Cons m show ?case
    by (auto split: option.splits if_splits dest: files_kept_trans)
qed simp

lemma paths_mkdir_p_files:
  "paths_mkdir_p d s = (r, s') \<Longrightarrow> files_kept s s' \<and> (\<forall>q. fs_inode s' q = fs_inode s q)"
  by (auto simp: paths_mkdir_p_def mkdir_each_files split: if_splits)

lemma mkparents_files:
  "mkparents p s = (r, s') \<Longrightarrow> files_kept s s' \<and> (\<forall>q. fs_inode s' q = fs_inode s q)"
  by (auto simp: mkparents_def paths_mkdir_p_files split: option.splits prod.splits if_splits)

lemma wf_inode_same: "fs_wf s \<Longrightarrow> (\<forall>q. fs_inode s' q = fs_inode s q) \<Longrightarrow> fs_next s \<le> fs_next s' \<Longrightarrow> fs_wf s'"
  by (auto simp: fs_wf_def intro: less_le_trans)

end
