(* ===== verification/Float64.thy ===== *)
theory Float64
  imports Prelude "HOL-Library.Log_Nat"
begin

text \<open>
  The double arithmetic the daemon uses (\<open>cap_bytes * effective_ratio\<close>, \<open>size * (1 \<plusminus> h)\<close>):
  IEEE 754 binary64, round to nearest, ties to even, on the numbers of the normal range. A
  double is the rational it stands for; every operation is the exact one followed by \<open>rnd\<close>.
  Overflow to infinity and subnormal numbers are outside the model (the operands are byte
  counts and ratios between 1e-9 and 1e9).
\<close>

type_synonym double = rat

text \<open>A double that may also be a NaN or an infinity (\<open>FInf True\<close> is the negative one).\<close>

datatype fp = FNaN | FInf bool | Fin double

section \<open>Rounding\<close>

text \<open>Round half to even.\<close>

definition rhe :: "rat \<Rightarrow> int" where
  "rhe x = (let n = \<lfloor>x\<rfloor>; r = x - of_int n
            in if r < 1 / 2 then n else if r > 1 / 2 then n + 1 else if even n then n else n + 1)"

definition pow2 :: "int \<Rightarrow> rat" where
  "pow2 e = (if 0 \<le> e then 2 ^ nat e else 1 / 2 ^ nat (- e))"

text \<open>The exponent of a positive rational: \<open>2^52 <= x / 2^e < 2^53\<close>.\<close>

definition expo :: "rat \<Rightarrow> int" where
  "expo x = (case quotient_of x of (n, d) \<Rightarrow>
     let e = bitlen n - bitlen d - 53
     in if x / pow2 e < 2 ^ 53 then e else e + 1)"

definition rnd :: "rat \<Rightarrow> double" where
  "rnd x = (if x = 0 then 0
     else if 0 < x then of_int (rhe (x / pow2 (expo x))) * pow2 (expo x)
     else - (of_int (rhe (- x / pow2 (expo (- x)))) * pow2 (expo (- x))))"

definition dmul :: "double \<Rightarrow> double \<Rightarrow> double" where "dmul a b = rnd (a * b)"
definition dadd :: "double \<Rightarrow> double \<Rightarrow> double" where "dadd a b = rnd (a + b)"
definition dsub :: "double \<Rightarrow> double \<Rightarrow> double" where "dsub a b = rnd (a - b)"
definition ddiv :: "double \<Rightarrow> double \<Rightarrow> double" where "ddiv a b = rnd (a / b)"

text \<open>The conversions \<open>(double) n\<close> and \<open>(long long) x\<close>.\<close>

definition of_ll :: "int \<Rightarrow> double" where "of_ll n = rnd (of_int n)"

definition to_ll :: "double \<Rightarrow> int" where
  "to_ll x = (if 0 \<le> x then \<lfloor>x\<rfloor> else - \<lfloor>- x\<rfloor>)"

section \<open>Half-even rounding\<close>

lemma rhe_of_int [simp]: "rhe (of_int n) = n"
  by (simp add: rhe_def)

lemma rhe_bounds: "\<lfloor>x\<rfloor> \<le> rhe x \<and> rhe x \<le> \<lfloor>x\<rfloor> + 1"
  by (simp add: rhe_def Let_def)

lemma rhe_mono: assumes "x \<le> y" shows "rhe x \<le> rhe y"
proof (cases "\<lfloor>x\<rfloor> = \<lfloor>y\<rfloor>")
  case True
  with assms show ?thesis by (auto simp: rhe_def Let_def)
next
  case False
  with assms have "\<lfloor>x\<rfloor> + 1 \<le> \<lfloor>y\<rfloor>" using floor_mono [OF assms] by linarith
  with rhe_bounds [of x] rhe_bounds [of y] show ?thesis by linarith
qed

lemma rhe_le: "x \<le> of_int n \<Longrightarrow> rhe x \<le> n"
  using rhe_mono [of x "of_int n"] by simp

lemma rhe_ge: "of_int n \<le> x \<Longrightarrow> n \<le> rhe x"
  using rhe_mono [of "of_int n" x] by simp

section \<open>Powers of two\<close>

lemma pow2_pos [simp]: "0 < pow2 e"
  by (simp add: pow2_def)

lemma pow2_nat: "pow2 (int n) = 2 ^ n"
  by (simp add: pow2_def)

lemma pow2_Suc: "pow2 (e + 1) = 2 * pow2 e"
proof (cases "0 \<le> e")
  case True
  then have "nat (e + 1) = Suc (nat e)" by simp
  with True show ?thesis by (simp add: pow2_def)
next
  case False
  then have "nat (- e) = Suc (nat (- (e + 1)))" by simp
  with False show ?thesis by (cases "e + 1 = 0") (simp_all add: pow2_def)
qed

lemma pow2_nz [simp]: "pow2 e \<noteq> 0"
  using pow2_pos [of e] by linarith

lemma pow2_add_nat: "pow2 (e + int n) = 2 ^ n * pow2 e"
proof (induction n)
  case (Suc n)
  have "pow2 (e + int (Suc n)) = pow2 (e + int n + 1)" by (simp add: ac_simps)
  with Suc show ?case by (simp add: pow2_Suc)
qed simp

lemma pow2_mono: "e \<le> f \<Longrightarrow> pow2 e \<le> pow2 f"
proof -
  assume "e \<le> f"
  then have "f = e + int (nat (f - e))" by simp
  then have "pow2 f = 2 ^ nat (f - e) * pow2 e" using pow2_add_nat by metis
  moreover have "(1::rat) * pow2 e \<le> 2 ^ nat (f - e) * pow2 e" by (rule mult_right_mono) (simp_all add: less_imp_le)
  ultimately show ?thesis by simp
qed

lemma pow2_minus: "pow2 (a - b) = pow2 a / pow2 b"
proof (cases "b \<le> a")
  case True
  then have "pow2 a = 2 ^ nat (a - b) * pow2 b" using pow2_add_nat [of b "nat (a - b)"] by simp
  with True show ?thesis by (simp add: pow2_def [of "a - b"])
next
  case False
  then have "pow2 b = 2 ^ nat (b - a) * pow2 a" using pow2_add_nat [of a "nat (b - a)"] by simp
  with False show ?thesis by (simp add: pow2_def [of "a - b"] field_simps)
qed

section \<open>The exponent\<close>

lemma bitlen_pow2:
  assumes "0 < n" shows "pow2 (bitlen n - 1) \<le> of_int n" "of_int n < pow2 (bitlen n)"
proof -
  have b: "0 < bitlen n" by (rule ccontr) (use bitlen_bounds [OF assms] assms in simp)
  have "2 ^ nat (bitlen n - 1) \<le> n" "n < 2 ^ nat (bitlen n)" using bitlen_bounds [OF assms] by auto
  then have "(of_int (2 ^ nat (bitlen n - 1)) :: rat) \<le> of_int n" "(of_int n :: rat) < of_int (2 ^ nat (bitlen n))"
    by (simp_all only: of_int_le_iff of_int_less_iff)
  with b show "pow2 (bitlen n - 1) \<le> of_int n" "of_int n < pow2 (bitlen n)" by (simp_all add: pow2_def)
qed

lemma expo_bounds:
  assumes "0 < x"
  shows "2 ^ 52 * pow2 (expo x) \<le> x" "x < 2 ^ 53 * pow2 (expo x)"
proof -
  obtain n d where q: "quotient_of x = (n, d)" by fastforce
  have d: "0 < d" and x: "x = of_int n / of_int d"
    using quotient_of_denom_pos [OF q] quotient_of_div [OF q] by auto
  with assms have n: "0 < n" by (simp add: zero_less_divide_iff)
  define e where "e = bitlen n - bitlen d - 53"
  have "pow2 (bitlen n - 1) / pow2 (bitlen d) \<le> x"
    unfolding x using bitlen_pow2 [OF n] bitlen_pow2 [OF d] d n
    by (intro frac_le) (simp_all add: less_imp_le)
  moreover have "pow2 (bitlen n - 1) / pow2 (bitlen d) = pow2 (e + int 52)"
    by (simp flip: pow2_minus add: algebra_simps e_def)
  ultimately have lo: "2 ^ 52 * pow2 e \<le> x" by (simp only: pow2_add_nat)
  have "x < pow2 (bitlen n) / pow2 (bitlen d - 1)"
    unfolding x using bitlen_pow2 [OF n] bitlen_pow2 [OF d] d n
    by (intro frac_less) (simp_all add: less_imp_le)
  moreover have "pow2 (bitlen n) / pow2 (bitlen d - 1) = pow2 (e + int 54)"
    by (simp flip: pow2_minus add: algebra_simps e_def)
  ultimately have hi: "x < 2 ^ 54 * pow2 e" by (simp only: pow2_add_nat)
  show "2 ^ 52 * pow2 (expo x) \<le> x" "x < 2 ^ 53 * pow2 (expo x)"
    using lo hi by (auto simp: expo_def q Let_def pow2_Suc pos_divide_less_eq not_less pos_le_divide_eq
        simp flip: e_def)
qed

lemma expo_mono: assumes "0 < x" "x \<le> y" shows "expo x \<le> expo y"
proof (rule ccontr)
  assume "\<not> ?thesis"
  then have "pow2 (expo y + 1) \<le> pow2 (expo x)" by (intro pow2_mono) simp
  then have "2 ^ 53 * pow2 (expo y) \<le> 2 ^ 52 * pow2 (expo x)" by (simp add: pow2_Suc)
  with expo_bounds [OF assms(1)] expo_bounds(2) [of y] assms show False by simp
qed

lemma expo_unique:
  assumes "2 ^ 52 * pow2 e \<le> x" "x < 2 ^ 53 * pow2 e" shows "expo x = e"
proof -
  have x: "0 < x" using assms(1) pow2_pos [of e] by (meson less_le_trans mult_pos_pos zero_less_numeral zero_less_power)
  have aux: "a \<le> b" if "2 ^ 52 * pow2 a \<le> x" "x < 2 ^ 53 * pow2 b" for a b
  proof (rule ccontr)
    assume "\<not> a \<le> b"
    then have "pow2 (b + 1) \<le> pow2 a" by (intro pow2_mono) simp
    with that show False by (simp add: pow2_Suc)
  qed
  show ?thesis using aux assms expo_bounds [OF x] by (meson antisym)
qed

section \<open>Rounding is monotone, odd, and exact on small integers\<close>

lemma rnd_pos: "0 < x \<Longrightarrow> rnd x = of_int (rhe (x / pow2 (expo x))) * pow2 (expo x)"
  by (simp add: rnd_def)

lemma rnd_0 [simp]: "rnd 0 = 0"
  by (simp add: rnd_def)

lemma rnd_minus: "rnd (- x) = - rnd x"
  by (auto simp: rnd_def)

lemma rnd_bounds:
  assumes "0 < x" shows "2 ^ 52 * pow2 (expo x) \<le> rnd x" "rnd x \<le> 2 ^ 53 * pow2 (expo x)"
proof -
  have "of_int (2 ^ 52) \<le> x / pow2 (expo x)" "x / pow2 (expo x) \<le> of_int (2 ^ 53)"
    using expo_bounds [OF assms] by (simp_all add: pos_le_divide_eq pos_divide_le_eq)
  then have "2 ^ 52 \<le> rhe (x / pow2 (expo x))" "rhe (x / pow2 (expo x)) \<le> 2 ^ 53"
    using rhe_ge rhe_le by blast+
  then have "(of_int (2 ^ 52) :: rat) \<le> of_int (rhe (x / pow2 (expo x)))"
    "(of_int (rhe (x / pow2 (expo x))) :: rat) \<le> of_int (2 ^ 53)" by (simp_all only: of_int_le_iff)
  then show "2 ^ 52 * pow2 (expo x) \<le> rnd x" "rnd x \<le> 2 ^ 53 * pow2 (expo x)"
    unfolding rnd_pos [OF assms] by (simp_all add: mult_right_mono less_imp_le)
qed

lemma rnd_nonneg: "0 \<le> x \<Longrightarrow> 0 \<le> rnd x"
  using rnd_bounds(1) [of x] pow2_pos [of "expo x"]
  by (cases "x = 0") (auto intro: order_trans [rotated] simp: less_imp_le)

lemma rnd_mono_pos:
  assumes "0 < x" "x \<le> y" shows "rnd x \<le> rnd y"
proof (cases "expo x = expo y")
  case True
  have "x / pow2 (expo x) \<le> y / pow2 (expo x)" using assms(2) by (simp add: divide_right_mono less_imp_le)
  then have "(of_int (rhe (x / pow2 (expo x))) :: rat) \<le> of_int (rhe (y / pow2 (expo x)))"
    using rhe_mono by simp
  then show ?thesis using assms True by (simp add: rnd_pos mult_right_mono less_imp_le)
next
  case False
  with expo_mono [OF assms] have "pow2 (expo x + 1) \<le> pow2 (expo y)" by (intro pow2_mono) simp
  then have "2 ^ 53 * pow2 (expo x) \<le> 2 ^ 52 * pow2 (expo y)" by (simp add: pow2_Suc)
  with rnd_bounds(2) [OF assms(1)] rnd_bounds(1) [of y] assms show ?thesis by simp
qed

lemma rnd_mono: assumes "x \<le> y" shows "rnd x \<le> rnd y"
proof -
  consider "0 < x" | "x \<le> 0" "0 \<le> y" | "y < 0" by linarith
  then show ?thesis
  proof cases
    case 1
    with assms show ?thesis using rnd_mono_pos by blast
  next
    case 2
    then have "0 \<le> rnd y" "0 \<le> - rnd x"
      using rnd_nonneg [of y] rnd_nonneg [of "- x"] by (simp_all add: rnd_minus)
    then show ?thesis by linarith
  next
    case 3
    then show ?thesis using rnd_mono_pos [of "- y" "- x"] assms by (simp add: rnd_minus)
  qed
qed

lemma rnd_pos_int:
  assumes "0 < n" "n \<le> 2 ^ 53" shows "rnd (of_int n) = of_int n"
proof -
  let ?x = "of_int n :: rat" and ?e = "expo (of_int n)"
  have x: "0 < ?x" "?x \<le> 2 ^ 53" using assms by simp_all
  show ?thesis
  proof (cases "?e \<le> 0")
    case True
    then have "?x / pow2 ?e = of_int (n * 2 ^ nat (- ?e))" by (cases "?e = 0") (auto simp: pow2_def)
    then have "of_int (rhe (?x / pow2 ?e)) = ?x / pow2 ?e" by (metis rhe_of_int)
    then show ?thesis using x by (simp add: rnd_pos)
  next
    case False
    then have "pow2 1 \<le> pow2 ?e" by (intro pow2_mono) simp
    then have "2 ^ 53 \<le> 2 ^ 52 * pow2 ?e" by (simp add: pow2_def)
    with expo_bounds(1) [OF x(1)] x have eq: "?x = 2 ^ 53" "2 ^ 52 * pow2 ?e \<le> 2 ^ 53" by linarith+
    then have "pow2 ?e = 2" using \<open>pow2 1 \<le> pow2 ?e\<close> by (simp add: pow2_def [of 1])
    moreover have "rhe (2 ^ 53 / 2) = 2 ^ 52" using rhe_of_int [of "2 ^ 52"] by simp
    ultimately show ?thesis using eq x by (simp add: rnd_pos)
  qed
qed

lemma rnd_int: "\<bar>n\<bar> \<le> 2 ^ 53 \<Longrightarrow> rnd (of_int n) = of_int n"
  using rnd_pos_int [of n] rnd_pos_int [of "- n"] by (cases "0 < n"; cases "n = 0") (auto simp: rnd_minus)

lemma of_ll_exact: "\<bar>n\<bar> \<le> 2 ^ 53 \<Longrightarrow> of_ll n = of_int n"
  by (simp add: of_ll_def rnd_int)

lemma rnd_1 [simp]: "rnd 1 = 1"
  using rnd_int [of 1] by simp

lemma to_ll_of_int [simp]: "to_ll (of_int n) = n"
  by (auto simp: to_ll_def simp flip: of_int_minus)

lemma to_ll_mono: "x \<le> y \<Longrightarrow> to_ll x \<le> to_ll y"
proof -
  assume le: "x \<le> y"
  consider "0 \<le> x" | "x < 0" "0 \<le> y" | "y < 0" by linarith
  then show ?thesis
  proof cases
    case 2
    then have "0 \<le> \<lfloor>- x\<rfloor>" "0 \<le> \<lfloor>y\<rfloor>" by simp_all
    then have "- \<lfloor>- x\<rfloor> \<le> \<lfloor>y\<rfloor>" by linarith
    with 2 show ?thesis by (simp only: to_ll_def not_le if_False if_True) simp
  qed (use le in \<open>auto simp: to_ll_def floor_mono\<close>)
qed

end
