(* ===== verification/Database.thy ===== *)
theory Database
  imports Fs Float64
begin

text \<open>
  The daemon's SQLite database after the migrations of \<open>schema/\<close>: one row type per table, the
  tables as lists of rows, the constraints the schema declares (\<open>PRIMARY KEY\<close>, \<open>UNIQUE\<close>,
  \<open>FOREIGN KEY ... ON DELETE CASCADE\<close>) and the \<open>AFTER DELETE\<close> trigger of schema v8. The
  handle and transactions of \<open>db.c\<close>.

  A write statement consumes one entry of the schedule \<open>w_sql\<close>: \<open>True\<close> makes it fail (disk
  full, busy, I/O error) and leave the database as it was.
\<close>

section \<open>Rows\<close>

record track =
  t_sha :: sha
  t_path :: path
  t_mtime_ns :: int
  t_size :: int
  t_format :: "string option"
  t_title :: "string option"
  t_artist :: "string option"
  t_album :: "string option"
  t_album_artist :: "string option"
  t_track_number :: "string option"
  t_disc_number :: "string option"
  t_year :: "string option"
  t_genre :: "string option"
  t_duration_ms :: "int option"
  t_tags_status :: string
  t_tag_warning :: "string option"
  t_date_added :: string
  t_last_seen :: string

record play =
  pl_id :: nat
  pl_sha :: sha
  pl_played_at :: string
  pl_played_ms :: int
  pl_skip :: bool
  pl_src :: string
  pl_ts :: int
  pl_kind :: string
  pl_source :: string

record like =
  lk_unit :: string
  lk_id :: string
  lk_liked :: bool
  lk_ts :: int

record pin =
  pn_unit :: string
  pn_id :: string
  pn_pinned :: bool
  pn_updated :: string
  pn_ts :: int

record manifest_row =
  mf_sha :: sha
  mf_buckets :: string
  mf_size :: int

datatype location = Resident | Archive

record residency =
  rs_sha :: sha
  rs_loc :: location
  rs_updated :: string
  rs_tpath :: "path option"
  rs_tsize :: "int option"
  rs_tformat :: "string option"
  rs_gain :: "fp option"
  rs_lufs :: "fp option"

record offset_row =
  of_path :: string
  of_offset :: int
  of_last_ts :: int
  of_updated :: int

record unsync =
  us_sha :: sha
  us_until :: "string option"
  us_added :: string

record blacklist =
  bl_sha :: sha
  bl_reason :: string
  bl_added :: string

record pick =
  pk_sha :: sha
  pk_week :: string
  pk_reason :: string
  pk_at :: string

record scan_meta_row =
  sm_root :: path
  sm_last :: string
  sm_seen :: nat
  sm_added :: nat
  sm_updated :: nat
  sm_removed :: nat

record db =
  tracks :: "track list"
  plays :: "play list"
  play_seq :: nat
  likes :: "like list"
  pins :: "pin list"
  manifest_current :: "manifest_row list"
  manifest_meta :: "(string \<times> string) list"
  residency_state :: "residency list"
  ingest_offsets :: "offset_row list"
  unsync_overrides :: "unsync list"
  track_blacklist :: "blacklist list"
  discovery_picks :: "pick list"
  scan_meta :: "scan_meta_row list"

abbreviation pin_key :: "pin \<Rightarrow> string \<times> string" where "pin_key r \<equiv> (pn_unit r, pn_id r)"
abbreviation like_key :: "like \<Rightarrow> string \<times> string" where "like_key r \<equiv> (lk_unit r, lk_id r)"
abbreviation pick_key :: "pick \<Rightarrow> sha \<times> string" where "pick_key r \<equiv> (pk_sha r, pk_week r)"

definition empty_db :: db where
  "empty_db = \<lparr>tracks = [], plays = [], play_seq = 0, likes = [], pins = [], manifest_current = [],
     manifest_meta = [], residency_state = [], ingest_offsets = [], unsync_overrides = [],
     track_blacklist = [], discovery_picks = [], scan_meta = []\<rparr>"

section \<open>The schema's constraints\<close>

definition track_shas :: "db \<Rightarrow> sha set" where
  "track_shas d = t_sha ` set (tracks d)"

definition db_ok :: "db \<Rightarrow> bool" where
  "db_ok d \<longleftrightarrow>
     distinct (map t_sha (tracks d)) \<and> distinct (map t_path (tracks d)) \<and>
     distinct (map like_key (likes d)) \<and> distinct (map pin_key (pins d)) \<and>
     distinct (map mf_sha (manifest_current d)) \<and> distinct (map rs_sha (residency_state d)) \<and>
     distinct (map of_path (ingest_offsets d)) \<and> distinct (map us_sha (unsync_overrides d)) \<and>
     distinct (map bl_sha (track_blacklist d)) \<and> distinct (map pick_key (discovery_picks d)) \<and>
     distinct (map sm_root (scan_meta d)) \<and>
     distinct (map pl_id (plays d)) \<and> (\<forall>p\<in>set (plays d). pl_id p \<le> play_seq d) \<and>
     pl_sha ` set (plays d) \<subseteq> track_shas d \<and> mf_sha ` set (manifest_current d) \<subseteq> track_shas d \<and>
     rs_sha ` set (residency_state d) \<subseteq> track_shas d \<and>
     pk_sha ` set (discovery_picks d) \<subseteq> track_shas d"

text \<open>
  \<open>DELETE FROM tracks WHERE P\<close>: the foreign keys cascade to plays, manifest, residency and
  picks; the trigger \<open>trg_tracks_after_delete_cleanup\<close> runs for each deleted row.
\<close>

definition delete_tracks :: "(track \<Rightarrow> bool) \<Rightarrow> db \<Rightarrow> db" where
  "delete_tracks P d =
     (let gone = map t_sha (filter P (tracks d));
          stays = (\<lambda>s. s \<notin> set gone)
      in d\<lparr>tracks := filter (\<lambda>t. \<not> P t) (tracks d),
           plays := filter (\<lambda>r. stays (pl_sha r)) (plays d),
           manifest_current := filter (\<lambda>r. stays (mf_sha r)) (manifest_current d),
           residency_state := filter (\<lambda>r. stays (rs_sha r)) (residency_state d),
           discovery_picks := filter (\<lambda>r. stays (pk_sha r)) (discovery_picks d),
           pins := filter (\<lambda>r. \<not> (pn_unit r = ''track'' \<and> \<not> stays (pn_id r))) (pins d),
           likes := filter (\<lambda>r. \<not> (lk_unit r = ''track'' \<and> \<not> stays (lk_id r))) (likes d),
           unsync_overrides := filter (\<lambda>r. stays (us_sha r)) (unsync_overrides d)\<rparr>)"

text \<open>The upsert of one \<open>manifest_meta\<close> row.\<close>

definition set_meta :: "string \<Rightarrow> string \<Rightarrow> db \<Rightarrow> db" where
  "set_meta k v d = d\<lparr>manifest_meta := upsert fst (\<lambda>old new. new) (k, v) (manifest_meta d)\<rparr>"

definition find_track :: "sha \<Rightarrow> db \<Rightarrow> track option" where
  "find_track h d = find_row t_sha h (tracks d)"

definition find_residency :: "sha \<Rightarrow> db \<Rightarrow> residency option" where
  "find_residency h d = find_row rs_sha h (residency_state d)"

definition is_blacklisted :: "sha \<Rightarrow> db \<Rightarrow> bool" where
  "is_blacklisted h d \<longleftrightarrow> h \<in> bl_sha ` set (track_blacklist d)"

text \<open>\<open>SELECT path FROM tracks WHERE sha256=?\<close>, and the transcode path.\<close>

definition lookup_track_path :: "db \<Rightarrow> sha \<Rightarrow> path option" where
  "lookup_track_path d h = map_option t_path (find_track h d)"

definition lookup_transcode_path :: "db \<Rightarrow> sha \<Rightarrow> path option" where
  "lookup_transcode_path d h = Option.bind (find_residency h d) rs_tpath"

section \<open>The connection: statements that may fail, transactions\<close>

record world =
  w_db :: db
  w_fs :: fs
  w_sql :: "bool list"
  w_txn :: "db option"

text \<open>The update is \<open>None\<close> where it would violate a constraint.\<close>

definition sql_exec :: "(db \<Rightarrow> db option) \<Rightarrow> world \<Rightarrow> bool \<times> world" where
  "sql_exec f w = (case w_sql w of
     True # q \<Rightarrow> (False, w\<lparr>w_sql := q\<rparr>)
   | q \<Rightarrow> (case f (w_db w) of
       None \<Rightarrow> (False, w\<lparr>w_sql := tl q\<rparr>)
     | Some d \<Rightarrow> (True, w\<lparr>w_db := d, w_sql := tl q\<rparr>)))"

definition sql_write :: "(db \<Rightarrow> db) \<Rightarrow> world \<Rightarrow> bool \<times> world" where
  "sql_write f = sql_exec (\<lambda>d. Some (f d))"

text \<open>
  \<open>db_begin\<close>, \<open>db_commit\<close> and \<open>db_rollback\<close>. An open transaction remembers the database it
  started from (\<open>w_txn\<close>); a second \<open>BEGIN\<close> fails, a \<open>COMMIT\<close> that fails leaves it open. A
  rollback cannot restore the file system.
\<close>

definition db_begin :: "world \<Rightarrow> bool \<times> world" where
  "db_begin w = (if w_txn w \<noteq> None then (False, w)
     else case sql_write id w of
       (True, w') \<Rightarrow> (True, w'\<lparr>w_txn := Some (w_db w)\<rparr>)
     | (False, w') \<Rightarrow> (False, w'))"

definition db_commit :: "world \<Rightarrow> bool \<times> world" where
  "db_commit w = (case sql_write id w of
       (True, w') \<Rightarrow> (True, w'\<lparr>w_txn := None\<rparr>)
     | (False, w') \<Rightarrow> (False, w'))"

definition db_rollback :: "world \<Rightarrow> world" where
  "db_rollback w = (case w_txn w of None \<Rightarrow> w | Some d \<Rightarrow> w\<lparr>w_db := d, w_txn := None\<rparr>)"

text \<open>What the database file holds: what a crash, or another connection, would see.\<close>

definition durable :: "world \<Rightarrow> db" where
  "durable w = (case w_txn w of None \<Rightarrow> w_db w | Some d \<Rightarrow> d)"

text \<open>
  \<open>SAVEPOINT\<close> and \<open>RELEASE\<close>: outside a transaction the savepoint opens one and its release
  commits it. The result of the release is not looked at.
\<close>

definition savepoint :: "world \<Rightarrow> bool \<times> world" where
  "savepoint w = (if w_txn w \<noteq> None then sql_write id w else db_begin w)"

definition rollback_to :: "db \<Rightarrow> world \<Rightarrow> world" where
  "rollback_to d w = w\<lparr>w_db := d\<rparr>"

definition release :: "bool \<Rightarrow> world \<Rightarrow> world" where
  "release nested w = (if nested then w else snd (db_commit w))"

section \<open>Facts about the constraints\<close>

lemma sql_exec_cases:
  assumes "sql_exec f w = (b, w')"
  obtains (ok) q d where "b" "f (w_db w) = Some d" "w' = w\<lparr>w_db := d, w_sql := q\<rparr>"
  | (fail) q where "\<not> b" "w' = w\<lparr>w_sql := q\<rparr>"
proof -
  have "(\<exists>q d. b \<and> f (w_db w) = Some d \<and> w' = w\<lparr>w_db := d, w_sql := q\<rparr>) \<or>
    (\<exists>q. \<not> b \<and> w' = w\<lparr>w_sql := q\<rparr>)"
    using assms by (auto simp: sql_exec_def split: list.splits bool.splits option.splits)
  with ok fail show thesis by blast
qed

lemma sql_write_cases:
  assumes "sql_write f w = (b, w')"
  obtains (ok) q where "b" "w' = w\<lparr>w_db := f (w_db w), w_sql := q\<rparr>"
  | (fail) q where "\<not> b" "w' = w\<lparr>w_sql := q\<rparr>"
  using assms unfolding sql_write_def by (elim sql_exec_cases) auto

lemma sql_exec_fs: "sql_exec f w = (b, w') \<Longrightarrow> w_fs w' = w_fs w \<and> w_txn w' = w_txn w"
  by (elim sql_exec_cases) auto

lemma sql_exec_quiet: "w_sql w = [] \<Longrightarrow> sql_exec f w = (case f (w_db w) of None \<Rightarrow> (False, w)
    | Some d \<Rightarrow> (True, w\<lparr>w_db := d\<rparr>))"
  by (auto simp: sql_exec_def split: option.splits)

lemma sql_write_quiet: "w_sql w = [] \<Longrightarrow> sql_write f w = (True, w\<lparr>w_db := f (w_db w)\<rparr>)"
  by (simp add: sql_write_def sql_exec_quiet)

lemma sql_write_fs: "sql_write f w = (b, w') \<Longrightarrow> w_fs w' = w_fs w \<and> w_txn w' = w_txn w"
  by (elim sql_write_cases) auto

lemma sql_write_inv: "sql_write f w = (b, w') \<Longrightarrow> P (w_db w) \<Longrightarrow> P (f (w_db w)) \<Longrightarrow> P (w_db w')"
  by (elim sql_write_cases) auto

lemma db_begin_cases:
  assumes "db_begin w = (b, w')"
  obtains (ok) q where "b" "w_txn w = None" "w' = w\<lparr>w_sql := q, w_txn := Some (w_db w)\<rparr>"
  | (fail) q where "\<not> b" "w' = w\<lparr>w_sql := q\<rparr>"
proof -
  have "(\<exists>q. b \<and> w_txn w = None \<and> w' = w\<lparr>w_sql := q, w_txn := Some (w_db w)\<rparr>) \<or>
    (\<exists>q. \<not> b \<and> w' = w\<lparr>w_sql := q\<rparr>)"
  proof (cases "w_txn w")
    case (Some d)
    with assms show ?thesis by (auto simp: db_begin_def intro: exI [of _ "w_sql w"])
  next
    case None
    obtain x w1 where x: "sql_write id w = (x, w1)" by fastforce
    from assms x None have "b = x \<and> w' = (if x then w1\<lparr>w_txn := Some (w_db w)\<rparr> else w1)"
      by (auto simp: db_begin_def split: bool.splits)
    with x None show ?thesis by (elim sql_write_cases) auto
  qed
  with ok fail show thesis by blast
qed

lemma db_commit_cases:
  assumes "db_commit w = (b, w')"
  obtains (ok) q where "b" "w' = w\<lparr>w_sql := q, w_txn := None\<rparr>"
  | (fail) q where "\<not> b" "w' = w\<lparr>w_sql := q\<rparr>"
proof -
  obtain x w1 where x: "sql_write id w = (x, w1)" by fastforce
  from assms x have "b = x \<and> w' = (if x then w1\<lparr>w_txn := None\<rparr> else w1)"
    by (auto simp: db_commit_def split: bool.splits)
  with x have "(\<exists>q. b \<and> w' = w\<lparr>w_sql := q, w_txn := None\<rparr>) \<or> (\<exists>q. \<not> b \<and> w' = w\<lparr>w_sql := q\<rparr>)"
    by (elim sql_write_cases) auto
  with ok fail show thesis by blast
qed

lemma release_db [simp]: "w_db (release n w) = w_db w" "w_fs (release n w) = w_fs w"
proof -
  obtain b w' where c: "db_commit w = (b, w')" by fastforce
  then show "w_db (release n w) = w_db w" "w_fs (release n w) = w_fs w"
    by (auto simp: release_def elim: db_commit_cases)
qed

lemma release_nested [simp]: "release True w = w"
  by (simp add: release_def)

lemma savepoint_cases:
  assumes "savepoint w = (b, w')"
  shows "w_db w' = w_db w \<and> w_fs w' = w_fs w \<and> (w_txn w \<noteq> None \<longrightarrow> w_txn w' = w_txn w) \<and>
    (w_txn w = None \<longrightarrow> w_txn w' = (if b then Some (w_db w) else None))"
  using assms
  by (auto simp: savepoint_def split: if_splits elim: sql_write_cases db_begin_cases)

lemma find_track_Some: "find_track h d = Some t \<Longrightarrow> t \<in> set (tracks d) \<and> t_sha t = h"
  by (auto simp: find_track_def dest: find_row_SomeD)

lemma find_track_None [simp]: "find_track h d = None \<longleftrightarrow> h \<notin> track_shas d"
  by (simp add: find_track_def track_shas_def)

lemma find_residency_Some: "find_residency h d = Some r \<Longrightarrow> r \<in> set (residency_state d) \<and> rs_sha r = h"
  by (auto simp: find_residency_def dest: find_row_SomeD)

lemma track_shas_delete:
  "distinct (map t_sha (tracks d)) \<Longrightarrow>
   track_shas (delete_tracks P d) = track_shas d - set (map t_sha (filter P (tracks d)))"
  by (auto simp: track_shas_def delete_tracks_def Let_def dest: eq_key_imp_eq_value inj_onD
      simp: distinct_map)

lemma delete_tracks_sha [simp]: "h \<notin> track_shas (delete_tracks (\<lambda>t. t_sha t = h) d)"
  by (auto simp: track_shas_def delete_tracks_def Let_def)

lemma delete_tracks_ok:
  assumes "db_ok d" shows "db_ok (delete_tracks P d)"
proof -
  have "distinct (map t_sha (tracks d))" using assms by (simp add: db_ok_def)
  note shas = track_shas_delete [OF this, of P]
  from assms show ?thesis unfolding db_ok_def shas
    by (auto simp: delete_tracks_def Let_def distinct_map_filter_key)
qed

text \<open>After the cascade and the trigger nothing refers to a deleted track.\<close>

definition mentions :: "sha \<Rightarrow> db \<Rightarrow> bool" where
  "mentions h d \<longleftrightarrow> h \<in> track_shas d \<or> h \<in> pl_sha ` set (plays d) \<or>
     h \<in> mf_sha ` set (manifest_current d) \<or> h \<in> rs_sha ` set (residency_state d) \<or>
     h \<in> pk_sha ` set (discovery_picks d) \<or> (''track'', h) \<in> pin_key ` set (pins d) \<or>
     (''track'', h) \<in> like_key ` set (likes d) \<or> h \<in> us_sha ` set (unsync_overrides d)"

lemma delete_tracks_forgets:
  assumes "db_ok d" and "h \<in> t_sha ` set (filter P (tracks d))"
  shows "\<not> mentions h (delete_tracks P d)"
proof -
  have "distinct (map t_sha (tracks d))" using assms by (simp add: db_ok_def)
  note shas = track_shas_delete [OF this, of P]
  with assms show ?thesis
    by (auto simp: mentions_def shas) (force simp: delete_tracks_def Let_def image_iff)+
qed

lemma delete_tracks_none:
  assumes "\<And>t. t \<in> set (tracks d) \<Longrightarrow> \<not> P t"
  shows "delete_tracks P d = d"
proof -
  have "filter P (tracks d) = []" "filter (\<lambda>t. \<not> P t) (tracks d) = tracks d"
    using assms by (auto simp: filter_empty_conv filter_id_conv)
  then show ?thesis by (simp add: delete_tracks_def)
qed

lemma delete_tracks_keeps:
  assumes "h \<notin> t_sha ` set (filter P (tracks d))"
  shows "mentions h (delete_tracks P d) \<longleftrightarrow> mentions h d"
  using assms by (auto simp: mentions_def delete_tracks_def Let_def track_shas_def image_iff)

end
