(* ===== verification/TrackRepo.thy ===== *)
theory TrackRepo
  imports Database
begin

text \<open>
  The tracks table operations of \<open>track_repo.c\<close>: insert, update, upsert, path update, the
  seen mark, the lookups, and the two deletes that also unlink the resident transcodes of the
  rows they drop. Return codes are the C ones: 0 for success, -1 for an error.
\<close>

section \<open>Operations\<close>

text \<open>The C row: a \<open>NULL\<close> pointer is \<open>None\<close>, an unknown duration is negative.\<close>

record track_row =
  r_sha :: "string option"
  r_path :: "string option"
  r_mtime_ns :: int
  r_size :: int
  r_format :: "string option"
  r_title :: "string option"
  r_artist :: "string option"
  r_album :: "string option"
  r_album_artist :: "string option"
  r_track_number :: "string option"
  r_disc_number :: "string option"
  r_year :: "string option"
  r_genre :: "string option"
  r_duration_ms :: int
  r_tags_status :: "string option"
  r_tag_warning :: "string option"
  r_date_added :: "string option"
  r_last_seen :: string

definition bind_row :: "track_row \<Rightarrow> track" where
  "bind_row r = \<lparr>t_sha = the (r_sha r), t_path = the (r_path r), t_mtime_ns = r_mtime_ns r,
     t_size = r_size r, t_format = r_format r, t_title = r_title r, t_artist = r_artist r,
     t_album = r_album r, t_album_artist = r_album_artist r, t_track_number = r_track_number r,
     t_disc_number = r_disc_number r, t_year = r_year r, t_genre = r_genre r,
     t_duration_ms = (if r_duration_ms r < 0 then None else Some (r_duration_ms r)),
     t_tags_status = (case r_tags_status r of None \<Rightarrow> ''ok'' | Some s \<Rightarrow> s),
     t_tag_warning = r_tag_warning r,
     t_date_added = (case r_date_added r of None \<Rightarrow> r_last_seen r | Some s \<Rightarrow> s),
     t_last_seen = r_last_seen r\<rparr>"

text \<open>\<open>INSERT\<close>: the primary key and the unique path must both be free.\<close>

definition insert_track :: "track \<Rightarrow> db \<Rightarrow> db option" where
  "insert_track t d =
     (if t_sha t \<in> track_shas d \<or> t_path t \<in> t_path ` set (tracks d) then None
      else Some (d\<lparr>tracks := tracks d @ [t]\<rparr>))"

text \<open>\<open>UPDATE ... WHERE sha256=?\<close> with the unique path checked.\<close>

definition update_track :: "sha \<Rightarrow> (track \<Rightarrow> track) \<Rightarrow> db \<Rightarrow> db option" where
  "update_track h g d =
     (let ts = map (\<lambda>t. if t_sha t = h then g t else t) (tracks d)
      in if distinct (map t_path ts) then Some (d\<lparr>tracks := ts\<rparr>) else None)"

definition track_repo_insert :: "track_row \<Rightarrow> world \<Rightarrow> int \<times> world" where
  "track_repo_insert r w =
     (if r_sha r = None \<or> r_path r = None then (-1, w)
      else case sql_exec (insert_track (bind_row r)) w of
        (ok, w') \<Rightarrow> (if ok then 0 else -1, w'))"

definition track_repo_update :: "track_row \<Rightarrow> world \<Rightarrow> int \<times> world" where
  "track_repo_update r w =
     (if r_sha r = None then (-1, w)
      else let b = bind_row r; changes = (t_sha b \<in> track_shas (w_db w)) in
        case sql_exec (update_track (t_sha b) (\<lambda>old. b\<lparr>t_date_added := t_date_added old\<rparr>)) w of
          (ok, w') \<Rightarrow> (if ok \<and> changes then 0 else -1, w'))"

definition track_repo_lookup_by_sha256 :: "world \<Rightarrow> sha option \<Rightarrow> int" where
  "track_repo_lookup_by_sha256 w h = (case h of
     None \<Rightarrow> -1 | Some h \<Rightarrow> if find_track h (w_db w) \<noteq> None then 1 else 0)"

definition track_repo_upsert :: "track_row \<Rightarrow> world \<Rightarrow> int \<times> world" where
  "track_repo_upsert r w =
     (let hit = track_repo_lookup_by_sha256 w (r_sha r) in
      if hit < 0 then (-1, w)
      else if hit = 1 then track_repo_update r w
      else track_repo_insert r w)"

definition track_repo_update_path :: "sha \<Rightarrow> path \<Rightarrow> string \<Rightarrow> world \<Rightarrow> int \<times> world" where
  "track_repo_update_path h new_path now w =
     (case sql_exec (update_track h (\<lambda>t. t\<lparr>t_path := new_path, t_last_seen := now\<rparr>)) w of
        (ok, w') \<Rightarrow> (if ok then 0 else -1, w'))"

definition track_repo_mark_seen :: "sha \<Rightarrow> string \<Rightarrow> world \<Rightarrow> int \<times> world" where
  "track_repo_mark_seen h now w =
     (case sql_exec (update_track h (\<lambda>t. t\<lparr>t_last_seen := now\<rparr>)) w of
        (ok, w') \<Rightarrow> (if ok then 0 else -1, w'))"

definition track_repo_lookup_by_path :: "world \<Rightarrow> path \<Rightarrow> (sha \<times> int \<times> int) option" where
  "track_repo_lookup_by_path w p =
     map_option (\<lambda>t. (t_sha t, t_mtime_ns t, t_size t)) (find_row t_path p (tracks (w_db w)))"

definition collect_transcodes :: "(residency \<Rightarrow> bool) \<Rightarrow> db \<Rightarrow> path list" where
  "collect_transcodes P d =
     [p. r \<leftarrow> residency_state d, P r, p \<leftarrow> (case rs_tpath r of None \<Rightarrow> [] | Some p \<Rightarrow> [p])]"

fun unlink_transcodes :: "path list \<Rightarrow> fs \<Rightarrow> fs" where
  "unlink_transcodes [] s = s"
| "unlink_transcodes (p # ps) s = unlink_transcodes ps (snd (sys_unlink p s))"

definition track_repo_delete :: "sha \<Rightarrow> world \<Rightarrow> int \<times> world" where
  "track_repo_delete h w =
     (let xs = collect_transcodes (\<lambda>r. rs_sha r = h) (w_db w) in
      case sql_write (delete_tracks (\<lambda>t. t_sha t = h)) w of
        (ok, w') \<Rightarrow> if ok then (0, w'\<lparr>w_fs := unlink_transcodes xs (w_fs w')\<rparr>) else (-1, w'))"

text \<open>The row test of \<open>DELETE_UNSEEN_SQL\<close>: an exact prefix with its slash, and not seen since.\<close>

definition root_pattern :: "path \<Rightarrow> path" where
  "root_pattern dir = (if dir = [] \<or> last dir \<noteq> slash then dir @ [slash] else dir)"

definition unseen_under :: "path \<Rightarrow> string \<Rightarrow> track \<Rightarrow> bool" where
  "unseen_under pattern cutoff t \<longleftrightarrow>
     take (length pattern) (t_path t) = pattern \<and> t_last_seen t < cutoff"

definition track_repo_delete_unseen_under_root :: "path \<Rightarrow> string \<Rightarrow> world \<Rightarrow> int \<times> world" where
  "track_repo_delete_unseen_under_root dir cutoff w =
     (let P = unseen_under (root_pattern dir) cutoff;
          xs = collect_transcodes (\<lambda>r. \<exists>t\<in>set (tracks (w_db w)). t_sha t = rs_sha r \<and> P t) (w_db w);
          n = length (filter P (tracks (w_db w)))
      in case sql_write (delete_tracks P) w of
        (ok, w') \<Rightarrow> if ok then (int n, w'\<lparr>w_fs := unlink_transcodes xs (w_fs w')\<rparr>) else (-1, w'))"

definition track_repo_count :: "world \<Rightarrow> nat" where
  "track_repo_count w = length (tracks (w_db w))"

section \<open>Constraints are kept\<close>

lemma db_ok_tracks:
  assumes "db_ok d" "distinct (map t_sha ts)" "distinct (map t_path ts)"
    "track_shas d \<subseteq> t_sha ` set ts"
  shows "db_ok (d\<lparr>tracks := ts\<rparr>)"
  using assms unfolding db_ok_def track_shas_def by simp (meson subset_trans)

lemma insert_track_ok: "db_ok d \<Longrightarrow> insert_track t d = Some d' \<Longrightarrow> db_ok d'"
  by (auto simp: insert_track_def track_shas_def split: if_splits intro!: db_ok_tracks)
    (auto simp: db_ok_def)

lemma update_track_shas:
  assumes "\<And>t. t_sha t = h \<Longrightarrow> t_sha (g t) = h"
  shows "map t_sha (map (\<lambda>t. if t_sha t = h then g t else t) ts) = map t_sha ts"
  using assms by (induction ts) auto

lemma update_track_ok:
  assumes "\<And>t. t_sha t = h \<Longrightarrow> t_sha (g t) = h" "db_ok d" "update_track h g d = Some d'"
  shows "db_ok d' \<and> track_shas d' = track_shas d"
proof -
  define ts where "ts = map (\<lambda>t. if t_sha t = h then g t else t) (tracks d)"
  from assms(3) have d': "d' = d\<lparr>tracks := ts\<rparr>" and path: "distinct (map t_path ts)"
    by (auto simp: update_track_def Let_def ts_def split: if_splits)
  have sha: "map t_sha ts = map t_sha (tracks d)" unfolding ts_def using assms(1) by (rule update_track_shas)
  then have set: "t_sha ` set ts = t_sha ` set (tracks d)" by (metis list.set_map)
  have "distinct (map t_sha ts)" unfolding sha using assms(2) by (simp add: db_ok_def)
  with path set assms(2) show ?thesis by (simp add: d' track_shas_def db_ok_tracks)
qed

lemma track_repo_insert_ok: "db_ok (w_db w) \<Longrightarrow> track_repo_insert r w = (c, w') \<Longrightarrow> db_ok (w_db w')"
  by (auto simp: track_repo_insert_def split: if_splits prod.splits
      elim!: sql_exec_cases intro: insert_track_ok)

lemma sql_update_ok:
  assumes "\<And>t. t_sha t = h \<Longrightarrow> t_sha (g t) = h" "db_ok (w_db w)"
    and "sql_exec (update_track h g) w = (b, w')"
  shows "db_ok (w_db w') \<and> track_shas (w_db w') = track_shas (w_db w) \<and> w_fs w' = w_fs w"
  using assms(3)
proof (cases rule: sql_exec_cases)
  case (ok q d)
  with update_track_ok [OF assms(1,2) ok(2)] show ?thesis by simp
next
  case (fail q)
  with assms(2) show ?thesis by simp
qed

lemma track_repo_update_ok:
  assumes "db_ok (w_db w)" "track_repo_update r w = (c, w')"
  shows "db_ok (w_db w')"
  using assms sql_update_ok [of "t_sha (bind_row r)" "\<lambda>old. (bind_row r)\<lparr>t_date_added := t_date_added old\<rparr>" w]
  by (auto simp: track_repo_update_def Let_def split: if_splits prod.splits)

lemma track_repo_update_path_ok:
  assumes "db_ok (w_db w)" "track_repo_update_path h p now w = (c, w')"
  shows "db_ok (w_db w') \<and> track_shas (w_db w') = track_shas (w_db w) \<and> w_fs w' = w_fs w"
  using assms sql_update_ok [of h "\<lambda>t. t\<lparr>t_path := p, t_last_seen := now\<rparr>" w]
  by (auto simp: track_repo_update_path_def split: if_splits prod.splits)

lemma track_repo_mark_seen_ok:
  assumes "db_ok (w_db w)" "track_repo_mark_seen h now w = (c, w')"
  shows "db_ok (w_db w') \<and> track_shas (w_db w') = track_shas (w_db w) \<and> w_fs w' = w_fs w"
  using assms sql_update_ok [of h "\<lambda>t. t\<lparr>t_last_seen := now\<rparr>" w]
  by (auto simp: track_repo_mark_seen_def split: if_splits prod.splits)

lemma track_repo_upsert_ok:
  assumes "db_ok (w_db w)" "track_repo_upsert r w = (c, w')"
  shows "db_ok (w_db w')"
  using assms track_repo_insert_ok [of w r c w'] track_repo_update_ok [of w r c w']
  by (simp add: track_repo_upsert_def Let_def split: if_splits)

lemma track_repo_delete_ok:
  assumes "db_ok (w_db w)" "track_repo_delete h w = (c, w')"
  shows "db_ok (w_db w') \<and> (c = 0 \<longrightarrow> h \<notin> track_shas (w_db w'))"
  using assms
  by (auto simp: track_repo_delete_def Let_def delete_tracks_ok split: if_splits prod.splits
      elim!: sql_write_cases)

section \<open>The two deletes\<close>

text \<open>The trailing slash makes the pattern a directory: a sibling with the root's name as prefix is safe.\<close>

lemma unseen_under_dir:
  assumes "unseen_under (root_pattern dir) cutoff t"
  shows "\<exists>rest. t_path t = root_pattern dir @ rest \<and> last (root_pattern dir) = slash"
proof -
  from assms have "t_path t = root_pattern dir @ drop (length (root_pattern dir)) (t_path t)"
    by (metis append_take_drop_id unseen_under_def)
  moreover have "last (root_pattern dir) = slash" by (simp add: root_pattern_def)
  ultimately show ?thesis by blast
qed

lemma unlink_transcodes_other:
  "q \<notin> set ps \<Longrightarrow> fs_content (unlink_transcodes ps s) q = fs_content s q"
proof (induction ps arbitrary: s)
  case (Cons p ps)
  obtain r s1 where u: "sys_unlink p s = (r, s1)" by fastforce
  then have "fs_content s1 q = fs_content s q"
    using Cons.prems by (elim sys_unlink_cases) (auto simp: same_tree_get content_del_node)
  with Cons u show ?case by simp
qed simp

lemma unlink_transcodes_sub: "fs_content (unlink_transcodes ps s) q = Some c \<Longrightarrow> fs_content s q = Some c"
proof (induction ps arbitrary: s)
  case (Cons p ps)
  obtain r s1 where u: "sys_unlink p s = (r, s1)" by fastforce
  then have "\<And>x. fs_content s1 q = Some x \<Longrightarrow> fs_content s q = Some x"
    by (elim sys_unlink_cases) (auto simp: same_tree_get content_del_node split: if_splits)
  with Cons u show ?case by simp
qed simp

text \<open>With no call failing, every transcode the list names is gone.\<close>

lemma unlink_transcodes_gone:
  "fs_faults s = [] \<Longrightarrow> p \<in> set ps \<Longrightarrow> fs_content (unlink_transcodes ps s) p = None"
proof (induction ps arbitrary: s)
  case (Cons a ps)
  obtain r s1 where u: "sys_unlink a s = (r, s1)" by fastforce
  have s1: "fs_faults s1 = []" using u Cons.prems(1)
    by (auto simp: sys_unlink_def injected_def del_node_def split: option.splits node.splits)
  show ?case
  proof (cases "p \<in> set ps")
    case True
    with Cons.IH [OF s1] u show ?thesis by simp
  next
    case False
    with Cons.prems have "p = a" by simp
    with u Cons.prems(1) have "fs_content s1 p = None"
      by (auto simp: sys_unlink_def injected_def content_del_node fs_content_def fs_inode_def
          get_del_node split: option.splits node.splits)
    with unlink_transcodes_sub [of ps s1 p] u show ?thesis by (auto intro: ccontr)
  qed
qed simp

end
