(* ===== verification/Actions.thy ===== *)
theory Actions
  imports TrackRepo
begin

text \<open>
  The two phone actions of \<open>actions.c\<close>: unsync a track (clear its pin, record an override)
  and delete it everywhere (unlink its files, blacklist its hash, drop its row). The delete is
  one \<open>SAVEPOINT\<close>: either both statements take effect or neither does. \<open>now\<close> is the
  rendering of the current time by \<open>iso_now_buf\<close>.
\<close>

record action_stats =
  as_touched :: int
  as_files_removed :: int
  as_bytes_freed :: int
  as_errors :: int

definition no_actions :: action_stats where
  "no_actions = \<lparr>as_touched = 0, as_files_removed = 0, as_bytes_freed = 0, as_errors = 0\<rparr>"

section \<open>Operations\<close>

definition fetch_size_bytes :: "db \<Rightarrow> sha \<Rightarrow> int" where
  "fetch_size_bytes d h = (case find_track h d of None \<Rightarrow> 0 | Some t \<Rightarrow> t_size t)"

definition unpin_rows :: "sha \<Rightarrow> string \<Rightarrow> db \<Rightarrow> db" where
  "unpin_rows h now d = d\<lparr>pins := map (\<lambda>r. if pn_id r = h \<and> pn_unit r = ''track''
      then r\<lparr>pn_pinned := False, pn_updated := now\<rparr> else r) (pins d)\<rparr>"

definition add_override :: "sha \<Rightarrow> string \<Rightarrow> db \<Rightarrow> db" where
  "add_override h now d = d\<lparr>unsync_overrides :=
     upsert us_sha (\<lambda>old new. old\<lparr>us_added := us_added new\<rparr>)
       \<lparr>us_sha = h, us_until = None, us_added = now\<rparr> (unsync_overrides d)\<rparr>"

definition unsync_track :: "string \<Rightarrow> sha \<Rightarrow> world \<times> action_stats \<Rightarrow> int \<times> world \<times> action_stats" where
  "unsync_track now h = (\<lambda>(w, st).
     let w1 = snd (sql_write (unpin_rows h now) w) in
     case sql_write (add_override h now) w1 of
       (ok, w2) \<Rightarrow> if ok then (0, w2, st\<lparr>as_touched := as_touched st + 1\<rparr>)
                   else (-1, w2, st\<lparr>as_errors := as_errors st + 1\<rparr>))"

text \<open>One unlink of the delete: \<open>ENOENT\<close> is fine, any other error is counted.\<close>

definition delete_file :: "path option \<Rightarrow> int \<Rightarrow> fs \<times> action_stats \<Rightarrow> fs \<times> action_stats" where
  "delete_file p sz = (\<lambda>(s, st). case p of
     None \<Rightarrow> (s, st)
   | Some p \<Rightarrow> (case sys_unlink p s of
       (None, s') \<Rightarrow> (s', st\<lparr>as_files_removed := as_files_removed st + 1,
                            as_bytes_freed := as_bytes_freed st + sz\<rparr>)
     | (Some e, s') \<Rightarrow> (s', if e \<noteq> ENOENT then st\<lparr>as_errors := as_errors st + 1\<rparr> else st)))"

definition add_blacklist :: "sha \<Rightarrow> string \<Rightarrow> db \<Rightarrow> db" where
  "add_blacklist h now d = d\<lparr>track_blacklist :=
     upsert bl_sha (\<lambda>old new. old\<lparr>bl_added := bl_added new\<rparr>)
       \<lparr>bl_sha = h, bl_reason = ''didnt_like'', bl_added = now\<rparr> (track_blacklist d)\<rparr>"

definition delete_track_everywhere ::
  "string \<Rightarrow> sha \<Rightarrow> world \<times> action_stats \<Rightarrow> int \<times> world \<times> action_stats" where
  "delete_track_everywhere now h = (\<lambda>(w, st).
     let sz = fetch_size_bytes (w_db w) h;
         archive_path = lookup_track_path (w_db w) h;
         transcode_path = lookup_transcode_path (w_db w) h;
         (s1, st1) = delete_file archive_path sz (w_fs w, st);
         (s2, st2) = delete_file transcode_path 0 (s1, st1);
         w1 = w\<lparr>w_fs := s2\<rparr>;
         err = st2\<lparr>as_errors := as_errors st2 + 1\<rparr>;
         nested = (w_txn w \<noteq> None)
     in case savepoint w1 of
       (False, w2) \<Rightarrow> (-1, w2, err)
     | (True, w2) \<Rightarrow>
         (case sql_write (add_blacklist h now) w2 of
            (False, w3) \<Rightarrow> (-1, release nested (rollback_to (w_db w2) w3), err)
          | (True, w3) \<Rightarrow>
              (case sql_write (delete_tracks (\<lambda>t. t_sha t = h)) w3 of
                 (False, w4) \<Rightarrow> (-1, release nested (rollback_to (w_db w2) w4), err)
               | (True, w4) \<Rightarrow> (0, release nested w4, st2\<lparr>as_touched := as_touched st2 + 1\<rparr>))))"

text \<open>
  \<open>album_track_shas\<close>: the schema has no column \<open>album_id\<close>, the statement does not prepare, and
  the function answers that the album has no tracks.
\<close>

definition album_track_shas :: "db \<Rightarrow> string \<Rightarrow> sha list" where
  "album_track_shas d album_id = []"

fun each_track ::
  "(sha \<Rightarrow> world \<times> action_stats \<Rightarrow> int \<times> world \<times> action_stats) \<Rightarrow> sha list \<Rightarrow>
   world \<times> action_stats \<Rightarrow> world \<times> action_stats" where
  "each_track act [] x = x"
| "each_track act (h # hs) x = each_track act hs (snd (act h x))"

definition unsync_album :: "string \<Rightarrow> string \<Rightarrow> world \<times> action_stats \<Rightarrow> int \<times> world \<times> action_stats" where
  "unsync_album now album_id x =
     (0, each_track (unsync_track now) (album_track_shas (w_db (fst x)) album_id) x)"

text \<open>\<open>rmdir\<close> of the parents while they are empty; the fuel is the number of components.\<close>

fun prune_empty_dirs :: "nat \<Rightarrow> path \<Rightarrow> fs \<Rightarrow> fs" where
  "prune_empty_dirs 0 p s = s"
| "prune_empty_dirs (Suc n) p s = (case split_last slash p of
     None \<Rightarrow> s
   | Some (d, b) \<Rightarrow>
       if d = [] then s
       else (case sys_rmdir d s of
               (None, s') \<Rightarrow> prune_empty_dirs n d s'
             | (Some e, s') \<Rightarrow> s'))"

definition prune_dirs_of :: "path option \<Rightarrow> fs \<Rightarrow> fs" where
  "prune_dirs_of p s = (case p of None \<Rightarrow> s | Some p \<Rightarrow> prune_empty_dirs (length p) p s)"

definition delete_album_everywhere ::
  "string \<Rightarrow> string \<Rightarrow> world \<times> action_stats \<Rightarrow> int \<times> world \<times> action_stats" where
  "delete_album_everywhere now album_id x =
     (let d = w_db (fst x);
          shas = album_track_shas d album_id;
          sample_archive = (case shas of [] \<Rightarrow> None | h # _ \<Rightarrow> lookup_track_path d h);
          sample_transcode = (case shas of [] \<Rightarrow> None | h # _ \<Rightarrow> lookup_transcode_path d h);
          (w1, st1) = each_track (delete_track_everywhere now) shas x
      in (0, w1\<lparr>w_fs := prune_dirs_of sample_transcode (prune_dirs_of sample_archive (w_fs w1))\<rparr>, st1))"

section \<open>What an action keeps\<close>

lemma db_ok_pins: "db_ok d \<Longrightarrow> distinct (map pin_key ps) \<Longrightarrow> db_ok (d\<lparr>pins := ps\<rparr>)"
  by (simp add: db_ok_def track_shas_def)

lemma unpin_keys: "map pin_key (pins (unpin_rows h now d)) = map pin_key (pins d)"
proof -
  have "map pin_key (map (\<lambda>r. if pn_id r = h \<and> pn_unit r = ''track''
      then r\<lparr>pn_pinned := False, pn_updated := now\<rparr> else r) ps) = map pin_key ps" for ps
    by (induction ps) auto
  then show ?thesis by (simp only: unpin_rows_def) simp
qed

lemma unpin_key_set: "pin_key ` set (pins (unpin_rows h now d)) = pin_key ` set (pins d)"
  using arg_cong [OF unpin_keys, of set h now d] by simp

lemma unpin_rows_ok: "db_ok d \<Longrightarrow> db_ok (unpin_rows h now d)"
  using db_ok_pins [of d "pins (unpin_rows h now d)"]
  by (simp add: unpin_keys) (simp add: unpin_rows_def db_ok_def)

lemma add_override_ok: "db_ok d \<Longrightarrow> db_ok (add_override h now d)"
  by (simp add: add_override_def db_ok_def track_shas_def upsert_distinct)

lemma add_blacklist_ok: "db_ok d \<Longrightarrow> db_ok (add_blacklist h now d)"
  by (simp add: add_blacklist_def db_ok_def track_shas_def upsert_distinct)

lemma unsync_track_ok:
  assumes "db_ok (w_db w)" "unsync_track now h (w, st) = (c, w', st')"
  shows "db_ok (w_db w') \<and> w_fs w' = w_fs w"
proof -
  obtain b w1 where u: "sql_write (unpin_rows h now) w = (b, w1)" by fastforce
  obtain b2 w2 where o: "sql_write (add_override h now) w1 = (b2, w2)" by fastforce
  have "db_ok (w_db w1)" using sql_write_inv [OF u, of db_ok] assms(1) unpin_rows_ok by blast
  then have "db_ok (w_db w2)" using sql_write_inv [OF o, of db_ok] add_override_ok by blast
  moreover have "w' = w2" using assms(2) u o by (auto simp: unsync_track_def Let_def split: if_splits)
  ultimately show ?thesis using sql_write_fs [OF u] sql_write_fs [OF o] by simp
qed

text \<open>The outcomes of a delete: the whole savepoint took effect, or the database is as it was.\<close>

lemma delete_track_cases:
  assumes "delete_track_everywhere now h (w, st) = (c, w', st')"
  shows "(c = 0 \<and> w_db w' = delete_tracks (\<lambda>t. t_sha t = h) (add_blacklist h now (w_db w))) \<or>
    (c = -1 \<and> w_db w' = w_db w)"
proof -
  obtain s1 st1 where d1: "delete_file (lookup_track_path (w_db w) h) (fetch_size_bytes (w_db w) h)
      (w_fs w, st) = (s1, st1)" by fastforce
  obtain s2 st2 where d2: "delete_file (lookup_transcode_path (w_db w) h) 0 (s1, st1) = (s2, st2)"
    by fastforce
  let ?w1 = "w\<lparr>w_fs := s2\<rparr>"
  obtain b1 w2 where q1: "savepoint ?w1 = (b1, w2)" by fastforce
  then have w2: "w_db w2 = w_db w" using savepoint_cases [OF q1] by simp
  obtain b2 w3 where q2: "sql_write (add_blacklist h now) w2 = (b2, w3)" by fastforce
  then have w3: "b2 \<longrightarrow> w_db w3 = add_blacklist h now (w_db w)" using w2 by (elim sql_write_cases) auto
  obtain b3 w4 where q3: "sql_write (delete_tracks (\<lambda>t. t_sha t = h)) w3 = (b3, w4)" by fastforce
  then have w4: "b3 \<longrightarrow> w_db w4 = delete_tracks (\<lambda>t. t_sha t = h) (w_db w3)"
    by (elim sql_write_cases) auto
  show ?thesis
    using assms w2 w3 w4
    by (auto simp: delete_track_everywhere_def Let_def d1 d2 q1 q2 q3 rollback_to_def
        split: bool.splits)
qed

lemma delete_track_ok:
  "db_ok (w_db w) \<Longrightarrow> delete_track_everywhere now h (w, st) = (c, w', st') \<Longrightarrow> db_ok (w_db w')"
  by (drule delete_track_cases) (auto simp: delete_tracks_ok add_blacklist_ok)

lemma delete_file_gone:
  assumes "delete_file p n (s, st) = (s', st')" "fs_faults s = []"
  shows "fs_faults s' = [] \<and> (\<forall>q. p = Some q \<longrightarrow> fs_content s' q = None) \<and>
    (\<forall>q. fs_content s q = None \<longrightarrow> fs_content s' q = None)"
proof (cases p)
  case (Some q)
  obtain r s1 where u: "sys_unlink q s = (r, s1)" by fastforce
  then have "s' = s1" using assms Some by (auto simp: delete_file_def split: option.splits)
  moreover have "fs_faults s1 = [] \<and> fs_content s1 q = None \<and> (\<forall>x. fs_content s x = None \<longrightarrow> fs_content s1 x = None)"
    using u assms(2)
    by (auto simp: sys_unlink_def injected_def content_del_node del_node_def fs_content_def fs_inode_def
        split: option.splits node.splits)
      (auto simp: fs_get_def delete_conv' split: option.splits node.splits if_splits)
  ultimately show ?thesis using Some by simp
qed (use assms in \<open>simp add: delete_file_def\<close>)

lemma delete_track_files:
  assumes "delete_track_everywhere now h (w, st) = (c, w', st')" "fs_faults (w_fs w) = []"
  shows "(\<forall>p. lookup_track_path (w_db w) h = Some p \<longrightarrow> fs_content (w_fs w') p = None) \<and>
    (\<forall>p. lookup_transcode_path (w_db w) h = Some p \<longrightarrow> fs_content (w_fs w') p = None)"
proof -
  obtain s1 st1 where d1: "delete_file (lookup_track_path (w_db w) h) (fetch_size_bytes (w_db w) h)
      (w_fs w, st) = (s1, st1)" by fastforce
  obtain s2 st2 where d2: "delete_file (lookup_transcode_path (w_db w) h) 0 (s1, st1) = (s2, st2)"
    by fastforce
  obtain b1 w2 where q1: "savepoint (w\<lparr>w_fs := s2\<rparr>) = (b1, w2)" by fastforce
  obtain b2 w3 where q2: "sql_write (add_blacklist h now) w2 = (b2, w3)" by fastforce
  obtain b3 w4 where q3: "sql_write (delete_tracks (\<lambda>t. t_sha t = h)) w3 = (b3, w4)" by fastforce
  have fs: "w_fs w2 = s2" "w_fs w3 = s2" "w_fs w4 = s2"
    using savepoint_cases [OF q1] sql_write_fs [OF q2] sql_write_fs [OF q3] by auto
  have "w_fs w' = s2"
    using assms(1) fs by (auto simp: delete_track_everywhere_def Let_def d1 d2 q1 q2 q3 rollback_to_def
        split: bool.splits)
  with delete_file_gone [OF d1 assms(2)] delete_file_gone [OF d2] show ?thesis by auto
qed

section \<open>Properties\<close>

text \<open>C8: deleting a track everywhere is atomic in the database and leaves no trace. When it succeeds on
  a track the library holds, its hash is blacklisted and no table mentions it any more (not even
  the pins, likes and overrides that have no foreign key), its files are gone if the unlinks do
  not fail, and the schema's constraints hold; when it fails, the database is unchanged.\<close>

theorem delete_track_leaves_no_trace:
  assumes "db_ok (w_db w)" "h \<in> track_shas (w_db w)" "fs_faults (w_fs w) = []"
    and "delete_track_everywhere now h (w, st) = (c, w', st')"
  shows "(c = 0 \<and> \<not> mentions h (w_db w') \<and> h \<in> bl_sha ` set (track_blacklist (w_db w')) \<and>
      db_ok (w_db w') \<and>
      (\<forall>p. lookup_track_path (w_db w) h = Some p \<longrightarrow> fs_content (w_fs w') p = None) \<and>
      (\<forall>p. lookup_transcode_path (w_db w) h = Some p \<longrightarrow> fs_content (w_fs w') p = None)) \<or>
    (c = -1 \<and> w_db w' = w_db w)"
proof -
  let ?d = "add_blacklist h now (w_db w)"
  have "tracks ?d = tracks (w_db w)" by (simp add: add_blacklist_def)
  then have "h \<in> t_sha ` set (filter (\<lambda>t. t_sha t = h) (tracks ?d))"
    using assms(2) by (auto simp: track_shas_def)
  from delete_tracks_forgets [OF add_blacklist_ok [OF assms(1)] this]
  have "\<not> mentions h (delete_tracks (\<lambda>t. t_sha t = h) ?d)" .
  moreover have "h \<in> bl_sha ` set (track_blacklist (delete_tracks (\<lambda>t. t_sha t = h) ?d))"
    by (simp add: delete_tracks_def Let_def add_blacklist_def keys_upsert)
  ultimately show ?thesis
    using delete_track_cases [OF assms(4)] delete_track_files [OF assms(4,3)]
      delete_track_ok [OF assms(1,4)] by auto
qed

definition one_track :: "sha \<Rightarrow> path \<Rightarrow> track" where
  "one_track h p = bind_row \<lparr>r_sha = Some h, r_path = Some p, r_mtime_ns = 1, r_size = 10, r_format = None,
     r_title = None, r_artist = None, r_album = None, r_album_artist = None, r_track_number = None,
     r_disc_number = None, r_year = None, r_genre = None, r_duration_ms = -1, r_tags_status = None,
     r_tag_warning = None, r_date_added = None, r_last_seen = ''2023''\<rparr>"

definition pinned_world :: world where
  "pinned_world = \<lparr>w_db = empty_db\<lparr>tracks := [one_track ''h'' ''/l/a.flac''],
       pins := [\<lparr>pn_unit = ''track'', pn_id = ''h'', pn_pinned = True, pn_updated = ''2023'', pn_ts = 5\<rparr>]\<rparr>,
     w_fs = \<lparr>fs_nodes = [(''/l'', Dir), (''/l/a.flac'', Reg 0)], fs_data = [(0, ''x'')], fs_next = 1,
       fs_faults = []\<rparr>,
     w_sql = [], w_txn = None\<rparr>"

theorem delete_track_leaves_no_trace_witness:
  "\<exists>w' st'. delete_track_everywhere ''2024'' ''h'' (pinned_world, no_actions) = (0, w', st') \<and>
     \<not> mentions ''h'' (w_db w') \<and> fs_content (w_fs w') ''/l/a.flac'' = None"
proof -
  have ok: "db_ok (w_db pinned_world)" "''h'' \<in> track_shas (w_db pinned_world)"
    "fs_faults (w_fs pinned_world) = []"
    by (simp_all add: pinned_world_def empty_db_def db_ok_def track_shas_def one_track_def bind_row_def)
  obtain c w' st' where d: "delete_track_everywhere ''2024'' ''h'' (pinned_world, no_actions) = (c, w', st')"
    by (metis prod_cases3)
  have "c = 0" using d
    by (simp add: delete_track_everywhere_def pinned_world_def empty_db_def delete_file_def Let_def
        savepoint_def db_begin_def sql_write_quiet lookup_track_path_def lookup_transcode_path_def
        find_track_def find_residency_def one_track_def bind_row_def sys_unlink_def injected_def fs_get_def)
  moreover have "lookup_track_path (w_db pinned_world) ''h'' = Some ''/l/a.flac''"
    by (simp add: lookup_track_path_def find_track_def pinned_world_def one_track_def bind_row_def)
  ultimately show ?thesis using delete_track_leaves_no_trace [OF ok d] d by auto
qed

end
