(* ===== verification/Jsonl.thy ===== *)
theory Jsonl
  imports Prelude
begin

text \<open>
  The JSONL reader of \<open>src/nocturned/jsonl.c\<close>: a line reader over a growing buffer that
  keeps the byte offset of the next unread line, tolerates a trailing partial line and skips
  a line of more than \<open>JSONL_MAX_LINE\<close> bytes.

  The reader's file descriptor is the bytes of the file from the position \<open>lseek\<close> left it at
  (\<open>jr_rest\<close>) and a schedule of what the next \<open>read(2)\<close> calls do (\<open>jr_sched\<close>): return any
  non-empty number of bytes, be interrupted, or fail. The theorems hold for every schedule, so
  for every way the kernel may cut the file into reads. An allocation never fails.
\<close>

definition JSONL_MAX_LINE :: nat where "JSONL_MAX_LINE = 65536"
definition JSONL_INITIAL_BUF :: nat where "JSONL_INITIAL_BUF = 4096"

datatype read_ev = Chunk nat | Interrupted | Fails errno

record jsonl_reader =
  jr_buf :: string
  jr_cap :: nat
  jr_pos :: nat
  jr_offset :: nat
  jr_eof :: bool
  jr_err :: "errno option"
  jr_rest :: string
  jr_sched :: "read_ev list"

section \<open>The operations\<close>

text \<open>\<open>read(2)\<close> under the retry loop on \<open>EINTR\<close>: an empty result is the end of the file.\<close>

fun sys_read :: "nat \<Rightarrow> string \<Rightarrow> read_ev list \<Rightarrow> (errno + string) \<times> string \<times> read_ev list" where
  "sys_read avail s [] = (Inr (take avail s), drop avail s, [])"
| "sys_read avail s (Chunk k # ev) =
     (let n = min avail (max 1 k) in (Inr (take n s), drop n s, ev))"
| "sys_read avail s (Interrupted # ev) = sys_read avail s ev"
| "sys_read avail s (Fails e # ev) = (Inl e, s, ev)"

definition jsonl_compact :: "jsonl_reader \<Rightarrow> jsonl_reader" where
  "jsonl_compact r =
     (if jr_pos r = 0 then r else r\<lparr>jr_buf := drop (jr_pos r) (jr_buf r), jr_pos := 0\<rparr>)"

text \<open>The doubling loop of \<open>jsonl_grow\<close>, capped at \<open>JSONL_MAX_LINE + 1\<close>.\<close>

function grow_cap :: "nat \<Rightarrow> nat \<Rightarrow> nat" where
  "grow_cap new_cap target =
     (if 0 < new_cap \<and> new_cap < target then
        (if new_cap * 2 > JSONL_MAX_LINE + 1 then JSONL_MAX_LINE + 1
         else grow_cap (new_cap * 2) target)
      else new_cap)"
  by pat_completeness auto
termination by (relation "measure (\<lambda>(c, t). t - c)") auto

declare grow_cap.simps [simp del]

definition jsonl_grow :: "jsonl_reader \<Rightarrow> nat \<Rightarrow> jsonl_reader" where
  "jsonl_grow r target =
     (if target \<le> jr_cap r then r
      else r\<lparr>jr_cap := grow_cap (if jr_cap r = 0 then JSONL_INITIAL_BUF else jr_cap r) target\<rparr>)"

datatype refill_result = RGot | RZero | RErr errno

definition jsonl_refill :: "jsonl_reader \<Rightarrow> refill_result \<times> jsonl_reader" where
  "jsonl_refill r =
     (if jr_cap r \<le> length (jr_buf r) then (RZero, r)
      else if jr_eof r then (RZero, r)
      else case jr_err r of
        Some e \<Rightarrow> (RErr e, r)
      | None \<Rightarrow>
          (case sys_read (jr_cap r - length (jr_buf r)) (jr_rest r) (jr_sched r) of
             (Inl e, s, ev) \<Rightarrow> (RErr e, r\<lparr>jr_err := Some e, jr_rest := s, jr_sched := ev\<rparr>)
           | (Inr bs, s, ev) \<Rightarrow>
               if bs = [] then (RZero, r\<lparr>jr_eof := True, jr_rest := s, jr_sched := ev\<rparr>)
               else (RGot, r\<lparr>jr_buf := jr_buf r @ bs, jr_rest := s, jr_sched := ev\<rparr>)))"

text \<open>\<open>jsonl_open\<close> on a file of these bytes; \<open>lseek\<close> beyond the end leaves nothing to read.\<close>

definition jsonl_open :: "string \<Rightarrow> nat \<Rightarrow> read_ev list \<Rightarrow> jsonl_reader" where
  "jsonl_open content start_offset ev =
     jsonl_grow
       \<lparr>jr_buf = [], jr_cap = 0, jr_pos = 0, jr_offset = start_offset, jr_eof = False,
        jr_err = None, jr_rest = drop start_offset content, jr_sched = ev\<rparr>
       JSONL_INITIAL_BUF"

lemma sys_read_length:
  assumes "sys_read avail s ev = (Inr bs, s', ev')"
  shows "s = bs @ s' \<and> length bs \<le> avail \<and> (0 < avail \<and> bs = [] \<longrightarrow> s = [])"
  using assms by (induction avail s ev rule: sys_read.induct) (auto simp: Let_def split: if_splits)

lemma sys_read_error: "sys_read avail s ev = (Inl e, s', ev') \<Longrightarrow> s' = s"
  by (induction avail s ev rule: sys_read.induct) (auto simp: Let_def)

lemma refill_got:
  assumes "jsonl_refill r = (RGot, r')"
  shows "\<exists>bs s ev. bs \<noteq> [] \<and> jr_rest r = bs @ s \<and> length (jr_buf r @ bs) \<le> jr_cap r \<and>
           jr_err r = None \<and>
           sys_read (jr_cap r - length (jr_buf r)) (jr_rest r) (jr_sched r) = (Inr bs, s, ev) \<and>
           r' = r\<lparr>jr_buf := jr_buf r @ bs, jr_rest := s, jr_sched := ev\<rparr>"
proof -
  from assms obtain bs s ev where
    read: "sys_read (jr_cap r - length (jr_buf r)) (jr_rest r) (jr_sched r) = (Inr bs, s, ev)"
    and "bs \<noteq> []" "length (jr_buf r) < jr_cap r" "jr_err r = None"
      "r' = r\<lparr>jr_buf := jr_buf r @ bs, jr_rest := s, jr_sched := ev\<rparr>"
    by (auto simp: jsonl_refill_def split: if_splits option.splits sum.splits prod.splits)
  then show ?thesis using sys_read_length [OF read]
    by (intro exI [of _ bs] exI [of _ s] exI [of _ ev]) auto
qed

lemma refill_zero:
  assumes "jsonl_refill r = (RZero, r')" and "length (jr_buf r) < jr_cap r"
  shows "(jr_eof r \<and> r' = r) \<or> (\<not> jr_eof r \<and> jr_rest r = [] \<and>
           (\<exists>ev. r' = r\<lparr>jr_eof := True, jr_rest := [], jr_sched := ev\<rparr>))"
  using assms
  by (auto simp: jsonl_refill_def split: if_splits option.splits sum.splits prod.splits
        dest!: sys_read_length)

lemma refill_rest_decreases:
  "jsonl_refill r = (RGot, r') \<Longrightarrow> length (jr_rest r') < length (jr_rest r)"
  by (auto dest: refill_got)

lemma refill_rest_decreases_rev:
  "(RGot, r') = jsonl_refill r \<Longrightarrow> length (jr_rest r') < length (jr_rest r)"
  using refill_rest_decreases by metis

text \<open>The loop of \<open>jsonl_drain_oversize\<close>; the result is the error of a failed read, if any.\<close>

function drain_loop :: "jsonl_reader \<Rightarrow> errno option \<times> jsonl_reader" where
  "drain_loop r =
     (if jr_eof r then (None, r)
      else case jsonl_refill r of
        (RErr e, r') \<Rightarrow> (Some e, r')
      | (RZero, r') \<Rightarrow> (None, r'\<lparr>jr_pos := 0, jr_buf := []\<rparr>)
      | (RGot, r') \<Rightarrow>
          (case memchr_nl (jr_buf r') of
             Some k \<Rightarrow> (None, r'\<lparr>jr_offset := jr_offset r' + (k + 1),
                               jr_buf := drop (k + 1) (jr_buf r'), jr_pos := 0\<rparr>)
           | None \<Rightarrow> drain_loop (r'\<lparr>jr_offset := jr_offset r' + length (jr_buf r'), jr_buf := []\<rparr>)))"
  by pat_completeness auto
termination
  by (relation "measure (\<lambda>r. length (jr_rest r))") (auto dest: refill_rest_decreases_rev)

declare drain_loop.simps [simp del]

definition jsonl_drain_oversize :: "jsonl_reader \<Rightarrow> errno option \<times> jsonl_reader" where
  "jsonl_drain_oversize r =
     drain_loop (r\<lparr>jr_offset := jr_offset r + (length (jr_buf r) - jr_pos r),
                   jr_pos := 0, jr_buf := []\<rparr>)"

datatype read_line_result = Line string | AtEof | TooLong | IoError errno

definition oversize :: "jsonl_reader \<Rightarrow> read_line_result \<times> jsonl_reader" where
  "oversize r = (case jsonl_drain_oversize r of
                   (Some e, r') \<Rightarrow> (IoError e, r')
                 | (None, r') \<Rightarrow> (TooLong, r'))"

function jsonl_read_line :: "jsonl_reader \<Rightarrow> read_line_result \<times> jsonl_reader" where
  "jsonl_read_line r =
     (case memchr_nl (drop (jr_pos r) (jr_buf r)) of
        Some k \<Rightarrow>
          (Line (take k (drop (jr_pos r) (jr_buf r))),
           r\<lparr>jr_buf := (jr_buf r)[jr_pos r + k := CHR 0x00],
             jr_pos := jr_pos r + (k + 1), jr_offset := jr_offset r + (k + 1)\<rparr>)
      | None \<Rightarrow>
          (let r1 = (if jr_pos r > 0 then jsonl_compact r else r);
               held = length (jr_buf r1);
               want = (if jr_cap r1 * 2 > JSONL_MAX_LINE + 1 then JSONL_MAX_LINE + 1
                       else jr_cap r1 * 2)
           in if held > JSONL_MAX_LINE then oversize r1
              else if held = jr_cap r1 \<and> want = jr_cap r1 then oversize r1
              else (case jsonl_refill (if held = jr_cap r1 then jsonl_grow r1 want else r1) of
                      (RErr e, r2) \<Rightarrow> (IoError e, r2)
                    | (RZero, r2) \<Rightarrow> (AtEof, r2)
                    | (RGot, r2) \<Rightarrow> jsonl_read_line r2)))"
  by pat_completeness auto
termination
  by (relation "measure (\<lambda>r. length (jr_rest r))")
    (auto dest!: refill_rest_decreases_rev simp: jsonl_grow_def jsonl_compact_def split: if_splits)

declare jsonl_read_line.simps [simp del]

section \<open>What a reader means: the bytes it has not returned yet\<close>

definition jr_pending :: "jsonl_reader \<Rightarrow> string" where
  "jr_pending r = drop (jr_pos r) (jr_buf r) @ jr_rest r"

definition jr_ok :: "jsonl_reader \<Rightarrow> bool" where
  "jr_ok r \<longleftrightarrow> jr_pos r \<le> length (jr_buf r) \<and> length (jr_buf r) \<le> jr_cap r \<and> 0 < jr_cap r \<and>
     jr_cap r \<le> JSONL_MAX_LINE + 1 \<and> (jr_eof r \<longrightarrow> jr_rest r = [])"

text \<open>No read has failed and none will.\<close>

definition jr_quiet :: "jsonl_reader \<Rightarrow> bool" where
  "jr_quiet r \<longleftrightarrow> jr_err r = None \<and> (\<forall>e. Fails e \<notin> set (jr_sched r))"

text \<open>The text after the first newline (empty where there is none), and the reference
  semantics of one call: what it returns, what is left, how far the offset moves.\<close>

definition after_nl :: "string \<Rightarrow> string" where
  "after_nl p = drop (Suc (length (takeWhile (\<lambda>c. c \<noteq> nl) p))) p"

definition spec_read :: "string \<Rightarrow> read_line_result \<times> string" where
  "spec_read p =
     (let l = takeWhile (\<lambda>c. c \<noteq> nl) p
      in if length l > JSONL_MAX_LINE then (TooLong, after_nl p)
         else if nl \<in> set p then (Line l, after_nl p)
         else (AtEof, p))"

lemma after_nl_append: "nl \<notin> set a \<Longrightarrow> after_nl (a @ b) = after_nl b"
  unfolding after_nl_def by (subst takeWhile_append2) auto

lemma after_nl_hit: "nl \<notin> set a \<Longrightarrow> after_nl (a @ nl # b) = b"
  by (simp add: after_nl_append) (simp add: after_nl_def)

lemma after_nl_none: "nl \<notin> set a \<Longrightarrow> after_nl a = []"
  using after_nl_append [of a "[]"] by (simp add: after_nl_def)

lemma after_nl_length: "length (after_nl p) \<le> length p"
  by (simp add: after_nl_def)

lemma sys_read_quiet:
  assumes "sys_read avail s ev = (x, s', ev')" and "\<forall>e. Fails e \<notin> set ev"
  shows "(\<forall>e. Fails e \<notin> set ev') \<and> (\<exists>bs. x = Inr bs)"
  using assms by (induction avail s ev rule: sys_read.induct) (auto simp: Let_def)

lemma refill_quiet:
  assumes "jsonl_refill r = (x, r')" and "jr_quiet r"
  shows "jr_quiet r' \<and> (\<forall>e. x \<noteq> RErr e)"
  using assms
  by (auto simp: jsonl_refill_def jr_quiet_def split: if_splits option.splits sum.splits prod.splits
        dest: sys_read_quiet)

section \<open>Draining an oversize line\<close>

lemma drain_loop_spec:
  assumes "jr_quiet r" "jr_buf r = []" "jr_pos r = 0" "jr_ok r" "drain_loop r = (x, r')"
  shows "x = None \<and> jr_quiet r' \<and> jr_ok r' \<and> jr_pending r' = after_nl (jr_rest r) \<and>
    jr_offset r' + length (jr_pending r') = jr_offset r + length (jr_rest r)"
  using assms
proof (induction r arbitrary: x r' rule: drain_loop.induct)
  case (1 r)
  note ok = "1.prems"
  show ?case
  proof (cases "jr_eof r")
    case True
    with ok show ?thesis
      by (auto simp: drain_loop.simps [of r] jr_ok_def jr_pending_def after_nl_def)
  next
    case False
    obtain y r1 where ref: "jsonl_refill r = (y, r1)" by fastforce
    have q1: "jr_quiet r1" and noerr: "\<And>e. y \<noteq> RErr e"
      using refill_quiet [OF ref] ok by auto
    from noerr consider (zero) "y = RZero" | (got) "y = RGot" by (cases y) auto
    then show ?thesis
    proof cases
      case zero
      with ref ok False have "jr_rest r = [] \<and>
          (\<exists>ev. r1 = r\<lparr>jr_eof := True, jr_rest := [], jr_sched := ev\<rparr>)"
        using refill_zero [of r r1] by (auto simp: jr_ok_def)
      with zero ref ok False q1 show ?thesis
        by (auto simp: drain_loop.simps [of r] jr_ok_def jr_pending_def after_nl_def jr_quiet_def)
    next
      case got
      from refill_got [of r r1] ref got ok obtain bs s ev where
        bs: "bs \<noteq> []" "jr_rest r = bs @ s" "length bs \<le> jr_cap r"
        and r1: "r1 = r\<lparr>jr_buf := bs, jr_rest := s, jr_sched := ev\<rparr>" by auto
      show ?thesis
      proof (cases "memchr_nl bs")
        case (Some k)
        from memchr_nl_SomeD [OF Some] have k: "bs = take k bs @ nl # drop (Suc k) bs"
          "nl \<notin> set (take k bs)" "k < length bs" by auto
        have "after_nl (jr_rest r) = drop (Suc k) bs @ s"
          unfolding bs(2) by (subst k(1)) (use k(2) in \<open>simp add: after_nl_hit\<close>)
        with Some got ref ok False bs r1 q1 k(3) show ?thesis
          by (auto simp: drain_loop.simps [of r] jr_ok_def jr_pending_def jr_quiet_def)
      next
        case None
        let ?r2 = "r1\<lparr>jr_offset := jr_offset r1 + length (jr_buf r1), jr_buf := []\<rparr>"
        have rec: "drain_loop ?r2 = (x, r')"
          using ok(5) False ref got None r1 by (simp add: drain_loop.simps [of r])
        have m: "memchr_nl (jr_buf r1) = None" using None r1 by simp
        have p: "jr_quiet ?r2" "jr_ok ?r2" "jr_buf ?r2 = []" "jr_pos ?r2 = 0"
          using ok q1 r1 bs False by (auto simp: jr_ok_def jr_quiet_def)
        from "1.IH" [OF False ref [symmetric] got m p(1,3,4,2) rec]
        have h: "x = None \<and> jr_quiet r' \<and> jr_ok r' \<and> jr_pending r' = after_nl (jr_rest ?r2) \<and>
          jr_offset r' + length (jr_pending r') = jr_offset ?r2 + length (jr_rest ?r2)" .
        have "nl \<notin> set bs" using None r1 by simp
        then have "after_nl (jr_rest r) = after_nl (jr_rest ?r2)"
          using r1 bs by (simp add: after_nl_append)
        moreover have "jr_offset ?r2 + length (jr_rest ?r2) = jr_offset r + length (jr_rest r)"
          using r1 bs by simp
        ultimately show ?thesis using h by metis
      qed
    qed
  qed
qed

lemma oversize_spec:
  assumes "jr_quiet r" "jr_ok r" "nl \<notin> set (drop (jr_pos r) (jr_buf r))" "oversize r = (x, r')"
  shows "x = TooLong \<and> jr_quiet r' \<and> jr_ok r' \<and> jr_pending r' = after_nl (jr_pending r) \<and>
    jr_offset r' + length (jr_pending r') = jr_offset r + length (jr_pending r)"
proof -
  let ?r0 = "r\<lparr>jr_offset := jr_offset r + (length (jr_buf r) - jr_pos r), jr_pos := 0, jr_buf := []\<rparr>"
  obtain y r1 where d: "drain_loop ?r0 = (y, r1)" by fastforce
  have "jr_quiet ?r0" "jr_ok ?r0" using assms(1,2) by (auto simp: jr_quiet_def jr_ok_def)
  from drain_loop_spec [OF this(1) _ _ this(2) d]
  have "y = None" "jr_quiet r1" "jr_ok r1" "jr_pending r1 = after_nl (jr_rest r)"
    "jr_offset r1 + length (jr_pending r1) = jr_offset ?r0 + length (jr_rest r)" by auto
  moreover have "after_nl (jr_pending r) = after_nl (jr_rest r)"
    using assms(3) by (simp add: jr_pending_def after_nl_append)
  ultimately show ?thesis using assms(2,4) d
    by (auto simp: oversize_def jsonl_drain_oversize_def jr_pending_def jr_ok_def)
qed

section \<open>Reading a line\<close>

lemma grow_cap_want:
  assumes "0 < c" "c \<le> JSONL_MAX_LINE + 1"
    and "w = (if c * 2 > JSONL_MAX_LINE + 1 then JSONL_MAX_LINE + 1 else c * 2)" "w \<noteq> c"
  shows "grow_cap c w = w \<and> c < w"
proof (cases "c * 2 > JSONL_MAX_LINE + 1")
  case True
  with assms show ?thesis by (simp add: grow_cap.simps [of c])
next
  case False
  with assms have "w = c * 2" by simp
  with assms False show ?thesis
    by (simp add: grow_cap.simps [of c] grow_cap.simps [of "c * 2"])
qed

lemma jsonl_open_ok:
  "jr_ok (jsonl_open content off ev) \<and> jr_pending (jsonl_open content off ev) = drop off content \<and>
   jr_offset (jsonl_open content off ev) = off"
  by (simp add: jsonl_open_def jsonl_grow_def jr_ok_def jr_pending_def grow_cap.simps
      JSONL_INITIAL_BUF_def JSONL_MAX_LINE_def)

lemma jsonl_open_quiet: "\<forall>e. Fails e \<notin> set ev \<Longrightarrow> jr_quiet (jsonl_open content off ev)"
  by (simp add: jsonl_open_def jsonl_grow_def jr_quiet_def)

lemma compact_ok:
  assumes "jr_ok r" "r1 = (if jr_pos r > 0 then jsonl_compact r else r)"
  shows "jr_ok r1 \<and> jr_pos r1 = 0 \<and> jr_pending r1 = jr_pending r \<and>
    jr_buf r1 = drop (jr_pos r) (jr_buf r) \<and> jr_cap r1 = jr_cap r \<and> jr_offset r1 = jr_offset r \<and>
    (jr_quiet r \<longrightarrow> jr_quiet r1) \<and> jr_rest r1 = jr_rest r \<and> jr_eof r1 = jr_eof r"
  using assms by (auto simp: jsonl_compact_def jr_ok_def jr_pending_def jr_quiet_def)

lemma takeWhile_over:
  assumes "nl \<notin> set a" "n < length a" shows "n < length (takeWhile (\<lambda>c. c \<noteq> nl) (a @ b))"
proof -
  have "takeWhile (\<lambda>c. c \<noteq> nl) (a @ b) = a @ takeWhile (\<lambda>c. c \<noteq> nl) b"
    using assms(1) by (subst takeWhile_append2) auto
  with assms(2) show ?thesis by simp
qed

lemma spec_read_line:
  assumes "nl \<notin> set l" "length l \<le> JSONL_MAX_LINE"
  shows "spec_read (l @ nl # q) = (Line l, q)"
proof -
  have "takeWhile (\<lambda>c. c \<noteq> nl) (l @ nl # q) = l" using assms(1) by (subst takeWhile_append2) auto
  with assms show ?thesis by (simp add: spec_read_def after_nl_hit)
qed

lemma spec_read_eof:
  assumes "nl \<notin> set p" "length p \<le> JSONL_MAX_LINE" shows "spec_read p = (AtEof, p)"
proof -
  have "takeWhile (\<lambda>c. c \<noteq> nl) p = p" using assms(1) by (auto simp: takeWhile_eq_all_conv)
  with assms(2) show ?thesis by (simp only: spec_read_def Let_def) (simp add: assms(1))
qed

lemma spec_read_oversize:
  assumes "JSONL_MAX_LINE < length (takeWhile (\<lambda>c. c \<noteq> nl) p)"
  shows "spec_read p = (TooLong, after_nl p)"
  using assms by (simp add: spec_read_def Let_def)

text \<open>The scan hit: the line is wholly buffered.\<close>

lemma read_line_hit:
  assumes ok: "jr_ok r" and k: "memchr_nl (drop (jr_pos r) (jr_buf r)) = Some k"
    and rl: "jsonl_read_line r = (x, r')"
  shows "spec_read (jr_pending r) = (x, jr_pending r') \<and> jr_ok r' \<and> jr_offset r' + length (jr_pending r') =
    jr_offset r + length (jr_pending r) \<and> (jr_quiet r \<longrightarrow> jr_quiet r')"
proof -
  let ?t = "drop (jr_pos r) (jr_buf r)"
  from memchr_nl_SomeD [OF k] have t: "?t = take k ?t @ nl # drop (Suc k) ?t"
    "nl \<notin> set (take k ?t)" "k < length ?t" by auto
  from rl k have x: "x = Line (take k ?t)"
    and r': "r' = r\<lparr>jr_buf := (jr_buf r)[jr_pos r + k := CHR 0x00],
             jr_pos := jr_pos r + (k + 1), jr_offset := jr_offset r + (k + 1)\<rparr>"
    by (auto simp: jsonl_read_line.simps [of r])
  have p: "jr_pending r = take k ?t @ nl # (drop (Suc k) ?t @ jr_rest r)"
    unfolding jr_pending_def by (subst t(1)) simp
  have p': "jr_pending r' = drop (Suc k) ?t @ jr_rest r"
    using r' by (simp add: jr_pending_def drop_update_cancel add.commute)
  have "length (take k ?t) \<le> JSONL_MAX_LINE" using ok t(3) by (auto simp: jr_ok_def)
  from spec_read_line [OF t(2) this] p p' x
  have "spec_read (jr_pending r) = (x, jr_pending r')" by simp
  moreover have "jr_offset r' + length (jr_pending r') = jr_offset r + length (jr_pending r)"
    unfolding p p' using r' t(3) by simp
  moreover have "jr_ok r'" "jr_quiet r \<longrightarrow> jr_quiet r'"
    using ok t(3) r' by (auto simp: jr_ok_def jr_quiet_def)
  ultimately show ?thesis by blast
qed

text \<open>Refilling after the scan missed keeps the meaning of the reader.\<close>

lemma refill_keeps:
  assumes "jr_ok r" "jr_pos r = 0" "length (jr_buf r) < jr_cap r" "jsonl_refill r = (RGot, r')"
  shows "jr_ok r' \<and> jr_pending r' = jr_pending r \<and> jr_offset r' = jr_offset r"
  using assms refill_got [OF assms(4)] by (auto simp: jr_ok_def jr_pending_def)

lemma refill_end:
  assumes "jr_ok r" "jr_pos r = 0" "length (jr_buf r) < jr_cap r" "jsonl_refill r = (RZero, r')"
  shows "jr_ok r' \<and> jr_pending r' = jr_buf r \<and> jr_pending r = jr_buf r \<and> jr_offset r' = jr_offset r"
  using assms refill_zero [OF assms(4)] by (auto simp: jr_ok_def jr_pending_def)

lemma grow_keeps:
  assumes "jr_ok r" "length (jr_buf r) \<le> JSONL_MAX_LINE"
    and w: "w = (if jr_cap r * 2 > JSONL_MAX_LINE + 1 then JSONL_MAX_LINE + 1 else jr_cap r * 2)"
    and ne: "\<not> (length (jr_buf r) = jr_cap r \<and> w = jr_cap r)"
    and g: "g = (if length (jr_buf r) = jr_cap r then jsonl_grow r w else r)"
  shows "jr_ok g \<and> jr_pending g = jr_pending r \<and> jr_offset g = jr_offset r \<and> jr_pos g = jr_pos r \<and>
    jr_buf g = jr_buf r \<and> length (jr_buf g) < jr_cap g \<and> (jr_quiet r \<longrightarrow> jr_quiet g)"
proof (cases "length (jr_buf r) = jr_cap r")
  case True
  have "grow_cap (jr_cap r) w = w \<and> jr_cap r < w" "w \<le> JSONL_MAX_LINE + 1"
    using grow_cap_want [of "jr_cap r" w] assms(1) w ne True by (auto simp: jr_ok_def)
  with True assms(1) g show ?thesis
    by (auto simp: jsonl_grow_def jr_ok_def jr_pending_def jr_quiet_def)
next
  case False
  with assms show ?thesis by (auto simp: jr_ok_def)
qed

lemma jsonl_read_line_spec:
  assumes "jr_ok r" "jr_quiet r" "jsonl_read_line r = (x, r')"
  shows "spec_read (jr_pending r) = (x, jr_pending r') \<and> jr_ok r' \<and> jr_quiet r' \<and>
    jr_offset r' + length (jr_pending r') = jr_offset r + length (jr_pending r)"
  using assms
proof (induction r arbitrary: x r' rule: jsonl_read_line.induct)
  case (1 r)
  note ok = "1.prems"(1) and q = "1.prems"(2) and rl = "1.prems"(3)
  show ?case
  proof (cases "memchr_nl (drop (jr_pos r) (jr_buf r))")
    case (Some k)
    with read_line_hit [OF ok Some rl] q show ?thesis by blast
  next
    case None
    define r1 where "r1 = (if jr_pos r > 0 then jsonl_compact r else r)"
    define w where "w = (if jr_cap r1 * 2 > JSONL_MAX_LINE + 1 then JSONL_MAX_LINE + 1 else jr_cap r1 * 2)"
    define g where "g = (if length (jr_buf r1) = jr_cap r1 then jsonl_grow r1 w else r1)"
    note c = compact_ok [OF ok r1_def]
    have nonl: "nl \<notin> set (jr_buf r1)" using None c by simp
    have pend: "jr_pending r = jr_buf r1 @ jr_rest r1" using c by (simp add: jr_pending_def)
    have unf: "jsonl_read_line r =
      (if JSONL_MAX_LINE < length (jr_buf r1) then oversize r1
       else if length (jr_buf r1) = jr_cap r1 \<and> w = jr_cap r1 then oversize r1
       else case jsonl_refill g of
              (RErr e, r2) \<Rightarrow> (IoError e, r2)
            | (RZero, r2) \<Rightarrow> (AtEof, r2)
            | (RGot, r2) \<Rightarrow> jsonl_read_line r2)"
      unfolding r1_def w_def g_def by (subst jsonl_read_line.simps) (simp only: None option.case Let_def)
    consider (big) "length (jr_buf r1) > JSONL_MAX_LINE \<or> (length (jr_buf r1) = jr_cap r1 \<and> w = jr_cap r1)"
      | (fill) "length (jr_buf r1) \<le> JSONL_MAX_LINE" "\<not> (length (jr_buf r1) = jr_cap r1 \<and> w = jr_cap r1)"
      by linarith
    then show ?thesis
    proof cases
      case big
      then have "oversize r1 = (x, r')" using rl by (auto simp: unf split: if_splits)
      from oversize_spec [OF _ _ _ this] c q nonl
      have o: "x = TooLong \<and> jr_quiet r' \<and> jr_ok r' \<and> jr_pending r' = after_nl (jr_pending r1) \<and>
        jr_offset r' + length (jr_pending r') = jr_offset r1 + length (jr_pending r1)" by fastforce
      have "JSONL_MAX_LINE < length (jr_buf r1)"
        using big c by (auto simp: jr_ok_def w_def split: if_splits)
      from spec_read_oversize [OF takeWhile_over [OF nonl this, of "jr_rest r1"]]
      have "spec_read (jr_pending r) = (TooLong, after_nl (jr_pending r))" by (simp only: pend)
      with o c show ?thesis by metis
    next
      case fill
      from grow_keeps [OF _ fill(1) w_def fill(2) g_def] c
      have g: "jr_ok g" "jr_pending g = jr_pending r" "jr_offset g = jr_offset r" "jr_pos g = 0"
        "jr_buf g = jr_buf r1" "length (jr_buf g) < jr_cap g" "jr_quiet g" using q by auto
      obtain y r2 where ref: "jsonl_refill g = (y, r2)" by fastforce
      from refill_quiet [OF ref g(7)] have q2: "jr_quiet r2" and "\<And>e. y \<noteq> RErr e" by auto
      then consider (zero) "y = RZero" | (got) "y = RGot" by (cases y) auto
      then show ?thesis
      proof cases
        case zero
        then have "x = AtEof \<and> r' = r2"
          using rl fill ref by (simp add: unf)
        with refill_end [OF g(1,4,6)] ref zero g q2 nonl fill(1)
        show ?thesis by (simp add: spec_read_eof)
      next
        case got
        then have rec: "jsonl_read_line r2 = (x, r')"
          using rl fill ref by (simp add: unf)
        from refill_keeps [OF g(1,4,6)] ref got
        have r2: "jr_ok r2" "jr_pending r2 = jr_pending r" "jr_offset r2 = jr_offset r"
          using g by auto
        have "\<not> length (jr_buf r1) > JSONL_MAX_LINE" using fill by simp
        from "1.IH" [OF None r1_def refl w_def this fill(2) ref [unfolded g_def, symmetric] got r2(1) q2 rec]
        show ?thesis by (simp add: r2)
      qed
    qed
  qed
qed

section \<open>Properties\<close>

text \<open>C3: one call of \<open>jsonl_read_line\<close> is right for every way the kernel may cut the file into reads.
  A line it returns is exactly the text up to the next newline, of at most \<open>JSONL_MAX_LINE\<close> bytes,
  and the offset moves past that newline; at the end of the file the unread bytes are a partial
  line and the offset stays; a longer line is skipped whole. Bytes and offset always add up.\<close>

theorem jsonl_read_line_correct:
  assumes "jr_ok r" "jr_quiet r" "jsonl_read_line r = (x, r')"
  shows "jr_ok r' \<and> jr_quiet r' \<and>
    jr_offset r' + length (jr_pending r') = jr_offset r + length (jr_pending r) \<and>
    (case x of
       Line l \<Rightarrow> nl \<notin> set l \<and> length l \<le> JSONL_MAX_LINE \<and> jr_pending r = l @ nl # jr_pending r' \<and>
                 jr_offset r' = jr_offset r + length l + 1
     | AtEof \<Rightarrow> nl \<notin> set (jr_pending r) \<and> jr_pending r' = jr_pending r \<and> jr_offset r' = jr_offset r
     | TooLong \<Rightarrow> \<exists>l. nl \<notin> set l \<and> length l > JSONL_MAX_LINE \<and>
                   (jr_pending r = l @ nl # jr_pending r' \<or> (jr_pending r = l \<and> jr_pending r' = []))
     | IoError e \<Rightarrow> False)"
proof -
  note s = jsonl_read_line_spec [OF assms]
  let ?p = "jr_pending r" and ?l = "takeWhile (\<lambda>c. c \<noteq> nl) (jr_pending r)"
  have nl: "nl \<notin> set ?l" by (auto dest: set_takeWhileD)
  have hit: "?p = ?l @ nl # after_nl ?p" if "nl \<in> set ?p"
  proof -
    from that obtain y ys where d: "dropWhile (\<lambda>c. c \<noteq> nl) ?p = y # ys"
      by (cases "dropWhile (\<lambda>c. c \<noteq> nl) ?p") auto
    then have "y = nl" using hd_dropWhile [of "\<lambda>c. c \<noteq> nl" ?p] by auto
    with d have p: "?p = ?l @ nl # ys" by (metis takeWhile_dropWhile_id)
    then have "after_nl ?p = ys" using after_nl_hit [OF nl] by metis
    with p show ?thesis by simp
  qed
  have miss: "?l = ?p \<and> after_nl ?p = []" if "nl \<notin> set ?p"
    using that after_nl_none by (auto simp: takeWhile_eq_all_conv)
  from s have sr: "spec_read ?p = (x, jr_pending r')" by blast
  show ?thesis
  proof (cases x)
    case (Line l)
    with sr have l: "l = ?l" "nl \<in> set ?p" "length ?l \<le> JSONL_MAX_LINE" "jr_pending r' = after_nl ?p"
      by (auto simp: spec_read_def Let_def split: if_splits)
    with hit have p: "?p = l @ nl # jr_pending r'" by simp
    have "length ?p = length l + 1 + length (jr_pending r')" by (subst p) simp
    with s have "jr_offset r' = jr_offset r + length l + 1" by linarith
    moreover have "nl \<notin> set l" "length l \<le> JSONL_MAX_LINE" using l nl by auto
    ultimately show ?thesis using s Line p by simp
  next
    case AtEof
    with sr have "nl \<notin> set ?p" "jr_pending r' = ?p" by (auto simp: spec_read_def Let_def split: if_splits)
    with s AtEof show ?thesis by simp
  next
    case TooLong
    with sr have l: "length ?l > JSONL_MAX_LINE" "jr_pending r' = after_nl ?p"
      by (auto simp: spec_read_def Let_def split: if_splits)
    have "?p = ?l @ nl # jr_pending r' \<or> (?p = ?l \<and> jr_pending r' = [])"
      using hit [folded l(2)] miss [folded l(2)] by metis
    with nl l(1) have "\<exists>l. nl \<notin> set l \<and> length l > JSONL_MAX_LINE \<and>
        (?p = l @ nl # jr_pending r' \<or> (?p = l \<and> jr_pending r' = []))" by blast
    with s TooLong show ?thesis by simp
  next
    case (IoError e)
    with sr show ?thesis by (simp add: spec_read_def Let_def split: if_splits)
  qed
qed

theorem jsonl_read_line_correct_witness:
  "let r = jsonl_open (''ab'' @ [nl] @ ''c'') 0 [Chunk 1, Interrupted, Chunk 1]
   in case jsonl_read_line r of (x, r') \<Rightarrow> x = Line ''ab'' \<and> jr_pending r' = ''c'' \<and> jr_offset r' = 3"
proof -
  let ?r = "jsonl_open (''ab'' @ [nl] @ ''c'') 0 [Chunk 1, Interrupted, Chunk 1]"
  have ok: "jr_ok ?r" "jr_quiet ?r" "jr_pending ?r = ''ab'' @ nl # ''c''" "jr_offset ?r = 0"
    using jsonl_open_ok [of "''ab'' @ [nl] @ ''c''" 0] by (simp_all add: jsonl_open_quiet)
  obtain x r' where rl: "jsonl_read_line ?r = (x, r')" by fastforce
  have "fst (spec_read (jr_pending ?r)) = Line ''ab''"
    unfolding ok(3) by (subst spec_read_line) (simp_all add: JSONL_MAX_LINE_def)
  then have "x = Line ''ab''" using jsonl_read_line_spec [OF ok(1,2) rl] by (metis fst_conv)
  with jsonl_read_line_correct [OF ok(1,2) rl] ok(3,4) rl show ?thesis by (simp add: Let_def)
qed

end
