(* ===== verification/Ingest.thy ===== *)
theory Ingest
  imports Actions Jsonl
begin

text \<open>
  The phone event ingester of \<open>ingest.c\<close>: the four line handlers, the per-file loop with its
  offset and transaction, and the run over the four glob patterns.

  The JSON parser (jansson) is the parameter \<open>ie_json\<close>, from the bytes of a line to its value;
  the clock and the two date renderings are parameters too. A file's \<open>read(2)\<close> schedule comes
  from \<open>ie_reads\<close>.
\<close>

datatype json =
    JObject "(string \<times> json) list" | JArray "json list" | JString string | JInteger int
  | JReal | JTrue | JFalse | JNull

record ingest_env =
  ie_now_ms :: int
  ie_now_iso :: string
  ie_played_at :: "int \<Rightarrow> string"
  ie_iso_ms :: "int \<Rightarrow> string"
  ie_json :: "string \<Rightarrow> json option"
  ie_reads :: "path \<Rightarrow> read_ev list"

record ingest_stats =
  st_files_seen :: int
  st_plays :: int
  st_likes :: int
  st_pins :: int
  st_offsets :: int
  st_parse_error :: int
  st_oversize :: int

definition zero_stats :: ingest_stats where
  "zero_stats = \<lparr>st_files_seen = 0, st_plays = 0, st_likes = 0, st_pins = 0, st_offsets = 0,
     st_parse_error = 0, st_oversize = 0\<rparr>"

text \<open>What a handler works on: the world, the counters and \<open>max_event_ts\<close>.\<close>

record istate =
  i_w :: world
  i_stats :: ingest_stats
  i_max_ts :: int

section \<open>Validation\<close>

definition INGEST_TS_MIN_MS :: int where "INGEST_TS_MIN_MS = 1577836800000"

definition ts_plausible :: "ingest_env \<Rightarrow> int \<Rightarrow> bool" where
  "ts_plausible E ts \<longleftrightarrow> INGEST_TS_MIN_MS \<le> ts \<and> ts \<le> ie_now_ms E + 86400000"

definition hex_char :: "char \<Rightarrow> bool" where
  "hex_char c \<longleftrightarrow> (CHR ''0'' \<le> c \<and> c \<le> CHR ''9'') \<or> (CHR ''a'' \<le> c \<and> c \<le> CHR ''f'')"

definition is_sha256_hex :: "string \<Rightarrow> bool" where
  "is_sha256_hex s \<longleftrightarrow> length s = 64 \<and> (\<forall>c\<in>set s. hex_char c)"

fun json_object_get :: "json \<Rightarrow> string \<Rightarrow> json option" where
  "json_object_get (JObject fs) k = map_of fs k"
| "json_object_get _ k = None"

definition get_int :: "json \<Rightarrow> string \<Rightarrow> int option" where
  "get_int j k = (case json_object_get j k of Some (JInteger n) \<Rightarrow> Some n | _ \<Rightarrow> None)"

definition get_string :: "json \<Rightarrow> string \<Rightarrow> string option" where
  "get_string j k = (case json_object_get j k of Some (JString s) \<Rightarrow> Some s | _ \<Rightarrow> None)"

definition get_bool :: "json \<Rightarrow> string \<Rightarrow> bool option" where
  "get_bool j k = (case json_object_get j k of Some JTrue \<Rightarrow> Some True | Some JFalse \<Rightarrow> Some False
     | _ \<Rightarrow> None)"

text \<open>The checks likes, pins and actions share, in the code's order; \<open>None\<close> is \<open>return 1\<close>.\<close>

definition unit_id_ts :: "ingest_env \<Rightarrow> json \<Rightarrow> (string \<times> string \<times> int) option" where
  "unit_id_ts E j =
     (case (get_int j ''v'', get_int j ''ts'', get_string j ''unit'', get_string j ''id'') of
        (Some v, Some ts, Some u, Some i) \<Rightarrow>
          if v = 1 \<and> ts_plausible E ts \<and> (u = ''track'' \<or> u = ''album'') \<and> i \<noteq> [] \<and>
             (u = ''track'' \<longrightarrow> is_sha256_hex i)
          then Some (u, i, ts) else None
      | _ \<Rightarrow> None)"

definition bump_ts :: "int \<Rightarrow> istate \<Rightarrow> istate" where
  "bump_ts ts s = s\<lparr>i_max_ts := max ts (i_max_ts s)\<rparr>"

text \<open>Whether the next write statement fails for a reason other than a constraint.\<close>

definition sql_faulted :: "world \<Rightarrow> bool" where
  "sql_faulted w = (case w_sql w of True # q \<Rightarrow> True | _ \<Rightarrow> False)"

section \<open>The statements\<close>

definition insert_play :: "play \<Rightarrow> db \<Rightarrow> db option" where
  "insert_play p d =
     (if pl_sha p \<notin> track_shas d then None
      else Some (d\<lparr>plays := plays d @ [p\<lparr>pl_id := Suc (play_seq d)\<rparr>], play_seq := Suc (play_seq d)\<rparr>))"

text \<open>
  The last-writer-wins updates: \<open>DO UPDATE ... WHERE excluded.ts >= likes.ts\<close>.
\<close>

definition lww_like :: "like \<Rightarrow> like \<Rightarrow> like" where
  "lww_like old new = (if lk_ts new \<ge> lk_ts old
     then old\<lparr>lk_liked := lk_liked new, lk_ts := lk_ts new\<rparr> else old)"

definition lww_pin :: "pin \<Rightarrow> pin \<Rightarrow> pin" where
  "lww_pin old new = (if pn_ts new \<ge> pn_ts old
     then old\<lparr>pn_pinned := pn_pinned new, pn_ts := pn_ts new, pn_updated := pn_updated new\<rparr> else old)"

definition upsert_like :: "like \<Rightarrow> db \<Rightarrow> db" where
  "upsert_like r d = d\<lparr>likes := upsert like_key lww_like r (likes d)\<rparr>"

definition upsert_pin :: "pin \<Rightarrow> db \<Rightarrow> db" where
  "upsert_pin r d = d\<lparr>pins := upsert pin_key lww_pin r (pins d)\<rparr>"

definition merge_offset :: "offset_row \<Rightarrow> offset_row \<Rightarrow> offset_row" where
  "merge_offset old new = old\<lparr>of_offset := of_offset new,
     of_last_ts := max (of_last_ts old) (of_last_ts new), of_updated := of_updated new\<rparr>"

definition lookup_offset :: "db \<Rightarrow> string \<Rightarrow> int" where
  "lookup_offset d rel = (case find_row of_path rel (ingest_offsets d) of
     None \<Rightarrow> 0 | Some r \<Rightarrow> of_offset r)"

definition set_offset :: "ingest_env \<Rightarrow> string \<Rightarrow> int \<Rightarrow> int \<Rightarrow> db \<Rightarrow> db" where
  "set_offset E rel off ts d = d\<lparr>ingest_offsets := upsert of_path merge_offset
     \<lparr>of_path = rel, of_offset = off, of_last_ts = ts, of_updated = ie_now_ms E\<rparr> (ingest_offsets d)\<rparr>"

text \<open>\<open>src_from_relpath\<close>: the base name without a \<open>.jsonl\<close> suffix.\<close>

definition src_from_relpath :: "string \<Rightarrow> string" where
  "src_from_relpath rel =
     (let base = (case split_last slash rel of Some (d, b) \<Rightarrow> b | None \<Rightarrow> rel);
          n = length base; elen = length ''.jsonl''
      in if n > elen \<and> drop (n - elen) base = ''.jsonl'' then take (n - elen) base else base)"

definition strip_slashes :: "string \<Rightarrow> string" where
  "strip_slashes s = rev (dropWhile (\<lambda>c. c = slash) (rev s))"

definition make_relpath :: "string \<Rightarrow> path \<Rightarrow> string option" where
  "make_relpath meta_dir p =
     (case strip_prefix (strip_slashes meta_dir) p of
        Some (c # rest) \<Rightarrow> if c = slash \<and> rest \<noteq> [] then Some rest else None
      | _ \<Rightarrow> None)"

section \<open>The handlers: 0 counted, 1 skipped, -1 database error\<close>

definition handle_play :: "ingest_env \<Rightarrow> string \<Rightarrow> bool \<Rightarrow> json \<Rightarrow> istate \<Rightarrow> int \<times> istate" where
  "handle_play E rel dry j s =
     (case (get_int j ''v'', get_int j ''ts'', get_string j ''kind'', get_string j ''track'',
            get_int j ''played_ms'') of
        (Some v, Some ts, Some kind, Some h, Some ms) \<Rightarrow>
          if v = 1 \<and> ts_plausible E ts \<and> (kind = ''play'' \<or> kind = ''skip'') \<and> is_sha256_hex h \<and> 0 \<le> ms
          then
            let s1 = bump_ts ts s;
                counted = (i_stats s1)\<lparr>st_plays := st_plays (i_stats s1) + 1\<rparr>
            in if dry then (0, s1\<lparr>i_stats := counted\<rparr>)
               else
                 let row = \<lparr>pl_id = 0, pl_sha = h, pl_played_at = ie_played_at E ts, pl_played_ms = ms,
                            pl_skip = (kind = ''skip''), pl_src = src_from_relpath rel, pl_ts = ts,
                            pl_kind = kind, pl_source = rel\<rparr>
                 in (case sql_exec (insert_play row) (i_w s1) of
                       (ok, w') \<Rightarrow>
                         if ok then (0, s1\<lparr>i_w := w', i_stats := counted\<rparr>)
                         else if \<not> sql_faulted (i_w s1) then (1, s1\<lparr>i_w := w'\<rparr>)
                         else (-1, s1\<lparr>i_w := w'\<rparr>))
          else (1, s)
      | _ \<Rightarrow> (1, s))"

definition handle_like :: "ingest_env \<Rightarrow> bool \<Rightarrow> json \<Rightarrow> istate \<Rightarrow> int \<times> istate" where
  "handle_like E dry j s =
     (case (unit_id_ts E j, get_bool j ''liked'') of
        (Some (u, i, ts), Some liked) \<Rightarrow>
          let s1 = bump_ts ts s;
              counted = (i_stats s1)\<lparr>st_likes := st_likes (i_stats s1) + 1\<rparr>
          in if dry then (0, s1\<lparr>i_stats := counted\<rparr>)
             else (case sql_write (upsert_like \<lparr>lk_unit = u, lk_id = i, lk_liked = liked, lk_ts = ts\<rparr>)
                          (i_w s1) of
                     (ok, w') \<Rightarrow> if ok then (0, s1\<lparr>i_w := w', i_stats := counted\<rparr>)
                                 else (-1, s1\<lparr>i_w := w'\<rparr>))
      | _ \<Rightarrow> (1, s))"

definition clear_override :: "sha \<Rightarrow> db \<Rightarrow> db" where
  "clear_override h d = d\<lparr>unsync_overrides := filter (\<lambda>r. us_sha r \<noteq> h) (unsync_overrides d)\<rparr>"

definition handle_pin :: "ingest_env \<Rightarrow> bool \<Rightarrow> json \<Rightarrow> istate \<Rightarrow> int \<times> istate" where
  "handle_pin E dry j s =
     (case (unit_id_ts E j, get_bool j ''pinned'') of
        (Some (u, i, ts), Some pinned) \<Rightarrow>
          let s1 = bump_ts ts s;
              counted = (i_stats s1)\<lparr>st_pins := st_pins (i_stats s1) + 1\<rparr>
          in if dry then (0, s1\<lparr>i_stats := counted\<rparr>)
             else if u = ''track'' \<and> is_blacklisted i (w_db (i_w s1)) then (0, s1)
             else (case sql_write (upsert_pin \<lparr>pn_unit = u, pn_id = i, pn_pinned = pinned,
                            pn_updated = ie_iso_ms E ts, pn_ts = ts\<rparr>) (i_w s1) of
                     (ok, w1) \<Rightarrow>
                       if \<not> ok then (-1, s1\<lparr>i_w := w1\<rparr>)
                       else
                         let w2 = (if pinned \<and> u = ''track'' then snd (sql_write (clear_override i) w1)
                                   else w1)
                         in (0, s1\<lparr>i_w := w2, i_stats := counted\<rparr>))
      | _ \<Rightarrow> (1, s))"

definition pin_ts_of :: "sha \<Rightarrow> db \<Rightarrow> int" where
  "pin_ts_of h d = (case find_row pin_key (''track'', h) (pins d) of None \<Rightarrow> 0 | Some r \<Rightarrow> pn_ts r)"

definition handle_action :: "ingest_env \<Rightarrow> bool \<Rightarrow> json \<Rightarrow> istate \<Rightarrow> int \<times> istate" where
  "handle_action E dry j s =
     (case (unit_id_ts E j, get_string j ''action'') of
        (Some (u, i, ts), Some action) \<Rightarrow>
          if action \<noteq> ''unsync'' \<and> action \<noteq> ''delete'' then (1, s)
          else
            let is_delete = (action = ''delete'');
                s1 = bump_ts ts s;
                counted = (i_stats s1)\<lparr>st_pins := st_pins (i_stats s1) + 1\<rparr>
            in if dry then (0, s1)
               else if \<not> is_delete \<and> u = ''track'' \<and> pin_ts_of i (w_db (i_w s1)) > ts
                    then (0, s1\<lparr>i_stats := counted\<rparr>)
               else
                 let act = (if u = ''album''
                            then (if is_delete then delete_album_everywhere else unsync_album)
                            else (if is_delete then delete_track_everywhere else unsync_track))
                 in (case act (ie_now_iso E) i (i_w s1, no_actions) of
                       (rc, w', _) \<Rightarrow> if rc < 0 then (-1, s1\<lparr>i_w := w'\<rparr>)
                                      else (0, s1\<lparr>i_w := w', i_stats := counted\<rparr>))
      | _ \<Rightarrow> (1, s))"

datatype file_kind = KIND_STATS | KIND_LIKES | KIND_PINS | KIND_ACTIONS

fun handle :: "ingest_env \<Rightarrow> file_kind \<Rightarrow> string \<Rightarrow> bool \<Rightarrow> json \<Rightarrow> istate \<Rightarrow> int \<times> istate" where
  "handle E KIND_STATS rel dry = handle_play E rel dry"
| "handle E KIND_LIKES rel dry = handle_like E dry"
| "handle E KIND_PINS rel dry = handle_pin E dry"
| "handle E KIND_ACTIONS rel dry = handle_action E dry"

definition parse_error :: "istate \<Rightarrow> istate" where
  "parse_error s = s\<lparr>i_stats := (i_stats s)\<lparr>st_parse_error := st_parse_error (i_stats s) + 1\<rparr>\<rparr>"

definition count_oversize :: "istate \<Rightarrow> istate" where
  "count_oversize s = s\<lparr>i_stats := (i_stats s)\<lparr>st_oversize := st_oversize (i_stats s) + 1\<rparr>\<rparr>"

text \<open>The body of the loop for a line that was read; the flag is \<open>file_failed\<close>.\<close>

definition ingest_line ::
  "ingest_env \<Rightarrow> file_kind \<Rightarrow> string \<Rightarrow> bool \<Rightarrow> string \<Rightarrow> istate \<Rightarrow> bool \<times> istate" where
  "ingest_line E kind rel dry line s =
     (if line = [] then (False, s)
      else case ie_json E line of
        Some (JObject fs) \<Rightarrow>
          (case handle E kind rel dry (JObject fs) s of
             (hr, s') \<Rightarrow> if hr = 1 then (False, parse_error s') else (hr < 0, s'))
      | _ \<Rightarrow> (False, parse_error s))"

section \<open>One file\<close>

text \<open>
  The read loop as the code has it: it returns when the reader reports the end of the file,
  a read error or a database error. \<open>None\<close> would be a loop that never returns.
\<close>

partial_function (option) ingest_loop ::
  "ingest_env \<Rightarrow> file_kind \<Rightarrow> string \<Rightarrow> bool \<Rightarrow> jsonl_reader \<Rightarrow> istate \<Rightarrow>
   (bool \<times> jsonl_reader \<times> istate) option" where
  "ingest_loop E kind rel dry r s =
     (case jsonl_read_line r of
        (AtEof, r') \<Rightarrow> Some (False, r', s)
      | (TooLong, r') \<Rightarrow> ingest_loop E kind rel dry r' (count_oversize s)
      | (IoError e, r') \<Rightarrow> Some (True, r', s)
      | (Line l, r') \<Rightarrow>
          (case ingest_line E kind rel dry l s of
             (bad, s') \<Rightarrow> if bad then Some (True, r', s') else ingest_loop E kind rel dry r' s'))"

declare ingest_loop.simps [code]

text \<open>
  After the loop: advance the offset, then commit or roll back. The flag of the result is
  \<open>file_failed\<close>.
\<close>

definition ingest_finish ::
  "ingest_env \<Rightarrow> string \<Rightarrow> bool \<Rightarrow> int \<Rightarrow> int \<Rightarrow> bool \<Rightarrow> istate \<Rightarrow> bool \<times> istate" where
  "ingest_finish E rel dry old_offset new_offset failed s =
     (let advance = \<not> failed \<and> new_offset > old_offset;
          counted = s\<lparr>i_stats := (i_stats s)\<lparr>st_offsets := st_offsets (i_stats s) + 1\<rparr>\<rparr>;
          (failed1, s1) =
            (if advance \<and> \<not> dry then
               (case sql_write (set_offset E rel new_offset (i_max_ts s)) (i_w s) of
                  (True, w') \<Rightarrow> (False, counted\<lparr>i_w := w'\<rparr>)
                | (False, w') \<Rightarrow> (True, s\<lparr>i_w := w'\<rparr>))
             else if advance then (failed, counted) else (failed, s))
      in if dry then (failed1, s1)
         else if failed1 then (True, s1\<lparr>i_w := db_rollback (i_w s1)\<rparr>)
         else (case db_commit (i_w s1) of
                 (True, w') \<Rightarrow> (False, s1\<lparr>i_w := w'\<rparr>)
               | (False, w') \<Rightarrow> (True, s1\<lparr>i_w := w'\<rparr>)))"

definition ingest_one_file ::
  "ingest_env \<Rightarrow> path \<Rightarrow> file_kind \<Rightarrow> bool \<Rightarrow> path \<Rightarrow> world \<times> ingest_stats \<Rightarrow>
   (bool \<times> world \<times> ingest_stats) option" where
  "ingest_one_file E meta_dir kind dry abs_path = (\<lambda>(w, st).
     case make_relpath meta_dir abs_path of
       None \<Rightarrow> Some (False, w, st)
     | Some rel \<Rightarrow>
         (case fs_content (w_fs w) abs_path of
            None \<Rightarrow> Some (False, w, st)
          | Some bytes \<Rightarrow>
              let stored = lookup_offset (w_db w) rel;
                  old_offset = (if stored > int (length bytes) then 0 else stored);
                  r = jsonl_open bytes (nat old_offset) (ie_reads E abs_path);
                  (begun, w0) = (if dry then (True, w) else db_begin w)
              in if \<not> begun then Some (True, w0, st)
                 else (case ingest_loop E kind rel dry r \<lparr>i_w = w0, i_stats = st, i_max_ts = 0\<rparr> of
                         None \<Rightarrow> None
                       | Some (failed, r', s) \<Rightarrow>
                           (case ingest_finish E rel dry old_offset (int (jr_offset r')) failed s of
                              (f, s') \<Rightarrow> Some (f, i_w s', i_stats s')))))"

section \<open>The run\<close>

text \<open>The patterns the run globs, split at their star.\<close>

fun glob_pattern :: "file_kind \<Rightarrow> string \<times> string" where
  "glob_pattern KIND_STATS = (''stats/phone-'', ''.jsonl'')"
| "glob_pattern KIND_LIKES = (''likes-phone-'', ''.jsonl'')"
| "glob_pattern KIND_PINS = (''pins-phone-'', ''.jsonl'')"
| "glob_pattern KIND_ACTIONS = (''actions-phone-'', ''.jsonl'')"

definition glob_match :: "string \<Rightarrow> string \<Rightarrow> string \<Rightarrow> bool" where
  "glob_match pre suf p \<longleftrightarrow>
     (case strip_prefix pre p of
        None \<Rightarrow> False
      | Some q \<Rightarrow> length suf \<le> length q \<and> drop (length q - length suf) q = suf \<and>
                  slash \<notin> set (take (length q - length suf) q))"

text \<open>\<open>glob(3)\<close> sorts its result.\<close>

definition glob_files :: "path \<Rightarrow> file_kind \<Rightarrow> fs \<Rightarrow> path list" where
  "glob_files meta_dir kind s =
     (case glob_pattern kind of (pre, suf) \<Rightarrow>
        sort (filter (glob_match (strip_slashes meta_dir @ slash # pre) suf) (map fst (fs_nodes s))))"

fun ingest_files ::
  "ingest_env \<Rightarrow> path \<Rightarrow> file_kind \<Rightarrow> bool \<Rightarrow> path list \<Rightarrow> bool \<times> world \<times> ingest_stats \<Rightarrow>
   (bool \<times> world \<times> ingest_stats) option" where
  "ingest_files E meta_dir kind dry [] x = Some x"
| "ingest_files E meta_dir kind dry (p # ps) (rc, w, st) =
     (case ingest_one_file E meta_dir kind dry p (w, st\<lparr>st_files_seen := st_files_seen st + 1\<rparr>) of
        None \<Rightarrow> None
      | Some (failed, w', st') \<Rightarrow> ingest_files E meta_dir kind dry ps (rc \<or> failed, w', st'))"

definition run_glob ::
  "ingest_env \<Rightarrow> path \<Rightarrow> bool \<Rightarrow> file_kind \<Rightarrow> bool \<times> world \<times> ingest_stats \<Rightarrow>
   (bool \<times> world \<times> ingest_stats) option" where
  "run_glob E meta_dir dry kind x =
     ingest_files E meta_dir kind dry (glob_files meta_dir kind (w_fs (fst (snd x)))) x"

text \<open>\<open>ingest_run\<close>: the flag of the result is the return code -1.\<close>

definition ingest_run ::
  "ingest_env \<Rightarrow> path \<Rightarrow> bool \<Rightarrow> world \<Rightarrow> (bool \<times> world \<times> ingest_stats) option" where
  "ingest_run E meta_dir dry w =
     (if meta_dir = [] then Some (False, w, zero_stats)
      else Option.bind (run_glob E meta_dir dry KIND_STATS (False, w, zero_stats))
        (\<lambda>x. Option.bind (run_glob E meta_dir dry KIND_LIKES x)
        (\<lambda>x. Option.bind (run_glob E meta_dir dry KIND_PINS x)
        (\<lambda>x. run_glob E meta_dir dry KIND_ACTIONS x))))"

end
