(* ===== verification/IngestSpec.thy ===== *)
theory IngestSpec
  imports Ingest
begin

text \<open>
  What the ingester promises. The reference semantics of a file is a fold over its unread
  bytes (\<open>ingest_spec\<close>); the loop of \<open>ingest.c\<close> refines it for every read schedule. A locale
  states what an invariant of the database must satisfy to survive the handlers; it is
  interpreted for the schema constraints, the offsets and the blacklist. A second locale is
  the algebra of a last-writer-wins table; likes and pins are its instances.
\<close>

section \<open>The reference semantics of a file\<close>

lemma spec_read_shorter:
  assumes "spec_read p = (x, q)" shows "x = AtEof \<and> q = p \<or> length q < length p"
proof -
  have "length (after_nl p) < length p" if "p \<noteq> []" using that by (cases p) (auto simp: after_nl_def)
  moreover have "p \<noteq> []" if "JSONL_MAX_LINE < length (takeWhile (\<lambda>c. c \<noteq> nl) p) \<or> nl \<in> set p"
    using that by (auto simp: JSONL_MAX_LINE_def)
  ultimately show ?thesis using assms by (auto simp: spec_read_def Let_def split: if_splits)
qed

function ingest_spec ::
  "ingest_env \<Rightarrow> file_kind \<Rightarrow> string \<Rightarrow> bool \<Rightarrow> string \<Rightarrow> istate \<Rightarrow> bool \<times> string \<times> istate" where
  "ingest_spec E kind rel dry p s =
     (case spec_read p of
        (TooLong, q) \<Rightarrow> ingest_spec E kind rel dry q (count_oversize s)
      | (Line l, q) \<Rightarrow>
          (case ingest_line E kind rel dry l s of
             (bad, s') \<Rightarrow> if bad then (True, q, s') else ingest_spec E kind rel dry q s')
      | (_, q) \<Rightarrow> (False, q, s))"
  by pat_completeness auto
termination
  by (relation "measure (\<lambda>(E, kind, rel, dry, p, s). length p)")
    (auto dest: spec_read_shorter [OF sym])

declare ingest_spec.simps [simp del]

lemma spec_read_AtEof: "spec_read p = (AtEof, q) \<Longrightarrow> q = p"
  by (auto simp: spec_read_def Let_def split: if_splits)

lemma spec_read_not_io: "spec_read p \<noteq> (IoError e, q)"
  by (simp add: spec_read_def Let_def)

text \<open>The loop of the code, on any reader that holds the bytes \<open>p\<close>, is the reference.\<close>

lemma ingest_loop_spec:
  assumes "jr_ok r" "jr_quiet r" "ingest_spec E kind rel dry (jr_pending r) s = (f, q, s')"
  shows "\<exists>r'. ingest_loop E kind rel dry r s = Some (f, r', s') \<and> jr_pending r' = q \<and>
    jr_offset r' + length q = jr_offset r + length (jr_pending r)"
  using assms
proof (induction E kind rel dry "jr_pending r" s arbitrary: r rule: ingest_spec.induct)
  case (1 E kind rel dry s)
  note IH = "1.hyps" and ok = "1.prems"(1,2) and sp = "1.prems"(3)
  obtain x r1 where rl: "jsonl_read_line r = (x, r1)" by fastforce
  from jsonl_read_line_spec [OF ok rl]
  have rd: "spec_read (jr_pending r) = (x, jr_pending r1)" and ok1: "jr_ok r1" "jr_quiet r1"
    and off: "jr_offset r1 + length (jr_pending r1) = jr_offset r + length (jr_pending r)" by auto
  show ?case
  proof (cases x)
    case (Line l)
    obtain bad s1 where il: "ingest_line E kind rel dry l s = (bad, s1)" by fastforce
    show ?thesis
    proof (cases bad)
      case True
      with sp Line rd il rl off show ?thesis
        by (auto simp: ingest_spec.simps [of E kind rel dry "jr_pending r"]
            ingest_loop.simps [of E kind rel dry r])
    next
      case False
      then have rec: "ingest_spec E kind rel dry (jr_pending r1) s1 = (f, q, s')"
        using sp Line rd il by (simp add: ingest_spec.simps [of E kind rel dry "jr_pending r"])
      from IH(1) [OF rd [symmetric] Line il [symmetric] False ok1 rec] rl Line il False off
      show ?thesis by (auto simp: ingest_loop.simps [of E kind rel dry r])
    qed
  next
    case AtEof
    with sp rd rl off show ?thesis
      by (auto simp: ingest_spec.simps [of E kind rel dry "jr_pending r"]
          ingest_loop.simps [of E kind rel dry r])
  next
    case TooLong
    then have rec: "ingest_spec E kind rel dry (jr_pending r1) (count_oversize s) = (f, q, s')"
      using sp rd by (simp add: ingest_spec.simps [of E kind rel dry "jr_pending r"])
    from IH(2) [OF rd [symmetric] TooLong ok1 rec] rl TooLong off
    show ?thesis by (auto simp: ingest_loop.simps [of E kind rel dry r])
  next
    case (IoError e)
    with rd spec_read_not_io show ?thesis by auto
  qed
qed

text \<open>Where the loop stopped without a failure there is no further line to read.\<close>

lemma ingest_spec_end:
  "ingest_spec E kind rel dry p s = (False, q, s') \<Longrightarrow>
   spec_read q = (AtEof, q) \<and> length q \<le> length p \<and> (\<exists>pre. p = pre @ q)"
proof (induction E kind rel dry p s rule: ingest_spec.induct)
  case (1 E kind rel dry p s)
  have suf: "\<exists>pre. p = pre @ after_nl p" by (metis after_nl_def append_take_drop_id)
  obtain x p1 where rd: "spec_read p = (x, p1)" by fastforce
  from spec_read_shorter [OF rd] have len: "length p1 \<le> length p" by auto
  have p1: "\<exists>pre. p = pre @ p1" using rd suf
    by (auto simp: spec_read_def Let_def split: if_splits)
  show ?case
  proof (cases x)
    case (Line l)
    obtain bad s1 where il: "ingest_line E kind rel dry l s = (bad, s1)" by fastforce
    with "1.prems" rd Line have "\<not> bad" "ingest_spec E kind rel dry p1 s1 = (False, q, s')"
      by (auto simp: ingest_spec.simps [of E kind rel dry p] split: if_splits)
    from "1.IH"(1) [OF rd [symmetric] Line il [symmetric] this] len p1 show ?thesis
      by (metis append.assoc le_trans)
  next
    case TooLong
    with "1.prems" rd have "ingest_spec E kind rel dry p1 (count_oversize s) = (False, q, s')"
      by (simp add: ingest_spec.simps [of E kind rel dry p])
    from "1.IH"(2) [OF rd [symmetric] TooLong this] len p1 show ?thesis
      by (metis append.assoc le_trans)
  next
    case AtEof
    with "1.prems" rd have "q = p1" by (simp add: ingest_spec.simps [of E kind rel dry p])
    with AtEof rd spec_read_AtEof [of p p1] show ?thesis by auto
  next
    case (IoError e)
    with rd spec_read_not_io show ?thesis by auto
  qed
qed

section \<open>Lifting an invariant of the world over the lines of a file\<close>

definition handler_keeps :: "(world \<Rightarrow> bool) \<Rightarrow> ingest_env \<Rightarrow> file_kind \<Rightarrow> string \<Rightarrow> bool \<Rightarrow> bool" where
  "handler_keeps Q E kind rel dry \<longleftrightarrow>
     (\<forall>j s c s'. Q (i_w s) \<longrightarrow> handle E kind rel dry j s = (c, s') \<longrightarrow> Q (i_w s'))"

lemma ingest_line_lift:
  assumes "handler_keeps Q E kind rel dry" "Q (i_w s)" "ingest_line E kind rel dry l s = (b, s')"
  shows "Q (i_w s')"
  using assms
  by (auto simp: handler_keeps_def ingest_line_def parse_error_def
      split: if_splits option.splits json.splits prod.splits)

lemma ingest_spec_lift:
  assumes "Q (i_w s)" "ingest_spec E kind rel dry p s = (f, q, s')" "handler_keeps Q E kind rel dry"
  shows "Q (i_w s')"
  using assms
proof (induction E kind rel dry p s rule: ingest_spec.induct)
  case (1 E kind rel dry p s)
  obtain x p1 where rd: "spec_read p = (x, p1)" by fastforce
  note q = "1.prems"(1) and sp = "1.prems"(2) and h = "1.prems"(3)
  show ?case
  proof (cases x)
    case (Line l)
    obtain bad s1 where il: "ingest_line E kind rel dry l s = (bad, s1)" by fastforce
    have s1: "Q (i_w s1)" using h q il by (rule ingest_line_lift)
    show ?thesis
    proof (cases bad)
      case True
      with sp rd Line il s1 show ?thesis by (auto simp: ingest_spec.simps [of E kind rel dry p])
    next
      case False
      with sp rd Line il have "ingest_spec E kind rel dry p1 s1 = (f, q, s')"
        by (auto simp: ingest_spec.simps [of E kind rel dry p])
      from "1.IH"(1) [OF rd [symmetric] Line il [symmetric] False s1 this h] show ?thesis .
    qed
  next
    case TooLong
    have "Q (i_w (count_oversize s))" using q by (simp add: count_oversize_def)
    moreover have "ingest_spec E kind rel dry p1 (count_oversize s) = (f, q, s')"
      using sp rd TooLong by (auto simp: ingest_spec.simps [of E kind rel dry p])
    ultimately show ?thesis using "1.IH"(2) [OF rd [symmetric] TooLong _ _ h] by blast
  qed (use q sp rd in \<open>auto simp: ingest_spec.simps [of E kind rel dry p]\<close>)
qed

lemma ingest_loop_lift:
  assumes "ingest_loop E kind rel dry r s = Some y" "Q (i_w s)" "handler_keeps Q E kind rel dry"
  shows "Q (i_w (snd (snd y)))"
proof -
  let ?P = "\<lambda>E kind rel dry r s y. Q (i_w s) \<longrightarrow> handler_keeps Q E kind rel dry \<longrightarrow> Q (i_w (snd (snd y)))"
  have "?P E kind rel dry r s y"
  proof (rule ingest_loop.raw_induct [OF _ assms(1), where P = ?P], intro impI)
    fix loop E kind rel dry r s y
    assume IH: "\<And>E kind rel dry r s y. loop E kind rel dry r s = Some y \<Longrightarrow> ?P E kind rel dry r s y"
      and body: "(case jsonl_read_line r of
        (AtEof, r') \<Rightarrow> Some (False, r', s)
      | (TooLong, r') \<Rightarrow> loop E kind rel dry r' (count_oversize s)
      | (IoError e, r') \<Rightarrow> Some (True, r', s)
      | (Line l, r') \<Rightarrow>
          (case ingest_line E kind rel dry l s of
             (bad, s') \<Rightarrow> if bad then Some (True, r', s') else loop E kind rel dry r' s')) = Some y"
      and q: "Q (i_w s)" and h: "handler_keeps Q E kind rel dry"
    obtain x r1 where rl: "jsonl_read_line r = (x, r1)" by fastforce
    show "Q (i_w (snd (snd y)))"
    proof (cases x)
      case (Line l)
      obtain bad s1 where il: "ingest_line E kind rel dry l s = (bad, s1)" by fastforce
      have s1: "Q (i_w s1)" using h q il by (rule ingest_line_lift)
      from body rl Line il have "if bad then y = (True, r1, s1) else loop E kind rel dry r1 s1 = Some y"
        by (auto split: if_splits)
      with IH [of E kind rel dry r1 s1 y] s1 h show ?thesis by (auto split: if_splits)
    next
      case TooLong
      then have "loop E kind rel dry r1 (count_oversize s) = Some y" using body rl by simp
      with IH [OF this] q h show ?thesis by (simp add: count_oversize_def)
    qed (use body rl q in auto)
  qed
  with assms show ?thesis by blast
qed

section \<open>Invariants of the database under the handlers\<close>

locale db_inv =
  fixes P :: "db \<Rightarrow> bool"
  assumes play: "P d \<Longrightarrow> insert_play r d = Some d' \<Longrightarrow> P d'"
    and like: "P d \<Longrightarrow> P (upsert_like l d)"
    and pin: "P d \<Longrightarrow> \<not> (pn_unit p = ''track'' \<and> is_blacklisted (pn_id p) d) \<Longrightarrow> P (upsert_pin p d)"
    and clear: "P d \<Longrightarrow> P (clear_override h d)"
    and unpin: "P d \<Longrightarrow> P (unpin_rows h now d)"
    and override: "P d \<Longrightarrow> P (add_override h now d)"
    and erase: "P d \<Longrightarrow> P (delete_tracks (\<lambda>t. t_sha t = h) (add_blacklist h now d))"
begin

lemma unsync_inv:
  assumes "P (w_db w)" "unsync_track now h (w, st) = (c, w', st')"
  shows "P (w_db w')"
proof -
  obtain b w1 where u: "sql_write (unpin_rows h now) w = (b, w1)" by fastforce
  obtain b2 w2 where o: "sql_write (add_override h now) w1 = (b2, w2)" by fastforce
  have "P (w_db w1)" using sql_write_inv [OF u, of P] assms(1) unpin by blast
  then have "P (w_db w2)" using sql_write_inv [OF o, of P] override by blast
  moreover have "w' = w2" using assms(2) u o by (auto simp: unsync_track_def Let_def split: if_splits)
  ultimately show ?thesis by simp
qed

lemma delete_inv:
  "P (w_db w) \<Longrightarrow> delete_track_everywhere now h (w, st) = (c, w', st') \<Longrightarrow> P (w_db w')"
  by (drule delete_track_cases) (auto simp: erase)

lemma handle_play_inv:
  assumes "P (w_db (i_w s))" "handle_play E rel dry j s = (c, s')"
  shows "P (w_db (i_w s'))"
  using assms
  by (auto simp: handle_play_def Let_def bump_ts_def split: option.splits if_splits prod.splits
      elim!: sql_exec_cases intro: play)

lemma handle_like_inv:
  assumes "P (w_db (i_w s))" "handle_like E dry j s = (c, s')"
  shows "P (w_db (i_w s'))"
  using assms
  by (auto simp: handle_like_def Let_def bump_ts_def split: option.splits if_splits prod.splits
      elim!: sql_write_cases intro: like)

lemma clear_step_inv: "P (w_db w) \<Longrightarrow> P (w_db (snd (sql_write (clear_override h) w)))"
  by (metis clear prod.collapse sql_write_inv)

lemma pin_row_inv:
  assumes "P (w_db w)" "u = ''track'' \<longrightarrow> \<not> is_blacklisted i (w_db w)"
    "sql_write (upsert_pin \<lparr>pn_unit = u, pn_id = i, pn_pinned = b, pn_updated = up, pn_ts = ts\<rparr>) w = (c, w')"
  shows "P (w_db w')"
  using sql_write_inv [OF assms(3), of P] assms(1,2) pin [of "w_db w"
    "\<lparr>pn_unit = u, pn_id = i, pn_pinned = b, pn_updated = up, pn_ts = ts\<rparr>"] by auto

lemma handle_pin_inv:
  assumes "P (w_db (i_w s))" "handle_pin E dry j s = (c, s')"
  shows "P (w_db (i_w s'))"
proof (cases "\<exists>u i ts b. unit_id_ts E j = Some (u, i, ts) \<and> get_bool j ''pinned'' = Some b")
  case True
  then obtain u i ts b where v: "unit_id_ts E j = Some (u, i, ts)" "get_bool j ''pinned'' = Some b"
    by blast
  let ?r = "\<lparr>pn_unit = u, pn_id = i, pn_pinned = b, pn_updated = ie_iso_ms E ts, pn_ts = ts\<rparr>"
  obtain ok w1 where q: "sql_write (upsert_pin ?r) (i_w s) = (ok, w1)" by fastforce
  show ?thesis
  proof (cases "u = ''track'' \<and> is_blacklisted i (w_db (i_w s))")
    case True
    with assms v show ?thesis by (simp add: handle_pin_def bump_ts_def Let_def split: if_splits) auto
  next
    case False
    then have "P (w_db w1)" using pin_row_inv [OF assms(1) _ q] by blast
    with clear_step_inv [OF this, of i] assms False v q show ?thesis
      by (simp add: handle_pin_def bump_ts_def Let_def split: if_splits) auto
  qed
next
  case False
  then have "s' = s" using assms(2) by (auto simp: handle_pin_def split: option.splits)
  with assms(1) show ?thesis by simp
qed

lemma handle_action_inv:
  assumes "P (w_db (i_w s))" "handle_action E dry j s = (c, s')"
  shows "P (w_db (i_w s'))"
  using assms
  by (auto simp: handle_action_def Let_def bump_ts_def unsync_album_def delete_album_everywhere_def
      album_track_shas_def split: option.splits if_splits prod.splits intro: unsync_inv delete_inv)

lemma handle_inv: "P (w_db (i_w s)) \<Longrightarrow> handle E kind rel dry j s = (c, s') \<Longrightarrow> P (w_db (i_w s'))"
  by (cases kind) (auto intro: handle_play_inv handle_like_inv handle_pin_inv handle_action_inv)

lemma ingest_loop_inv:
  assumes "ingest_loop E kind rel dry r s = Some y" "P (w_db (i_w s))"
  shows "P (w_db (i_w (snd (snd y))))"
  using ingest_loop_lift [of E kind rel dry r s y "\<lambda>w. P (w_db w)"] assms handle_inv
  unfolding handler_keeps_def by blast

end

text \<open>The instances: the schema's constraints, the offsets, and a deleted track.\<close>

lemma insert_play_db_ok:
  assumes "db_ok d" "insert_play r d = Some d'"
  shows "db_ok d'"
proof -
  let ?ps = "plays d @ [r\<lparr>pl_id := Suc (play_seq d)\<rparr>]"
  from assms(2) have fk: "pl_sha r \<in> track_shas d"
    and d': "d' = d\<lparr>plays := ?ps, play_seq := Suc (play_seq d)\<rparr>"
    by (auto simp: insert_play_def split: if_splits)
  from assms(1) have "distinct (map pl_id ?ps)" "\<forall>p\<in>set ?ps. pl_id p \<le> Suc (play_seq d)"
    by (auto simp: db_ok_def)
  with assms(1) fk show ?thesis unfolding d' db_ok_def track_shas_def by simp
qed

lemma lww_keys [simp]: "like_key (lww_like x r) = like_key x" "pin_key (lww_pin y t) = pin_key y"
  by (auto simp: lww_like_def lww_pin_def)

lemma upsert_like_ok: "db_ok d \<Longrightarrow> db_ok (upsert_like r d)"
  using upsert_distinct [of like_key lww_like r "likes d"]
  by (simp add: upsert_like_def db_ok_def track_shas_def)

lemma upsert_pin_ok: "db_ok d \<Longrightarrow> db_ok (upsert_pin r d)"
  using upsert_distinct [of pin_key lww_pin r "pins d"]
  by (simp add: upsert_pin_def db_ok_def track_shas_def)

lemma clear_override_ok: "db_ok d \<Longrightarrow> db_ok (clear_override h d)"
  by (simp add: clear_override_def db_ok_def track_shas_def distinct_map_filter_key)

interpretation ok_inv: db_inv db_ok
  by unfold_locales (auto intro: insert_play_db_ok upsert_like_ok upsert_pin_ok clear_override_ok
      unpin_rows_ok add_override_ok delete_tracks_ok add_blacklist_ok)

interpretation off_inv: db_inv "\<lambda>d. ingest_offsets d = os" for os
  by unfold_locales (auto simp: insert_play_def upsert_like_def upsert_pin_def clear_override_def
      unpin_rows_def add_override_def add_blacklist_def delete_tracks_def Let_def split: if_splits)

text \<open>A track that was deleted: blacklisted, no row, no pin, no play.\<close>

definition gone :: "sha \<Rightarrow> db \<Rightarrow> bool" where
  "gone h d \<longleftrightarrow> is_blacklisted h d \<and> h \<notin> track_shas d \<and> (''track'', h) \<notin> pin_key ` set (pins d) \<and>
     h \<notin> pl_sha ` set (plays d) \<and> h \<notin> rs_sha ` set (residency_state d) \<and>
     h \<notin> mf_sha ` set (manifest_current d)"

interpretation gone_inv: db_inv "gone h" for h
proof unfold_locales
  fix d r d' assume "gone h d" "insert_play r d = Some d'"
  then show "gone h d'" by (auto simp: gone_def insert_play_def is_blacklisted_def track_shas_def split: if_splits)
next
  fix d and p :: pin assume "gone h d" "\<not> (pn_unit p = ''track'' \<and> is_blacklisted (pn_id p) d)"
  then show "gone h (upsert_pin p d)"
    by (auto simp: gone_def upsert_pin_def is_blacklisted_def track_shas_def keys_upsert image_iff)
next
  fix d h' now assume "gone h d"
  then show "gone h (unpin_rows h' now d)"
    using unpin_key_set [of h' now d]
    by (simp add: gone_def is_blacklisted_def track_shas_def) (simp add: unpin_rows_def)
next
  fix d h' now assume "gone h d"
  then show "gone h (delete_tracks (\<lambda>t. t_sha t = h') (add_blacklist h' now d))"
    by (auto simp: gone_def is_blacklisted_def track_shas_def delete_tracks_def add_blacklist_def Let_def
        keys_upsert)
qed (auto simp: gone_def is_blacklisted_def track_shas_def upsert_like_def clear_override_def
    add_override_def)

section \<open>The transaction of a file\<close>

text \<open>Inside a transaction no handler ends it: the savepoint of a delete is nested.\<close>

lemma unsync_txn: "unsync_track now h (w, st) = (c, w', st') \<Longrightarrow> w_txn w' = w_txn w"
proof -
  assume a: "unsync_track now h (w, st) = (c, w', st')"
  obtain b w1 where u: "sql_write (unpin_rows h now) w = (b, w1)" by fastforce
  obtain b2 w2 where o: "sql_write (add_override h now) w1 = (b2, w2)" by fastforce
  have "w' = w2" using a u o by (auto simp: unsync_track_def Let_def split: if_splits)
  then show ?thesis using sql_write_fs [OF u] sql_write_fs [OF o] by simp
qed

lemma delete_track_txn:
  assumes "delete_track_everywhere now h (w, st) = (c, w', st')" "w_txn w = Some d"
  shows "w_txn w' = Some d"
proof -
  obtain s1 st1 where d1: "delete_file (lookup_track_path (w_db w) h) (fetch_size_bytes (w_db w) h)
      (w_fs w, st) = (s1, st1)" by fastforce
  obtain s2 st2 where d2: "delete_file (lookup_transcode_path (w_db w) h) 0 (s1, st1) = (s2, st2)"
    by fastforce
  obtain b1 w2 where q1: "savepoint (w\<lparr>w_fs := s2\<rparr>) = (b1, w2)" by fastforce
  obtain b2 w3 where q2: "sql_write (add_blacklist h now) w2 = (b2, w3)" by fastforce
  obtain b3 w4 where q3: "sql_write (delete_tracks (\<lambda>t. t_sha t = h)) w3 = (b3, w4)" by fastforce
  have "w_txn w2 = Some d" "w_txn w3 = Some d" "w_txn w4 = Some d"
    using savepoint_cases [OF q1] sql_write_fs [OF q2] sql_write_fs [OF q3] assms(2) by auto
  with assms show ?thesis
    by (auto simp: delete_track_everywhere_def Let_def d1 d2 q1 q2 q3 rollback_to_def split: bool.splits)
qed

lemma handle_txn: "handler_keeps (\<lambda>w. w_txn w = Some d) E kind rel dry"
proof (unfold handler_keeps_def, intro allI impI)
  fix j s c s'
  assume t: "w_txn (i_w s) = Some d" and h: "handle E kind rel dry j s = (c, s')"
  show "w_txn (i_w s') = Some d"
  proof (cases kind)
    case KIND_STATS
    with t h show ?thesis
      by (auto simp: handle_play_def Let_def bump_ts_def split: option.splits if_splits prod.splits
          dest!: sql_exec_fs)
  next
    case KIND_LIKES
    with t h show ?thesis
      by (auto simp: handle_like_def Let_def bump_ts_def split: option.splits if_splits prod.splits
          dest!: sql_write_fs)
  next
    case KIND_PINS
    have clr: "w_txn (snd (sql_write f w)) = w_txn w" for f w
      by (metis prod.collapse sql_write_fs)
    from KIND_PINS t h clr show ?thesis
      by (auto simp: handle_pin_def Let_def bump_ts_def split: option.splits if_splits prod.splits
          dest!: sql_write_fs)
  next
    case KIND_ACTIONS
    with t h show ?thesis
      by (auto simp: handle_action_def Let_def bump_ts_def unsync_album_def delete_album_everywhere_def
          album_track_shas_def split: option.splits if_splits prod.splits
          dest: unsync_txn delete_track_txn)
  qed
qed

lemma finish_cases:
  assumes "ingest_finish E rel False old new failed s = (f, s')" "w_txn (i_w s) = Some d"
  obtains (fail) "f" "durable (i_w s') = d"
  | (ok) "\<not> f" "\<not> failed" "w_txn (i_w s') = None"
      "w_db (i_w s') = (if new > old then set_offset E rel new (i_max_ts s) (w_db (i_w s)) else w_db (i_w s))"
      "w_fs (i_w s') = w_fs (i_w s)"
proof -
  have "(f \<and> durable (i_w s') = d) \<or> (\<not> f \<and> \<not> failed \<and> w_txn (i_w s') = None \<and>
      w_db (i_w s') = (if new > old then set_offset E rel new (i_max_ts s) (w_db (i_w s)) else w_db (i_w s)) \<and>
      w_fs (i_w s') = w_fs (i_w s))"
  proof (cases "\<not> failed \<and> new > old")
    case True
    obtain b w1 where q: "sql_write (set_offset E rel new (i_max_ts s)) (i_w s) = (b, w1)" by fastforce
    obtain b2 w2 where c: "db_commit w1 = (b2, w2)" by fastforce
    have w1: "b \<longrightarrow> w_db w1 = set_offset E rel new (i_max_ts s) (w_db (i_w s))"
      "w_txn w1 = Some d" "w_fs w1 = w_fs (i_w s)"
      using q sql_write_fs [OF q] assms(2) by (auto elim: sql_write_cases)
    have w2: "w_db w2 = w_db w1 \<and> w_fs w2 = w_fs w1 \<and> w_txn w2 = (if b2 then None else w_txn w1)"
      using c by (auto elim: db_commit_cases)
    from assms(1) True show ?thesis
      by (cases b; cases b2) (auto simp: ingest_finish_def q c w1 w2 db_rollback_def durable_def)
  next
    case False
    obtain b2 w2 where c: "db_commit (i_w s) = (b2, w2)" by fastforce
    have w2: "w_db w2 = w_db (i_w s) \<and> w_fs w2 = w_fs (i_w s) \<and> w_txn w2 = (if b2 then None else Some d)"
      using c assms(2) by (auto elim: db_commit_cases)
    from assms False show ?thesis
      by (cases b2; cases failed) (auto simp: ingest_finish_def c w2 db_rollback_def durable_def)
  qed
  then show thesis
  proof (elim disjE conjE)
    assume "f" "durable (i_w s') = d"
    then show thesis by (rule fail)
  next
    assume "\<not> f" "\<not> failed" "w_txn (i_w s') = None"
      "w_db (i_w s') = (if new > old then set_offset E rel new (i_max_ts s) (w_db (i_w s)) else w_db (i_w s))"
      "w_fs (i_w s') = w_fs (i_w s)"
    then show thesis by (rule ok)
  qed
qed

section \<open>The per-file promises\<close>

text \<open>The pieces of a run over one existing file, outside dry-run.\<close>

lemma ingest_one_file_cases:
  assumes "ingest_one_file E m kind False p (w, st) = Some (f, w', st')"
    and "make_relpath m p = Some rel" "fs_content (w_fs w) p = Some bytes" "w_txn w = None"
  obtains (nobegin) "f" "w_db w' = w_db w" "w_txn w' = None"
  | (run) q old r0 failed r' s where
      "old = (if lookup_offset (w_db w) rel > int (length bytes) then 0 else lookup_offset (w_db w) rel)"
      "r0 = jsonl_open bytes (nat old) (ie_reads E p)"
      "ingest_loop E kind rel False r0
         \<lparr>i_w = w\<lparr>w_sql := q, w_txn := Some (w_db w)\<rparr>, i_stats = st, i_max_ts = 0\<rparr> = Some (failed, r', s)"
      "w_txn (i_w s) = Some (w_db w)"
      "\<exists>s'. ingest_finish E rel False old (int (jr_offset r')) failed s = (f, s') \<and> w' = i_w s' \<and> st' = i_stats s'"
proof -
  let ?old = "if lookup_offset (w_db w) rel > int (length bytes) then 0 else lookup_offset (w_db w) rel"
  let ?r = "jsonl_open bytes (nat ?old) (ie_reads E p)"
  obtain b w0 where bg: "db_begin w = (b, w0)" by fastforce
  show thesis
  proof (cases b)
    case False
    then have "w_db w0 = w_db w \<and> w_txn w0 = None" using bg assms(4) by (auto elim: db_begin_cases)
    then show thesis
      using assms False bg by (intro nobegin) (auto simp: ingest_one_file_def Let_def)
  next
    case True
    from bg True obtain q where w0: "w0 = w\<lparr>w_sql := q, w_txn := Some (w_db w)\<rparr>"
      by (auto elim: db_begin_cases)
    let ?s0 = "\<lparr>i_w = w0, i_stats = st, i_max_ts = 0\<rparr>"
    from assms(1-3) bg True obtain failed r' s where
      l: "ingest_loop E kind rel False ?r ?s0 = Some (failed, r', s)"
      and fin: "\<exists>s'. ingest_finish E rel False ?old (int (jr_offset r')) failed s = (f, s') \<and> w' = i_w s' \<and> st' = i_stats s'"
      by (auto simp: ingest_one_file_def Let_def split: option.splits prod.splits)
    have "w_txn (i_w s) = Some (w_db w)"
      using ingest_loop_lift [OF l _ handle_txn [of "w_db w"]] w0 by simp
    with l fin w0 show thesis by (intro run [OF refl refl]) auto
  qed
qed

lemma ingest_one_file_atomic:
  assumes "w_txn w = None" "ingest_one_file E m kind False p (w, st) = Some (f, w', st')"
  shows "if f then durable w' = w_db w else w_txn w' = None"
proof (cases "\<exists>rel bytes. make_relpath m p = Some rel \<and> fs_content (w_fs w) p = Some bytes")
  case True
  then obtain rel bytes where rb: "make_relpath m p = Some rel" "fs_content (w_fs w) p = Some bytes" by blast
  from assms(2) rb assms(1) show ?thesis
  proof (cases rule: ingest_one_file_cases)
    case nobegin
    then show ?thesis by (simp add: durable_def)
  next
    case (run q old r0 failed r' s)
    from run(5) obtain s' where fin: "ingest_finish E rel False old (int (jr_offset r')) failed s = (f, s')"
      and w': "w' = i_w s'" by blast
    from fin run(4) show ?thesis by (cases rule: finish_cases) (auto simp: w')
  qed
next
  case False
  with assms show ?thesis
    by (auto simp: ingest_one_file_def durable_def split: option.splits)
qed

text \<open>The loop of one file returns, and what it leaves unread starts at the new offset.\<close>

lemma ingest_file_loop:
  assumes old: "0 \<le> old" "nat old \<le> length bytes" and q: "\<forall>e. Fails e \<notin> set ev"
    and sp: "ingest_spec E kind rel dry (drop (nat old) bytes) s = (f, rest, s')"
  shows "\<exists>r'. ingest_loop E kind rel dry (jsonl_open bytes (nat old) ev) s = Some (f, r', s') \<and>
    jr_offset r' + length rest = length bytes"
proof -
  let ?r = "jsonl_open bytes (nat old) ev"
  have pend: "jr_pending ?r = drop (nat old) bytes" "jr_ok ?r" "jr_offset ?r = nat old"
    using jsonl_open_ok by auto
  with sp have "ingest_spec E kind rel dry (jr_pending ?r) s = (f, rest, s')" by simp
  from ingest_loop_spec [OF pend(2) jsonl_open_quiet [OF q] this] pend old show ?thesis by auto
qed

lemma lookup_set_offset: "lookup_offset (set_offset E rel off ts d) rel = off"
  by (simp add: lookup_offset_def set_offset_def find_row_upsert merge_offset_def split: option.splits)

lemma handle_offsets: "handler_keeps (\<lambda>w. ingest_offsets (w_db w) = os) E kind rel dry"
  unfolding handler_keeps_def using off_inv.handle_inv by blast

text \<open>Where nothing but a partial line is unread, the file is a no-op.\<close>

lemma ingest_one_file_quiet:
  assumes rel: "make_relpath m p = Some rel" and bytes: "fs_content (w_fs w) p = Some bytes"
    and idle: "w_txn w = None" "w_sql w = []"
    and off: "off = (if lookup_offset (w_db w) rel > int (length bytes) then 0
                     else lookup_offset (w_db w) rel)" "0 \<le> off"
    and rest: "spec_read (drop (nat off) bytes) = (AtEof, drop (nat off) bytes)"
    and reads: "\<forall>e. Fails e \<notin> set (ie_reads E p)"
  shows "ingest_one_file E m kind False p (w, st) = Some (False, w, st)"
proof -
  have le: "nat off \<le> length bytes" using off by (auto split: if_splits)
  let ?w0 = "w\<lparr>w_txn := Some (w_db w)\<rparr>"
  let ?s0 = "\<lparr>i_w = ?w0, i_stats = st, i_max_ts = 0\<rparr>"
  have bg: "db_begin w = (True, ?w0)"
    using idle by (simp add: db_begin_def sql_write_quiet)
  have "ingest_spec E kind rel False (drop (nat off) bytes) ?s0 = (False, drop (nat off) bytes, ?s0)"
    using rest by (subst ingest_spec.simps) simp
  from ingest_file_loop [OF off(2) le reads this] obtain r' where
    l: "ingest_loop E kind rel False (jsonl_open bytes (nat off) (ie_reads E p)) ?s0 = Some (False, r', ?s0)"
    and o: "jr_offset r' + length (drop (nat off) bytes) = length bytes" by blast
  have eq: "int (jr_offset r') = off" using o le off(2) by simp
  have "db_commit ?w0 = (True, w)" using idle by (simp add: db_commit_def sql_write_quiet)
  then have "ingest_finish E rel False off off False ?s0 = (False, \<lparr>i_w = w, i_stats = st, i_max_ts = 0\<rparr>)"
    by (simp add: ingest_finish_def)
  with rel bytes bg l off(1) eq show ?thesis
    by (simp add: ingest_one_file_def Let_def)
qed

text \<open>After a successful pass the file is in that state.\<close>

lemma ingest_one_file_leaves:
  assumes run1: "ingest_one_file E m kind False p (w, st) = Some (False, w', st')"
    and rel: "make_relpath m p = Some rel" and bytes: "fs_content (w_fs w) p = Some bytes"
    and idle: "w_txn w = None" and nonneg: "0 \<le> lookup_offset (w_db w) rel"
    and reads: "\<forall>e. Fails e \<notin> set (ie_reads E p)"
    and off: "off = (if lookup_offset (w_db w') rel > int (length bytes) then 0
                     else lookup_offset (w_db w') rel)"
  shows "w_txn w' = None \<and> 0 \<le> off \<and> spec_read (drop (nat off) bytes) = (AtEof, drop (nat off) bytes)"
  using run1 rel bytes idle
proof (cases rule: ingest_one_file_cases)
  case (run q old r0 failed r' s)
  obtain s' where fin: "ingest_finish E rel False old (int (jr_offset r')) failed s = (False, s')"
    and w': "w' = i_w s'" using run(5) by blast
  have old: "0 \<le> old" "nat old \<le> length bytes" using run(1) nonneg by auto
  let ?s0 = "\<lparr>i_w = w\<lparr>w_sql := q, w_txn := Some (w_db w)\<rparr>, i_stats = st, i_max_ts = 0\<rparr>"
  obtain f rest s1 where sp: "ingest_spec E kind rel False (drop (nat old) bytes) ?s0 = (f, rest, s1)"
    by (metis prod_cases3)
  from ingest_file_loop [OF old reads sp] run(2,3) have
    loop: "f = failed" "s1 = s" and new: "jr_offset r' + length rest = length bytes" by auto
  from fin run(4) have ok: "\<not> failed" "w_txn w' = None"
    "w_db w' = (if int (jr_offset r') > old then set_offset E rel (int (jr_offset r')) (i_max_ts s) (w_db (i_w s))
       else w_db (i_w s))"
    by (auto simp: w' elim: finish_cases)
  have sp': "ingest_spec E kind rel False (drop (nat old) bytes) ?s0 = (False, rest, s1)"
    using sp loop(1) ok(1) by simp
  from ingest_spec_end [OF this] obtain pre where
    rest: "spec_read rest = (AtEof, rest)" and pre: "drop (nat old) bytes = pre @ rest" by blast
  have len: "nat old + length pre = jr_offset r'"
    using new old arg_cong [OF pre, of length] by simp
  have drp: "drop (jr_offset r') bytes = rest"
    using pre by (metis add.commute append_eq_conv_conj drop_drop len)
  have offs: "ingest_offsets (w_db (i_w s)) = ingest_offsets (w_db w)"
    using ingest_spec_lift [OF _ sp' handle_offsets [of "ingest_offsets (w_db w)"]] loop(2) by simp
  show ?thesis
  proof (cases "int (jr_offset r') > old")
    case True
    then have "lookup_offset (w_db w') rel = int (jr_offset r')" using ok(3) by (simp add: lookup_set_offset)
    then have "off = int (jr_offset r')" using off new by simp
    with ok(2) rest drp show ?thesis by simp
  next
    case False
    then have same: "int (jr_offset r') = old" using len old by simp
    have "lookup_offset (w_db w') rel = lookup_offset (w_db w) rel"
      using False ok(3) offs by (simp add: lookup_offset_def)
    then have "off = old" using off run(1) by simp
    with same ok(2) rest drp old show ?thesis by (metis nat_int)
  qed
qed simp

end
