(* ===== verification/Lww.thy ===== *)
theory Lww
  imports IngestSpec "HOL-Library.Multiset"
begin

text \<open>
  Last-writer-wins tables, the contract between the event streams and the likes and pins
  tables: one entry per key, and an update takes effect unless a strictly newer one has. The
  locale derives what a client of the contract relies on (replay is harmless, order does not
  matter for distinct timestamps, timestamps never go back); \<open>upsert_like\<close> and
  \<open>upsert_pin\<close> of \<open>ingest.c\<close> are shown to honour it.
\<close>

section \<open>The contract\<close>

fun newer :: "'v \<times> int \<Rightarrow> ('v \<times> int) option \<Rightarrow> ('v \<times> int) option" where
  "newer (v, s) None = Some (v, s)"
| "newer (v, s) (Some (v0, s0)) = (if s0 \<le> s then Some (v, s) else Some (v0, s0))"

locale lww_table =
  fixes key :: "'r \<Rightarrow> 'k" and val :: "'r \<Rightarrow> 'v" and stamp :: "'r \<Rightarrow> int"
    and up :: "'r \<Rightarrow> 't \<Rightarrow> 't" and look :: "'t \<Rightarrow> 'k \<Rightarrow> ('v \<times> int) option"
  assumes look_up: "look (up r t) k = (if k = key r then newer (val r, stamp r) (look t k) else look t k)"
begin

definition step :: "'k \<Rightarrow> 'r \<Rightarrow> ('v \<times> int) option \<Rightarrow> ('v \<times> int) option" where
  "step k r a = (if k = key r then newer (val r, stamp r) a else a)"

lemma look_fold: "look (fold up rs t) k = fold (step k) rs (look t k)"
  by (induction rs arbitrary: t) (simp_all add: look_up step_def)

lemma step_mono: "a = Some (v, s) \<Longrightarrow> \<exists>v' s'. step k r a = Some (v', s') \<and> s \<le> s'"
  by (auto simp: step_def)

lemma fold_mono: "a = Some (v, s) \<Longrightarrow> \<exists>v' s'. fold (step k) rs a = Some (v', s') \<and> s \<le> s'"
proof (induction rs arbitrary: a v s)
  case (Cons r rs)
  from step_mono [OF Cons.prems, of k r] obtain v1 s1 where "step k r a = Some (v1, s1)" "s \<le> s1" by blast
  with Cons.IH [OF this(1)] show ?case by (auto intro: order_trans)
qed simp

text \<open>The entry of a key is at least as new as every update applied to it.\<close>

lemma fold_covers:
  assumes "r \<in> set rs" "key r = k"
  shows "\<exists>v s. fold (step k) rs a = Some (v, s) \<and> stamp r \<le> s"
  using assms(1)
proof (induction rs arbitrary: a)
  case (Cons x rs)
  show ?case
  proof (cases "r = x")
    case True
    have "\<exists>v s. step k r a = Some (v, s) \<and> stamp r \<le> s"
      using assms(2) by (cases a) (auto simp: step_def)
    then obtain v s where vs: "step k r a = Some (v, s)" "stamp r \<le> s" by blast
    from fold_mono [OF vs(1), of k rs] vs(2) True show ?thesis by (auto intro: order_trans)
  next
    case False
    with Cons show ?thesis by simp
  qed
qed simp

lemma fold_bounded:
  "\<forall>r\<in>set rs. key r = k \<longrightarrow> stamp r \<le> s \<Longrightarrow> \<exists>v'. fold (step k) rs (Some (v, s)) = Some (v', s)"
  by (induction rs arbitrary: v) (auto simp: step_def)

lemma replay_entry: "fold (step k) rs (fold (step k) rs a) = fold (step k) rs a"
proof (induction rs rule: rev_induct)
  case (snoc r rs)
  let ?b = "fold (step k) rs a"
  show ?case
  proof (cases "step k r ?b = ?b")
    case True
    with snoc show ?thesis by simp
  next
    case False
    then have k: "key r = k" and hit: "step k r ?b = Some (val r, stamp r)"
      by (cases ?b; auto simp: step_def split: if_splits)+
    have "\<forall>x\<in>set rs. key x = k \<longrightarrow> stamp x \<le> stamp r"
    proof (intro ballI impI)
      fix x assume "x \<in> set rs" "key x = k"
      from fold_covers [OF this, of a] obtain v s where vs: "?b = Some (v, s)" "stamp x \<le> s" by blast
      with False k have "s \<le> stamp r" by (auto simp: step_def split: if_splits)
      with vs show "stamp x \<le> stamp r" by simp
    qed
    from fold_bounded [OF this, of "val r"] obtain v' where
      "fold (step k) rs (Some (val r, stamp r)) = Some (v', stamp r)" by blast
    moreover have "step k r (Some (v', stamp r)) = Some (val r, stamp r)" using k by (simp add: step_def)
    ultimately show ?thesis using hit by simp
  qed
qed simp

lemma replay: "look (fold up rs (fold up rs t)) k = look (fold up rs t) k"
  by (simp add: look_fold replay_entry)

lemma step_commute:
  assumes "r1 = r2 \<or> key r1 \<noteq> key r2 \<or> stamp r1 \<noteq> stamp r2"
  shows "step k r1 \<circ> step k r2 = step k r2 \<circ> step k r1"
proof
  fix a show "(step k r1 \<circ> step k r2) a = (step k r2 \<circ> step k r1) a"
    using assms by (cases a) (auto simp: step_def)
qed

lemma any_order:
  assumes "mset rs = mset rs'"
    and "\<And>r1 r2. r1 \<in> set rs \<Longrightarrow> r2 \<in> set rs \<Longrightarrow> key r1 = key r2 \<Longrightarrow> stamp r1 = stamp r2 \<Longrightarrow> r1 = r2"
  shows "look (fold up rs t) k = look (fold up rs' t) k"
proof -
  have "fold (step k) rs = fold (step k) rs'"
    using assms by (intro fold_multiset_equiv step_commute) auto
  then show ?thesis by (simp add: look_fold)
qed

lemma fold_upper:
  assumes "\<forall>x\<in>set xs. key x = k \<longrightarrow> stamp x \<le> m" "\<forall>v s. a = Some (v, s) \<longrightarrow> s \<le> m"
    and "fold (step k) xs a = Some (v, s)"
  shows "s \<le> m"
  using assms
proof (induction xs arbitrary: a)
  case (Cons x xs)
  have "\<forall>v s. step k x a = Some (v, s) \<longrightarrow> s \<le> m"
    using Cons.prems(1,2) by (cases a) (auto simp: step_def split: if_splits)
  with Cons show ?case by simp
qed simp

lemma newest_wins:
  assumes "r \<in> set rs" "key r = k"
    and "\<And>x. x \<in> set rs \<Longrightarrow> key x = k \<Longrightarrow> x \<noteq> r \<Longrightarrow> stamp x < stamp r"
    and "\<And>v s. look t k = Some (v, s) \<Longrightarrow> s \<le> stamp r"
  shows "look (fold up rs t) k = Some (val r, stamp r)"
proof -
  obtain as bs where rs: "rs = as @ r # bs" using assms(1) by (metis split_list)
  have le: "\<forall>x\<in>set as. key x = k \<longrightarrow> stamp x \<le> stamp r"
    using assms(3) rs by (metis Un_iff less_imp_le order_refl set_append)
  have "step k r (fold (step k) as (look t k)) = Some (val r, stamp r)"
  proof (cases "fold (step k) as (look t k)")
    case None
    with assms(2) show ?thesis by (simp add: step_def)
  next
    case (Some e)
    obtain v s where e: "e = (v, s)" by fastforce
    have "s \<le> stamp r" using fold_upper [OF le _ Some [unfolded e]] assms(4) by blast
    with Some e assms(2) show ?thesis by (simp add: step_def)
  qed
  moreover have keep: "fold (step k) xs (Some (val r, stamp r)) = Some (val r, stamp r)"
    if "set xs \<subseteq> set rs" for xs
    using that
  proof (induction xs)
    case (Cons x xs)
    have "x = r \<or> key x \<noteq> k \<or> stamp x < stamp r" using assms(3) [of x] Cons.prems by auto
    then have "step k x (Some (val r, stamp r)) = Some (val r, stamp r)"
      by (auto simp: step_def)
    with Cons show ?case by simp
  qed simp
  moreover have "fold (step k) rs (look t k) = fold (step k) bs (step k r (fold (step k) as (look t k)))"
    by (simp add: rs)
  moreover have "fold (step k) bs (Some (val r, stamp r)) = Some (val r, stamp r)"
    by (rule keep) (use rs in auto)
  ultimately show ?thesis by (simp only: look_fold)
qed

end

section \<open>Likes and pins honour the contract\<close>

definition like_entry :: "db \<Rightarrow> string \<times> string \<Rightarrow> (bool \<times> int) option" where
  "like_entry d k = map_option (\<lambda>r. (lk_liked r, lk_ts r)) (find_row like_key k (likes d))"

definition pin_entry :: "db \<Rightarrow> string \<times> string \<Rightarrow> ((bool \<times> string) \<times> int) option" where
  "pin_entry d k = map_option (\<lambda>r. ((pn_pinned r, pn_updated r), pn_ts r)) (find_row pin_key k (pins d))"

interpretation likes_lww: lww_table like_key lk_liked lk_ts upsert_like like_entry
proof
  fix r t k
  show "like_entry (upsert_like r t) k =
    (if k = like_key r then newer (lk_liked r, lk_ts r) (like_entry t k) else like_entry t k)"
    by (auto simp: like_entry_def upsert_like_def find_row_upsert lww_like_def
        simp del: find_row_None split: option.splits)
qed

interpretation pins_lww: lww_table pin_key "\<lambda>r. (pn_pinned r, pn_updated r)" pn_ts upsert_pin pin_entry
proof
  fix r t k
  show "pin_entry (upsert_pin r t) k =
    (if k = pin_key r then newer ((pn_pinned r, pn_updated r), pn_ts r) (pin_entry t k) else pin_entry t k)"
    by (auto simp: pin_entry_def upsert_pin_def find_row_upsert lww_pin_def
        simp del: find_row_None split: option.splits)
qed

end
