(* ===== verification/IngestProps.thy ===== *)
theory IngestProps
  imports Lww
begin

text \<open>
  The ingester's theorems over whole runs: the schema's constraints and deleted tracks survive
  every run, a file is all or nothing, a second pass over an unchanged file does nothing, the
  way the kernel cuts the file does not matter, and event streams converge.
\<close>

section \<open>Invariants over a whole run\<close>

locale db_run_inv = db_inv +
  assumes offset: "P d \<Longrightarrow> 0 \<le> off \<Longrightarrow> P (set_offset E rel off ts d)"
begin

lemma keeps: "handler_keeps (\<lambda>w. P (w_db w)) E kind rel dry"
  unfolding handler_keeps_def using handle_inv by blast

definition both :: "world \<Rightarrow> bool" where
  "both w \<longleftrightarrow> P (w_db w) \<and> P (durable w)"

lemma finish_inv:
  assumes "P (w_db (i_w s))" "w_txn (i_w s) = Some d" "P d" "0 \<le> new"
    and "ingest_finish E rel False old new failed s = (f, s')"
  shows "both (i_w s')"
proof -
  have off: "P (set_offset E rel new (i_max_ts s) (w_db (i_w s)))" using assms(1,4) by (rule offset)
  show ?thesis
  proof (cases "\<not> failed \<and> new > old")
    case True
    obtain b w1 where q: "sql_write (set_offset E rel new (i_max_ts s)) (i_w s) = (b, w1)" by fastforce
    obtain b2 w2 where c: "db_commit w1 = (b2, w2)" by fastforce
    have w1: "P (w_db w1)" "w_txn w1 = Some d"
      using sql_write_inv [OF q, of P] sql_write_fs [OF q] assms(1,2) off by auto
    have w2: "w_db w2 = w_db w1" "w_txn w2 = (if b2 then None else Some d)"
      using c w1(2) by (auto elim: db_commit_cases)
    from assms(3,5) True w1 show ?thesis
      by (cases b; cases b2)
        (auto simp: ingest_finish_def q c w2 both_def db_rollback_def durable_def)
  next
    case False
    obtain b2 w2 where c: "db_commit (i_w s) = (b2, w2)" by fastforce
    have w2: "w_db w2 = w_db (i_w s)" "w_txn w2 = (if b2 then None else Some d)"
      using c assms(2) by (auto elim: db_commit_cases)
    from assms False show ?thesis
      by (cases b2; cases failed)
        (auto simp: ingest_finish_def c w2 both_def db_rollback_def durable_def)
  qed
qed

text \<open>A file of a run that starts with a transaction left open by a failed commit is skipped.\<close>

lemma one_file_inv:
  assumes "both w" "ingest_one_file E m kind False p (w, st) = Some (f, w', st')"
  shows "both w'"
proof (cases "\<exists>rel bytes. make_relpath m p = Some rel \<and> fs_content (w_fs w) p = Some bytes")
  case True
  then obtain rel bytes where rb: "make_relpath m p = Some rel" "fs_content (w_fs w) p = Some bytes" by blast
  show ?thesis
  proof (cases "w_txn w")
    case None
    with assms(2) rb show ?thesis
    proof (cases rule: ingest_one_file_cases)
      case nobegin
      with assms(1) show ?thesis by (simp add: both_def durable_def)
    next
      case (run q old r0 failed r' s)
      from run(5) obtain s' where fin: "ingest_finish E rel False old (int (jr_offset r')) failed s = (f, s')"
        and w': "w' = i_w s'" by blast
      have "P (w_db (i_w s))"
        using ingest_loop_lift [OF run(3) _ keeps] assms(1) by (simp add: both_def)
      from finish_inv [OF this run(4) _ _ fin] assms(1) w' show ?thesis by (simp add: both_def)
    qed
  next
    case (Some d)
    then have "db_begin w = (False, w)" by (simp add: db_begin_def)
    with assms rb show ?thesis by (auto simp: ingest_one_file_def Let_def)
  qed
next
  case False
  with assms show ?thesis by (auto simp: ingest_one_file_def split: option.splits)
qed

lemma files_inv:
  "both w \<Longrightarrow> ingest_files E m kind False ps (rc, w, st) = Some (rc', w', st') \<Longrightarrow> both w'"
proof (induction ps arbitrary: rc w st)
  case (Cons p ps)
  from Cons.prems(2) obtain f w1 st1 where
    one: "ingest_one_file E m kind False p (w, st\<lparr>st_files_seen := st_files_seen st + 1\<rparr>) = Some (f, w1, st1)"
    and rest: "ingest_files E m kind False ps (rc \<or> f, w1, st1) = Some (rc', w', st')"
    by (auto split: option.splits)
  from one_file_inv [OF Cons.prems(1) one] rest show ?case by (rule Cons.IH)
qed simp

lemma glob_inv: "both w \<Longrightarrow> run_glob E m False kind (rc, w, st) = Some (rc', w', st') \<Longrightarrow> both w'"
  by (simp add: run_glob_def files_inv)

lemma run_inv:
  assumes "both w" "ingest_run E m False w = Some (rc, w', st')"
  shows "both w'"
proof (cases "m = []")
  case True
  with assms show ?thesis by (simp add: ingest_run_def)
next
  case False
  with assms(2) obtain x1 x2 x3 where
    g: "run_glob E m False KIND_STATS (False, w, zero_stats) = Some x1"
      "run_glob E m False KIND_LIKES x1 = Some x2" "run_glob E m False KIND_PINS x2 = Some x3"
      "run_glob E m False KIND_ACTIONS x3 = Some (rc, w', st')"
    by (auto simp: ingest_run_def bind_eq_Some_conv simp del: split_paired_Ex)
  have glob: "both (fst (snd y))" if "run_glob E m False kind x = Some y" "both (fst (snd x))" for kind x y
    using glob_inv [of "fst (snd x)" E m kind "fst x" "snd (snd x)" "fst y" "fst (snd y)" "snd (snd y)"] that
    by simp
  from glob [OF g(1)] glob [OF g(2)] glob [OF g(3)] glob [OF g(4)] assms(1) show ?thesis by simp
qed

end

lemma set_offset_ok: "db_ok d \<Longrightarrow> db_ok (set_offset E rel off ts d)"
  by (simp add: set_offset_def db_ok_def track_shas_def upsert_distinct merge_offset_def)

interpretation ok_run: db_run_inv db_ok
  by unfold_locales (rule set_offset_ok)

interpretation gone_run: db_run_inv "gone h" for h
  by unfold_locales (simp add: gone_def set_offset_def is_blacklisted_def track_shas_def)

definition offsets_nonneg :: "db \<Rightarrow> bool" where
  "offsets_nonneg d \<longleftrightarrow> (\<forall>r\<in>set (ingest_offsets d). 0 \<le> of_offset r)"

lemma set_offset_nonneg: "offsets_nonneg d \<Longrightarrow> 0 \<le> off \<Longrightarrow> offsets_nonneg (set_offset E rel off ts d)"
  by (auto simp: offsets_nonneg_def set_offset_def merge_offset_def dest!: set_upsert)

interpretation nonneg_run: db_run_inv offsets_nonneg
proof unfold_locales
  fix d E rel off ts assume "offsets_nonneg d" "(0::int) \<le> off"
  then show "offsets_nonneg (set_offset E rel off ts d)" by (rule set_offset_nonneg)
qed (auto simp: offsets_nonneg_def insert_play_def upsert_like_def upsert_pin_def clear_override_def
    unpin_rows_def add_override_def add_blacklist_def delete_tracks_def Let_def split: if_splits)

section \<open>Independence of the read schedule\<close>

lemma env_reads:
  "ie_now_ms (E\<lparr>ie_reads := f\<rparr>) = ie_now_ms E" "ie_now_iso (E\<lparr>ie_reads := f\<rparr>) = ie_now_iso E"
  "ie_played_at (E\<lparr>ie_reads := f\<rparr>) = ie_played_at E" "ie_iso_ms (E\<lparr>ie_reads := f\<rparr>) = ie_iso_ms E"
  "ie_json (E\<lparr>ie_reads := f\<rparr>) = ie_json E"
  by simp_all

lemma handle_reads: "handle (E\<lparr>ie_reads := f\<rparr>) kind rel dry = handle E kind rel dry"
proof -
  have ts: "ts_plausible (E\<lparr>ie_reads := f\<rparr>) = ts_plausible E"
    unfolding fun_eq_iff ts_plausible_def env_reads by simp
  have u: "unit_id_ts (E\<lparr>ie_reads := f\<rparr>) = unit_id_ts E"
    unfolding fun_eq_iff unit_id_ts_def ts by simp
  have "handle_play (E\<lparr>ie_reads := f\<rparr>) = handle_play E" "handle_like (E\<lparr>ie_reads := f\<rparr>) = handle_like E"
    "handle_pin (E\<lparr>ie_reads := f\<rparr>) = handle_pin E" "handle_action (E\<lparr>ie_reads := f\<rparr>) = handle_action E"
    unfolding fun_eq_iff handle_play_def handle_like_def handle_pin_def handle_action_def env_reads ts u
    by blast+
  then show ?thesis by (cases kind) simp_all
qed

lemma ingest_line_reads: "ingest_line (E\<lparr>ie_reads := f\<rparr>) kind rel dry = ingest_line E kind rel dry"
  unfolding fun_eq_iff ingest_line_def handle_reads env_reads by blast

lemma ingest_spec_reads:
  "ingest_spec (E\<lparr>ie_reads := f\<rparr>) kind rel dry p s = ingest_spec E kind rel dry p s"
proof (induction E kind rel dry p s rule: ingest_spec.induct)
  case (1 E kind rel dry p s)
  obtain x q where rd: "spec_read p = (x, q)" by fastforce
  show ?case
  proof (cases x)
    case (Line l)
    obtain bad s1 where il: "ingest_line E kind rel dry l s = (bad, s1)" by fastforce
    from "1.IH"(1) [OF rd [symmetric] Line il [symmetric]] rd Line il show ?thesis
      by (simp add: ingest_spec.simps [of _ kind rel dry p] ingest_line_reads)
  next
    case TooLong
    from "1.IH"(2) [OF rd [symmetric] TooLong] rd TooLong show ?thesis
      by (simp add: ingest_spec.simps [of _ kind rel dry p])
  qed (use rd in \<open>simp_all add: ingest_spec.simps [of _ kind rel dry p]\<close>)
qed

definition reads_ok :: "ingest_env \<Rightarrow> bool" where
  "reads_ok E \<longleftrightarrow> (\<forall>p e. Fails e \<notin> set (ie_reads E p))"

lemma finish_reads: "ingest_finish (E\<lparr>ie_reads := f\<rparr>) = ingest_finish E"
  unfolding fun_eq_iff ingest_finish_def set_offset_def env_reads by blast

lemma one_file_reads:
  assumes "reads_ok E" "reads_ok (E\<lparr>ie_reads := f\<rparr>)"
    and nonneg: "offsets_nonneg (w_db w)"
  shows "ingest_one_file (E\<lparr>ie_reads := f\<rparr>) m kind dry p (w, st) = ingest_one_file E m kind dry p (w, st) \<and>
    ingest_one_file E m kind dry p (w, st) \<noteq> None"
proof (cases "\<exists>rel bytes. make_relpath m p = Some rel \<and> fs_content (w_fs w) p = Some bytes")
  case True
  then obtain rel bytes where rb: "make_relpath m p = Some rel" "fs_content (w_fs w) p = Some bytes" by blast
  let ?old = "if lookup_offset (w_db w) rel > int (length bytes) then 0 else lookup_offset (w_db w) rel"
  have old: "0 \<le> ?old" "nat ?old \<le> length bytes"
    using nonneg by (auto simp: offsets_nonneg_def lookup_offset_def split: option.splits dest: find_row_SomeD)
  obtain b w0 where bg: "(if dry then (True, w) else db_begin w) = (b, w0)" by fastforce
  let ?s0 = "\<lparr>i_w = w0, i_stats = st, i_max_ts = 0\<rparr>"
  obtain fl rest s1 where sp: "ingest_spec E kind rel dry (drop (nat ?old) bytes) ?s0 = (fl, rest, s1)"
    by (metis prod_cases3)
  have q: "\<forall>e. Fails e \<notin> set (ie_reads E p)" "\<forall>e. Fails e \<notin> set (f p)"
    using assms(1,2) by (auto simp: reads_ok_def)
  from ingest_file_loop [OF old q(1) sp] obtain r1 where
    l1: "ingest_loop E kind rel dry (jsonl_open bytes (nat ?old) (ie_reads E p)) ?s0 = Some (fl, r1, s1)"
      "jr_offset r1 + length rest = length bytes" by blast
  have sp2: "ingest_spec (E\<lparr>ie_reads := f\<rparr>) kind rel dry (drop (nat ?old) bytes) ?s0 = (fl, rest, s1)"
    using sp by (simp add: ingest_spec_reads)
  from ingest_file_loop [OF old q(2) sp2] obtain r2 where
    l2: "ingest_loop (E\<lparr>ie_reads := f\<rparr>) kind rel dry (jsonl_open bytes (nat ?old) (f p)) ?s0 = Some (fl, r2, s1)"
      "jr_offset r2 + length rest = length bytes" by blast
  have "jr_offset r2 = jr_offset r1" using l1(2) l2(2) by simp
  with rb bg l1(1) l2(1) show ?thesis
    by (auto simp: ingest_one_file_def Let_def finish_reads split: prod.splits)
next
  case False
  then show ?thesis by (auto simp: ingest_one_file_def split: option.splits)
qed

lemma reads_same: "E\<lparr>ie_reads := ie_reads E\<rparr> = E"
  by simp

lemma files_return:
  assumes "reads_ok E"
  shows "nonneg_run.both w \<Longrightarrow> ingest_files E m kind False ps (rc, w, st) \<noteq> None"
proof (induction ps arbitrary: rc w st)
  case (Cons p ps)
  let ?st = "st\<lparr>st_files_seen := st_files_seen st + 1\<rparr>"
  have "ingest_one_file E m kind False p (w, ?st) \<noteq> None"
    using one_file_reads [of E "ie_reads E" w] assms Cons.prems by (simp add: nonneg_run.both_def)
  then obtain f w1 st1 where one: "ingest_one_file E m kind False p (w, ?st) = Some (f, w1, st1)" by auto
  from Cons.IH [OF nonneg_run.one_file_inv [OF Cons.prems one]] one show ?case by simp
qed simp

lemma run_glob_returns:
  assumes "reads_ok E" "nonneg_run.both (fst (snd x))"
  shows "\<exists>y. run_glob E m False kind x = Some y \<and> nonneg_run.both (fst (snd y))"
proof -
  obtain rc w st where x: "x = (rc, w, st)" by (cases x)
  with assms files_return [of E w m kind "glob_files m kind (w_fs w)" rc st] obtain y where
    y: "run_glob E m False kind x = Some y" by (auto simp: run_glob_def)
  obtain rc' w' st' where "y = (rc', w', st')" by (cases y)
  with y x nonneg_run.glob_inv [of w E m kind rc st rc' w' st'] assms(2) show ?thesis by simp
qed

lemma run_returns:
  assumes "reads_ok E" "nonneg_run.both w"
  shows "\<exists>rc w' st. ingest_run E m False w = Some (rc, w', st)"
proof (cases "m = []")
  case True
  then show ?thesis by (auto simp: ingest_run_def)
next
  case False
  from run_glob_returns [OF assms(1), of "(False, w, zero_stats)" m KIND_STATS] assms(2) obtain x1 where
    x1: "run_glob E m False KIND_STATS (False, w, zero_stats) = Some x1" "nonneg_run.both (fst (snd x1))"
    by auto
  from run_glob_returns [OF assms(1) x1(2), of m KIND_LIKES] obtain x2 where
    x2: "run_glob E m False KIND_LIKES x1 = Some x2" "nonneg_run.both (fst (snd x2))" by auto
  from run_glob_returns [OF assms(1) x2(2), of m KIND_PINS] obtain x3 where
    x3: "run_glob E m False KIND_PINS x2 = Some x3" "nonneg_run.both (fst (snd x3))" by auto
  from run_glob_returns [OF assms(1) x3(2), of m KIND_ACTIONS] obtain x4 where
    "run_glob E m False KIND_ACTIONS x3 = Some x4" by auto
  with False x1 x2 x3 show ?thesis by (cases x4) (simp add: ingest_run_def)
qed

section \<open>Event streams\<close>

text \<open>The row a valid like event upserts, and a stream of them under a database that works.\<close>

definition like_of :: "ingest_env \<Rightarrow> json \<Rightarrow> like option" where
  "like_of E j = (case (unit_id_ts E j, get_bool j ''liked'') of
     (Some (u, i, ts), Some b) \<Rightarrow> Some \<lparr>lk_unit = u, lk_id = i, lk_liked = b, lk_ts = ts\<rparr>
   | _ \<Rightarrow> None)"

definition like_stream :: "ingest_env \<Rightarrow> json list \<Rightarrow> istate \<Rightarrow> istate" where
  "like_stream E js s = fold (\<lambda>j s. snd (handle_like E False j s)) js s"

lemma handle_like_quiet:
  assumes "w_sql (i_w s) = []"
  shows "w_sql (i_w (snd (handle_like E False j s))) = [] \<and>
    w_db (i_w (snd (handle_like E False j s))) =
      (case like_of E j of None \<Rightarrow> w_db (i_w s) | Some r \<Rightarrow> upsert_like r (w_db (i_w s)))"
  using assms
  by (auto simp: handle_like_def like_of_def sql_write_quiet Let_def bump_ts_def split: option.splits)

lemma like_stream_db:
  "w_sql (i_w s) = [] \<Longrightarrow>
   w_db (i_w (like_stream E js s)) = fold upsert_like (List.map_filter (like_of E) js) (w_db (i_w s))"
proof (induction js arbitrary: s)
  case (Cons j js)
  from handle_like_quiet [OF Cons.prems, of E j] Cons.IH [of "snd (handle_like E False j s)"]
  show ?case by (simp add: like_stream_def List.map_filter_simps split: option.splits)
qed (simp add: like_stream_def List.map_filter_simps)

lemma mset_map_filter: "mset xs = mset ys \<Longrightarrow> mset (List.map_filter f xs) = mset (List.map_filter f ys)"
  by (simp add: List.map_filter_def mset_filter)

section \<open>Dry runs\<close>

lemma handle_dry: "handle E kind rel True j s = (c, s') \<Longrightarrow> i_w s' = i_w s"
  by (cases kind) (auto simp: handle_play_def handle_like_def handle_pin_def handle_action_def bump_ts_def
      Let_def split: option.splits if_splits prod.splits)

lemma dry_keeps: "handler_keeps (\<lambda>w. w = w0) E kind rel True"
  unfolding handler_keeps_def using handle_dry by blast

lemma one_file_dry:
  assumes "ingest_one_file E m kind True p (w, st) = Some (f, w', st')" shows "w' = w"
  using assms ingest_loop_lift [OF _ _ dry_keeps [of w]]
  by (force simp: ingest_one_file_def ingest_finish_def Let_def split: option.splits prod.splits if_splits)

lemma files_dry: "ingest_files E m kind True ps (rc, w, st) = Some (rc', w', st') \<Longrightarrow> w' = w"
proof (induction ps arbitrary: rc w st)
  case (Cons p ps)
  then show ?case by (auto split: option.splits dest!: one_file_dry)
qed simp

lemma glob_dry: "run_glob E m True kind x = Some y \<Longrightarrow> fst (snd y) = fst (snd x)"
  using files_dry [of E m kind _ "fst x" "fst (snd x)" "snd (snd x)" "fst y" "fst (snd y)" "snd (snd y)"]
  by (simp add: run_glob_def)

lemma files_return_dry:
  assumes "reads_ok E" "offsets_nonneg (w_db w)"
  shows "\<exists>rc' st'. ingest_files E m kind True ps (rc, w, st) = Some (rc', w, st')"
proof (induction ps arbitrary: rc st)
  case (Cons p ps)
  let ?st = "st\<lparr>st_files_seen := st_files_seen st + 1\<rparr>"
  have "ingest_one_file E m kind True p (w, ?st) \<noteq> None"
    using one_file_reads [of E "ie_reads E" w] assms by simp
  then obtain f w1 st1 where one: "ingest_one_file E m kind True p (w, ?st) = Some (f, w1, st1)" by auto
  with one_file_dry [OF one] Cons.IH [of "rc \<or> f" st1] show ?case by simp
qed simp

lemma run_glob_returns_dry:
  assumes "reads_ok E" "offsets_nonneg (w_db w)"
  shows "\<exists>rc' st'. run_glob E m True kind (rc, w, st) = Some (rc', w, st')"
  using files_return_dry [OF assms] by (simp add: run_glob_def)

lemma dry_run_returns:
  assumes "reads_ok E" "offsets_nonneg (w_db w)"
  shows "\<exists>rc st. ingest_run E m True w = Some (rc, w, st)"
proof -
  note g = run_glob_returns_dry [OF assms, of m]
  from g obtain r1 s1 where 1: "run_glob E m True KIND_STATS (False, w, zero_stats) = Some (r1, w, s1)" by blast
  from g obtain r2 s2 where 2: "run_glob E m True KIND_LIKES (r1, w, s1) = Some (r2, w, s2)" by blast
  from g obtain r3 s3 where 3: "run_glob E m True KIND_PINS (r2, w, s2) = Some (r3, w, s3)" by blast
  from g obtain r4 s4 where "run_glob E m True KIND_ACTIONS (r3, w, s3) = Some (r4, w, s4)" by blast
  with 1 2 3 show ?thesis by (auto simp: ingest_run_def)
qed

section \<open>Properties\<close>

definition sample_env :: ingest_env where
  "sample_env = \<lparr>ie_now_ms = 1700000000000, ie_now_iso = ''2023-11-14T22:13:20Z'',
     ie_played_at = (\<lambda>ts. ''2023''), ie_iso_ms = (\<lambda>ts. ''2023''),
     ie_json = (\<lambda>l. if l = ''L'' then Some (JObject [(''v'', JInteger 1), (''ts'', JInteger 1600000000000),
        (''unit'', JString ''album''), (''id'', JString ''a''), (''liked'', JTrue)]) else None),
     ie_reads = (\<lambda>p. [Chunk 1, Interrupted])\<rparr>"

definition sample_world :: world where
  "sample_world = \<lparr>w_db = empty_db,
     w_fs = \<lparr>fs_nodes = [(''/m'', Dir), (''/m/likes-phone-A.jsonl'', Reg 0)],
       fs_data = [(0, ''L'' @ [nl] @ ''x'')], fs_next = 1, fs_faults = []\<rparr>,
     w_sql = [], w_txn = None\<rparr>"

definition sample_path :: path where "sample_path = ''/m/likes-phone-A.jsonl''"
definition sample_bytes :: string where "sample_bytes = ''L'' @ [nl] @ ''x''"

lemma sample_file: "make_relpath ''/m'' sample_path = Some ''likes-phone-A.jsonl''"
  "fs_content (w_fs sample_world) sample_path = Some sample_bytes"
  "w_txn sample_world = None" "w_sql sample_world = []" "w_db sample_world = empty_db"
  by (simp_all add: sample_world_def sample_path_def sample_bytes_def make_relpath_def strip_slashes_def
      fs_content_def fs_inode_def fs_get_def file_data_def)

lemma sample_env_reads: "reads_ok sample_env" "reads_ok (sample_env\<lparr>ie_reads := \<lambda>p. []\<rparr>)"
  by (simp_all add: reads_ok_def sample_env_def)

lemma sample_pass:
  "\<exists>w' st'. ingest_one_file sample_env ''/m'' KIND_LIKES False sample_path (sample_world, zero_stats)
     = Some (False, w', st') \<and> w_sql w' = [] \<and> fs_content (w_fs w') sample_path = Some sample_bytes \<and>
     length (likes (w_db w')) = 1 \<and> lookup_offset (w_db w') ''likes-phone-A.jsonl'' = 2"
proof -
  let ?row = "\<lparr>lk_unit = ''album'', lk_id = ''a'', lk_liked = True, lk_ts = 1600000000000\<rparr>"
  let ?w0 = "sample_world\<lparr>w_txn := Some empty_db\<rparr>"
  let ?s0 = "\<lparr>i_w = ?w0, i_stats = zero_stats, i_max_ts = 0\<rparr>"
  let ?s1 = "\<lparr>i_w = ?w0\<lparr>w_db := upsert_like ?row empty_db\<rparr>, i_stats = zero_stats\<lparr>st_likes := 1\<rparr>,
              i_max_ts = 1600000000000\<rparr>"
  have quiet: "w_sql ?w0 = []" by (simp add: sample_file)
  have "ingest_line sample_env KIND_LIKES ''likes-phone-A.jsonl'' False ''L'' ?s0 = (False, ?s1)"
    by (simp add: ingest_line_def sample_env_def handle_like_def unit_id_ts_def get_int_def get_string_def
        get_bool_def ts_plausible_def INGEST_TS_MIN_MS_def bump_ts_def sql_write_quiet [OF quiet]
        sample_file zero_stats_def)
  then have "ingest_spec sample_env KIND_LIKES ''likes-phone-A.jsonl'' False (drop (nat 0) sample_bytes) ?s0
      = (False, ''x'', ?s1)"
    by (simp add: sample_bytes_def ingest_spec.simps spec_read_def after_nl_def JSONL_MAX_LINE_def)
  from ingest_file_loop [OF _ _ _ this, of "ie_reads sample_env sample_path"] obtain r' where
    l: "ingest_loop sample_env KIND_LIKES ''likes-phone-A.jsonl'' False
      (jsonl_open sample_bytes (nat 0) (ie_reads sample_env sample_path)) ?s0 = Some (False, r', ?s1)"
    "jr_offset r' + length ''x'' = length sample_bytes"
    using sample_env_reads by (auto simp: reads_ok_def)
  have o: "jr_offset r' = 2" using l(2) by (simp add: sample_bytes_def)
  have b: "db_begin sample_world = (True, ?w0)" by (simp add: db_begin_def sample_file sql_write_quiet)
  have off: "lookup_offset empty_db r = 0" for r by (simp add: lookup_offset_def empty_db_def)
  show ?thesis
    using l(1) by (simp add: ingest_one_file_def sample_file Let_def off b o ingest_finish_def
        sql_write_quiet db_commit_def) (simp add: upsert_like_def empty_db_def set_offset_def lookup_offset_def)
qed

lemma sample_ok: "db_ok (w_db sample_world)" "nonneg_run.both sample_world"
  by (simp_all add: sample_file empty_db_def db_ok_def nonneg_run.both_def offsets_nonneg_def durable_def)

text \<open>C2: a file is all or nothing. If \<open>ingest_one_file\<close> reports a failure (a database error in any
  line, in the offset or in the commit, or a read error), the database on disk is the one it
  started from; if it reports success, its transaction is closed.\<close>

theorem ingest_file_all_or_nothing:
  assumes "w_txn w = None" "ingest_one_file E m kind False p (w, st) = Some (f, w', st')"
  shows "if f then durable w' = w_db w else w_txn w' = None"
  using assms by (rule ingest_one_file_atomic)

theorem ingest_file_all_or_nothing_witness:
  "\<exists>f w' st'. ingest_one_file sample_env ''/m'' KIND_LIKES False sample_path (sample_world, zero_stats)
     = Some (f, w', st') \<and> (if f then durable w' = empty_db else w_txn w' = None)"
  using sample_pass ingest_file_all_or_nothing [of sample_world sample_env "''/m''" KIND_LIKES sample_path zero_stats]
  by (metis sample_file(3,5))

text \<open>C1: re-running on an unchanged file is a no-op. After a successful pass, a second pass over the
  same bytes, whatever the kernel's reads, leaves the database, the file system and the
  counters as they are.\<close>

theorem ingest_again_is_noop:
  assumes "ingest_one_file E m kind False p (w, st) = Some (False, w', st')"
    and "make_relpath m p = Some rel" "fs_content (w_fs w) p = Some bytes" "w_txn w = None"
    and "0 \<le> lookup_offset (w_db w) rel" "reads_ok E" "reads_ok E'"
    and "fs_content (w_fs w') p = Some bytes" "w_sql w' = []"
  shows "ingest_one_file E' m kind False p (w', st2) = Some (False, w', st2)"
proof -
  let ?off = "if lookup_offset (w_db w') rel > int (length bytes) then 0 else lookup_offset (w_db w') rel"
  have "w_txn w' = None \<and> 0 \<le> ?off \<and> spec_read (drop (nat ?off) bytes) = (AtEof, drop (nat ?off) bytes)"
    using ingest_one_file_leaves [OF assms(1-5) _ refl] assms(6) by (simp add: reads_ok_def)
  then show ?thesis
    using ingest_one_file_quiet [of m p rel w' bytes ?off E' kind st2] assms by (simp add: reads_ok_def)
qed

theorem ingest_again_is_noop_witness:
  "\<exists>w' st'. ingest_one_file sample_env ''/m'' KIND_LIKES False sample_path (sample_world, zero_stats)
     = Some (False, w', st') \<and> length (likes (w_db w')) = 1 \<and>
     ingest_one_file (sample_env\<lparr>ie_reads := \<lambda>p. []\<rparr>) ''/m'' KIND_LIKES False sample_path (w', zero_stats)
       = Some (False, w', zero_stats)"
proof -
  obtain w' st' where r: "ingest_one_file sample_env ''/m'' KIND_LIKES False sample_path (sample_world, zero_stats)
     = Some (False, w', st')" "w_sql w' = []" "fs_content (w_fs w') sample_path = Some sample_bytes"
     "length (likes (w_db w')) = 1" using sample_pass by blast
  have "0 \<le> lookup_offset (w_db sample_world) ''likes-phone-A.jsonl''"
    by (simp add: sample_file lookup_offset_def empty_db_def)
  from ingest_again_is_noop [OF r(1) sample_file(1,2,3) this sample_env_reads r(3,2)] r show ?thesis by blast
qed

text \<open>The result of a file does not depend on how the kernel cuts it into reads, and the loop
  over its lines always returns.\<close>

theorem ingest_reads_irrelevant:
  assumes "reads_ok E" "reads_ok (E\<lparr>ie_reads := f\<rparr>)"
    and "offsets_nonneg (w_db w)"
  shows "ingest_one_file (E\<lparr>ie_reads := f\<rparr>) m kind dry p (w, st) = ingest_one_file E m kind dry p (w, st) \<and>
    ingest_one_file E m kind dry p (w, st) \<noteq> None"
  using assms by (rule one_file_reads)

theorem ingest_reads_irrelevant_witness:
  "ingest_one_file (sample_env\<lparr>ie_reads := \<lambda>p. []\<rparr>) ''/m'' KIND_LIKES False sample_path (sample_world, zero_stats) =
     ingest_one_file sample_env ''/m'' KIND_LIKES False sample_path (sample_world, zero_stats) \<and>
   ingest_one_file sample_env ''/m'' KIND_LIKES False sample_path (sample_world, zero_stats) \<noteq> None"
  by (rule ingest_reads_irrelevant [OF sample_env_reads]) (simp add: sample_file empty_db_def offsets_nonneg_def)
text \<open>C11: an ingest run always returns when no read fails: the reader always makes progress, over
  oversize lines and partial last lines too.\<close>

theorem ingest_run_returns:
  assumes "reads_ok E" "offsets_nonneg (w_db w)" "offsets_nonneg (durable w)"
  shows "\<exists>rc w' st. ingest_run E m False w = Some (rc, w', st)"
  using assms by (intro run_returns) (simp_all add: nonneg_run.both_def)

theorem ingest_run_returns_witness:
  "\<exists>rc w' st. ingest_run sample_env ''/m'' False sample_world = Some (rc, w', st)"
  using ingest_run_returns [OF sample_env_reads(1), of sample_world "''/m''"] sample_ok
  by (simp add: nonneg_run.both_def)

text \<open>Every ingest run keeps the primary keys, the unique paths and the foreign keys of the schema,
  in the connection's view and on disk, whatever the files say and whichever statements fail.\<close>

theorem ingest_run_keeps_schema:
  assumes "db_ok (w_db w)" "w_txn w = None" "ingest_run E m False w = Some (rc, w', st)"
  shows "db_ok (w_db w') \<and> db_ok (durable w')"
  using ok_run.run_inv [OF _ assms(3)] assms(1,2) by (simp add: ok_run.both_def durable_def)

theorem ingest_run_keeps_schema_witness:
  "\<exists>rc w' st. ingest_run sample_env ''/m'' False sample_world = Some (rc, w', st) \<and>
     db_ok (w_db w') \<and> db_ok (durable w')"
  using run_returns [OF sample_env_reads(1) sample_ok(2), of "''/m''"]
    ingest_run_keeps_schema [OF sample_ok(1) sample_file(3)] by blast

text \<open>C4: a deleted track stays deleted. Once a hash is blacklisted and has no row, no ingest run gives
  it a track, a pin, a play, a residency or a manifest row.\<close>

theorem ingest_never_revives:
  assumes "gone h (w_db w)" "w_txn w = None" "ingest_run E m False w = Some (rc, w', st)"
  shows "gone h (w_db w') \<and> gone h (durable w')"
  using gone_run.run_inv [OF _ assms(3)] assms(1,2) by (simp add: gone_run.both_def durable_def)

definition deleted_world :: world where
  "deleted_world = sample_world\<lparr>w_db := empty_db\<lparr>track_blacklist :=
     [\<lparr>bl_sha = ''h'', bl_reason = ''didnt_like'', bl_added = ''2023''\<rparr>]\<rparr>\<rparr>"

theorem ingest_never_revives_witness:
  "\<exists>rc w' st. ingest_run sample_env ''/m'' False deleted_world = Some (rc, w', st) \<and>
     gone ''h'' (w_db w') \<and> gone ''h'' (durable w')"
proof -
  have "nonneg_run.both deleted_world"
    by (simp add: deleted_world_def sample_world_def nonneg_run.both_def offsets_nonneg_def durable_def empty_db_def)
  from run_returns [OF sample_env_reads(1) this, of "''/m''"] obtain rc w' st where
    r: "ingest_run sample_env ''/m'' False deleted_world = Some (rc, w', st)" by blast
  have "gone ''h'' (w_db deleted_world)" "w_txn deleted_world = None"
    by (simp_all add: deleted_world_def sample_world_def gone_def is_blacklisted_def track_shas_def empty_db_def)
  from ingest_never_revives [OF this r] r show ?thesis by blast
qed

text \<open>C10: like events converge. Two deliveries of the same events in any order, where no two events of
  one item share a timestamp, leave the same like for every item; and delivering the whole
  stream a second time changes nothing.\<close>

theorem like_stream_converges:
  assumes "w_sql (i_w s) = []" "mset js = mset js'"
    and "\<forall>a\<in>set (List.map_filter (like_of E) js). \<forall>b\<in>set (List.map_filter (like_of E) js).
           like_key a = like_key b \<and> lk_ts a = lk_ts b \<longrightarrow> a = b"
  shows "like_entry (w_db (i_w (like_stream E js s))) k = like_entry (w_db (i_w (like_stream E js' s))) k \<and>
    like_entry (w_db (i_w (like_stream E (js @ js) s))) k = like_entry (w_db (i_w (like_stream E js s))) k"
proof -
  have app: "List.map_filter (like_of E) (js @ js) = List.map_filter (like_of E) js @ List.map_filter (like_of E) js"
    by (simp add: List.map_filter_def)
  show ?thesis
    using likes_lww.any_order [OF mset_map_filter [OF assms(2), of "like_of E"], of "w_db (i_w s)" k]
      likes_lww.replay [of "List.map_filter (like_of E) js" "w_db (i_w s)" k] assms(3)
    by (simp add: like_stream_db [OF assms(1)] app)
qed

definition sample_like :: "string \<Rightarrow> int \<Rightarrow> json \<Rightarrow> json" where
  "sample_like i ts b = JObject [(''v'', JInteger 1), (''ts'', JInteger ts), (''unit'', JString ''album''),
     (''id'', JString i), (''liked'', b)]"

theorem like_stream_converges_witness:
  "let js = [sample_like ''a'' 1600000000000 JTrue, sample_like ''a'' 1600000000001 JFalse];
       s = \<lparr>i_w = sample_world, i_stats = zero_stats, i_max_ts = 0\<rparr>
   in like_entry (w_db (i_w (like_stream sample_env js s))) (''album'', ''a'') =
        like_entry (w_db (i_w (like_stream sample_env (rev js) s))) (''album'', ''a'') \<and>
      like_entry (w_db (i_w (like_stream sample_env (js @ js) s))) (''album'', ''a'') =
        like_entry (w_db (i_w (like_stream sample_env js s))) (''album'', ''a'')"
  unfolding Let_def
  by (rule like_stream_converges)
    (simp_all add: sample_file sample_like_def like_of_def unit_id_ts_def get_int_def get_string_def
      get_bool_def ts_plausible_def INGEST_TS_MIN_MS_def sample_env_def List.map_filter_simps)

text \<open>A dry run writes nothing, neither to the database nor to the file system.\<close>

theorem ingest_dry_run_pure:
  assumes "ingest_run E m True w = Some (rc, w', st)"
  shows "w' = w"
proof (cases "m = []")
  case True
  with assms show ?thesis by (simp add: ingest_run_def)
next
  case False
  with assms obtain x1 x2 x3 where
    "run_glob E m True KIND_STATS (False, w, zero_stats) = Some x1"
    "run_glob E m True KIND_LIKES x1 = Some x2" "run_glob E m True KIND_PINS x2 = Some x3"
    "run_glob E m True KIND_ACTIONS x3 = Some (rc, w', st)"
    by (auto simp: ingest_run_def bind_eq_Some_conv simp del: split_paired_Ex)
  then show ?thesis by (auto dest!: glob_dry)
qed

theorem ingest_dry_run_pure_witness:
  "\<exists>rc w' st. ingest_run sample_env ''/m'' True sample_world = Some (rc, w', st) \<and> w' = sample_world"
  using dry_run_returns [OF sample_env_reads(1), of sample_world "''/m''"] sample_ok
    ingest_dry_run_pure [of sample_env "''/m''" sample_world]
  by (auto simp: nonneg_run.both_def)

text \<open>The two handlers on a database that works.\<close>

lemma unsync_event:
  assumes "unit_id_ts E j = Some (''track'', h, u)" "get_string j ''action'' = Some ''unsync''"
    and "w_sql (i_w s) = []" "pin_ts_of h (w_db (i_w s)) \<le> u"
  shows "w_db (i_w (snd (handle_action E False j s))) =
      add_override h (ie_now_iso E) (unpin_rows h (ie_now_iso E) (w_db (i_w s))) \<and>
    w_sql (i_w (snd (handle_action E False j s))) = []"
  using assms by (simp add: handle_action_def bump_ts_def Let_def unsync_track_def sql_write_quiet)

lemma pin_event:
  assumes "unit_id_ts E j = Some (''track'', h, p)" "get_bool j ''pinned'' = Some True"
    and "w_sql (i_w s) = []" "\<not> is_blacklisted h (w_db (i_w s))"
  shows "w_db (i_w (snd (handle_pin E False j s))) =
      clear_override h (upsert_pin \<lparr>pn_unit = ''track'', pn_id = h, pn_pinned = True,
        pn_updated = ie_iso_ms E p, pn_ts = p\<rparr> (w_db (i_w s))) \<and>
    w_sql (i_w (snd (handle_pin E False j s))) = []"
  using assms by (simp add: handle_pin_def bump_ts_def Let_def sql_write_quiet)

lemma pin_ts_entry: "pin_ts_of h d = (case pin_entry d (''track'', h) of None \<Rightarrow> 0 | Some (v, ts) \<Rightarrow> ts)"
  by (cases "find_row pin_key (''track'', h) (pins d)") (simp_all add: pin_ts_of_def pin_entry_def del: find_row_None)

lemma pin_entry_unpin:
  "pin_entry (unpin_rows h now d) (''track'', h) =
     map_option (\<lambda>(v, ts). ((False, now), ts)) (pin_entry d (''track'', h))"
proof -
  let ?g = "\<lambda>r. if pn_id r = h \<and> pn_unit r = ''track'' then r\<lparr>pn_pinned := False, pn_updated := now\<rparr> else r"
  have "find_row pin_key (''track'', h) (map ?g (pins d)) = map_option ?g (find_row pin_key (''track'', h) (pins d))"
    by (rule find_row_map_upd) simp
  then show ?thesis
    by (cases "find_row pin_key (''track'', h) (pins d)")
      (auto simp: pin_entry_def unpin_rows_def simp del: find_row_None dest: find_row_SomeD)
qed

lemma pin_entry_other [simp]:
  "pin_entry (add_override h now d) k = pin_entry d k" "pin_entry (clear_override h d) k = pin_entry d k"
  by (simp_all add: pin_entry_def add_override_def clear_override_def)

text \<open>What a stale pin does. An unsync does not move the timestamp of the pin row, so a pin event
  older than the unsync (but not older than the row) still takes effect when it is read after
  it: the same two events leave the track pinned in one order and unsynced in the other.\<close>

theorem stale_pin_undoes_unsync:
  assumes "unit_id_ts E jp = Some (''track'', h, p)" "get_bool jp ''pinned'' = Some True"
    and "unit_id_ts E ju = Some (''track'', h, u)" "get_string ju ''action'' = Some ''unsync''"
    and "p < u" "w_sql (i_w s) = []" "\<not> is_blacklisted h (w_db (i_w s))"
    and "pin_ts_of h (w_db (i_w s)) \<le> p"
  defines "unsync_pin \<equiv> w_db (i_w (snd (handle_pin E False jp (snd (handle_action E False ju s)))))"
    and "pin_unsync \<equiv> w_db (i_w (snd (handle_action E False ju (snd (handle_pin E False jp s)))))"
  shows "(\<exists>x. pin_entry unsync_pin (''track'', h) = Some ((True, x), p)) \<and>
    h \<notin> us_sha ` set (unsync_overrides unsync_pin) \<and>
    (\<exists>x. pin_entry pin_unsync (''track'', h) = Some ((False, x), p)) \<and>
    h \<in> us_sha ` set (unsync_overrides pin_unsync)"
proof -
  let ?d = "w_db (i_w s)" and ?now = "ie_now_iso E"
  let ?row = "\<lparr>pn_unit = ''track'', pn_id = h, pn_pinned = True, pn_updated = ie_iso_ms E p, pn_ts = p\<rparr>"
  have bl: "\<not> is_blacklisted h (add_override h ?now (unpin_rows h ?now ?d))"
    using assms(7) by (simp add: is_blacklisted_def add_override_def unpin_rows_def)
  have "pin_ts_of h ?d \<le> u" using assms(5,8) by simp
  note a1 = unsync_event [OF assms(3,4,6) this]
  from a1 bl have up: "unsync_pin = clear_override h (upsert_pin ?row (add_override h ?now (unpin_rows h ?now ?d)))"
    using pin_event [OF assms(1,2), of "snd (handle_action E False ju s)"] by (simp add: unsync_pin_def)
  note p1 = pin_event [OF assms(1,2,6,7)]
  have e1: "pin_entry (upsert_pin ?row ?d) (''track'', h) = Some ((True, ie_iso_ms E p), p)"
    using pins_lww.look_up [of ?row ?d "(''track'', h)"] assms(8)
    by (auto simp: pin_ts_entry split: option.splits)
  have "pin_ts_of h (w_db (i_w (snd (handle_pin E False jp s)))) \<le> u"
    using p1 e1 assms(5) by (simp add: pin_ts_entry)
  from unsync_event [OF assms(3,4) _ this] p1 have
    pu: "pin_unsync = add_override h ?now (unpin_rows h ?now (clear_override h (upsert_pin ?row ?d)))"
    by (simp add: pin_unsync_def)
  have "pin_entry unsync_pin (''track'', h) = Some ((True, ie_iso_ms E p), p)"
    using pins_lww.look_up [of ?row "add_override h ?now (unpin_rows h ?now ?d)" "(''track'', h)"] assms(8)
    by (auto simp: up pin_entry_unpin pin_ts_entry split: option.splits)
  moreover have "h \<notin> us_sha ` set (unsync_overrides unsync_pin)" by (auto simp: up clear_override_def)
  moreover have "pin_entry pin_unsync (''track'', h) = Some ((False, ?now), p)"
    by (simp add: pu pin_entry_unpin e1)
  moreover have "h \<in> us_sha ` set (unsync_overrides pin_unsync)"
    by (simp add: pu add_override_def keys_upsert)
  ultimately show ?thesis by blast
qed

definition sample_sha :: sha where "sample_sha = replicate 64 CHR ''a''"

definition track_event :: "int \<Rightarrow> (string \<times> json) \<Rightarrow> json" where
  "track_event ts f = JObject [(''v'', JInteger 1), (''ts'', JInteger ts), (''unit'', JString ''track''),
     (''id'', JString sample_sha), f]"

theorem stale_pin_undoes_unsync_witness:
  "let s = \<lparr>i_w = sample_world, i_stats = zero_stats, i_max_ts = 0\<rparr>;
       jp = track_event 1600000000000 (''pinned'', JTrue);
       ju = track_event 1600000000001 (''action'', JString ''unsync'');
       unsync_pin = w_db (i_w (snd (handle_pin sample_env False jp (snd (handle_action sample_env False ju s)))))
   in \<exists>x. pin_entry unsync_pin (''track'', sample_sha) = Some ((True, x), 1600000000000)"
proof -
  have sha: "is_sha256_hex sample_sha" "sample_sha \<noteq> []"
    by (simp_all add: is_sha256_hex_def sample_sha_def hex_char_def)
  have ev: "unit_id_ts sample_env (track_event ts f) = Some (''track'', sample_sha, ts)"
    if "ts \<in> {1600000000000, 1600000000001}" for ts f
    using that sha by (auto simp: unit_id_ts_def track_event_def get_int_def get_string_def ts_plausible_def
        INGEST_TS_MIN_MS_def sample_env_def)
  show ?thesis
    using stale_pin_undoes_unsync [OF ev _ ev, of 1600000000000 "(''pinned'', JTrue)" 1600000000001
        "(''action'', JString ''unsync'')" "\<lparr>i_w = sample_world, i_stats = zero_stats, i_max_ts = 0\<rparr>"]
    by (simp add: track_event_def get_bool_def get_string_def sample_file is_blacklisted_def empty_db_def
        pin_ts_of_def)
qed

end
