(* ===== verification/Config.thy ===== *)
theory Config
  imports Float64
begin

text \<open>
  The configuration of \<open>config.c\<close>: the record, its defaults, and the parser of the TOML subset
  (sections, \<open>key = value\<close>, comments), with the C library conversions it calls. A field that is
  a \<open>NULL\<close> pointer is \<open>None\<close>; a bucket that has no \<open>source\<close> line keeps a \<open>NULL\<close> source.
  \<open>strtod\<close> is modelled on decimal numbers; hexadecimal numbers, infinities and NaN count as
  unparsable. A number out of the range of its type sets \<open>errno\<close> and is unparsable, as in the code.
\<close>

record bucket_config =
  b_name :: string
  b_count :: int
  b_source :: "string option"
  b_weight :: double
  b_window_days :: int

record nocturne_config =
  c_library_root :: "string option"
  c_sync_meta_root :: "string option"
  c_flacget_path :: "string option"
  c_cap_bytes :: int
  c_cap_effective_ratio :: double
  c_hysteresis_ratio :: double
  c_cold_start_threshold :: int
  c_random_seed :: int
  c_desktop_name :: "string option"
  c_phone_name :: "string option"
  c_phone_sync_files :: "string option"
  c_phone_sync_meta :: "string option"
  c_desktop_device_id :: "string option"
  c_phone_device_id :: "string option"
  c_buckets :: "bucket_config list"
  c_transcode_enabled :: bool
  c_transcode_format :: "string option"
  c_transcode_bitrate :: int
  c_transcode_level :: int
  c_discover_exclude :: "string option"
  c_discover_count :: int
  c_lb_username :: "string option"
  c_lb_token :: "string option"

section \<open>Defaults\<close>

definition DEFAULT_BUCKETS :: "bucket_config list" where
  "DEFAULT_BUCKETS =
    [\<lparr>b_name = ''recent_adds'', b_count = 80, b_source = Some ''recent_adds_by_mtime'', b_weight = 1, b_window_days = 14\<rparr>,
     \<lparr>b_name = ''top_played'', b_count = 80, b_source = Some ''top_played_phone'', b_weight = rnd (9/10), b_window_days = 90\<rparr>,
     \<lparr>b_name = ''recent_plays'', b_count = 60, b_source = Some ''recent_plays_phone'', b_weight = rnd (85/100), b_window_days = 30\<rparr>,
     \<lparr>b_name = ''loved'', b_count = 100, b_source = Some ''loved'', b_weight = 1, b_window_days = 0\<rparr>,
     \<lparr>b_name = ''exploration'', b_count = 40, b_source = Some ''exploration_random'', b_weight = 1/2, b_window_days = 0\<rparr>,
     \<lparr>b_name = ''manual_pins'', b_count = 200, b_source = Some ''manual_pins'', b_weight = 1, b_window_days = 0\<rparr>,
     \<lparr>b_name = ''weekly_discovery'', b_count = 20, b_source = Some ''weekly_discovery_picks'', b_weight = rnd (95/100), b_window_days = 0\<rparr>]"

definition config_default :: nocturne_config where
  "config_default = \<lparr>c_library_root = None, c_sync_meta_root = None, c_flacget_path = None,
     c_cap_bytes = 12 * 1024 * 1024 * 1024, c_cap_effective_ratio = rnd (7/10),
     c_hysteresis_ratio = rnd (1/10), c_cold_start_threshold = 10, c_random_seed = 0,
     c_desktop_name = None, c_phone_name = None, c_phone_sync_files = None, c_phone_sync_meta = None,
     c_desktop_device_id = None, c_phone_device_id = None, c_buckets = DEFAULT_BUCKETS,
     c_transcode_enabled = False, c_transcode_format = None, c_transcode_bitrate = 0,
     c_transcode_level = 0, c_discover_exclude = None, c_discover_count = 0,
     c_lb_username = None, c_lb_token = None\<rparr>"

section \<open>Text\<close>

definition isspace :: "char \<Rightarrow> bool" where
  "isspace c \<longleftrightarrow> c \<in> {CHR '' '', CHR 0x09, CHR 0x0A, CHR 0x0B, CHR 0x0C, CHR 0x0D}"

definition trim :: "string \<Rightarrow> string" where
  "trim s = rev (dropWhile isspace (rev (dropWhile isspace s)))"

text \<open>\<open>prev\<close> is the character before the current one; at the start of the line there is none.\<close>

fun strip_comment_from :: "char option \<Rightarrow> bool \<Rightarrow> string \<Rightarrow> string" where
  "strip_comment_from prev in_str [] = []"
| "strip_comment_from prev in_str (c # cs) =
     (if c = CHR 0x22 \<and> prev \<noteq> Some (CHR 0x5C) then c # strip_comment_from (Some c) (\<not> in_str) cs
      else if \<not> in_str \<and> (c = CHR ''#'' \<or> c = CHR '';'') then []
      else c # strip_comment_from (Some c) in_str cs)"

definition strip_comment :: "string \<Rightarrow> string" where
  "strip_comment s = strip_comment_from None False s"

definition digit :: "char \<Rightarrow> bool" where
  "digit c \<longleftrightarrow> CHR ''0'' \<le> c \<and> c \<le> CHR ''9''"

definition digit_val :: "char \<Rightarrow> int" where
  "digit_val c = int (of_char c) - 48"

definition digits_val :: "string \<Rightarrow> int" where
  "digits_val ds = foldl (\<lambda>n c. 10 * n + digit_val c) 0 ds"

text \<open>An optional sign: whether the number is negative, and the rest.\<close>

fun take_sign :: "string \<Rightarrow> bool \<times> string" where
  "take_sign (c # cs) = (if c = CHR ''-'' then (True, cs) else if c = CHR ''+'' then (False, cs)
     else (False, c # cs))"
| "take_sign [] = (False, [])"

text \<open>\<open>strtoll(s, &end, 10)\<close>: the value and the rest, \<open>None\<close> where no digit or out of range.\<close>

definition strtoll :: "string \<Rightarrow> (int \<times> string) option" where
  "strtoll s =
     (let (neg, t) = take_sign (dropWhile isspace s);
          ds = takeWhile digit t; v = (if neg then - digits_val ds else digits_val ds)
      in if ds = [] \<or> v < - (2 ^ 63) \<or> v \<ge> 2 ^ 63 then None else Some (v, dropWhile digit t))"

definition parse_ll :: "string \<Rightarrow> int option" where
  "parse_ll s = (if s = [] then None else case strtoll s of
     None \<Rightarrow> None
   | Some (v, rest) \<Rightarrow> if dropWhile isspace rest = [] then Some v else None)"

definition strtod :: "string \<Rightarrow> (double \<times> string) option" where
  "strtod s =
     (let (neg, t) = take_sign (dropWhile isspace s);
          whole = takeWhile digit t; t1 = dropWhile digit t;
          (frac, t2) = (case t1 of c # cs \<Rightarrow> if c = CHR ''.'' then (takeWhile digit cs, dropWhile digit cs)
                                             else ([], t1) | [] \<Rightarrow> ([], t1));
          (e, t3) = (case t2 of
             c # cs \<Rightarrow> (if c \<in> {CHR ''e'', CHR ''E''}
                then (let (eneg, u) = take_sign cs; ed = takeWhile digit u
                      in if ed = [] then (0, t2)
                         else (if eneg then - digits_val ed else digits_val ed, dropWhile digit u))
                else (0, t2))
           | [] \<Rightarrow> (0, t2));
          m = of_int (digits_val (whole @ frac)) / 10 ^ length frac;
          v = rnd (if 0 \<le> e then m * 10 ^ nat e else m / 10 ^ nat (- e))
      in if whole = [] \<and> frac = [] \<or> 0 < v \<and> (expo v > 971 \<or> expo v < -1074) then None
         else Some (if neg then - v else v, t3))"

definition parse_dbl :: "string \<Rightarrow> double option" where
  "parse_dbl s = (if s = [] then None else case strtod s of
     None \<Rightarrow> None
   | Some (v, rest) \<Rightarrow> if dropWhile isspace rest = [] then Some v else None)"

text \<open>The escapes inside a quoted value, between its quotes.\<close>

fun unescape :: "string \<Rightarrow> string" where
  "unescape (c # d # cs) =
     (if c = CHR 0x5C then
        (if d = CHR ''n'' then nl else if d = CHR ''t'' then CHR 0x09 else d) # unescape cs
      else c # unescape (d # cs))"
| "unescape cs = cs"

definition parse_string :: "string \<Rightarrow> string option" where
  "parse_string s =
     (if length s < 2 \<or> hd s \<noteq> CHR 0x22 \<or> last s \<noteq> CHR 0x22 then None
      else Some (unescape (butlast (tl s))))"

section \<open>Applying a key\<close>

definition find_or_add_bucket :: "string \<Rightarrow> bucket_config list \<Rightarrow> bucket_config list" where
  "find_or_add_bucket n bs = (if n \<in> b_name ` set bs then bs
     else bs @ [\<lparr>b_name = n, b_count = 0, b_source = None, b_weight = 0, b_window_days = 0\<rparr>])"

text \<open>The update reaches the first bucket of the name, as \<open>find_or_add_bucket\<close> does.\<close>

fun update_bucket :: "string \<Rightarrow> (bucket_config \<Rightarrow> bucket_config) \<Rightarrow> bucket_config list \<Rightarrow> bucket_config list" where
  "update_bucket n f [] = []"
| "update_bucket n f (b # bs) = (if b_name b = n then f b # bs else b # update_bucket n f bs)"

text \<open>The conversion of a 64-bit integer to a C \<open>int\<close> (32 bits, two's complement).\<close>

definition to_int32 :: "int \<Rightarrow> int" where
  "to_int32 n = (let m = n mod 2 ^ 32 in if m \<ge> 2 ^ 31 then m - 2 ^ 32 else m)"

definition clamp :: "int \<Rightarrow> int \<Rightarrow> int \<Rightarrow> int" where
  "clamp lo hi n = (if n < lo then lo else if n > hi then hi else n)"

text \<open>
  \<open>apply_kv\<close>. \<open>Some c\<close> is success, \<open>None\<close> an error; an unknown key changes nothing. The value
  is tried as a quoted string, an integer and a double, as the code does.
\<close>

definition apply_bucket_kv ::
  "nocturne_config \<Rightarrow> string \<Rightarrow> string \<Rightarrow> string option \<Rightarrow> int option \<Rightarrow> double option \<Rightarrow> nocturne_config option" where
  "apply_bucket_kv c bn key s n d =
     (let bs = find_or_add_bucket bn (c_buckets c);
          set = (\<lambda>f. Some (c\<lparr>c_buckets := update_bucket bn f bs\<rparr>))
      in if key = ''count'' then Option.bind n (\<lambda>n. set (\<lambda>b. b\<lparr>b_count := clamp 0 1000000 n\<rparr>))
         else if key = ''weight'' then Option.bind d (\<lambda>d. set (\<lambda>b. b\<lparr>b_weight := d\<rparr>))
         else if key = ''window_days'' then Option.bind n (\<lambda>n. set (\<lambda>b. b\<lparr>b_window_days := to_int32 n\<rparr>))
         else if key = ''source'' then Option.bind s (\<lambda>s. set (\<lambda>b. b\<lparr>b_source := Some s\<rparr>))
         else Some (c\<lparr>c_buckets := bs\<rparr>))"

definition apply_kv :: "nocturne_config \<Rightarrow> string \<Rightarrow> string \<Rightarrow> string \<Rightarrow> nocturne_config option" where
  "apply_kv c section key raw =
     (let quoted = (raw \<noteq> [] \<and> hd raw = CHR 0x22);
          s = (if quoted then parse_string raw else None);
          n = parse_ll raw; d = parse_dbl raw
      in if quoted \<and> s = None then None
      else if section = ''library'' \<and> key = ''path'' then Option.bind s (\<lambda>s. Some (c\<lparr>c_library_root := Some s\<rparr>))
      else if section = ''sync_meta'' \<and> key = ''path'' then Option.bind s (\<lambda>s. Some (c\<lparr>c_sync_meta_root := Some s\<rparr>))
      else if section = ''download'' \<and> key = ''flacget_path'' then Option.bind s (\<lambda>s. Some (c\<lparr>c_flacget_path := Some s\<rparr>))
      else if section = ''syncthing'' \<and> key = ''desktop_name'' then Option.bind s (\<lambda>s. Some (c\<lparr>c_desktop_name := Some s\<rparr>))
      else if section = ''syncthing'' \<and> key = ''phone_name'' then Option.bind s (\<lambda>s. Some (c\<lparr>c_phone_name := Some s\<rparr>))
      else if section = ''syncthing'' \<and> key = ''desktop_device_id'' then Option.bind s (\<lambda>s. Some (c\<lparr>c_desktop_device_id := Some s\<rparr>))
      else if section = ''syncthing'' \<and> key = ''phone_device_id'' then Option.bind s (\<lambda>s. Some (c\<lparr>c_phone_device_id := Some s\<rparr>))
      else if section = ''syncthing.phone'' \<and> key = ''sync_files_path'' then Option.bind s (\<lambda>s. Some (c\<lparr>c_phone_sync_files := Some s\<rparr>))
      else if section = ''syncthing.phone'' \<and> key = ''sync_meta_path'' then Option.bind s (\<lambda>s. Some (c\<lparr>c_phone_sync_meta := Some s\<rparr>))
      else if section = ''cap'' \<and> key = ''bytes'' then Option.bind n (\<lambda>n. Some (c\<lparr>c_cap_bytes := n\<rparr>))
      else if section = ''cap'' \<and> key = ''effective_ratio'' then Option.bind d (\<lambda>d. Some (c\<lparr>c_cap_effective_ratio := d\<rparr>))
      else if section = ''resolver'' \<and> key = ''hysteresis'' then Option.bind d (\<lambda>d. Some (c\<lparr>c_hysteresis_ratio := d\<rparr>))
      else if section = ''resolver'' \<and> key = ''cold_start_play_threshold'' then Option.bind n (\<lambda>n. Some (c\<lparr>c_cold_start_threshold := to_int32 n\<rparr>))
      else if section = ''resolver'' \<and> key = ''seed'' then Option.bind n (\<lambda>n. Some (c\<lparr>c_random_seed := n mod 2 ^ 64\<rparr>))
      else if section = ''transcode'' \<and> key = ''enabled'' then Option.bind n (\<lambda>n. Some (c\<lparr>c_transcode_enabled := (n \<noteq> 0)\<rparr>))
      else if section = ''transcode'' \<and> key = ''format'' then Option.bind s (\<lambda>s. Some (c\<lparr>c_transcode_format := Some s\<rparr>))
      else if section = ''transcode'' \<and> key = ''bitrate_kbps'' then Option.bind n (\<lambda>n. Some (c\<lparr>c_transcode_bitrate := clamp 32 510 n\<rparr>))
      else if section = ''transcode'' \<and> key = ''level_lufs'' then
        Option.bind n (\<lambda>n. if n \<noteq> 0 \<and> (n < -40 \<or> n > -5) then None else Some (c\<lparr>c_transcode_level := n\<rparr>))
      else if section = ''discover'' \<and> key = ''exclude_album_substrings'' then Option.bind s (\<lambda>s. Some (c\<lparr>c_discover_exclude := Some s\<rparr>))
      else if section = ''discover'' \<and> key = ''count'' then Option.bind n (\<lambda>n. Some (c\<lparr>c_discover_count := clamp 1 1000 n\<rparr>))
      else if section = ''listenbrainz'' \<and> key = ''username'' then Option.bind s (\<lambda>s. Some (c\<lparr>c_lb_username := Some s\<rparr>))
      else if section = ''listenbrainz'' \<and> key = ''user_token'' then Option.bind s (\<lambda>s. Some (c\<lparr>c_lb_token := Some s\<rparr>))
      else case strip_prefix ''buckets.'' section of
        Some bn \<Rightarrow> apply_bucket_kv c bn key s n d
      | None \<Rightarrow> Some c)"

section \<open>The file\<close>

text \<open>\<open>fgets\<close> into a buffer of 1024 bytes.\<close>

function fgets_lines :: "string \<Rightarrow> string list" where
  "fgets_lines s =
     (if s = [] then []
      else let k = (case memchr_nl (take 1023 s) of Some i \<Rightarrow> i + 1 | None \<Rightarrow> 1023)
           in take k s # fgets_lines (drop k s))"
  by pat_completeness auto
termination by (relation "measure length") (auto split: option.splits)

declare fgets_lines.simps [simp del]

datatype config_line = Blank | Section string | Key string string | Malformed

definition read_config_line :: "string \<Rightarrow> config_line" where
  "read_config_line buf =
     (let line = trim (strip_comment buf)
      in if line = [] then Blank
         else if hd line = CHR ''['' then
           (if CHR '']'' \<in> set line
            then (let name = trim (tl (takeWhile (\<lambda>c. c \<noteq> CHR '']'') line))
                  in if length name \<ge> 128 then Malformed else Section name)
            else Malformed)
         else if CHR ''='' \<in> set line
         then Key (trim (takeWhile (\<lambda>c. c \<noteq> CHR ''='') line)) (trim (tl (dropWhile (\<lambda>c. c \<noteq> CHR ''='') line)))
         else Malformed)"

fun load_lines :: "string list \<Rightarrow> string \<Rightarrow> nocturne_config \<Rightarrow> nocturne_config option" where
  "load_lines [] sec c = Some c"
| "load_lines (l # ls) sec c = (case read_config_line l of
     Blank \<Rightarrow> load_lines ls sec c
   | Section name \<Rightarrow> load_lines ls name c
   | Malformed \<Rightarrow> None
   | Key k v \<Rightarrow> if sec = [] then None
                else (case apply_kv c sec k v of None \<Rightarrow> None | Some c' \<Rightarrow> load_lines ls sec c'))"

text \<open>
  \<open>config_load\<close>: opening the file gives an error or its bytes; the result \<open>None\<close> is the return
  code -1.
\<close>

definition config_load :: "errno + string \<Rightarrow> nocturne_config option" where
  "config_load content = (case content of
     Inl e \<Rightarrow> if e = ENOENT then Some config_default else None
   | Inr s \<Rightarrow> load_lines (fgets_lines s) [] config_default)"

section \<open>What a loaded configuration guarantees\<close>

definition bucket_ok :: "bucket_config \<Rightarrow> bool" where
  "bucket_ok b \<longleftrightarrow> b_count b \<in> {0..1000000} \<and> b_window_days b \<in> {- (2 ^ 31)..<2 ^ 31}"

definition config_ok :: "nocturne_config \<Rightarrow> bool" where
  "config_ok c \<longleftrightarrow>
     c_cap_bytes c \<in> {- (2 ^ 63)..<2 ^ 63} \<and> c_random_seed c \<in> {0..<2 ^ 64} \<and>
     c_cold_start_threshold c \<in> {- (2 ^ 31)..<2 ^ 31} \<and>
     (c_transcode_bitrate c = 0 \<or> c_transcode_bitrate c \<in> {32..510}) \<and>
     (c_transcode_level c = 0 \<or> c_transcode_level c \<in> {-40..-5}) \<and>
     (c_discover_count c = 0 \<or> c_discover_count c \<in> {1..1000}) \<and>
     distinct (map b_name (c_buckets c)) \<and> (\<forall>b\<in>set (c_buckets c). bucket_ok b)"

lemma clamp_range: "lo \<le> hi \<Longrightarrow> clamp lo hi n \<in> {lo..hi}"
  by (simp add: clamp_def)

lemma to_int32_range: "to_int32 n \<in> {- (2 ^ 31)..<2 ^ 31}"
proof -
  have "0 \<le> n mod 2 ^ 32" "n mod 2 ^ 32 < 2 ^ 32" by simp_all
  then show ?thesis by (auto simp: to_int32_def Let_def simp del: mod_eq_0_iff_dvd)
qed

lemma parse_ll_range: "parse_ll s = Some n \<Longrightarrow> n \<in> {- (2 ^ 63)..<2 ^ 63}"
  by (auto simp: parse_ll_def strtoll_def Let_def split: if_splits option.splits prod.splits)

lemma update_bucket_names:
  "(\<And>b. b_name (f b) = b_name b) \<Longrightarrow> map b_name (update_bucket n f bs) = map b_name bs"
  by (induction bs) auto

lemma update_bucket_all:
  "\<forall>b\<in>set bs. P b \<Longrightarrow> (\<And>b. P b \<Longrightarrow> P (f b)) \<Longrightarrow> \<forall>b\<in>set (update_bucket n f bs). P b"
  by (induction bs) auto

lemma find_or_add_bucket_ok:
  "distinct (map b_name bs) \<Longrightarrow> \<forall>b\<in>set bs. bucket_ok b \<Longrightarrow>
   distinct (map b_name (find_or_add_bucket n bs)) \<and> (\<forall>b\<in>set (find_or_add_bucket n bs). bucket_ok b)"
  by (auto simp: find_or_add_bucket_def bucket_ok_def)

lemma set_bucket_ok:
  assumes "config_ok c" and "\<And>b. b_name (f b) = b_name b" and "\<And>b. bucket_ok b \<Longrightarrow> bucket_ok (f b)"
  shows "config_ok (c\<lparr>c_buckets := update_bucket n f (find_or_add_bucket n (c_buckets c))\<rparr>)"
proof -
  let ?bs = "find_or_add_bucket n (c_buckets c)"
  have bs: "distinct (map b_name ?bs)" "\<forall>b\<in>set ?bs. bucket_ok b"
    using assms(1) find_or_add_bucket_ok [of "c_buckets c" n] by (simp_all add: config_ok_def)
  have "distinct (map b_name (update_bucket n f ?bs))"
    using bs(1) by (simp only: update_bucket_names [OF assms(2)])
  moreover have "\<forall>b\<in>set (update_bucket n f ?bs). bucket_ok b"
    by (rule update_bucket_all) (fact bs(2), fact assms(3))
  ultimately show ?thesis using assms(1) by (simp add: config_ok_def)
qed

lemma apply_bucket_kv_ok:
  assumes "config_ok c"
  shows "opt_post config_ok (apply_bucket_kv c bn key s n d)"
proof -
  have "config_ok (c\<lparr>c_buckets := find_or_add_bucket bn (c_buckets c)\<rparr>)"
    using assms find_or_add_bucket_ok [of "c_buckets c" bn] by (simp add: config_ok_def)
  then show ?thesis
    unfolding apply_bucket_kv_def Let_def
    using clamp_range [of 0 1000000] to_int32_range
    by (intro post_intros set_bucket_ok assms) (simp_all add: bucket_ok_def)
qed

lemma config_ok_cap: "config_ok c \<Longrightarrow> parse_ll s = Some n \<Longrightarrow> config_ok (c\<lparr>c_cap_bytes := n\<rparr>)"
  using parse_ll_range [of s n] by (simp add: config_ok_def)

lemma config_ok_small:
  assumes "config_ok c"
  shows "config_ok (c\<lparr>c_cold_start_threshold := to_int32 n\<rparr>)" "config_ok (c\<lparr>c_random_seed := n mod 2 ^ 64\<rparr>)"
    "config_ok (c\<lparr>c_transcode_bitrate := clamp 32 510 n\<rparr>)" "config_ok (c\<lparr>c_discover_count := clamp 1 1000 n\<rparr>)"
    "\<not> (n \<noteq> 0 \<and> (n < -40 \<or> n > -5)) \<Longrightarrow> config_ok (c\<lparr>c_transcode_level := n\<rparr>)"
  using assms to_int32_range [of n] clamp_range [of 32 510 n] clamp_range [of 1 1000 n]
  by (auto simp: config_ok_def)

lemma config_ok_text:
  assumes "config_ok c"
  shows "config_ok (c\<lparr>c_library_root := s\<rparr>)" "config_ok (c\<lparr>c_sync_meta_root := s\<rparr>)"
    "config_ok (c\<lparr>c_flacget_path := s\<rparr>)" "config_ok (c\<lparr>c_desktop_name := s\<rparr>)"
    "config_ok (c\<lparr>c_phone_name := s\<rparr>)" "config_ok (c\<lparr>c_desktop_device_id := s\<rparr>)"
    "config_ok (c\<lparr>c_phone_device_id := s\<rparr>)" "config_ok (c\<lparr>c_phone_sync_files := s\<rparr>)"
    "config_ok (c\<lparr>c_phone_sync_meta := s\<rparr>)" "config_ok (c\<lparr>c_transcode_format := s\<rparr>)"
    "config_ok (c\<lparr>c_discover_exclude := s\<rparr>)" "config_ok (c\<lparr>c_lb_username := s\<rparr>)"
    "config_ok (c\<lparr>c_lb_token := s\<rparr>)" "config_ok (c\<lparr>c_cap_effective_ratio := d\<rparr>)"
    "config_ok (c\<lparr>c_hysteresis_ratio := d\<rparr>)" "config_ok (c\<lparr>c_transcode_enabled := b\<rparr>)"
  using assms by (simp_all add: config_ok_def)

lemma apply_kv_ok:
  assumes "config_ok c" shows "opt_post config_ok (apply_kv c section key raw)"
  unfolding apply_kv_def Let_def
  by (intro post_intros apply_bucket_kv_ok config_ok_small config_ok_text config_ok_cap assms | assumption)+

lemma load_lines_ok: "config_ok c \<Longrightarrow> opt_post config_ok (load_lines ls sec c)"
proof (induction ls sec c rule: load_lines.induct)
  case (2 l ls sec c)
  then show ?case using opt_postD [OF apply_kv_ok [OF "2.prems"]]
    by (auto split: config_line.splits option.splits intro: post_intros)
qed (simp add: opt_post_Some)

text \<open>The buckets of a configuration: the built-in ones first, then others with names from \<open>N\<close>.\<close>

definition builtin_first :: "string set \<Rightarrow> nocturne_config \<Rightarrow> bool" where
  "builtin_first N c \<longleftrightarrow> (\<exists>ns. map b_name (c_buckets c) = map b_name DEFAULT_BUCKETS @ ns \<and> set ns \<subseteq> N)"

lemma builtin_first_default: "builtin_first N config_default"
  by (simp add: builtin_first_def config_default_def)

lemma builtin_first_add:
  assumes "builtin_first N c" "n \<in> N"
  shows "builtin_first N (c\<lparr>c_buckets := find_or_add_bucket n (c_buckets c)\<rparr>)"
  using assms by (auto simp: builtin_first_def find_or_add_bucket_def)

lemma builtin_first_set:
  assumes "builtin_first N c" "n \<in> N" and "\<And>b. b_name (f b) = b_name b"
  shows "builtin_first N (c\<lparr>c_buckets := update_bucket n f (find_or_add_bucket n (c_buckets c))\<rparr>)"
  using builtin_first_add [OF assms(1,2)] by (simp add: builtin_first_def update_bucket_names [OF assms(3)])

lemma apply_bucket_kv_names:
  assumes "builtin_first N c" "bn \<in> N"
  shows "opt_post (builtin_first N) (apply_bucket_kv c bn key s n d)"
  unfolding apply_bucket_kv_def Let_def
  by (intro post_intros builtin_first_set builtin_first_add assms) simp_all

lemma builtin_first_same: "builtin_first N c \<Longrightarrow> c_buckets c' = c_buckets c \<Longrightarrow> builtin_first N c'"
  by (simp add: builtin_first_def)

lemma apply_kv_names:
  assumes c: "builtin_first N c" and N: "\<And>bn. sec = ''buckets.'' @ bn \<Longrightarrow> bn \<in> N"
  shows "opt_post (builtin_first N) (apply_kv c sec key raw)"
  unfolding apply_kv_def Let_def
  by (intro post_intros apply_bucket_kv_names [OF c] builtin_first_same [OF c] | simp add: N strip_prefix_Some c)+

lemma load_lines_names:
  assumes "builtin_first N c" "\<And>bn. sec = ''buckets.'' @ bn \<Longrightarrow> bn \<in> N"
    and "\<And>bn. Section (''buckets.'' @ bn) \<in> read_config_line ` set ls \<Longrightarrow> bn \<in> N"
  shows "opt_post (builtin_first N) (load_lines ls sec c)"
  using assms
proof (induction ls sec c rule: load_lines.induct)
  case (2 l ls sec c)
  show ?case
  proof (cases "read_config_line l")
    case (Section name)
    have "opt_post (builtin_first N) (load_lines ls name c)"
    proof (rule "2.IH"(2) [OF Section "2.prems"(1)])
      show "bn \<in> N" if "name = ''buckets.'' @ bn" for bn
        using "2.prems"(3) [of bn] Section that by force
    qed (use "2.prems"(3) in auto)
    with Section show ?thesis by simp
  next
    case (Key k v)
    have "opt_post (builtin_first N) (apply_kv c sec k v)" using "2.prems"(1,2) by (rule apply_kv_names)
    then show ?thesis using Key "2.IH"(3) [OF Key _ _ _ "2.prems"(2)] "2.prems"(3)
      by (auto split: option.splits dest: opt_postD simp: opt_post_def)
  qed (use 2 in \<open>auto simp: opt_post_def\<close>)
qed (simp add: opt_post_Some)

text \<open>C15: what every configuration the daemon loads guarantees, whatever the file. The ranges that the
  parser enforces hold: a bucket's count lies between 0 and a million, the bit rate is unset or 32 to 510,
  the level 0 or -40 to -5, the discovery count unset or 1 to 1000, and the window, the threshold, the seed and
  the cap fit their C types. The weights, the cap ratio and the hysteresis are not checked by the code,
  and nothing is claimed about them. No bucket is named twice; the built-in buckets come first, in their order,
  whatever order the file lists them in, and every further bucket is one that a section line of the file
  names. A missing file gives the defaults.\<close>

theorem config_load_in_range:
  assumes "config_load r = Some c"
  shows "config_ok c \<and> (r = Inl ENOENT \<longrightarrow> c = config_default) \<and>
    (\<exists>ns. map b_name (c_buckets c) = map b_name DEFAULT_BUCKETS @ ns \<and>
      (\<forall>n\<in>set ns. \<exists>s. r = Inr s \<and> Section (''buckets.'' @ n) \<in> read_config_line ` set (fgets_lines s)))"
proof -
  have "config_ok config_default" by (simp add: config_ok_def config_default_def DEFAULT_BUCKETS_def bucket_ok_def)
  then have ok: "config_ok c \<and> (r = Inl ENOENT \<longrightarrow> c = config_default)" using assms load_lines_ok [of config_default]
    by (auto simp: config_load_def dest: opt_postD split: sum.splits if_splits)
  let ?N = "{n. \<exists>s. r = Inr s \<and> Section (''buckets.'' @ n) \<in> read_config_line ` set (fgets_lines s)}"
  have "builtin_first ?N c"
  proof (cases r)
    case (Inr s)
    have "opt_post (builtin_first ?N) (load_lines (fgets_lines s) [] config_default)"
      using Inr by (intro load_lines_names builtin_first_default) auto
    with assms Inr show ?thesis by (auto simp: config_load_def dest: opt_postD)
  qed (use assms builtin_first_default in \<open>auto simp: config_load_def split: if_splits\<close>)
  with ok show ?thesis by (auto simp: builtin_first_def)
qed

definition sample_config :: string where
  "sample_config = ''# phone'' @ [nl] @ ''[buckets.loved]'' @ [nl] @ ''count = 2000000 # all'' @ [nl]"

theorem config_load_in_range_witness:
  "\<exists>c. config_load (Inr sample_config) = Some c \<and> config_ok c \<and> c_cap_bytes c = 12884901888 \<and>
     (\<exists>b\<in>set (c_buckets c). b_name b = ''loved'' \<and> b_count b = 1000000)"
proof -
  have e: "(case config_load (Inr sample_config) of None \<Rightarrow> False
      | Some c \<Rightarrow> c_cap_bytes c = 12884901888 \<and> (\<exists>b\<in>set (c_buckets c). b_name b = ''loved'' \<and> b_count b = 1000000))"
    by code_simp
  then obtain c where c: "config_load (Inr sample_config) = Some c" by (auto split: option.splits)
  with e config_load_in_range [OF c] show ?thesis by auto
qed

end
