(* ===== verification/Sha256.thy ===== *)
theory Sha256
  imports Prelude "HOL-Library.Word"
begin

text \<open>
  The hash of \<open>vendor/sha256/sha256.c\<close>: the streaming context, the compression function over
  32-bit words, the padding, the hexadecimal output; and the standard's one-shot definition it
  implements. Bytes are \<open>8 word\<close>s.
\<close>

unbundle bit_operations_syntax

type_synonym byte = "8 word"
type_synonym hash_state = "32 word \<times> 32 word \<times> 32 word \<times> 32 word \<times> 32 word \<times> 32 word \<times> 32 word \<times> 32 word"

record sha256_ctx =
  buf :: "byte list"
  buf_len :: nat
  bit_len :: "64 word"
  h_state :: hash_state

section \<open>The compression function\<close>

definition ROTR :: "32 word \<Rightarrow> nat \<Rightarrow> 32 word" where
  "ROTR x n = drop_bit n x OR push_bit (32 - n) x"

definition CH :: "32 word \<Rightarrow> 32 word \<Rightarrow> 32 word \<Rightarrow> 32 word" where
  "CH x y z = (x AND y) XOR (NOT x AND z)"

definition MAJ :: "32 word \<Rightarrow> 32 word \<Rightarrow> 32 word \<Rightarrow> 32 word" where
  "MAJ x y z = ((x AND y) XOR (x AND z)) XOR (y AND z)"

definition EP0 :: "32 word \<Rightarrow> 32 word" where "EP0 x = (ROTR x 2 XOR ROTR x 13) XOR ROTR x 22"
definition EP1 :: "32 word \<Rightarrow> 32 word" where "EP1 x = (ROTR x 6 XOR ROTR x 11) XOR ROTR x 25"
definition SIG0 :: "32 word \<Rightarrow> 32 word" where "SIG0 x = (ROTR x 7 XOR ROTR x 18) XOR drop_bit 3 x"
definition SIG1 :: "32 word \<Rightarrow> 32 word" where "SIG1 x = (ROTR x 17 XOR ROTR x 19) XOR drop_bit 10 x"

text \<open>The table of round constants, one string of eight hexadecimal words for each row of the source.\<close>

definition hex_val :: "char \<Rightarrow> 32 word" where
  "hex_val c = (if c \<ge> CHR ''a'' then of_char c - 87 else of_char c - 48)"

fun hex_row :: "string \<Rightarrow> 32 word list" where
  "hex_row (a # b # c # d # e # f # g # h # cs) =
     foldl (\<lambda>n x. 16 * n + hex_val x) 0 [a, b, c, d, e, f, g, h] # hex_row cs"
| "hex_row cs = []"

definition K :: "32 word list" where
  "K = concat (map hex_row
    [''428a2f9871374491b5c0fbcfe9b5dba53956c25b59f111f1923f82a4ab1c5ed5'',
     ''d807aa9812835b01243185be550c7dc372be5d7480deb1fe9bdc06a7c19bf174'',
     ''e49b69c1efbe47860fc19dc6240ca1cc2de92c6f4a7484aa5cb0a9dc76f988da'',
     ''983e5152a831c66db00327c8bf597fc7c6e00bf3d5a7914706ca635114292967'',
     ''27b70a852e1b21384d2c6dfc53380d13650a7354766a0abb81c2c92e92722c85'',
     ''a2bfe8a1a81a664bc24b8b70c76c51a3d192e819d6990624f40e3585106aa070'',
     ''19a4c1161e376c082748774c34b0bcb5391c0cb34ed8aa4a5b9cca4f682e6ff3'',
     ''748f82ee78a5636f84c878148cc7020890befffaa4506cebbef9a3f7c67178f2''])"

lemma length_K: "length K = 64"
  by (simp add: K_def)

definition be_word :: "byte list \<Rightarrow> nat \<Rightarrow> 32 word" where
  "be_word d j = ((push_bit 24 (ucast (d ! j)) OR push_bit 16 (ucast (d ! (j + 1)))) OR
     push_bit 8 (ucast (d ! (j + 2)))) OR ucast (d ! (j + 3))"

text \<open>The two loops that fill \<open>m\<close>; the second appends \<open>m[i]\<close> for the next \<open>i\<close>.\<close>

definition first_words :: "byte list \<Rightarrow> 32 word list" where
  "first_words d = map (\<lambda>i. be_word d (4 * i)) [0..<16]"

primrec expand :: "nat \<Rightarrow> 32 word list \<Rightarrow> 32 word list" where
  "expand 0 m = m"
| "expand (Suc n) m = (let i = length m
     in expand n (m @ [SIG1 (m ! (i - 2)) + m ! (i - 7) + SIG0 (m ! (i - 15)) + m ! (i - 16)]))"

fun round_step :: "32 word \<times> 32 word \<Rightarrow> hash_state \<Rightarrow> hash_state" where
  "round_step (k, m) (a, b, c, d, e, f, g, h) =
     (let t1 = h + EP1 e + CH e f g + k + m; t2 = EP0 a + MAJ a b c
      in (t1 + t2, a, b, c, d + t1, e, f, g))"

fun add_state :: "hash_state \<Rightarrow> hash_state \<Rightarrow> hash_state" where
  "add_state (a, b, c, d, e, f, g, h) (a', b', c', d', e', f', g', h') =
     (a + a', b + b', c + c', d + d', e + e', f + f', g + g', h + h')"

definition transform :: "byte list \<Rightarrow> hash_state \<Rightarrow> hash_state" where
  "transform d st = add_state st (fold round_step (zip K (expand 48 (first_words d))) st)"

section \<open>The streaming interface\<close>

definition IV :: hash_state where
  "IV = (0x6a09e667, 0xbb67ae85, 0x3c6ef372, 0xa54ff53a, 0x510e527f, 0x9b05688c, 0x1f83d9ab, 0x5be0cd19)"

text \<open>\<open>junk\<close> is what the uninitialised buffer holds.\<close>

definition sha256_init :: "byte list \<Rightarrow> sha256_ctx" where
  "sha256_init junk = \<lparr>buf = junk, buf_len = 0, bit_len = 0, h_state = IV\<rparr>"

definition update_byte :: "byte \<Rightarrow> sha256_ctx \<Rightarrow> sha256_ctx" where
  "update_byte x c =
     (let b = (buf c)[buf_len c := x]; n = buf_len c + 1
      in if n = 64 then c\<lparr>buf := b, buf_len := 0, bit_len := bit_len c + 512, h_state := transform b (h_state c)\<rparr>
         else c\<lparr>buf := b, buf_len := n\<rparr>)"

definition sha256_update :: "byte list \<Rightarrow> sha256_ctx \<Rightarrow> sha256_ctx" where
  "sha256_update data c = fold update_byte data c"

text \<open>\<open>while (i < hi) buf[i++] = 0\<close>, and \<open>memset\<close>, which is the same loop from 0.\<close>

definition zero_fill :: "nat \<Rightarrow> nat \<Rightarrow> byte list \<Rightarrow> byte list" where
  "zero_fill i hi b = fold (\<lambda>k b. b[k := 0]) [i..<hi] b"

definition put_length :: "64 word \<Rightarrow> byte list \<Rightarrow> byte list" where
  "put_length n b = b[63 := ucast n, 62 := ucast (drop_bit 8 n), 61 := ucast (drop_bit 16 n),
     60 := ucast (drop_bit 24 n), 59 := ucast (drop_bit 32 n), 58 := ucast (drop_bit 40 n),
     57 := ucast (drop_bit 48 n), 56 := ucast (drop_bit 56 n)]"

definition word_bytes :: "32 word \<Rightarrow> byte list" where
  "word_bytes w = map (\<lambda>i. ucast (drop_bit (24 - i * 8) w)) [0..<4]"

fun state_bytes :: "hash_state \<Rightarrow> byte list" where
  "state_bytes (a, b, c, d, e, f, g, h) = concat (map word_bytes [a, b, c, d, e, f, g, h])"

definition sha256_final :: "sha256_ctx \<Rightarrow> byte list" where
  "sha256_final c =
     (let i = buf_len c; b = (buf c)[i := 0x80];
          (b, st) = (if i < 56 then (zero_fill (i + 1) 56 b, h_state c)
                     else (let b = zero_fill (i + 1) 64 b in (zero_fill 0 56 b, transform b (h_state c))));
          n = bit_len c + of_nat i * 8
      in state_bytes (transform (put_length n b) st))"

definition hex_digit :: "nat \<Rightarrow> char" where
  "hex_digit n = ''0123456789abcdef'' ! n"

definition sha256_hex :: "byte list \<Rightarrow> string" where
  "sha256_hex d = concat (map (\<lambda>b. [hex_digit (unat (drop_bit 4 b AND 0xf)), hex_digit (unat (b AND 0xf))]) d)"

definition bytes_of :: "string \<Rightarrow> byte list" where
  "bytes_of s = map of_char s"

text \<open>The three calls in a row, over the chunks a caller feeds.\<close>

definition sha256_stream :: "byte list \<Rightarrow> byte list list \<Rightarrow> byte list" where
  "sha256_stream junk chunks = sha256_final (fold sha256_update chunks (sha256_init junk))"

section \<open>The standard's definition\<close>

text \<open>
  FIPS 180-4: the padded message, cut into blocks of 64 bytes, folded through the compression
  function, whose schedule \<open>W\<close> is defined by recursion and whose rotations are rotations of words.
\<close>

definition sigma0 :: "32 word \<Rightarrow> 32 word" where
  "sigma0 x = (word_rotr 7 x XOR word_rotr 18 x) XOR drop_bit 3 x"

definition sigma1 :: "32 word \<Rightarrow> 32 word" where
  "sigma1 x = (word_rotr 17 x XOR word_rotr 19 x) XOR drop_bit 10 x"

function schedule :: "byte list \<Rightarrow> nat \<Rightarrow> 32 word" where
  "schedule d t = (if t < 16 then be_word d (4 * t)
     else sigma1 (schedule d (t - 2)) + schedule d (t - 7) + sigma0 (schedule d (t - 15)) + schedule d (t - 16))"
  by pat_completeness auto
termination by (relation "measure snd") auto

declare schedule.simps [simp del]

definition spec_compress :: "byte list \<Rightarrow> hash_state \<Rightarrow> hash_state" where
  "spec_compress d st = add_state st (fold round_step (map (\<lambda>t. (K ! t, schedule d t)) [0..<64]) st)"

function blocks :: "byte list \<Rightarrow> byte list list" where
  "blocks xs = (if xs = [] then [] else take 64 xs # blocks (drop 64 xs))"
  by pat_completeness auto
termination by (relation "measure length") auto

declare blocks.simps [simp del]

definition len_bytes :: "64 word \<Rightarrow> byte list" where
  "len_bytes n = map (\<lambda>i. ucast (drop_bit (56 - 8 * i) n)) [0..<8]"

definition pad :: "byte list \<Rightarrow> byte list" where
  "pad m = m @ 0x80 # replicate ((119 - length m mod 64) mod 64) 0 @ len_bytes (of_nat (8 * length m))"

definition sha256_spec :: "byte list \<Rightarrow> byte list" where
  "sha256_spec m = state_bytes (fold spec_compress (blocks (pad m)) IV)"

section \<open>The compression function is the standard's\<close>

lemma ROTR_word_rotr: "0 < n \<Longrightarrow> n < 32 \<Longrightarrow> ROTR x n = word_rotr n x"
  unfolding ROTR_def
  by (rule bit_word_eqI) (auto simp: bit_simps mod_if add.commute [of n] dest: bit_imp_le_length)

lemma SIG_sigma: "SIG0 x = sigma0 x" "SIG1 x = sigma1 x"
  by (simp_all add: SIG0_def SIG1_def sigma0_def sigma1_def ROTR_word_rotr)

lemma expand_schedule:
  "m = map (schedule d) [0..<16 + k] \<Longrightarrow> expand n m = map (schedule d) [0..<16 + k + n]"
proof (induction n arbitrary: m k)
  case (Suc n)
  have "SIG1 (m ! (length m - 2)) + m ! (length m - 7) + SIG0 (m ! (length m - 15)) + m ! (length m - 16)
      = schedule d (16 + k)"
    by (subst schedule.simps [of d "16 + k"]) (simp add: Suc.prems SIG_sigma)
  then have "expand (Suc n) m = expand n (m @ [schedule d (16 + k)])" by (simp add: Let_def)
  also have "\<dots> = map (schedule d) [0..<16 + Suc k + n]"
    by (rule Suc.IH) (simp only: add_Suc_right upt_Suc_append le0 map_append list.map Suc.prems)
  finally show ?case by (simp only: add_Suc_right add_Suc)
qed simp

lemma transform_spec: "transform d st = spec_compress d st"
proof -
  have "first_words d = map (schedule d) [0..<16 + 0]"
    by (simp add: first_words_def schedule.simps cong: map_cong)
  then have "expand 48 (first_words d) = map (schedule d) [0..<64]"
    using expand_schedule [of "first_words d" d 0 48] by simp
  moreover have "zip K (map f [0..<64]) = map (\<lambda>t. (K ! t, f t)) [0..<64]" for f :: "nat \<Rightarrow> 32 word"
    by (rule nth_equalityI) (simp_all add: length_K)
  ultimately show ?thesis by (simp add: transform_def spec_compress_def)
qed

section \<open>The streaming context holds the blocks seen and the bytes pending\<close>

definition ctx_inv :: "byte list list \<Rightarrow> byte list \<Rightarrow> sha256_ctx \<Rightarrow> bool" where
  "ctx_inv bs p c \<longleftrightarrow> (\<forall>b\<in>set bs. length b = 64) \<and> length p < 64 \<and> length (buf c) = 64 \<and>
     buf_len c = length p \<and> take (length p) (buf c) = p \<and>
     bit_len c = of_nat (512 * length bs) \<and> h_state c = fold transform bs IV"

lemma ctx_inv_init: "length junk = 64 \<Longrightarrow> ctx_inv [] [] (sha256_init junk)"
  by (simp add: ctx_inv_def sha256_init_def)

lemma ctx_inv_byte:
  assumes "ctx_inv bs p c"
  shows "\<exists>bs' p'. ctx_inv bs' p' (update_byte x c) \<and> concat bs' @ p' = concat bs @ p @ [x]"
proof -
  let ?b = "(buf c)[length p := x]"
  have p: "length p < 64" "length (buf c) = 64" "take (length p) (buf c) = p" using assms by (simp_all add: ctx_inv_def)
  then have t: "take (Suc (length p)) ?b = p @ [x]"
    by (simp add: take_Suc_conv_app_nth)
  show ?thesis
  proof (cases "Suc (length p) = 64")
    case True
    with t p have "?b = p @ [x]" by simp
    with assms True have "ctx_inv (bs @ [p @ [x]]) [] (update_byte x c)"
      by (simp add: ctx_inv_def update_byte_def Let_def)
    then show ?thesis by (intro exI [of _ "bs @ [p @ [x]]"] exI [of _ "[]"]) simp
  next
    case False
    with assms t p have "ctx_inv bs (p @ [x]) (update_byte x c)"
      by (simp add: ctx_inv_def update_byte_def Let_def)
    then show ?thesis by (intro exI [of _ bs] exI [of _ "p @ [x]"]) simp
  qed
qed

lemma ctx_inv_update:
  "ctx_inv bs p c \<Longrightarrow> \<exists>bs' p'. ctx_inv bs' p' (sha256_update d c) \<and> concat bs' @ p' = concat bs @ p @ d"
proof (induction d arbitrary: bs p c)
  case (Cons x d)
  from ctx_inv_byte [OF Cons.prems, of x] obtain bs1 p1
    where 1: "ctx_inv bs1 p1 (update_byte x c)" "concat bs1 @ p1 = concat bs @ p @ [x]" by blast
  from Cons.IH [OF 1(1)] obtain bs2 p2
    where "ctx_inv bs2 p2 (sha256_update d (update_byte x c))" "concat bs2 @ p2 = concat bs1 @ p1 @ d" by blast
  with 1(2) show ?case by (intro exI [of _ bs2] exI [of _ p2]) (simp add: sha256_update_def)
qed (auto simp: sha256_update_def)

lemma ctx_inv_chunks:
  "ctx_inv bs p c \<Longrightarrow> \<exists>bs' p'. ctx_inv bs' p' (fold sha256_update ds c) \<and> concat bs' @ p' = concat bs @ p @ concat ds"
proof (induction ds arbitrary: bs p c)
  case (Cons d ds)
  from ctx_inv_update [OF Cons.prems, of d] obtain bs1 p1
    where 1: "ctx_inv bs1 p1 (sha256_update d c)" "concat bs1 @ p1 = concat bs @ p @ d" by blast
  from Cons.IH [OF 1(1)] obtain bs2 p2
    where "ctx_inv bs2 p2 (fold sha256_update ds (sha256_update d c))" "concat bs2 @ p2 = concat bs1 @ p1 @ concat ds"
    by blast
  with 1(2) show ?case by (intro exI [of _ bs2] exI [of _ p2]) simp
qed auto

lemma blocks_concat:
  "\<forall>b\<in>set bs. length b = 64 \<Longrightarrow> blocks (concat bs @ r) = bs @ blocks r"
proof (induction bs)
  case (Cons b bs)
  then show ?case by (subst blocks.simps) (auto simp: length_0_conv [symmetric] simp del: length_0_conv)
qed simp

lemma blocks_full: "\<forall>b\<in>set bs. length b = 64 \<Longrightarrow> blocks (concat bs) = bs"
  using blocks_concat [of bs "[]"] by (simp add: blocks.simps)

lemma zero_fill_eq:
  "i \<le> hi \<Longrightarrow> hi \<le> length b \<Longrightarrow> zero_fill i hi b = take i b @ replicate (hi - i) 0 @ drop hi b"
proof (induction hi)
  case (Suc hi)
  show ?case
  proof (cases "i \<le> hi")
    case True
    with Suc have "zero_fill i hi b = take i b @ replicate (hi - i) 0 @ drop hi b" by simp
    moreover have "zero_fill i (Suc hi) b = (zero_fill i hi b)[hi := 0]"
      using True by (simp add: zero_fill_def)
    moreover have "drop hi b = b ! hi # drop (Suc hi) b" using Suc.prems by (simp add: Cons_nth_drop_Suc)
    moreover have "replicate (Suc hi - i) 0 = replicate (hi - i) 0 @ [0 :: byte]"
      using True by (simp add: Suc_diff_le replicate_append_same)
    ultimately show ?thesis using True Suc.prems by (simp add: list_update_append)
  next
    case False
    with Suc.prems have "i = Suc hi" by simp
    with Suc.prems show ?thesis by (simp add: zero_fill_def)
  qed
qed (simp add: zero_fill_def)

lemma put_length_eq:
  assumes "length b = 64" shows "put_length n b = take 56 b @ len_bytes n"
proof (rule nth_equalityI)
  fix i assume "i < length (put_length n b)"
  then have "i < 64" by (simp add: put_length_def assms)
  then consider "i < 56" | "i \<in> set [56..<64]" by fastforce
  then show "put_length n b ! i = (take 56 b @ len_bytes n) ! i"
    by cases (auto simp: put_length_def len_bytes_def assms nth_append upt_conv_Cons simp del: upt_Suc)
qed (simp add: put_length_def len_bytes_def assms)

lemma final_spec:
  assumes "ctx_inv bs p c"
  shows "sha256_final c = sha256_spec (concat bs @ p)"
proof -
  let ?m = "concat bs @ p"
  define n :: "64 word" where "n = of_nat (8 * length ?m)"
  have bs: "\<forall>b\<in>set bs. length b = 64" and p: "length p < 64" "length (buf c) = 64" "buf_len c = length p"
    "take (length p) (buf c) = p" and st: "h_state c = fold transform bs IV" and bl: "bit_len c = of_nat (512 * length bs)"
    using assms by (simp_all add: ctx_inv_def)
  have len: "length (concat bs) = 64 * length bs" using bs by (induction bs) auto
  have n: "bit_len c + of_nat (length p) * 8 = n" by (simp add: n_def bl len algebra_simps)
  let ?b = "(buf c)[length p := 0x80]"
  have b: "take (Suc (length p)) ?b = p @ [0x80]" "length ?b = 64" using p by (simp_all add: take_Suc_conv_app_nth)
  have "length ?m mod 64 = length p" using len p by simp
  then have "pad ?m = concat bs @ p @ 0x80 # replicate ((119 - length p) mod 64) 0 @ len_bytes n"
    by (simp only: pad_def append_assoc n_def)
  then have spec: "sha256_spec ?m = state_bytes (fold transform (bs @ blocks (p @ 0x80 # replicate ((119 - length p) mod 64) 0 @ len_bytes n)) IV)"
    by (simp only: sha256_spec_def transform_spec [abs_def] blocks_concat [OF bs])
  show ?thesis
  proof (cases "length p < 56")
    case True
    have z: "zero_fill (length p + 1) 56 ?b = p @ 0x80 # replicate (55 - length p) 0 @ drop 56 ?b"
      using True p b by (simp add: zero_fill_eq)
    have "(119 - length p) mod 64 = 55 - length p" using True by (simp add: mod_if)
    moreover have "put_length n (zero_fill (length p + 1) 56 ?b) = p @ 0x80 # replicate (55 - length p) 0 @ len_bytes n"
      using True b p unfolding z by (subst put_length_eq) (simp_all add: take_Cons')
    moreover have "blocks (p @ 0x80 # replicate (55 - length p) 0 @ len_bytes n) = [p @ 0x80 # replicate (55 - length p) 0 @ len_bytes n]"
      using blocks_full [of "[p @ 0x80 # replicate (55 - length p) 0 @ len_bytes n]"] True by (simp add: len_bytes_def)
    ultimately show ?thesis unfolding spec using True p n
      by (simp add: sha256_final_def Let_def st)
  next
    case False
    let ?b1 = "p @ 0x80 # replicate (63 - length p) 0" and ?b2 = "replicate 56 0 @ len_bytes n"
    have z: "zero_fill (length p + 1) 64 ?b = ?b1" using False p b by (simp add: zero_fill_eq)
    have "put_length n (zero_fill 0 56 ?b1) = ?b2"
      using False p by (subst put_length_eq) (simp_all add: zero_fill_eq)
    moreover have "(119 - length p) mod 64 = 63 - length p + 56" using False p by (simp add: mod_if)
    then have "p @ 0x80 # replicate ((119 - length p) mod 64) 0 @ len_bytes n = concat [?b1, ?b2]"
      by (simp only: replicate_add) simp
    moreover have "blocks (concat [?b1, ?b2]) = [?b1, ?b2]"
      using False p by (intro blocks_full) (simp add: len_bytes_def)
    ultimately show ?thesis unfolding spec using False p n z
      by (simp add: sha256_final_def Let_def st)
  qed
qed

text \<open>C13: the digest of a stream is the standard's SHA-256 of its bytes, however the caller cuts them
  into chunks and whatever the buffer held before.\<close>

theorem sha256_stream_correct:
  assumes "length junk = 64"
  shows "sha256_stream junk chunks = sha256_spec (concat chunks)"
  using ctx_inv_chunks [OF ctx_inv_init [OF assms], of chunks] final_spec
  by (auto simp: sha256_stream_def)

theorem sha256_stream_correct_witness:
  "sha256_stream (replicate 64 0xff) [bytes_of ''a'', [], bytes_of ''bc''] = sha256_spec (bytes_of ''abc'')"
  using sha256_stream_correct [of "replicate 64 0xff" "[bytes_of ''a'', [], bytes_of ''bc'']"]
  by (simp add: bytes_of_def)

end
