(* ===== verification/Resolver.thy ===== *)
theory Resolver
  imports Database Config Sha256 "HOL-Library.Product_Lexorder"
begin

text \<open>
  The resolver of \<open>resolver.c\<close>: which tracks the phone should hold. The bucket queries over the
  database, the accumulator that unites them, the admission under the cap with hysteresis, the
  emitted manifest. The clock enters through \<open>rs_now\<close> (\<open>time(NULL)\<close>) and \<open>rs_week\<close> (the number
  \<open>strftime\<close> prints for \<open>%G%V\<close>), the order of an unordered query through \<open>rs_scan\<close>,
  SQLite's \<open>strftime('%s', t)\<close> through \<open>rs_epoch\<close>.
\<close>

definition RESOLVER_VERSION :: int where "RESOLVER_VERSION = 1"

record manifest_track =
  m_sha :: sha
  m_size :: int
  m_buckets :: "string list"

record manifest =
  m_generated_at :: string
  m_cap_bytes :: int
  m_cap_effective :: int
  m_used :: int
  m_version :: int
  m_cold_start :: bool
  m_resident :: "manifest_track list"

record cand =
  cn_sha :: sha
  cn_size :: int
  cn_priority :: int
  cn_buckets :: "string list"

type_synonym rows = "(sha \<times> int) list"

record resolver_env =
  rs_now :: int
  rs_week :: nat
  rs_scan :: "rows \<Rightarrow> rows"
  rs_epoch :: "string \<Rightarrow> string option"

section \<open>Candidates\<close>

definition bucket_priority :: "string \<Rightarrow> int" where
  "bucket_priority n =
     (if n = ''manual_pins'' then 10 else if n = ''loved'' then 8 else if n = ''top_played'' then 7
      else if n = ''recent_plays'' then 6 else if n = ''recent_adds'' then 5
      else if n = ''exploration'' then 2 else 1)"

definition extend_cand :: "string \<Rightarrow> cand \<Rightarrow> cand" where
  "extend_cand bn c =
     c\<lparr>cn_priority := (if bucket_priority bn > cn_priority c then bucket_priority bn else cn_priority c),
       cn_buckets := (if bn \<in> set (cn_buckets c) then cn_buckets c else cn_buckets c @ [bn])\<rparr>"

fun cand_add :: "sha \<Rightarrow> int \<Rightarrow> string \<Rightarrow> cand list \<Rightarrow> cand list" where
  "cand_add h sz bn [] =
     [extend_cand bn \<lparr>cn_sha = h, cn_size = sz, cn_priority = 0, cn_buckets = []\<rparr>]"
| "cand_add h sz bn (c # cs) =
     (if cn_sha c = h then extend_cand bn c # cs else c # cand_add h sz bn cs)"

definition add_rows :: "string \<Rightarrow> rows \<Rightarrow> cand list \<Rightarrow> cand list" where
  "add_rows bn rs s = fold (\<lambda>(h, sz). cand_add h sz bn) rs s"

section \<open>The bucket queries\<close>

text \<open>\<open>ORDER BY k DESC, sha256 ASC\<close> over rows with one \<open>sha256\<close> each.\<close>

definition sort_desc :: "('a \<Rightarrow> 'b :: linorder) \<Rightarrow> 'a list \<Rightarrow> 'a list" where
  "sort_desc k xs = rev (sort_key k (rev xs))"

definition track_row :: "track \<Rightarrow> sha \<times> int" where
  "track_row t = (t_sha t, t_size t)"

definition by_sha :: "track list \<Rightarrow> track list" where
  "by_sha ts = sort_key t_sha ts"

text \<open>\<open>src LIKE 'phone-%'\<close>: LIKE ignores the case of ASCII letters.\<close>

definition phone_src :: "string \<Rightarrow> bool" where
  "phone_src s \<longleftrightarrow> take 6 (map to_lower s) = ''phone-''"

definition sql_recent_adds :: "db \<Rightarrow> int \<Rightarrow> rows" where
  "sql_recent_adds d n = take (nat n) (map track_row (sort_desc t_date_added (by_sha (tracks d))))"

text \<open>
  \<open>?1 = 0 OR strftime('%s', played_at) >= ?1\<close>. The left side is TEXT (or NULL for a text that is
  no date), the right side an INTEGER, neither has an affinity: SQLite orders every TEXT
  above every INTEGER, and a comparison with NULL is not true.
\<close>

definition sql_text_ge_int :: "string option \<Rightarrow> int \<Rightarrow> bool" where
  "sql_text_ge_int t n = (case t of None \<Rightarrow> False | Some s \<Rightarrow> True)"

definition in_window :: "resolver_env \<Rightarrow> int \<Rightarrow> play \<Rightarrow> bool" where
  "in_window env cutoff p \<longleftrightarrow> cutoff = 0 \<or> sql_text_ge_int (rs_epoch env (pl_played_at p)) cutoff"

definition phone_plays :: "resolver_env \<Rightarrow> int \<Rightarrow> db \<Rightarrow> sha \<Rightarrow> play list" where
  "phone_plays env cutoff d h =
     filter (\<lambda>p. pl_sha p = h \<and> phone_src (pl_src p) \<and> \<not> pl_skip p \<and> in_window env cutoff p) (plays d)"

definition played_tracks :: "resolver_env \<Rightarrow> int \<Rightarrow> db \<Rightarrow> track list" where
  "played_tracks env cutoff d = filter (\<lambda>t. phone_plays env cutoff d (t_sha t) \<noteq> []) (tracks d)"

definition sql_top_played :: "resolver_env \<Rightarrow> db \<Rightarrow> int \<Rightarrow> int \<Rightarrow> rows" where
  "sql_top_played env d cutoff n = take (nat n) (map track_row
     (sort_desc (\<lambda>t. length (phone_plays env cutoff d (t_sha t))) (by_sha (played_tracks env cutoff d))))"

definition sql_recent_plays :: "resolver_env \<Rightarrow> db \<Rightarrow> int \<Rightarrow> int \<Rightarrow> rows" where
  "sql_recent_plays env d cutoff n = take (nat n) (map track_row
     (sort_desc (\<lambda>t. Max (pl_played_at ` set (phone_plays env cutoff d (t_sha t)))) (by_sha (played_tracks env cutoff d))))"

definition like_of :: "db \<Rightarrow> sha \<Rightarrow> like option" where
  "like_of d h = find_row like_key (''track'', h) (likes d)"

definition sql_loved :: "db \<Rightarrow> int \<Rightarrow> rows" where
  "sql_loved d n = take (nat n) (map track_row
     (sort_desc (\<lambda>t. case like_of d (t_sha t) of None \<Rightarrow> 0 | Some l \<Rightarrow> lk_ts l)
       (by_sha (filter (\<lambda>t. case like_of d (t_sha t) of None \<Rightarrow> False | Some l \<Rightarrow> lk_liked l) (tracks d)))))"

definition pinned_tracks :: "db \<Rightarrow> track list" where
  "pinned_tracks d = filter (\<lambda>t. case find_row pin_key (''track'', t_sha t) (pins d) of
     None \<Rightarrow> False | Some p \<Rightarrow> pn_pinned p) (tracks d)"

definition sql_pins_tracks :: "resolver_env \<Rightarrow> db \<Rightarrow> int \<Rightarrow> rows" where
  "sql_pins_tracks env d n = take (nat n) (rs_scan env (map track_row (pinned_tracks d)))"

definition picked_tracks :: "db \<Rightarrow> track list" where
  "picked_tracks d = (let ws = pk_week ` set (discovery_picks d)
     in filter (\<lambda>t. ws \<noteq> {} \<and> (t_sha t, Max ws) \<in> pick_key ` set (discovery_picks d)) (tracks d))"

definition sql_weekly_picks :: "resolver_env \<Rightarrow> db \<Rightarrow> int \<Rightarrow> rows" where
  "sql_weekly_picks env d n = take (nat n) (rs_scan env (map track_row (picked_tracks d)))"

definition sql_exploration :: "db \<Rightarrow> rows" where
  "sql_exploration d = map track_row (by_sha
     (filter (\<lambda>t. \<not> (\<exists>p\<in>set (plays d). pl_sha p = t_sha t \<and> phone_src (pl_src p))) (tracks d)))"

section \<open>Exploration\<close>

definition fnv_step :: "64 word \<Rightarrow> char \<Rightarrow> 64 word" where
  "fnv_step h c = (h XOR of_char c) * 0x100000001b3"

definition explore_rank :: "64 word \<Rightarrow> sha \<Rightarrow> 64 word" where
  "explore_rank seed s =
     (let h = foldl fnv_step 0xcbf29ce484222325 s; z = h XOR seed;
          z = (z XOR drop_bit 30 z) * 0xbf58476d1ce4e5b9;
          z = (z XOR drop_bit 27 z) * 0x94d049bb133111eb
      in z XOR drop_bit 31 z)"

definition iso_week_seed :: "resolver_env \<Rightarrow> 64 word" where
  "iso_week_seed env = of_nat (rs_week env) OR 0xDEADBEEF"

definition explore_seed :: "resolver_env \<Rightarrow> nocturne_config \<Rightarrow> 64 word" where
  "explore_seed env cfg = (if c_random_seed cfg \<noteq> 0 then of_int (c_random_seed cfg) else iso_week_seed env)"

text \<open>\<open>cmp_ranked\<close> orders by rank, then by \<open>sha256\<close>; \<open>qsort\<close> gives the one sorted list.\<close>

definition explore_order :: "64 word \<Rightarrow> rows \<Rightarrow> rows" where
  "explore_order seed rs = sort_key (\<lambda>(h, sz). (explore_rank seed h, h)) rs"

definition explore_pick :: "64 word \<Rightarrow> int \<Rightarrow> rows \<Rightarrow> rows" where
  "explore_pick seed n rs =
     take (nat (if n < int (length rs) then n else int (length rs))) (explore_order seed rs)"

section \<open>The run\<close>

definition has_min_phone_plays :: "db \<Rightarrow> int \<Rightarrow> bool" where
  "has_min_phone_plays d threshold \<longleftrightarrow>
     int (length (filter (\<lambda>p. phone_src (pl_src p)) (plays d))) \<ge> threshold"

definition window_cutoff :: "resolver_env \<Rightarrow> bucket_config \<Rightarrow> int" where
  "window_cutoff env bc = (if b_window_days bc > 0 then rs_now env - b_window_days bc * 86400 else 0)"

text \<open>The rows one bucket contributes; an unknown source contributes none.\<close>

definition bucket_rows :: "resolver_env \<Rightarrow> nocturne_config \<Rightarrow> db \<Rightarrow> bucket_config \<Rightarrow> string \<Rightarrow> rows" where
  "bucket_rows env cfg d bc src =
     (let n = b_count bc
      in if src = ''recent_adds_by_mtime'' then sql_recent_adds d n
         else if src = ''top_played_phone'' then sql_top_played env d (window_cutoff env bc) n
         else if src = ''recent_plays_phone'' then sql_recent_plays env d (window_cutoff env bc) n
         else if src = ''loved'' then sql_loved d n
         else if src = ''manual_pins'' then sql_pins_tracks env d n
         else if src = ''weekly_discovery_picks'' then sql_weekly_picks env d n
         else if src = ''exploration_random'' then explore_pick (explore_seed env cfg) n (sql_exploration d)
         else [])"

definition bucket_runs :: "bool \<Rightarrow> bucket_config \<Rightarrow> bool" where
  "bucket_runs cold bc \<longleftrightarrow> b_count bc > 0 \<and>
     (cold \<longrightarrow> b_name bc \<in> {''recent_adds'', ''exploration'', ''manual_pins''})"

text \<open>The bucket loop. \<open>None\<close>: a bucket that runs has no source, and \<open>strcmp\<close> reads a null pointer.\<close>

fun run_buckets :: "resolver_env \<Rightarrow> nocturne_config \<Rightarrow> db \<Rightarrow> bool \<Rightarrow> bucket_config list \<Rightarrow> cand list \<Rightarrow> cand list option" where
  "run_buckets env cfg d cold [] s = Some s"
| "run_buckets env cfg d cold (bc # bcs) s =
     (if \<not> bucket_runs cold bc then run_buckets env cfg d cold bcs s
      else case b_source bc of
        None \<Rightarrow> None
      | Some src \<Rightarrow> run_buckets env cfg d cold bcs (add_rows (b_name bc) (bucket_rows env cfg d bc src) s))"

definition effective_size :: "nocturne_config \<Rightarrow> bool \<Rightarrow> int \<Rightarrow> int" where
  "effective_size cfg was_in sz =
     (if c_hysteresis_ratio cfg > 0
      then to_ll (dmul (of_ll sz) (if was_in then dsub 1 (c_hysteresis_ratio cfg) else dadd 1 (c_hysteresis_ratio cfg)))
      else sz)"

text \<open>The admission walk: the bytes used and the admitted candidates, in order.\<close>

fun admit :: "(cand \<Rightarrow> int) \<Rightarrow> int \<Rightarrow> cand list \<Rightarrow> int \<Rightarrow> int \<times> cand list" where
  "admit eff cap [] used = (used, [])"
| "admit eff cap (c # cs) used =
     (if used + eff c > cap \<and> cn_priority c < 10 then admit eff cap cs used
      else (case admit eff cap cs (used + cn_size c) of (u, rs) \<Rightarrow> (u, c # rs)))"

definition materialise :: "cand \<Rightarrow> manifest_track" where
  "materialise c = \<lparr>m_sha = cn_sha c, m_size = cn_size c, m_buckets = sort (cn_buckets c)\<rparr>"

text \<open>\<open>junk\<close> is the content of the uninitialised buffer of the hash context.\<close>

definition deterministic_generated_at :: "byte list \<Rightarrow> manifest_track list \<Rightarrow> string" where
  "deterministic_generated_at junk rs = ''deterministic-'' @
     take 12 (sha256_hex (sha256_stream junk (concat (map (\<lambda>t. [bytes_of (m_sha t), bytes_of [nl]]) rs))))"

definition cap_effective :: "nocturne_config \<Rightarrow> int" where
  "cap_effective cfg = to_ll (dmul (of_ll (c_cap_bytes cfg)) (c_cap_effective_ratio cfg))"

definition sort_cands :: "cand list \<Rightarrow> cand list" where
  "sort_cands s = sort_key (\<lambda>c. (- cn_priority c, cn_sha c)) s"

definition was_resident :: "db \<Rightarrow> sha \<Rightarrow> bool" where
  "was_resident d h \<longleftrightarrow> h \<in> set (map mf_sha (manifest_current d))"

definition resolver_run :: "byte list \<Rightarrow> resolver_env \<Rightarrow> db \<Rightarrow> nocturne_config \<Rightarrow> manifest option" where
  "resolver_run junk env d cfg =
     (let cold = (\<not> has_min_phone_plays d (c_cold_start_threshold cfg)); cap = cap_effective cfg
      in case run_buckets env cfg d cold (c_buckets cfg) [] of
        None \<Rightarrow> None
      | Some s \<Rightarrow>
          let (used, adm) = admit (\<lambda>c. effective_size cfg (was_resident d (cn_sha c)) (cn_size c)) cap (sort_cands s) 0;
              res = sort_key m_sha (map materialise adm)
          in Some \<lparr>m_generated_at = deterministic_generated_at junk res, m_cap_bytes = c_cap_bytes cfg,
               m_cap_effective = cap, m_used = used, m_version = RESOLVER_VERSION, m_cold_start = cold,
               m_resident = res\<rparr>)"

end
