(* ===== verification/Emit.thy ===== *)
theory Emit
  imports Config
begin

text \<open>
  The output primitives the daemon's emitters share: \<open>%lld\<close>, \<open>%04x\<close>, the JSON string writer
  (\<open>emit_str\<close> of \<open>resolver.c\<close> and \<open>emit_json_str\<close> of \<open>diff.c\<close> are the same function), joined lists;
  and a reader for what they write. A stream is the text written to it.
\<close>

section \<open>Numbers\<close>

definition digit_char :: "nat \<Rightarrow> char" where
  "digit_char d = char_of (48 + d)"

fun show_nat :: "nat \<Rightarrow> string" where
  "show_nat n = (if n < 10 then [digit_char n] else show_nat (n div 10) @ [digit_char (n mod 10)])"

declare show_nat.simps [simp del]

definition show_int :: "int \<Rightarrow> string" where
  "show_int n = (if n < 0 then CHR ''-'' # show_nat (nat (- n)) else show_nat (nat n))"

text \<open>\<open>%+lld\<close>.\<close>

definition show_signed :: "int \<Rightarrow> string" where
  "show_signed n = (if n < 0 then show_int n else CHR ''+'' # show_int n)"

text \<open>\<open>atoll\<close>: no digits is 0, out of range saturates.\<close>

definition atoll :: "string \<Rightarrow> int" where
  "atoll s = (let (neg, t) = take_sign (dropWhile isspace s); ds = takeWhile digit t;
     v = (if neg then - digits_val ds else digits_val ds) in max (- (2 ^ 63)) (min (2 ^ 63 - 1) v))"

lemma digit_char_digit:
  assumes "d < 10" shows "digit (digit_char d)" "digit_val (digit_char d) = int d"
proof -
  have "\<forall>d\<in>set [0..<10]. digit (digit_char d) \<and> digit_val (digit_char d) = int d" by code_simp
  with assms show "digit (digit_char d)" "digit_val (digit_char d) = int d" by simp_all
qed

lemma show_nat_digits: "\<forall>c\<in>set (show_nat n). digit c"
proof (induction n rule: show_nat.induct)
  case (1 n)
  then show ?case by (cases "n < 10") (auto simp: show_nat.simps [of n] digit_char_digit)
qed

lemma show_nat_nonempty [simp]: "show_nat n \<noteq> []"
  by (simp add: show_nat.simps [of n])

lemma digits_val_append: "digits_val (xs @ [d]) = 10 * digits_val xs + digit_val d"
  by (simp add: digits_val_def)

lemma digits_val_show: "digits_val (show_nat n) = int n"
proof (induction n rule: show_nat.induct)
  case (1 n)
  show ?case
  proof (cases "n < 10")
    case True
    then show ?thesis by (simp add: show_nat.simps [of n] digits_val_def digit_char_digit)
  next
    case False
    from arg_cong [OF mult_div_mod_eq [of 10 n], of int]
    have "10 * int (n div 10) + int (n mod 10) = int n" by (simp only: of_nat_add of_nat_mult of_nat_numeral)
    then show ?thesis using 1 False by (simp add: show_nat.simps [of n] digits_val_append digit_char_digit)
  qed
qed

lemma digit_not_special:
  "digit c \<Longrightarrow> \<not> isspace c \<and> c \<noteq> CHR ''-'' \<and> c \<noteq> CHR ''+'' \<and> c \<noteq> CHR '','' \<and> c \<noteq> CHR 0x22"
  by (auto simp: digit_def isspace_def)

lemma takeWhile_digits:
  assumes "rest = [] \<or> \<not> digit (hd rest)"
  shows "takeWhile digit (show_nat n @ rest) = show_nat n" "dropWhile digit (show_nat n @ rest) = rest"
proof -
  have "takeWhile digit (show_nat n @ rest) = show_nat n @ takeWhile digit rest"
    "dropWhile digit (show_nat n @ rest) = dropWhile digit rest"
    using show_nat_digits [of n] by (simp_all add: takeWhile_append dropWhile_append)
  with assms show "takeWhile digit (show_nat n @ rest) = show_nat n" "dropWhile digit (show_nat n @ rest) = rest"
    by (cases rest; auto)+
qed

lemma show_nat_Cons: obtains c cs where "show_nat n = c # cs" "digit c"
  using show_nat_digits [of n] show_nat_nonempty [of n] that by (cases "show_nat n") auto

lemma take_sign_digit: "digit c \<Longrightarrow> take_sign (c # cs) = (False, c # cs)"
  using digit_not_special [of c] by simp

lemma show_int_start: "dropWhile isspace (show_int n @ t) = show_int n @ t"
  "take_sign (show_int n @ t) = (n < 0, show_nat (nat \<bar>n\<bar>) @ t)"
proof -
  obtain c cs where c: "show_nat (nat \<bar>n\<bar>) = c # cs" "digit c" by (rule show_nat_Cons)
  note special = digit_not_special [OF c(2)]
  have "show_int n = (if n < 0 then CHR ''-'' # c # cs else c # cs)"
    using c(1) by (auto simp: show_int_def)
  then show "dropWhile isspace (show_int n @ t) = show_int n @ t"
    "take_sign (show_int n @ t) = (n < 0, show_nat (nat \<bar>n\<bar>) @ t)"
    using special c take_sign_digit by (auto simp: isspace_def)
qed

lemma strtoll_show_int:
  assumes "- (2 ^ 63) \<le> n" "n < 2 ^ 63" "rest = [] \<or> \<not> digit (hd rest)"
  shows "strtoll (show_int n @ rest) = Some (n, rest)"
  unfolding strtoll_def show_int_start Let_def prod.case takeWhile_digits [OF assms(3)]
  using assms(1,2) by (auto simp: digits_val_show)

lemma atoll_show_int:
  assumes "- (2 ^ 63) \<le> n" "n < 2 ^ 63" "rest = [] \<or> \<not> digit (hd rest)"
  shows "atoll (show_int n @ rest) = n"
  unfolding atoll_def show_int_start Let_def prod.case takeWhile_digits [OF assms(3)]
  using assms(1,2) by (auto simp: digits_val_show)

lemma parse_ll_show_int:
  assumes "- (2 ^ 63) \<le> n" "n < 2 ^ 63" shows "parse_ll (show_int n) = Some n"
  using strtoll_show_int [OF assms, of "[]"] by (simp add: parse_ll_def show_int_def)

section \<open>JSON strings\<close>

definition hex4 :: "nat \<Rightarrow> string" where
  "hex4 n = map (\<lambda>k. ''0123456789abcdef'' ! (n div 16 ^ k mod 16)) [3, 2, 1, 0]"

definition escape_char :: "char \<Rightarrow> string" where
  "escape_char c =
     (if c = CHR 0x22 then [CHR 0x5C, CHR 0x22] else if c = CHR 0x5C then [CHR 0x5C, CHR 0x5C]
      else if c = CHR 0x0A then [CHR 0x5C, CHR ''n''] else if c = CHR 0x0D then [CHR 0x5C, CHR ''r'']
      else if c = CHR 0x09 then [CHR 0x5C, CHR ''t'']
      else if c < CHR 0x20 then [CHR 0x5C, CHR ''u''] @ hex4 (of_char c) else [c])"

definition emit_str :: "string \<Rightarrow> string" where
  "emit_str s = [CHR 0x22] @ concat (map escape_char s) @ [CHR 0x22]"

text \<open>The items of a list with a separator between them.\<close>

fun join :: "string \<Rightarrow> string list \<Rightarrow> string" where
  "join sep [] = []"
| "join sep [x] = x"
| "join sep (x # y # xs) = x @ sep @ join sep (y # xs)"

text \<open>A JSON reader of such strings: the text up to the closing quote, and the rest.\<close>

definition unhex :: "char \<Rightarrow> nat" where
  "unhex c = (if digit c then of_char c - 48 else of_char c - 87)"

fun read_chars :: "string \<Rightarrow> (string \<times> string) option" where
  "read_chars [] = None"
| "read_chars (c # cs) =
     (if c = CHR 0x22 then Some ([], cs)
      else if c = CHR 0x5C then
        (case cs of
           e # r \<Rightarrow>
             if e = CHR ''u'' then
               (case r of h3 # h2 # h1 # h0 # r' \<Rightarrow>
                  map_option (map_prod (Cons (char_of (((unhex h3 * 16 + unhex h2) * 16 + unhex h1) * 16 + unhex h0))) id) (read_chars r')
                | _ \<Rightarrow> None)
             else map_option (map_prod (Cons (if e = CHR ''n'' then CHR 0x0A else if e = CHR ''r'' then CHR 0x0D
               else if e = CHR ''t'' then CHR 0x09 else e)) id) (read_chars r)
         | [] \<Rightarrow> None)
      else map_option (map_prod (Cons c) id) (read_chars cs))"

fun read_str :: "string \<Rightarrow> (string \<times> string) option" where
  "read_str (c # cs) = (if c = CHR 0x22 then read_chars cs else None)"
| "read_str [] = None"

lemma unhex_digit:
  assumes "k < 16" shows "unhex (''0123456789abcdef'' ! k) = k"
proof -
  have "\<forall>k\<in>set [0..<16]. unhex (''0123456789abcdef'' ! k) = k" by code_simp
  with assms show ?thesis by simp
qed

lemma control_char:
  assumes "c < CHR 0x20"
  obtains h3 h2 h1 h0 where "hex4 (of_char c) = [h3, h2, h1, h0]"
    "char_of (((unhex h3 * 16 + unhex h2) * 16 + unhex h1) * 16 + unhex h0) = c"
proof -
  let ?n = "of_char c :: nat" and ?d = "\<lambda>k. ''0123456789abcdef'' ! k"
  have n: "?n < 32" using assms by (simp add: less_char_def)
  have "hex4 ?n = [?d 0, ?d 0, ?d (?n div 16), ?d (?n mod 16)]"
    using n by (simp add: hex4_def)
  moreover have "unhex (?d (?n div 16)) = ?n div 16" by (rule unhex_digit) (use n in simp)
  moreover have "unhex (?d (?n mod 16)) = ?n mod 16" by (rule unhex_digit) simp
  moreover have "unhex (?d 0) = 0" by (rule unhex_digit) simp
  moreover have "(((0 * 16 + 0) * 16 + ?n div 16) * 16 + ?n mod 16) = ?n" by simp
  ultimately show thesis using that char_of_char [of c] by metis
qed

lemma read_chars_escape: "read_chars (escape_char c @ cs) = map_option (map_prod (Cons c) id) (read_chars cs)"
proof (cases "c < CHR 0x20")
  case True
  obtain h3 h2 h1 h0 where "hex4 (of_char c) = [h3, h2, h1, h0]"
    "char_of (((unhex h3 * 16 + unhex h2) * 16 + unhex h1) * 16 + unhex h0) = c"
    using True by (rule control_char)
  then show ?thesis by (simp add: escape_char_def)
next
  case False
  then show ?thesis by (simp add: escape_char_def)
qed

lemma read_chars_escaped: "read_chars (concat (map escape_char s) @ CHR 0x22 # rest) = Some (s, rest)"
  by (induction s) (simp_all add: read_chars_escape)

lemma read_str_emit: "read_str (emit_str s @ rest) = Some (s, rest)"
  by (simp add: emit_str_def read_chars_escaped)

end
