(* ===== verification/Diff.thy ===== *)
theory Diff
  imports Resolver Emit "HOL-Library.Signed_Division"
begin

text \<open>
  What happens to a resolved manifest: its JSON text (\<open>manifest_emit_json\<close> of \<open>resolver.c\<close>), its
  copy in the database (\<open>write_manifest_to_db\<close> of \<open>resolve_cmd.c\<close>), and the difference from the copy
  written before (\<open>diff.c\<close>).
\<close>

section \<open>The JSON text\<close>

definition emit_resident :: "manifest_track \<Rightarrow> string" where
  "emit_resident t = [nl] @ ''    {'' @ [CHR 0x22] @ ''sha256'' @ [CHR 0x22] @ '': '' @ emit_str (m_sha t) @
     '', '' @ [CHR 0x22] @ ''size_bytes'' @ [CHR 0x22] @ '': '' @ show_int (m_size t) @
     '', '' @ [CHR 0x22] @ ''buckets'' @ [CHR 0x22] @ '': ['' @ join '', '' (map emit_str (m_buckets t)) @ '']}''"

definition emit_field :: "string \<Rightarrow> string \<Rightarrow> string" where
  "emit_field k v = ''  '' @ [CHR 0x22] @ k @ [CHR 0x22] @ '': '' @ v @ '','' @ [nl]"

definition manifest_emit_json :: "manifest \<Rightarrow> string" where
  "manifest_emit_json m = ''{'' @ [nl] @
     emit_field ''resolver_version'' (show_int (m_version m)) @
     emit_field ''generated_at'' (emit_str (m_generated_at m)) @
     emit_field ''cap_bytes'' (show_int (m_cap_bytes m)) @
     emit_field ''cap_effective_bytes'' (show_int (m_cap_effective m)) @
     emit_field ''used_bytes'' (show_int (m_used m)) @
     emit_field ''cold_start'' (if m_cold_start m then ''true'' else ''false'') @
     ''  '' @ [CHR 0x22] @ ''resident'' @ [CHR 0x22] @ '': ['' @
     join '','' (map emit_resident (m_resident m)) @
     (if m_resident m \<noteq> [] then [nl] @ ''  ]'' @ [nl] @ ''}'' else '']'' @ [nl] @ ''}'') @ [nl]"

section \<open>The copy in the database\<close>

text \<open>
  \<open>char buckets_csv[512]\<close>, filled by \<open>snprintf\<close> one name at a time: a name that does not fit is
  written as far as the buffer goes, and the loop ends.
\<close>

fun fill_csv :: "string \<Rightarrow> bool \<Rightarrow> string list \<Rightarrow> string" where
  "fill_csv cur first [] = cur"
| "fill_csv cur first (b # bs) =
     (let piece = (if first then [] else '','') @ b
      in if length cur + length piece \<ge> 512 then cur @ take (511 - length cur) piece
         else fill_csv (cur @ piece) False bs)"

definition buckets_csv :: "manifest_track \<Rightarrow> string" where
  "buckets_csv t = fill_csv [] True (m_buckets t)"

definition excluded :: "db \<Rightarrow> sha \<Rightarrow> bool" where
  "excluded d h \<longleftrightarrow> h \<in> us_sha ` set (unsync_overrides d) \<or> h \<in> bl_sha ` set (track_blacklist d)"

definition insert_manifest_row :: "manifest_track \<Rightarrow> db \<Rightarrow> db option" where
  "insert_manifest_row t d =
     (if excluded d (m_sha t) then Some d
      else if m_sha t \<in> mf_sha ` set (manifest_current d) \<or> m_sha t \<notin> track_shas d then None
      else Some (d\<lparr>manifest_current := manifest_current d @
        [\<lparr>mf_sha = m_sha t, mf_buckets = buckets_csv t, mf_size = m_size t\<rparr>]\<rparr>))"

definition manifest_meta_rows :: "manifest \<Rightarrow> (string \<times> string) list" where
  "manifest_meta_rows m = [(''used_bytes'', show_int (m_used m)), (''cap_bytes'', show_int (m_cap_bytes m)),
     (''cap_effective_bytes'', show_int (m_cap_effective m)), (''cold_start'', if m_cold_start m then ''1'' else ''0''),
     (''generated_at'', m_generated_at m)]"

text \<open>No result but that of \<open>BEGIN\<close> and \<open>COMMIT\<close> is looked at.\<close>

definition write_manifest_to_db :: "manifest \<Rightarrow> world \<Rightarrow> int \<times> world" where
  "write_manifest_to_db m w = (case db_begin w of
     (False, w) \<Rightarrow> (- 1, w)
   | (True, w) \<Rightarrow>
       (let w = snd (sql_write (\<lambda>d. d\<lparr>manifest_current := []\<rparr>) w);
            w = fold (\<lambda>t w. snd (sql_exec (insert_manifest_row t) w)) (m_resident m) w;
            w = fold (\<lambda>(k, v) w. snd (sql_write (set_meta k v) w)) (manifest_meta_rows m) w
        in case db_commit w of (True, w) \<Rightarrow> (0, w) | (False, w) \<Rightarrow> (- 1, w)))"

section \<open>The difference\<close>

definition BYTES_TO_MIB :: "int \<Rightarrow> int" where
  "BYTES_TO_MIB b = (b + 524288) sdiv 1048576"

definition prev_load :: "db \<Rightarrow> manifest_row list" where
  "prev_load d = sort_key mf_sha (manifest_current d)"

definition read_used_before :: "db \<Rightarrow> int" where
  "read_used_before d = (case find_row fst ''used_bytes'' (manifest_meta d) of None \<Rightarrow> 0 | Some kv \<Rightarrow> atoll (snd kv))"

definition buckets_to_csv :: "string list \<Rightarrow> string" where
  "buckets_to_csv bs = join '','' bs"

fun csv_pieces :: "string \<Rightarrow> string \<Rightarrow> string list" where
  "csv_pieces cur [] = [cur]"
| "csv_pieces cur (c # cs) = (if c = CHR '','' then cur # csv_pieces [] cs else csv_pieces (cur @ [c]) cs)"

definition csv_split :: "string \<Rightarrow> string list" where
  "csv_split csv = (if csv = [] then [] else csv_pieces [] csv)"

definition set_diff :: "string list \<Rightarrow> string list \<Rightarrow> string list" where
  "set_diff a b = filter (\<lambda>x. x \<notin> set b) a"

record diff_track =
  dt_sha :: sha
  dt_size :: int
  dt_csv :: string
  dt_buckets :: "string list"

record diff_shifted =
  ds_sha :: sha
  ds_gained :: "string list"
  ds_lost :: "string list"

record manifest_diff =
  df_added :: "diff_track list"
  df_removed :: "diff_track list"
  df_shifted :: "diff_shifted list"

definition added_of :: "manifest_track \<Rightarrow> diff_track" where
  "added_of n = \<lparr>dt_sha = m_sha n, dt_size = m_size n, dt_csv = buckets_to_csv (m_buckets n), dt_buckets = m_buckets n\<rparr>"

definition removed_of :: "manifest_row \<Rightarrow> diff_track" where
  "removed_of p = \<lparr>dt_sha = mf_sha p, dt_size = mf_size p, dt_csv = mf_buckets p, dt_buckets = csv_split (mf_buckets p)\<rparr>"

definition shifted_of :: "manifest_row \<Rightarrow> manifest_track \<Rightarrow> diff_shifted" where
  "shifted_of p n = \<lparr>ds_sha = m_sha n, ds_gained = set_diff (m_buckets n) (csv_split (mf_buckets p)),
     ds_lost = set_diff (csv_split (mf_buckets p)) (m_buckets n)\<rparr>"

text \<open>The merge of the two sorted arrays.\<close>

fun merge_walk :: "manifest_row list \<Rightarrow> manifest_track list \<Rightarrow> manifest_diff" where
  "merge_walk (p # ps) (n # ns) =
     (if mf_sha p < m_sha n then (let r = merge_walk ps (n # ns) in r\<lparr>df_removed := removed_of p # df_removed r\<rparr>)
      else if mf_sha p > m_sha n then (let r = merge_walk (p # ps) ns in r\<lparr>df_added := added_of n # df_added r\<rparr>)
      else if mf_buckets p = buckets_to_csv (m_buckets n) then merge_walk ps ns
      else (let r = merge_walk ps ns in r\<lparr>df_shifted := shifted_of p n # df_shifted r\<rparr>))"
| "merge_walk ps [] = \<lparr>df_added = [], df_removed = map removed_of ps, df_shifted = []\<rparr>"
| "merge_walk [] ns = \<lparr>df_added = map added_of ns, df_removed = [], df_shifted = []\<rparr>"

definition jkey :: "string \<Rightarrow> string" where
  "jkey k = [CHR 0x22] @ k @ [CHR 0x22] @ '':''"

definition emit_json_str_array :: "string list \<Rightarrow> string" where
  "emit_json_str_array xs = ''['' @ join '','' (map emit_str xs) @ '']''"

definition json_track :: "diff_track \<Rightarrow> string" where
  "json_track t = ''{'' @ jkey ''id'' @ emit_str (dt_sha t) @ '','' @ jkey ''buckets'' @ emit_json_str_array (dt_buckets t) @
     '','' @ jkey ''size_bytes'' @ show_int (dt_size t) @ ''}''"

definition json_shifted :: "diff_shifted \<Rightarrow> string" where
  "json_shifted s = ''{'' @ jkey ''id'' @ emit_str (ds_sha s) @ '','' @ jkey ''added_buckets'' @ emit_json_str_array (ds_gained s) @
     '','' @ jkey ''removed_buckets'' @ emit_json_str_array (ds_lost s) @ ''}''"

definition text_track :: "diff_track \<Rightarrow> string" where
  "text_track t = ''  '' @ take 12 (dt_sha t) @ ''  '' @ dt_csv t @ ''  '' @ show_int (BYTES_TO_MIB (dt_size t)) @ '' MiB'' @ [nl]"

definition text_shifted :: "diff_shifted \<Rightarrow> string" where
  "text_shifted s = ''  '' @ take 12 (ds_sha s) @ '' '' @ concat (map (\<lambda>b. '' +'' @ b) (ds_gained s)) @
     concat (map (\<lambda>b. '' -'' @ b) (ds_lost s)) @ [nl]"

definition total_size :: "diff_track list \<Rightarrow> int" where
  "total_size ts = sum_list (map dt_size ts)"

definition diff_json :: "manifest_diff \<Rightarrow> int \<Rightarrow> manifest \<Rightarrow> string" where
  "diff_json r used_before next =
     ''{'' @ jkey ''added'' @ ''['' @ join '','' (map json_track (df_added r)) @ ''],'' @
     jkey ''removed'' @ ''['' @ join '','' (map json_track (df_removed r)) @ ''],'' @
     jkey ''shifted'' @ ''['' @ join '','' (map json_shifted (df_shifted r)) @ ''],'' @
     jkey ''net_tracks'' @ show_int (int (length (df_added r)) - int (length (df_removed r))) @ '','' @
     jkey ''net_bytes'' @ show_int (total_size (df_added r) - total_size (df_removed r)) @ '','' @
     jkey ''used_before'' @ show_int used_before @ '','' @ jkey ''used_after'' @ show_int (m_used next) @ '','' @
     jkey ''cap_effective_bytes'' @ show_int (m_cap_effective next) @ ''}'' @ [nl]"

definition diff_text :: "manifest_diff \<Rightarrow> int \<Rightarrow> manifest \<Rightarrow> string" where
  "diff_text r used_before next =
     ''ADDED: '' @ show_nat (length (df_added r)) @ '' tracks, +'' @ show_int (BYTES_TO_MIB (total_size (df_added r))) @ '' MiB'' @ [nl] @
     concat (map text_track (df_added r)) @
     ''REMOVED: '' @ show_nat (length (df_removed r)) @ '' tracks, -'' @ show_int (BYTES_TO_MIB (total_size (df_removed r))) @ '' MiB'' @ [nl] @
     concat (map text_track (df_removed r)) @
     ''SHIFTED BUCKETS: '' @ show_nat (length (df_shifted r)) @ '' tracks (still resident, attribution changed)'' @ [nl] @
     concat (map text_shifted (df_shifted r)) @
     ''NET: '' @ show_signed (int (length (df_added r)) - int (length (df_removed r))) @ '' tracks, '' @
     show_signed (BYTES_TO_MIB (total_size (df_added r) - total_size (df_removed r))) @ '' MiB'' @ [nl] @
     ''USED:  '' @ show_int (BYTES_TO_MIB used_before) @ '' MiB -> '' @ show_int (BYTES_TO_MIB (m_used next)) @
     '' MiB  (cap_effective '' @ show_int (BYTES_TO_MIB (m_cap_effective next)) @ '' MiB)'' @ [nl]"

definition print_resolve_diff :: "db \<Rightarrow> manifest \<Rightarrow> bool \<Rightarrow> string" where
  "print_resolve_diff d next as_json =
     (let r = merge_walk (prev_load d) (m_resident next); u = read_used_before d
      in if as_json then diff_json r u next else diff_text r u next)"

end
