(* ===== verification/ResolverProps.thy ===== *)
theory ResolverProps
  imports Resolver "HOL-Library.Multiset"
begin

text \<open>
  What the manifest contains. The accumulator is characterised by the buckets that select each
  track (\<open>contributors\<close>); the admission walk by what it keeps, what it uses and what it refuses.
\<close>

section \<open>The accumulator holds what the buckets select\<close>

definition selects :: "resolver_env \<Rightarrow> nocturne_config \<Rightarrow> db \<Rightarrow> bool \<Rightarrow> sha \<Rightarrow> bucket_config \<Rightarrow> bool" where
  "selects env cfg d cold h bc \<longleftrightarrow> bucket_runs cold bc \<and> (case b_source bc of None \<Rightarrow> False
     | Some src \<Rightarrow> h \<in> fst ` set (bucket_rows env cfg d bc src))"

definition contributors ::
  "resolver_env \<Rightarrow> nocturne_config \<Rightarrow> db \<Rightarrow> bool \<Rightarrow> bucket_config list \<Rightarrow> sha \<Rightarrow> string set" where
  "contributors env cfg d cold bcs h = b_name ` {bc \<in> set bcs. selects env cfg d cold h bc}"

lemma contributors_Nil [simp]: "contributors env cfg d cold [] h = {}"
  by (simp add: contributors_def)

lemma contributors_Cons:
  "contributors env cfg d cold (bc # bcs) h =
     (if selects env cfg d cold h bc then {b_name bc} else {}) \<union> contributors env cfg d cold bcs h"
  by (auto simp: contributors_def)

definition cands_for :: "(sha \<times> int) set \<Rightarrow> (sha \<Rightarrow> string set) \<Rightarrow> cand list \<Rightarrow> bool" where
  "cands_for T C s \<longleftrightarrow> distinct (map cn_sha s) \<and> (\<forall>h. C h \<noteq> {} \<longrightarrow> h \<in> cn_sha ` set s) \<and>
     (\<forall>c\<in>set s. set (cn_buckets c) = C (cn_sha c) \<and> cn_buckets c \<noteq> [] \<and> distinct (cn_buckets c) \<and>
        cn_priority c = Max (bucket_priority ` C (cn_sha c)) \<and> (cn_sha c, cn_size c) \<in> T)"

lemma cands_forD:
  assumes "cands_for T C s" "c \<in> set s"
  shows "set (cn_buckets c) = C (cn_sha c)" "cn_buckets c \<noteq> []" "distinct (cn_buckets c)"
    "cn_priority c = Max (bucket_priority ` C (cn_sha c))" "(cn_sha c, cn_size c) \<in> T"
  using assms unfolding cands_for_def by blast+

lemma bucket_priority_pos: "0 < bucket_priority n"
  by (simp add: bucket_priority_def)

lemma extend_cand_sha [simp]: "cn_sha (extend_cand bn c) = cn_sha c" "cn_size (extend_cand bn c) = cn_size c"
  by (simp_all add: extend_cand_def)

lemma extend_cand_ok:
  assumes "set (cn_buckets c) = B" "distinct (cn_buckets c)"
    and "B = {} \<Longrightarrow> cn_priority c = 0" "B \<noteq> {} \<Longrightarrow> cn_priority c = Max (bucket_priority ` B)"
  shows "set (cn_buckets (extend_cand bn c)) = insert bn B" "distinct (cn_buckets (extend_cand bn c))"
    "cn_buckets (extend_cand bn c) \<noteq> []"
    "cn_priority (extend_cand bn c) = Max (bucket_priority ` insert bn B)"
proof -
  have fin: "finite (bucket_priority ` B)" using assms(1) by auto
  show "set (cn_buckets (extend_cand bn c)) = insert bn B" "distinct (cn_buckets (extend_cand bn c))"
    using assms by (auto simp: extend_cand_def)
  then show "cn_buckets (extend_cand bn c) \<noteq> []" by auto
  show "cn_priority (extend_cand bn c) = Max (bucket_priority ` insert bn B)"
  proof (cases "B = {}")
    case True
    with assms(3) bucket_priority_pos [of bn] show ?thesis by (simp add: extend_cand_def)
  next
    case False
    define M where "M = Max (bucket_priority ` B)"
    have "Max (bucket_priority ` insert bn B) = max (bucket_priority bn) M"
      using False fin by (simp add: M_def)
    moreover have "cn_priority c = M" using assms(4) False by (simp add: M_def)
    ultimately show ?thesis by (simp add: extend_cand_def max_def)
  qed
qed

lemma keys_cand_add: "cn_sha ` set (cand_add h sz bn s) = insert h (cn_sha ` set s)"
  by (induction s) auto

lemma distinct_cand_add: "distinct (map cn_sha s) \<Longrightarrow> distinct (map cn_sha (cand_add h sz bn s))"
proof (induction s)
  case (Cons c s)
  then show ?case using keys_cand_add [of h sz bn s] by auto
qed simp

lemma set_cand_add:
  assumes "c \<in> set (cand_add h sz bn s)" "distinct (map cn_sha s)"
  shows "(c \<in> set s \<and> cn_sha c \<noteq> h) \<or> (\<exists>c0\<in>set s. cn_sha c0 = h \<and> c = extend_cand bn c0) \<or>
    (h \<notin> cn_sha ` set s \<and> c = extend_cand bn \<lparr>cn_sha = h, cn_size = sz, cn_priority = 0, cn_buckets = []\<rparr>)"
  using assms by (induction s) (auto split: if_splits, metis imageI)

lemma cands_for_add:
  assumes "cands_for T C s" "(h, sz) \<in> T"
  shows "cands_for T (C(h := insert bn (C h))) (cand_add h sz bn s)"
proof -
  have d: "distinct (map cn_sha s)" using assms(1) by (simp add: cands_for_def)
  have each: "set (cn_buckets c) = (C(h := insert bn (C h))) (cn_sha c) \<and> cn_buckets c \<noteq> [] \<and>
      distinct (cn_buckets c) \<and> cn_priority c = Max (bucket_priority ` (C(h := insert bn (C h))) (cn_sha c)) \<and>
      (cn_sha c, cn_size c) \<in> T" if "c \<in> set (cand_add h sz bn s)" for c
    using set_cand_add [OF that d]
  proof (elim disjE bexE conjE)
    assume "c \<in> set s" "cn_sha c \<noteq> h"
    with assms(1) show ?thesis by (simp add: cands_for_def)
  next
    fix c0 assume c0: "c0 \<in> set s" "cn_sha c0 = h" "c = extend_cand bn c0"
    with assms(1) have B: "set (cn_buckets c0) = C h" "distinct (cn_buckets c0)" "C h \<noteq> {}"
      "cn_priority c0 = Max (bucket_priority ` C h)" "(h, cn_size c0) \<in> T"
      by (auto simp: cands_for_def)
    show ?thesis using extend_cand_ok [OF B(1,2) _ B(4), of bn] B c0 by simp
  next
    assume c: "h \<notin> cn_sha ` set s" "c = extend_cand bn \<lparr>cn_sha = h, cn_size = sz, cn_priority = 0, cn_buckets = []\<rparr>"
    with assms(1) have "C h = {}" by (auto simp: cands_for_def)
    then show ?thesis
      using extend_cand_ok [of "\<lparr>cn_sha = h, cn_size = sz, cn_priority = 0, cn_buckets = []\<rparr>" "{}" bn] c assms(2) by simp
  qed
  moreover have "\<forall>k. (C(h := insert bn (C h))) k \<noteq> {} \<longrightarrow> k \<in> cn_sha ` set (cand_add h sz bn s)"
    using assms(1) by (simp add: keys_cand_add cands_for_def)
  ultimately show ?thesis using distinct_cand_add [OF d] unfolding cands_for_def by blast
qed

lemma cands_for_add_rows:
  "cands_for T C s \<Longrightarrow> set rs \<subseteq> T \<Longrightarrow>
   cands_for T (\<lambda>h. if h \<in> fst ` set rs then insert bn (C h) else C h) (add_rows bn rs s)"
proof (induction rs arbitrary: C s)
  case (Cons r rs)
  obtain h sz where r: "r = (h, sz)" by fastforce
  let ?C = "C(h := insert bn (C h))"
  have "cands_for T (\<lambda>k. if k \<in> fst ` set rs then insert bn (?C k) else ?C k) (add_rows bn rs (cand_add h sz bn s))"
    using Cons r by (intro Cons.IH cands_for_add) auto
  moreover have "(\<lambda>k. if k \<in> fst ` set rs then insert bn (?C k) else ?C k) =
      (\<lambda>k. if k \<in> fst ` set (r # rs) then insert bn (C k) else C k)" by (auto simp: r fun_eq_iff)
  ultimately show ?case by (simp add: add_rows_def r)
qed (simp add: add_rows_def)

section \<open>The queries return tracks\<close>

definition scan_ok :: "resolver_env \<Rightarrow> bool" where
  "scan_ok env \<longleftrightarrow> (\<forall>rs. mset (rs_scan env rs) = mset rs)"

lemma scan_ok_set: "scan_ok env \<Longrightarrow> set (rs_scan env rs) = set rs"
  unfolding scan_ok_def by (metis set_mset_mset)

lemma set_sort_desc [simp]: "set (sort_desc k xs) = set xs"
  by (simp add: sort_desc_def)

lemma set_by_sha [simp]: "set (by_sha ts) = set ts"
  by (simp add: by_sha_def)

lemma take_row_subset: "set ts \<subseteq> set us \<Longrightarrow> set (take n (map track_row ts)) \<subseteq> track_row ` set us"
  by (metis image_mono list.set_map set_take_subset subset_trans)

lemma sql_rows_tracks:
  "set (sql_recent_adds d n) \<subseteq> track_row ` set (tracks d)"
  "set (sql_top_played env d w n) \<subseteq> track_row ` set (tracks d)"
  "set (sql_recent_plays env d w n) \<subseteq> track_row ` set (tracks d)"
  "set (sql_loved d n) \<subseteq> track_row ` set (tracks d)"
  unfolding sql_recent_adds_def sql_top_played_def sql_recent_plays_def sql_loved_def
  by (rule take_row_subset; auto simp: played_tracks_def)+

lemma scan_rows_tracks:
  assumes "scan_ok env" "set ts \<subseteq> set us"
  shows "set (take n (rs_scan env (map track_row ts))) \<subseteq> track_row ` set us"
proof -
  have "set (take n (rs_scan env (map track_row ts))) \<subseteq> set (map track_row ts)"
    using set_take_subset scan_ok_set [OF assms(1)] by metis
  also have "set (map track_row ts) \<subseteq> track_row ` set us" using assms(2) by auto
  finally show ?thesis .
qed

lemma explore_pick_subset: "set (explore_pick seed n rs) \<subseteq> set rs"
  by (auto simp: explore_pick_def explore_order_def dest: in_set_takeD)

lemma sql_exploration_tracks: "set (sql_exploration d) \<subseteq> track_row ` set (tracks d)"
  by (auto simp: sql_exploration_def)

lemma bucket_rows_tracks:
  assumes "scan_ok env"
  shows "set (bucket_rows env cfg d bc src) \<subseteq> track_row ` set (tracks d)"
proof -
  have "set (sql_pins_tracks env d n) \<subseteq> track_row ` set (tracks d)"
    "set (sql_weekly_picks env d n) \<subseteq> track_row ` set (tracks d)" for n
    unfolding sql_pins_tracks_def sql_weekly_picks_def
    by (rule scan_rows_tracks [OF assms]; auto simp: pinned_tracks_def picked_tracks_def Let_def)+
  moreover have "set (explore_pick seed n (sql_exploration d)) \<subseteq> track_row ` set (tracks d)" for seed n
    using explore_pick_subset sql_exploration_tracks by (rule subset_trans)
  moreover have if_rows: "set (if b then x else y) \<subseteq> S" if "set x \<subseteq> S" "set y \<subseteq> S" for b and x y :: rows and S
    using that by simp
  ultimately show ?thesis
    unfolding bucket_rows_def Let_def by (intro if_rows sql_rows_tracks) simp_all
qed

lemma run_buckets_cands:
  assumes "scan_ok env" "run_buckets env cfg d cold bcs s0 = Some s"
    and "cands_for (track_row ` set (tracks d)) C s0"
  shows "cands_for (track_row ` set (tracks d)) (\<lambda>h. C h \<union> contributors env cfg d cold bcs h) s"
  using assms(2,3)
proof (induction bcs arbitrary: C s0)
  case (Cons bc bcs)
  let ?T = "track_row ` set (tracks d)"
  show ?case
  proof (cases "bucket_runs cold bc")
    case False
    then have "contributors env cfg d cold (bc # bcs) = contributors env cfg d cold bcs"
      by (simp add: contributors_Cons selects_def fun_eq_iff)
    with Cons False show ?thesis by simp
  next
    case True
    with Cons.prems obtain src where src: "b_source bc = Some src"
      and run: "run_buckets env cfg d cold bcs (add_rows (b_name bc) (bucket_rows env cfg d bc src) s0) = Some s"
      by (auto split: option.splits)
    let ?C = "\<lambda>h. if h \<in> fst ` set (bucket_rows env cfg d bc src) then insert (b_name bc) (C h) else C h"
    have "cands_for ?T (\<lambda>h. ?C h \<union> contributors env cfg d cold bcs h) s"
      by (intro Cons.IH [OF run] cands_for_add_rows Cons.prems bucket_rows_tracks assms)
    moreover have "?C h \<union> contributors env cfg d cold bcs h = C h \<union> contributors env cfg d cold (bc # bcs) h" for h
      using True src by (simp add: contributors_Cons selects_def)
    ultimately show ?thesis by simp
  qed
qed simp

section \<open>The admission walk\<close>

abbreviation pinned_cand :: "cand \<Rightarrow> bool" where "pinned_cand c \<equiv> 10 \<le> cn_priority c"

definition sizes :: "cand list \<Rightarrow> int" where "sizes cs = sum_list (map cn_size cs)"

lemma sizes_simps [simp]: "sizes [] = 0" "sizes (c # cs) = cn_size c + sizes cs"
  by (simp_all add: sizes_def)


lemma admit_used: "admit eff cap cs used = (u, rs) \<Longrightarrow> u = used + sizes rs"
  by (induction cs arbitrary: used u rs) (fastforce split: if_splits prod.splits)+

lemma admit_subset: "admit eff cap cs used = (u, rs) \<Longrightarrow> set rs \<subseteq> set cs"
  by (induction cs arbitrary: used u rs) (fastforce split: if_splits prod.splits)+

lemma admit_distinct:
  "admit eff cap cs used = (u, rs) \<Longrightarrow> distinct (map cn_sha cs) \<Longrightarrow> distinct (map cn_sha rs)"
proof (induction cs arbitrary: used u rs)
  case (Cons c cs)
  then show ?case using admit_subset [of eff cap cs "used + cn_size c"]
    by (fastforce split: if_splits prod.splits)
qed simp



lemma admit_bound:
  assumes "admit eff cap cs used = (u, rs)" "\<forall>c\<in>set cs. \<not> pinned_cand c \<longrightarrow> cn_size c - eff c \<le> D"
    and "sorted_wrt (\<lambda>a b. pinned_cand b \<longrightarrow> pinned_cand a) cs"
  shows "u \<le> max (used + sizes (filter pinned_cand cs)) (cap + D)"
  using assms
proof (induction cs arbitrary: used u rs)
  case (Cons b cs)
  show ?case
  proof (cases "pinned_cand b")
    case True
    with Cons.prems obtain rs' where r: "admit eff cap cs (used + cn_size b) = (u, rs')"
      by (auto split: prod.splits)
    from Cons.IH [OF this] Cons.prems True show ?thesis by simp
  next
    case False
    with Cons.prems(3) have none: "filter pinned_cand cs = []" by (auto simp: filter_empty_conv)
    show ?thesis
    proof (cases "used + eff b > cap")
      case True
      with False Cons.prems have "admit eff cap cs used = (u, rs)" by simp
      from Cons.IH [OF this] Cons.prems False show ?thesis by simp
    next
      case fits: False
      with False Cons.prems obtain rs' where r: "admit eff cap cs (used + cn_size b) = (u, rs')"
        by (auto split: prod.splits)
      from Cons.prems(2) False have "cn_size b - eff b \<le> D" by simp
      with fits have "used + cn_size b \<le> cap + D" by linarith
      with Cons.IH [OF r] Cons.prems False none show ?thesis by simp
    qed
  qed
qed simp

lemma admit_filter_pins: "admit eff cap cs used = (u, rs) \<Longrightarrow> filter pinned_cand rs = filter pinned_cand cs"
  by (induction cs arbitrary: used u rs) (fastforce split: if_splits prod.splits)+

section \<open>The run\<close>

abbreviation cold_of :: "db \<Rightarrow> nocturne_config \<Rightarrow> bool" where
  "cold_of d cfg \<equiv> \<not> has_min_phone_plays d (c_cold_start_threshold cfg)"

abbreviation contributors_of :: "resolver_env \<Rightarrow> db \<Rightarrow> nocturne_config \<Rightarrow> sha \<Rightarrow> string set" where
  "contributors_of env d cfg \<equiv> contributors env cfg d (cold_of d cfg) (c_buckets cfg)"

abbreviation eff_of :: "db \<Rightarrow> nocturne_config \<Rightarrow> cand \<Rightarrow> int" where
  "eff_of d cfg c \<equiv> effective_size cfg (was_resident d (cn_sha c)) (cn_size c)"

lemma resolver_run_cases:
  assumes "resolver_run junk env d cfg = Some m" "scan_ok env"
  obtains s u adm where
    "cands_for (track_row ` set (tracks d)) (contributors_of env d cfg) s"
    "admit (eff_of d cfg) (cap_effective cfg) (sort_cands s) 0 = (u, adm)"
    "m_resident m = sort_key m_sha (map materialise adm)" "m_used m = u"
    "m_cap_effective m = cap_effective cfg" "m_cold_start m = cold_of d cfg"
proof -
  from assms(1) obtain s where s: "run_buckets env cfg d (cold_of d cfg) (c_buckets cfg) [] = Some s"
    by (cases "run_buckets env cfg d (cold_of d cfg) (c_buckets cfg) []") (auto simp: resolver_run_def Let_def)
  have "cands_for (track_row ` set (tracks d)) (\<lambda>h. {}) []" by (simp add: cands_for_def)
  from run_buckets_cands [OF assms(2) s this]
  have c: "cands_for (track_row ` set (tracks d)) (contributors_of env d cfg) s" by simp
  obtain u adm where a: "admit (eff_of d cfg) (cap_effective cfg) (sort_cands s) 0 = (u, adm)" by fastforce
  from assms(1) s a
  have "m_resident m = sort_key m_sha (map materialise adm) \<and> m_used m = u \<and>
    m_cap_effective m = cap_effective cfg \<and> m_cold_start m = cold_of d cfg"
    by (auto simp: resolver_run_def Let_def)
  with c a that show thesis by blast
qed

lemma set_sort_cands [simp]: "set (sort_cands s) = set s"
  by (simp add: sort_cands_def)

lemma sort_cands_distinct: "distinct (map cn_sha s) \<Longrightarrow> distinct (map cn_sha (sort_cands s))"
  by (simp add: sort_cands_def distinct_map)

lemma distinct_map_sort_key [simp]: "distinct (map f (sort_key k xs)) = distinct (map f xs)"
  by (simp add: distinct_map)

lemma sum_list_sort_key [simp]: "sum_list (map f (sort_key k xs)) = (sum_list (map f xs) :: int)"
  by (metis mset_map mset_sort sum_mset_sum_list)

lemma map_sha_materialise [simp]: "map m_sha (map materialise cs) = map cn_sha cs"
  by (simp add: materialise_def)

lemma pinned_iff:
  assumes "cands_for T C s" "c \<in> set s"
  shows "pinned_cand c \<longleftrightarrow> ''manual_pins'' \<in> C (cn_sha c)"
proof -
  let ?B = "C (cn_sha c)"
  from assms have B: "set (cn_buckets c) = ?B" "?B \<noteq> {}" "cn_priority c = Max (bucket_priority ` ?B)"
    by (auto simp: cands_for_def)
  then have "finite ?B" by (metis List.finite_set)
  then have "pinned_cand c \<longleftrightarrow> (\<exists>b\<in>?B. 10 \<le> bucket_priority b)" using B by (simp add: Max_ge_iff)
  moreover have "10 \<le> bucket_priority b \<longleftrightarrow> b = ''manual_pins''" for b by (simp add: bucket_priority_def)
  ultimately show ?thesis by auto
qed

lemma sort_cands_pins_first: "sorted_wrt (\<lambda>a b. pinned_cand b \<longrightarrow> pinned_cand a) (sort_cands s)"
proof -
  have "sorted_wrt (\<lambda>a b. (- cn_priority a, cn_sha a) \<le> (- cn_priority b, cn_sha b)) (sort_cands s)"
    using sorted_sort_key [of "\<lambda>c. (- cn_priority c, cn_sha c)" s] unfolding sort_cands_def sorted_map .
  then show ?thesis by (rule sorted_wrt_mono_rel [rotated]) (auto simp: less_eq_prod_def)
qed

lemma sort_strict: "distinct xs \<Longrightarrow> sorted_wrt (<) (sort (xs :: 'a :: linorder list))"
  by (simp add: strict_sorted_iff)

text \<open>C16: the manifest lists each track once, in the order of \<open>sha256\<close>, with its size in the library
  and exactly the buckets that select it, in alphabetical order; the bytes used are their sum.\<close>

theorem resolver_manifest_spec:
  assumes "resolver_run junk env d cfg = Some m" "scan_ok env"
  shows "sorted_wrt (<) (map m_sha (m_resident m)) \<and> m_used m = sum_list (map m_size (m_resident m)) \<and>
    (\<forall>t\<in>set (m_resident m). (\<exists>r\<in>set (tracks d). t_sha r = m_sha t \<and> t_size r = m_size t) \<and>
       set (m_buckets t) = contributors_of env d cfg (m_sha t) \<and> m_buckets t \<noteq> [] \<and> sorted_wrt (<) (m_buckets t))"
proof -
  from assms obtain s u adm where c: "cands_for (track_row ` set (tracks d)) (contributors_of env d cfg) s"
    and a: "admit (eff_of d cfg) (cap_effective cfg) (sort_cands s) 0 = (u, adm)"
    and m: "m_resident m = sort_key m_sha (map materialise adm)" "m_used m = u"
    by (rule resolver_run_cases)
  have "distinct (map cn_sha s)" using c by (simp add: cands_for_def)
  then have "distinct (map cn_sha adm)" by (rule admit_distinct [OF a sort_cands_distinct])
  then have "distinct (map m_sha (m_resident m))"
    by (simp only: m distinct_map_sort_key map_sha_materialise)
  then have "sorted_wrt (<) (map m_sha (m_resident m))"
    by (simp add: m strict_sorted_iff)
  moreover have "sum_list (map m_size (m_resident m)) = sizes adm"
    by (simp add: m sizes_def materialise_def comp_def)
  moreover have "(\<exists>r\<in>set (tracks d). t_sha r = m_sha t \<and> t_size r = m_size t) \<and>
      set (m_buckets t) = contributors_of env d cfg (m_sha t) \<and> m_buckets t \<noteq> [] \<and> sorted_wrt (<) (m_buckets t)"
    if "t \<in> set (m_resident m)" for t
  proof -
    from that m obtain x where x: "t = materialise x" "x \<in> set adm" by auto
    then have "x \<in> set s" using admit_subset [OF a] by auto
    with c have "set (cn_buckets x) = contributors_of env d cfg (cn_sha x)" "cn_buckets x \<noteq> []" "distinct (cn_buckets x)"
      "(cn_sha x, cn_size x) \<in> track_row ` set (tracks d)" by (simp_all add: cands_for_def)
    then show ?thesis
      by (auto simp: x materialise_def track_row_def sort_strict simp flip: set_empty)
  qed
  ultimately show ?thesis using admit_used [OF a] m by simp
qed

lemma effective_size_surcharge:
  assumes "0 \<le> sz" "sz \<le> 2 ^ 53" shows "sz \<le> effective_size cfg False sz"
proof (cases "c_hysteresis_ratio cfg > 0")
  case True
  have "rnd 1 \<le> dadd 1 (c_hysteresis_ratio cfg)"
    unfolding dadd_def by (rule rnd_mono) (use True in simp)
  then have "of_int sz * 1 \<le> of_int sz * dadd 1 (c_hysteresis_ratio cfg)"
    using assms(1) by (intro mult_left_mono) simp_all
  then have "rnd (of_int sz) \<le> dmul (of_ll sz) (dadd 1 (c_hysteresis_ratio cfg))"
    using assms unfolding dmul_def by (intro rnd_mono) (simp add: of_ll_exact)
  then have "to_ll (of_int sz) \<le> to_ll (dmul (of_ll sz) (dadd 1 (c_hysteresis_ratio cfg)))"
    using assms by (intro to_ll_mono) (simp add: rnd_int)
  with True show ?thesis by (simp add: effective_size_def)
qed (simp add: effective_size_def)

definition pinned_bytes :: "manifest \<Rightarrow> int" where
  "pinned_bytes m = sum_list (map m_size (filter (\<lambda>t. ''manual_pins'' \<in> set (m_buckets t)) (m_resident m)))"

lemma sum_list_filter_sort_key:
  "sum_list (map f (filter P (sort_key k xs))) = (sum_list (map f (filter P xs)) :: int)"
  by (metis mset_filter mset_map mset_sort sum_mset_sum_list)

text \<open>C17: the cap. The manifest uses no more than the effective cap, or what the pins alone take,
  plus the largest hysteresis discount \<open>D\<close> of a track that was resident before.\<close>

theorem resolver_respects_cap:
  assumes "resolver_run junk env d cfg = Some m" "scan_ok env"
    and "\<forall>t\<in>set (tracks d). 0 \<le> t_size t \<and> t_size t \<le> 2 ^ 53" and "0 \<le> D"
    and "\<forall>t\<in>set (tracks d). was_resident d (t_sha t) \<longrightarrow> t_size t - effective_size cfg True (t_size t) \<le> D"
  shows "m_used m \<le> max (pinned_bytes m) (m_cap_effective m + D)"
proof -
  from assms(1,2) obtain s u adm where c: "cands_for (track_row ` set (tracks d)) (contributors_of env d cfg) s"
    and a: "admit (eff_of d cfg) (cap_effective cfg) (sort_cands s) 0 = (u, adm)"
    and m: "m_resident m = sort_key m_sha (map materialise adm)" "m_used m = u" "m_cap_effective m = cap_effective cfg"
    by (rule resolver_run_cases)
  have D: "cn_size x - eff_of d cfg x \<le> D" if "x \<in> set (sort_cands s)" for x
  proof -
    from that c obtain t where t: "t \<in> set (tracks d)" "t_sha t = cn_sha x" "t_size t = cn_size x"
      by (force simp: cands_for_def track_row_def)
    show ?thesis
    proof (cases "was_resident d (cn_sha x)")
      case True
      with assms(5) t show ?thesis by auto
    next
      case False
      with effective_size_surcharge [of "cn_size x" cfg] assms(3,4) t show ?thesis by auto
    qed
  qed
  have "pinned_cand x \<longleftrightarrow> ''manual_pins'' \<in> set (cn_buckets x)" if "x \<in> set adm" for x
  proof -
    have "x \<in> set s" using that admit_subset [OF a] by auto
    with c pinned_iff [OF c] show ?thesis by (simp add: cands_for_def)
  qed
  then have "filter (\<lambda>x. ''manual_pins'' \<in> set (cn_buckets x)) adm = filter pinned_cand adm"
    by (intro filter_cong) auto
  then have "pinned_bytes m = sizes (filter pinned_cand (sort_cands s))"
    by (simp add: pinned_bytes_def m sum_list_filter_sort_key filter_map comp_def materialise_def sizes_def
        flip: admit_filter_pins [OF a])
  with admit_bound [OF a _ sort_cands_pins_first, of D] D m show ?thesis by simp
qed


text \<open>Cold start. With fewer phone plays than the threshold, only recent additions, exploration
  and pins put a track into the manifest.\<close>

theorem resolver_cold_start:
  assumes "resolver_run junk env d cfg = Some m" "scan_ok env"
    and "int (length (filter (\<lambda>p. phone_src (pl_src p)) (plays d))) < c_cold_start_threshold cfg"
  shows "m_cold_start m \<and>
    (\<forall>t\<in>set (m_resident m). set (m_buckets t) \<subseteq> {''recent_adds'', ''exploration'', ''manual_pins''})"
proof -
  have cold: "cold_of d cfg" using assms(3) by (simp add: has_min_phone_plays_def)
  from assms(1,2) obtain s u adm where c: "cands_for (track_row ` set (tracks d)) (contributors_of env d cfg) s"
    and a: "admit (eff_of d cfg) (cap_effective cfg) (sort_cands s) 0 = (u, adm)"
    and m: "m_resident m = sort_key m_sha (map materialise adm)" "m_cold_start m = cold_of d cfg"
    by (rule resolver_run_cases)
  have "contributors_of env d cfg h \<subseteq> {''recent_adds'', ''exploration'', ''manual_pins''}" for h
    using cold by (auto simp: contributors_def selects_def bucket_runs_def)
  moreover have "set (m_buckets t) \<subseteq> contributors_of env d cfg (m_sha t)" if "t \<in> set (m_resident m)" for t
  proof -
    from that m obtain x where "t = materialise x" "x \<in> set adm" by auto
    with admit_subset [OF a] c show ?thesis by (auto simp: cands_for_def materialise_def)
  qed
  ultimately show ?thesis using cold m(2) by blast
qed

section \<open>The order of unordered queries\<close>

definition canon :: "cand \<Rightarrow> cand" where
  "canon c = c\<lparr>cn_buckets := sort (cn_buckets c)\<rparr>"

lemma canon_simps [simp]:
  "cn_sha (canon c) = cn_sha c" "cn_size (canon c) = cn_size c" "cn_priority (canon c) = cn_priority c"
  "materialise (canon c) = materialise c"
  by (simp_all add: canon_def materialise_def sorted_sort_id)

lemma admit_canon:
  "(\<And>c. eff (canon c) = eff c) \<Longrightarrow> admit eff cap (map canon cs) used = map_prod id (map canon) (admit eff cap cs used)"
  by (induction cs arbitrary: used) (auto split: prod.splits)

lemma cands_canon:
  assumes "cands_for T C s" "cands_for T C s'" "inj_on fst T"
  shows "map canon (sort_cands s) = map canon (sort_cands s')"
proof -
  have sub: "set (map canon a) \<subseteq> set (map canon b)" if a: "cands_for T C a" and b: "cands_for T C b" for a b
  proof
    fix y assume "y \<in> set (map canon a)"
    then obtain x where x: "x \<in> set a" "y = canon x" by auto
    with a have "C (cn_sha x) \<noteq> {}" by (auto simp: cands_for_def)
    with b have "cn_sha x \<in> cn_sha ` set b" unfolding cands_for_def by blast
    then obtain z where z: "z \<in> set b" "cn_sha z = cn_sha x" by auto
    have "(cn_sha x, cn_size x) \<in> T" "(cn_sha z, cn_size z) \<in> T"
      by (rule cands_forD [OF a x(1)], rule cands_forD [OF b z(1)])
    with assms(3) z(2) have "(cn_sha x, cn_size x) = (cn_sha z, cn_size z)" by (intro inj_onD [of fst T]) simp_all
    then have "cn_size x = cn_size z" by simp
    moreover have "sort (cn_buckets x) = sort (cn_buckets z)"
      using a b x z by (intro sorted_distinct_set_unique) (simp_all add: cands_for_def)
    moreover have "cn_priority x = cn_priority z" using a b x z by (simp add: cands_for_def)
    ultimately have "y = canon z" using x z by (simp add: canon_def)
    with z show "y \<in> set (map canon b)" by simp
  qed
  let ?k = "\<lambda>c. (- cn_priority c, cn_sha c)"
  have dist: "distinct (map ?k (map canon (sort_cands a)))" if "cands_for T C a" for a
    using that by (auto simp: cands_for_def sort_cands_def distinct_map inj_on_def comp_def)
  have srt: "sorted (map ?k (map canon (sort_cands a)))" for a
    using sorted_sort_key [of ?k a] by (simp add: sort_cands_def comp_def)
  have eq: "set (map canon (sort_cands s)) = set (map canon (sort_cands s'))"
    using sub [OF assms(1,2)] sub [OF assms(2,1)] by simp
  then have "inj_on ?k (set (map canon (sort_cands s)) \<union> set (map canon (sort_cands s')))"
    using dist [OF assms(1)] by (simp only: distinct_map Un_absorb)
  then show ?thesis
    using srt dist [OF assms(1)] srt dist [OF assms(2)] eq by (rule map_sorted_distinct_set_unique)
qed

lemma run_buckets_some:
  "run_buckets env cfg d cold bcs s0 \<noteq> None \<longleftrightarrow> (\<forall>bc\<in>set bcs. bucket_runs cold bc \<longrightarrow> b_source bc \<noteq> None)"
  by (induction bcs arbitrary: s0) (auto split: option.splits)

lemma bucket_rows_scan:
  assumes "scan_ok env" "scan_ok (env\<lparr>rs_scan := sc\<rparr>)"
    and "src = ''manual_pins'' \<Longrightarrow> int (length (pinned_tracks d)) \<le> b_count bc"
    and "src = ''weekly_discovery_picks'' \<Longrightarrow> int (length (picked_tracks d)) \<le> b_count bc"
  shows "set (bucket_rows (env\<lparr>rs_scan := sc\<rparr>) cfg d bc src) = set (bucket_rows env cfg d bc src)"
proof -
  have all: "set (take n (rs_scan e rs)) = set rs" if "scan_ok e" "length rs \<le> n" for e n and rs :: rows
  proof -
    have "length (rs_scan e rs) = length rs" using that(1) unfolding scan_ok_def by (metis size_mset)
    with that show ?thesis by (simp add: scan_ok_set)
  qed
  have env: "window_cutoff (env\<lparr>rs_scan := sc\<rparr>) bc = window_cutoff env bc"
    "sql_top_played (env\<lparr>rs_scan := sc\<rparr>) d w n = sql_top_played env d w n"
    "sql_recent_plays (env\<lparr>rs_scan := sc\<rparr>) d w n = sql_recent_plays env d w n"
    "explore_seed (env\<lparr>rs_scan := sc\<rparr>) cfg = explore_seed env cfg" for w n
    by (simp_all add: window_cutoff_def sql_top_played_def sql_recent_plays_def played_tracks_def
        phone_plays_def in_window_def explore_seed_def iso_week_seed_def)
  show ?thesis
  proof (cases "src = ''manual_pins'' \<or> src = ''weekly_discovery_picks''")
    case True
    then show ?thesis
    proof
      assume src: "src = ''manual_pins''"
      with assms(3) have "length (pinned_tracks d) \<le> nat (b_count bc)" by linarith
      then have "set (sql_pins_tracks e d (b_count bc)) = track_row ` set (pinned_tracks d)" if "scan_ok e" for e
        unfolding sql_pins_tracks_def using that by (simp add: all)
      with src assms(1,2) show ?thesis by (simp add: bucket_rows_def Let_def)
    next
      assume src: "src = ''weekly_discovery_picks''"
      with assms(4) have "length (picked_tracks d) \<le> nat (b_count bc)" by linarith
      then have "set (sql_weekly_picks e d (b_count bc)) = track_row ` set (picked_tracks d)" if "scan_ok e" for e
        unfolding sql_weekly_picks_def using that by (simp add: all)
      with src assms(1,2) show ?thesis by (simp add: bucket_rows_def Let_def)
    qed
  next
    case False
    with env show ?thesis by (simp add: bucket_rows_def Let_def)
  qed
qed

text \<open>C18: the manifest does not depend on the order in which SQLite returns the rows of the two unordered queries,
  as long as their limits cut nothing: every bucket of the pins has room for all pinned tracks, and every bucket
  of the weekly picks for all picks of the latest week. Then any two orders give the same manifest (or the same failure). Where a
  limit does cut, the order decides: see \<open>limit_depends_on_order\<close> below.\<close>

theorem resolver_deterministic:
  assumes "scan_ok env" "scan_ok (env\<lparr>rs_scan := sc\<rparr>)" "distinct (map t_sha (tracks d))"
    and "\<forall>bc\<in>set (c_buckets cfg).
      (b_source bc = Some ''manual_pins'' \<longrightarrow> int (length (pinned_tracks d)) \<le> b_count bc) \<and>
      (b_source bc = Some ''weekly_discovery_picks'' \<longrightarrow> int (length (picked_tracks d)) \<le> b_count bc)"
  shows "resolver_run junk (env\<lparr>rs_scan := sc\<rparr>) d cfg = resolver_run junk env d cfg"
proof (cases "run_buckets env cfg d (cold_of d cfg) (c_buckets cfg) []")
  case None
  then have "run_buckets (env\<lparr>rs_scan := sc\<rparr>) cfg d (cold_of d cfg) (c_buckets cfg) [] = None"
    using run_buckets_some by blast
  with None show ?thesis by (simp add: resolver_run_def Let_def)
next
  case (Some s)
  then obtain s' where s': "run_buckets (env\<lparr>rs_scan := sc\<rparr>) cfg d (cold_of d cfg) (c_buckets cfg) [] = Some s'"
    using run_buckets_some by (metis not_None_eq)
  let ?T = "track_row ` set (tracks d)"
  have nil: "cands_for ?T (\<lambda>h. {}) []" by (simp add: cands_for_def)
  have "selects (env\<lparr>rs_scan := sc\<rparr>) cfg d (cold_of d cfg) h bc \<longleftrightarrow> selects env cfg d (cold_of d cfg) h bc"
    if "bc \<in> set (c_buckets cfg)" for h bc
  proof (cases "b_source bc")
    case (Some src)
    with bucket_rows_scan [OF assms(1,2), of src d bc cfg] assms(4) that show ?thesis
      by (auto simp: selects_def)
  qed (simp add: selects_def)
  then have "contributors (env\<lparr>rs_scan := sc\<rparr>) cfg d (cold_of d cfg) (c_buckets cfg) = contributors_of env d cfg"
    by (auto simp: contributors_def fun_eq_iff)
  with run_buckets_cands [OF assms(2) s' nil] run_buckets_cands [OF assms(1) Some nil]
  have "cands_for ?T (contributors_of env d cfg) s" "cands_for ?T (contributors_of env d cfg) s'" by simp_all
  moreover have "inj_on fst ?T" using assms(3) by (auto simp: inj_on_def track_row_def distinct_map)
  ultimately have same: "map canon (sort_cands s) = map canon (sort_cands s')" by (rule cands_canon)
  obtain u adm where a: "admit (eff_of d cfg) (cap_effective cfg) (sort_cands s) 0 = (u, adm)" by fastforce
  obtain u' adm' where a': "admit (eff_of d cfg) (cap_effective cfg) (sort_cands s') 0 = (u', adm')" by fastforce
  have "map_prod id (map canon) (u, adm) = map_prod id (map canon) (u', adm')"
    using same by (simp flip: a a' admit_canon)
  then have "u' = u" and c: "map canon adm = map canon adm'" by simp_all
  have "map materialise adm = map materialise (map canon adm)" by simp
  also have "\<dots> = map materialise adm'" by (simp only: c) simp
  finally show ?thesis using Some s' a a' \<open>u' = u\<close> by (simp add: resolver_run_def Let_def)
qed

section \<open>Exploration\<close>

lemma take_insort_sub: "set (take n (insort_key f x xs)) \<subseteq> insert x (set (take n xs))"
proof (induction xs arbitrary: n)
  case (Cons y ys)
  show ?case
  proof (cases n)
    case (Suc k)
    have "set (take k (y # ys)) \<subseteq> set (take n (y # ys))" unfolding Suc by (rule set_take_subset_set_take) simp
    with Cons.IH [of k] Suc show ?thesis by auto
  qed simp
qed (auto dest: in_set_takeD)

lemma take_insort_sup: "\<exists>g. set (take n xs) \<subseteq> insert g (set (take n (insort_key f x xs)))"
proof (induction xs arbitrary: n)
  case (Cons y ys)
  show ?case
  proof (cases n)
    case (Suc k)
    show ?thesis
    proof (cases "f x \<le> f y")
      case True
      have "set (take n (y # ys)) \<subseteq> insert ((y # ys) ! k) (set (take k (y # ys)))"
      proof (cases "k < length (y # ys)")
        case lt: True
        then show ?thesis unfolding Suc take_Suc_conv_app_nth [OF lt] by auto
      next
        case False
        then have "take n (y # ys) = take k (y # ys)" using Suc by (simp only: take_all not_less le_SucI)
        then show ?thesis by auto
      qed
      with True Suc show ?thesis by auto
    next
      case False
      from Cons.IH [of k] obtain g where "set (take k ys) \<subseteq> insert g (set (take k (insort_key f x ys)))" by blast
      with False Suc show ?thesis by (intro exI [of _ g]) auto
    qed
  qed simp
qed simp

lemma explore_order_insert:
  assumes "mset rs' = add_mset x (mset rs)" "distinct (map fst rs')"
  shows "explore_order seed rs' = insort_key (\<lambda>(h, sz). (explore_rank seed h, h)) x (explore_order seed rs)"
proof -
  let ?f = "\<lambda>(h, sz :: int). (explore_rank seed h, h)"
  have "distinct (map fst (x # rs))"
    using assms by (metis mset.simps(2) mset_eq_imp_distinct_iff mset_map)
  then have fst: "inj_on fst (set (x # rs))" and dist: "distinct (x # rs)" by (simp_all only: distinct_map)
  have "snd \<circ> ?f = fst" by (auto simp: fun_eq_iff)
  with fst have "inj_on (snd \<circ> ?f) (set (x # rs))" by simp
  then have inj: "inj_on ?f (set (x # rs))" by (rule inj_on_imageI2)
  have d': "distinct rs'" using assms(2) by (simp add: distinct_map)
  have s: "set rs' = set (x # rs)" using assms(1) by (metis mset.simps(2) mset_eq_setD)
  have "sort_key ?f rs' = sort_key ?f (x # rs)"
  proof (rule map_sorted_distinct_set_unique [of ?f])
    show "inj_on ?f (set (sort_key ?f rs') \<union> set (sort_key ?f (x # rs)))"
      using inj by (simp only: set_sort s Un_absorb)
    show "distinct (map ?f (sort_key ?f rs'))" using inj s d' by (simp add: distinct_map)
    show "distinct (map ?f (sort_key ?f (x # rs)))" using inj dist by (simp only: distinct_map distinct_sort set_sort)
  qed (simp_all only: sorted_sort_key set_sort s)
  then show ?thesis by (simp add: explore_order_def)
qed

lemma explore_pick_take: "explore_pick seed n rs = take (nat n) (explore_order seed rs)"
  by (auto simp: explore_pick_def explore_order_def not_less min_def)

text \<open>A new track moves the exploration bucket by one pick at most: the new picks are the old ones
  and possibly the new track, and at most one old pick is gone.\<close>

theorem explore_pick_stable:
  assumes "distinct (map t_sha (tracks d @ [t]))" "\<forall>p\<in>set (plays d). pl_sha p \<noteq> t_sha t"
  shows "let old = set (explore_pick seed n (sql_exploration d));
             new = set (explore_pick seed n (sql_exploration (d\<lparr>tracks := tracks d @ [t]\<rparr>)))
         in new \<subseteq> insert (track_row t) old \<and> (\<exists>gone. old \<subseteq> insert gone new)"
proof -
  let ?P = "\<lambda>t. \<not> (\<exists>p\<in>set (plays d). pl_sha p = t_sha t \<and> phone_src (pl_src p))"
  let ?new = "sql_exploration (d\<lparr>tracks := tracks d @ [t]\<rparr>)"
  have "mset ?new = add_mset (track_row t) (mset (sql_exploration d))"
    using assms(2) by (simp add: sql_exploration_def by_sha_def)
  moreover have "map fst ?new = map t_sha (by_sha (filter ?P (tracks d @ [t])))"
    by (simp add: sql_exploration_def track_row_def comp_def)
  moreover have "distinct (map t_sha (by_sha (filter ?P (tracks d @ [t]))))"
    unfolding by_sha_def distinct_map_sort_key by (rule distinct_map_filter_key [OF assms(1)])
  ultimately have "explore_order seed ?new =
      insort_key (\<lambda>(h, sz). (explore_rank seed h, h)) (track_row t) (explore_order seed (sql_exploration d))"
    by (intro explore_order_insert) simp_all
  then show ?thesis
    unfolding Let_def explore_pick_take by (simp only:) (intro conjI take_insort_sub take_insort_sup)
qed

section \<open>Two things the resolver does not do\<close>

text \<open>The window of the played buckets has no effect. With any two window lengths, the query for the
  most played and the query for the recently played tracks return the same rows, as long as the
  times of the plays can be read.\<close>

theorem play_window_ignored:
  assumes "\<forall>p\<in>set (plays d). rs_epoch env (pl_played_at p) \<noteq> None"
  shows "sql_top_played env d w n = sql_top_played env d w' n \<and> sql_recent_plays env d w n = sql_recent_plays env d w' n"
proof -
  have "in_window env v p \<longleftrightarrow> True" if "p \<in> set (plays d)" for v p
    using that assms by (auto simp: in_window_def sql_text_ge_int_def split: option.splits)
  then have "phone_plays env v d h = phone_plays env 0 d h" for v h
    unfolding phone_plays_def by (intro filter_cong) auto
  then have "phone_plays env w d = phone_plays env w' d" by (metis ext)
  then show ?thesis by (simp add: sql_top_played_def sql_recent_plays_def played_tracks_def)
qed

text \<open>The weekly seed keeps only a few bits of the week: the 53 weeks of 2026 have two seeds between them.\<close>

theorem iso_week_seed_collides:
  "card (set (map (\<lambda>w. iso_week_seed (env\<lparr>rs_week := w\<rparr>)) [202601..<202654])) = 2"
proof -
  have "set (map (\<lambda>w. of_nat w OR 0xDEADBEEF :: 64 word) [202601..<202654]) = {0xdeafbfef, 0xdeafbfff}"
    by simp blast
  then show ?thesis by (simp add: iso_week_seed_def)
qed

text \<open>A bucket that has no source stops the resolver (it reads a null pointer), and nothing else
  does; the configuration file may declare such a bucket.\<close>

definition sourceless_config :: string where
  "sourceless_config = ''[buckets.mix]'' @ [nl] @ ''count = 5''"

theorem resolver_needs_sources:
  "(resolver_run junk env d cfg = None \<longleftrightarrow>
     (\<exists>bc. bc \<in> set (c_buckets cfg) \<and> bucket_runs (cold_of d cfg) bc \<and> b_source bc = None)) \<and>
   (\<exists>c bc. config_load (Inr sourceless_config) = Some c \<and> bc \<in> set (c_buckets c) \<and>
     bucket_runs False bc \<and> b_source bc = None)"
proof
  have "resolver_run junk env d cfg = None \<longleftrightarrow> run_buckets env cfg d (cold_of d cfg) (c_buckets cfg) [] = None"
    by (auto simp: resolver_run_def Let_def split: option.splits prod.splits)
  then show "resolver_run junk env d cfg = None \<longleftrightarrow>
     (\<exists>bc. bc \<in> set (c_buckets cfg) \<and> bucket_runs (cold_of d cfg) bc \<and> b_source bc = None)"
    using run_buckets_some [of env cfg d "cold_of d cfg" "c_buckets cfg" "[]"] by auto
  have "(case config_load (Inr sourceless_config) of None \<Rightarrow> False
      | Some c \<Rightarrow> \<exists>bc\<in>set (c_buckets c). b_count bc > 0 \<and> b_source bc = None)"
    by code_simp
  then show "\<exists>c bc. config_load (Inr sourceless_config) = Some c \<and> bc \<in> set (c_buckets c) \<and>
     bucket_runs False bc \<and> b_source bc = None"
    by (auto simp: bucket_runs_def split: option.splits)
qed

section \<open>A concrete run\<close>

definition r_sample_track :: "sha \<Rightarrow> int \<Rightarrow> string \<Rightarrow> track" where
  "r_sample_track h sz added = \<lparr>t_sha = h, t_path = ''/m/'' @ h, t_mtime_ns = 0, t_size = sz, t_format = None,
     t_title = None, t_artist = None, t_album = None, t_album_artist = None, t_track_number = None,
     t_disc_number = None, t_year = None, t_genre = None, t_duration_ms = None, t_tags_status = ''ok'',
     t_tag_warning = None, t_date_added = added, t_last_seen = added\<rparr>"

definition r_sample_db :: db where
  "r_sample_db = empty_db\<lparr>tracks := [r_sample_track ''bb'' 40 ''2026-02'', r_sample_track ''aa'' 50 ''2026-01'',
       r_sample_track ''cc'' 30 ''2026-03''],
     pins := [\<lparr>pn_unit = ''track'', pn_id = ''bb'', pn_pinned = True, pn_updated = [], pn_ts = 1\<rparr>],
     manifest_current := [\<lparr>mf_sha = ''aa'', mf_buckets = ''recent_adds'', mf_size = 50\<rparr>]\<rparr>"

definition r_sample_cfg :: nocturne_config where
  "r_sample_cfg = config_default\<lparr>c_cap_bytes := 80, c_cap_effective_ratio := 1, c_hysteresis_ratio := 0,
     c_buckets := [\<lparr>b_name = ''recent_adds'', b_count = 3, b_source = Some ''recent_adds_by_mtime'', b_weight = 1, b_window_days = 0\<rparr>,
       \<lparr>b_name = ''manual_pins'', b_count = 5, b_source = Some ''manual_pins'', b_weight = 1, b_window_days = 0\<rparr>]\<rparr>"

definition r_sample_env :: resolver_env where
  "r_sample_env = \<lparr>rs_now = 0, rs_week = 202601, rs_scan = (\<lambda>rs. rs), rs_epoch = (\<lambda>s. None)\<rparr>"

lemmas r_sample_defs = r_sample_env_def r_sample_db_def r_sample_cfg_def r_sample_track_def

lemma r_sample_scan: "scan_ok r_sample_env" "scan_ok (r_sample_env\<lparr>rs_scan := rev\<rparr>)"
  by (simp_all add: scan_ok_def r_sample_env_def)

lemma r_sample_cands:
  "run_buckets r_sample_env r_sample_cfg r_sample_db True (c_buckets r_sample_cfg) [] =
     Some [\<lparr>cn_sha = ''cc'', cn_size = 30, cn_priority = 5, cn_buckets = [''recent_adds'']\<rparr>,
        \<lparr>cn_sha = ''bb'', cn_size = 40, cn_priority = 10, cn_buckets = [''recent_adds'', ''manual_pins'']\<rparr>,
        \<lparr>cn_sha = ''aa'', cn_size = 50, cn_priority = 5, cn_buckets = [''recent_adds'']\<rparr>]"
proof -
  have "sql_recent_adds r_sample_db 3 = [(''cc'', 30), (''bb'', 40), (''aa'', 50)]"
    by (simp add: sql_recent_adds_def sort_desc_def by_sha_def r_sample_defs track_row_def)
  moreover have "sql_pins_tracks r_sample_env r_sample_db 5 = [(''bb'', 40)]"
    by (simp add: sql_pins_tracks_def pinned_tracks_def r_sample_defs track_row_def del: find_row_None)
  ultimately show ?thesis
    by (simp add: r_sample_cfg_def bucket_runs_def bucket_rows_def add_rows_def extend_cand_def bucket_priority_def)
qed

lemma r_sample_cap: "cap_effective r_sample_cfg = 80"
  using of_ll_exact [of 80] rnd_int [of 80]
  by (simp add: cap_effective_def r_sample_cfg_def dmul_def to_ll_def)

lemma r_sample_eff: "effective_size r_sample_cfg b sz = sz"
  by (simp add: effective_size_def r_sample_cfg_def)

text \<open>The pin and the smaller addition fit under the cap of 80 bytes; the third track does not.\<close>

lemma r_sample_run:
  obtains m where "resolver_run junk r_sample_env r_sample_db r_sample_cfg = Some m"
    "map m_sha (m_resident m) = [''bb'', ''cc'']" "m_used m = 70" "m_cap_effective m = 80"
    "map m_buckets (m_resident m) = [[''manual_pins'', ''recent_adds''], [''recent_adds'']]" "map m_size (m_resident m) = [40, 30]"
proof -
  have cold: "\<not> has_min_phone_plays r_sample_db (c_cold_start_threshold r_sample_cfg)"
    by (simp add: has_min_phone_plays_def r_sample_db_def r_sample_cfg_def empty_db_def config_default_def)
  show thesis
    by (rule that [of "the (resolver_run junk r_sample_env r_sample_db r_sample_cfg)"])
      (use cold r_sample_cands in \<open>simp_all add: resolver_run_def Let_def r_sample_cap r_sample_eff sort_cands_def materialise_def\<close>)
qed

text \<open>Two pinned tracks and room for one: the order of the rows decides which of them is selected, for the same
  database and the same configuration.\<close>

definition two_pins_db :: db where
  "two_pins_db = r_sample_db\<lparr>pins := map (\<lambda>h. \<lparr>pn_unit = ''track'', pn_id = h, pn_pinned = True, pn_updated = [], pn_ts = 1\<rparr>) [''aa'', ''bb'']\<rparr>"

definition one_pin_cfg :: nocturne_config where
  "one_pin_cfg = r_sample_cfg\<lparr>c_buckets :=
     [\<lparr>b_name = ''manual_pins'', b_count = 1, b_source = Some ''manual_pins'', b_weight = 1, b_window_days = 0\<rparr>]\<rparr>"

lemma limit_depends_on_order:
  "map_option (\<lambda>m. map m_sha (m_resident m)) (resolver_run junk r_sample_env two_pins_db one_pin_cfg) = Some [''bb'']"
  "map_option (\<lambda>m. map m_sha (m_resident m)) (resolver_run junk (r_sample_env\<lparr>rs_scan := rev\<rparr>) two_pins_db one_pin_cfg) = Some [''aa'']"
proof -
  have pins: "sql_pins_tracks r_sample_env two_pins_db 1 = [(''bb'', 40)]"
    "sql_pins_tracks (r_sample_env\<lparr>rs_scan := rev\<rparr>) two_pins_db 1 = [(''aa'', 50)]"
    by (simp_all add: sql_pins_tracks_def pinned_tracks_def r_sample_defs two_pins_db_def track_row_def del: find_row_None)
  have run: "run_buckets env one_pin_cfg two_pins_db cold (c_buckets one_pin_cfg) [] =
      Some [\<lparr>cn_sha = h, cn_size = n, cn_priority = 10, cn_buckets = [''manual_pins'']\<rparr>]"
    if "sql_pins_tracks env two_pins_db 1 = [(h, n)]" for env cold h n
    using that by (simp add: one_pin_cfg_def bucket_runs_def bucket_rows_def add_rows_def bucket_priority_def extend_cand_def)
  have cap: "cap_effective one_pin_cfg = 80" "effective_size one_pin_cfg b sz = sz" for b sz
    using r_sample_cap by (simp_all add: cap_effective_def one_pin_cfg_def) (simp add: effective_size_def r_sample_cfg_def)
  show "map_option (\<lambda>m. map m_sha (m_resident m)) (resolver_run junk r_sample_env two_pins_db one_pin_cfg) = Some [''bb'']"
    "map_option (\<lambda>m. map m_sha (m_resident m)) (resolver_run junk (r_sample_env\<lparr>rs_scan := rev\<rparr>) two_pins_db one_pin_cfg) = Some [''aa'']"
    using run [OF pins(1)] run [OF pins(2)]
    by (simp_all add: resolver_run_def Let_def cap sort_cands_def materialise_def)
qed

theorem resolver_manifest_spec_witness:
  "\<exists>m. resolver_run (replicate 64 0) r_sample_env r_sample_db r_sample_cfg = Some m \<and>
     sorted_wrt (<) (map m_sha (m_resident m)) \<and> m_used m = 70"
  using resolver_manifest_spec [OF _ r_sample_scan(1)] r_sample_run [of "replicate 64 0"] by metis

theorem resolver_respects_cap_witness:
  "\<exists>m. resolver_run (replicate 64 0) r_sample_env r_sample_db r_sample_cfg = Some m \<and>
     m_used m \<le> max (pinned_bytes m) (m_cap_effective m + 0) \<and> length (m_resident m) = 2"
proof -
  obtain m where m: "resolver_run (replicate 64 0) r_sample_env r_sample_db r_sample_cfg = Some m"
    "map m_sha (m_resident m) = [''bb'', ''cc'']" by (rule r_sample_run)
  have "m_used m \<le> max (pinned_bytes m) (m_cap_effective m + 0)"
    by (rule resolver_respects_cap [OF m(1) r_sample_scan(1)]) (simp_all add: r_sample_eff, simp_all add: r_sample_defs)
  moreover have "length (m_resident m) = 2" using arg_cong [OF m(2), of length] by simp
  ultimately show ?thesis using m by blast
qed


theorem resolver_cold_start_witness:
  "\<exists>m. resolver_run (replicate 64 0) r_sample_env r_sample_db r_sample_cfg = Some m \<and> m_cold_start m"
proof -
  obtain m where m: "resolver_run (replicate 64 0) r_sample_env r_sample_db r_sample_cfg = Some m" by (rule r_sample_run)
  have "m_cold_start m"
    by (rule conjunct1 [OF resolver_cold_start [OF m r_sample_scan(1)]])
      (simp add: r_sample_db_def r_sample_cfg_def empty_db_def config_default_def)
  with m show ?thesis by blast
qed

theorem resolver_deterministic_witness:
  "resolver_run (replicate 64 0) (r_sample_env\<lparr>rs_scan := rev\<rparr>) r_sample_db r_sample_cfg =
     resolver_run (replicate 64 0) r_sample_env r_sample_db r_sample_cfg"
  by (rule resolver_deterministic [OF r_sample_scan])
    (simp_all add: r_sample_defs pinned_tracks_def picked_tracks_def empty_db_def del: find_row_None)

theorem explore_pick_stable_witness:
  "\<exists>gone. set (explore_pick 7 1 (sql_exploration r_sample_db)) \<subseteq>
     insert gone (set (explore_pick 7 1 (sql_exploration (r_sample_db\<lparr>tracks := tracks r_sample_db @ [r_sample_track ''dd'' 9 ''2026-04'']\<rparr>))))"
  using explore_pick_stable [of r_sample_db "r_sample_track ''dd'' 9 ''2026-04''" 7 1]
  by (simp add: Let_def) (simp add: r_sample_db_def r_sample_track_def empty_db_def)

theorem play_window_ignored_witness:
  "sql_top_played r_sample_env r_sample_db 86400 3 = sql_top_played r_sample_env r_sample_db 1 3"
  using play_window_ignored [of r_sample_db r_sample_env 86400 3 1] by (simp add: r_sample_db_def empty_db_def)

end
