(* ===== verification/DiffProps.thy ===== *)
theory DiffProps
  imports Diff ResolverProps
begin

text \<open>
  The JSON text determines the manifest; the copy in the database is exactly the manifest less
  the excluded tracks; the merge is the set difference; a manifest just written shows no
  difference from itself.
\<close>

section \<open>Unique readability\<close>

definition nondigit :: "string \<Rightarrow> bool" where
  "nondigit r \<longleftrightarrow> r = [] \<or> \<not> digit (hd r)"

lemma emit_str_inj: "emit_str s @ r = emit_str s' @ r' \<Longrightarrow> s = s' \<and> r = r'"
  by (metis read_str_emit option.inject prod.inject)

lemma show_nat_inj:
  assumes "show_nat n @ r = show_nat n' @ r'" "nondigit r" "nondigit r'"
  shows "n = n' \<and> r = r'"
proof -
  have "takeWhile digit (show_nat n @ r) = show_nat n" "takeWhile digit (show_nat n' @ r') = show_nat n'"
    "dropWhile digit (show_nat n @ r) = r" "dropWhile digit (show_nat n' @ r') = r'"
    using assms(2,3) by (simp_all only: nondigit_def takeWhile_digits)
  with assms(1) have "show_nat n = show_nat n'" "r = r'" by metis+
  then show ?thesis using digits_val_show by (metis of_nat_eq_iff)
qed

lemma show_int_inj:
  assumes "show_int n @ r = show_int n' @ r'" "nondigit r" "nondigit r'"
  shows "n = n' \<and> r = r'"
proof -
  from assms(1) have "take_sign (show_int n @ r) = take_sign (show_int n' @ r')" by simp
  then have "(n < 0) = (n' < 0)" "show_nat (nat \<bar>n\<bar>) @ r = show_nat (nat \<bar>n'\<bar>) @ r'"
    unfolding show_int_start by simp_all
  with show_nat_inj [OF this(2) assms(2,3)] show ?thesis by auto
qed

lemma nondigit_Cons [simp]: "\<not> digit c \<Longrightarrow> nondigit (c # r)"
  by (simp add: nondigit_def)

lemma punctuation [simp]: "\<not> digit CHR '',''" "\<not> digit CHR ''}''" "\<not> digit CHR '']''" "\<not> digit CHR 0x22" "\<not> digit nl"
  by (simp_all add: digit_def)

text \<open>A list of items separated by \<open>sep\<close> and closed by a text that no separator begins.\<close>

definition separated :: "string \<Rightarrow> string \<Rightarrow> bool" where
  "separated sep r \<longleftrightarrow> r \<noteq> [] \<and> sep \<noteq> [] \<and> hd r \<noteq> hd sep"

lemma join_inj_nonempty:
  assumes inj: "\<And>x y r r'. f x @ r = f y @ r' \<Longrightarrow> x = y \<and> r = r'"
    and sep: "separated sep r" "separated sep r'"
  shows "join sep (map f xs) @ r = join sep (map f ys) @ r' \<Longrightarrow> xs \<noteq> [] \<Longrightarrow> ys \<noteq> [] \<Longrightarrow> xs = ys \<and> r = r'"
proof (induction xs arbitrary: ys)
  case (Cons x xs)
  then obtain y zs where ys: "ys = y # zs" by (cases ys) auto
  obtain tx where tx: "join sep (map f (x # xs)) @ r = f x @ tx" "tx = (if xs = [] then r else sep @ join sep (map f xs) @ r)"
    by (cases xs) simp_all
  obtain ty where ty: "join sep (map f ys) @ r' = f y @ ty" "ty = (if zs = [] then r' else sep @ join sep (map f zs) @ r')"
    unfolding ys by (cases zs) simp_all
  from Cons.prems tx(1) ty(1) have "f x @ tx = f y @ ty" by simp
  then have xy: "x = y" "tx = ty" using inj by blast+
  show ?case
  proof (cases "xs = [] \<or> zs = []")
    case True
    with xy(2) tx(2) ty(2) sep have "xs = [] \<and> zs = [] \<and> r = r'" by (auto simp: separated_def split: if_splits)
    with xy ys show ?thesis by simp
  next
    case False
    with xy(2) tx(2) ty(2) have "join sep (map f xs) @ r = join sep (map f zs) @ r'" by simp
    from Cons.IH [OF this] False xy ys show ?thesis by simp
  qed
qed simp

lemma join_start:
  assumes "xs \<noteq> []" "\<And>x. f x \<noteq> [] \<and> hd (f x) = c" shows "\<exists>t. join sep (map f xs) @ r = c # t"
proof -
  obtain x zs where xs: "xs = x # zs" using assms(1) by (cases xs) auto
  obtain u where "f x = c # u" using assms(2) [of x] by (cases "f x") auto
  then show ?thesis unfolding xs by (cases zs) simp_all
qed

lemma join_inj:
  assumes "\<And>x y r r'. f x @ r = f y @ r' \<Longrightarrow> x = y \<and> r = r'" "\<And>x. f x \<noteq> [] \<and> hd (f x) = c"
    and "separated sep r" "separated sep r'" "hd r \<noteq> c" "hd r' \<noteq> c"
    and eq: "join sep (map f xs) @ r = join sep (map f ys) @ r'"
  shows "xs = ys \<and> r = r'"
proof (cases "xs = []"; cases "ys = []")
  assume "xs = []" "ys \<noteq> []"
  with eq join_start [of ys f c sep r'] assms show ?thesis by auto
next
  assume "xs \<noteq> []" "ys = []"
  with eq join_start [of xs f c sep r] assms show ?thesis by auto
next
  assume "xs \<noteq> []" "ys \<noteq> []"
  with join_inj_nonempty [OF assms(1,3,4) eq] show ?thesis by blast
qed (use eq in simp)

lemma emit_resident_inj:
  assumes "emit_resident t @ r = emit_resident t' @ r'" shows "t = t' \<and> r = r'"
proof -
  let ?b = "\<lambda>t r. CHR '','' # CHR '' '' # CHR 0x22 # ''buckets'' @ CHR 0x22 # '': ['' @ join '', '' (map emit_str (m_buckets t)) @ '']}'' @ r"
  let ?s = "\<lambda>t r. '', '' @ CHR 0x22 # ''size_bytes'' @ CHR 0x22 # '': '' @ show_int (m_size t) @ ?b t r"
  have "emit_str (m_sha t) @ ?s t r = emit_str (m_sha t') @ ?s t' r'"
    using assms by (simp add: emit_resident_def)
  then have 1: "m_sha t = m_sha t'" "?s t r = ?s t' r'" using emit_str_inj by blast+
  then have "show_int (m_size t) @ ?b t r = show_int (m_size t') @ ?b t' r'" by simp
  then have 2: "m_size t = m_size t'" "?b t r = ?b t' r'" using show_int_inj by (metis nondigit_Cons punctuation(1))+
  then have "join '', '' (map emit_str (m_buckets t)) @ '']}'' @ r = join '', '' (map emit_str (m_buckets t')) @ '']}'' @ r'"
    by simp
  then have "m_buckets t = m_buckets t' \<and> '']}'' @ r = '']}'' @ r'"
    by (intro join_inj [of emit_str "CHR 0x22"] emit_str_inj) (simp_all add: emit_str_def separated_def)
  with 1 2 show ?thesis by simp
qed

lemma emit_field_str: "emit_field k (emit_str v) @ r = emit_field k (emit_str v') @ r' \<Longrightarrow> v = v' \<and> r = r'"
  using emit_str_inj [of v "'','' @ nl # r" v' "'','' @ nl # r'"] by (simp add: emit_field_def)

lemma emit_field_int: "emit_field k (show_int v) @ r = emit_field k (show_int v') @ r' \<Longrightarrow> v = v' \<and> r = r'"
  using show_int_inj [of v "'','' @ nl # r" v' "'','' @ nl # r'"] by (simp add: emit_field_def)

lemma emit_field_bool:
  "emit_field k (if b then ''true'' else ''false'') @ r = emit_field k (if b' then ''true'' else ''false'') @ r' \<Longrightarrow>
   b = b' \<and> r = r'"
  by (cases b; cases b') (simp_all add: emit_field_def)

text \<open>The JSON text of a manifest determines it: two manifests with the same text are equal.\<close>

theorem manifest_emit_json_inj:
  assumes "manifest_emit_json m = manifest_emit_json m'" shows "m = m'"
proof -
  let ?fin = "\<lambda>m. (if m_resident m \<noteq> [] then [nl] @ ''  ]'' @ [nl] @ ''}'' else '']'' @ [nl] @ ''}'') @ [nl]"
  let ?r = "\<lambda>m. ''  '' @ [CHR 0x22] @ ''resident'' @ [CHR 0x22] @ '': ['' @ join '','' (map emit_resident (m_resident m)) @ ?fin m"
  let ?c = "\<lambda>m. emit_field ''cold_start'' (if m_cold_start m then ''true'' else ''false'') @ ?r m"
  let ?u = "\<lambda>m. emit_field ''used_bytes'' (show_int (m_used m)) @ ?c m"
  let ?e = "\<lambda>m. emit_field ''cap_effective_bytes'' (show_int (m_cap_effective m)) @ ?u m"
  let ?b = "\<lambda>m. emit_field ''cap_bytes'' (show_int (m_cap_bytes m)) @ ?e m"
  let ?g = "\<lambda>m. emit_field ''generated_at'' (emit_str (m_generated_at m)) @ ?b m"
  have "emit_field ''resolver_version'' (show_int (m_version m)) @ ?g m =
      emit_field ''resolver_version'' (show_int (m_version m')) @ ?g m'"
    using assms unfolding manifest_emit_json_def by (simp only: append_assoc same_append_eq)
  then have 1: "m_version m = m_version m'" "?g m = ?g m'" using emit_field_int by blast+
  then have 2: "m_generated_at m = m_generated_at m'" "?b m = ?b m'" using emit_field_str by blast+
  then have 3: "m_cap_bytes m = m_cap_bytes m'" "?e m = ?e m'" using emit_field_int by blast+
  then have 4: "m_cap_effective m = m_cap_effective m'" "?u m = ?u m'" using emit_field_int by blast+
  then have 5: "m_used m = m_used m'" "?c m = ?c m'" using emit_field_int by blast+
  then have 6: "m_cold_start m = m_cold_start m'" "?r m = ?r m'" using emit_field_bool by blast+
  then have eq: "join '','' (map emit_resident (m_resident m)) @ ?fin m = join '','' (map emit_resident (m_resident m')) @ ?fin m'"
    by simp
  have start: "emit_resident t \<noteq> [] \<and> hd (emit_resident t) = nl" for t by (simp add: emit_resident_def)
  have "m_resident m = m_resident m'"
  proof (cases "m_resident m = []"; cases "m_resident m' = []")
    assume "m_resident m = []" "m_resident m' \<noteq> []"
    with eq join_start [of "m_resident m'" emit_resident nl "'',''" "?fin m'"] start show ?thesis by auto
  next
    assume "m_resident m \<noteq> []" "m_resident m' = []"
    with eq join_start [of "m_resident m" emit_resident nl "'',''" "?fin m"] start show ?thesis by auto
  next
    assume ne: "m_resident m \<noteq> []" "m_resident m' \<noteq> []"
    then have "separated '','' (?fin m)" "separated '','' (?fin m')" by (simp_all add: separated_def)
    from join_inj_nonempty [OF emit_resident_inj this eq ne] show ?thesis by blast
  qed simp
  with 1 2 3 4 5 6 show ?thesis by simp
qed

definition sample_manifest :: manifest where
  "sample_manifest = \<lparr>m_generated_at = ''deterministic-0'', m_cap_bytes = 9, m_cap_effective = 8, m_used = 7,
     m_version = 1, m_cold_start = True, m_resident = [\<lparr>m_sha = ''aa'', m_size = 7, m_buckets = [''loved'', ''manual_pins'']\<rparr>]\<rparr>"

theorem manifest_emit_json_inj_witness: "sample_manifest = sample_manifest\<lparr>m_cold_start := True\<rparr>"
  by (rule manifest_emit_json_inj) (simp add: sample_manifest_def)

section \<open>The merge is the set difference\<close>

text \<open>The difference of two tables, without their order.\<close>

definition shift_entry :: "manifest_row list \<Rightarrow> manifest_track \<Rightarrow> diff_shifted list" where
  "shift_entry ps n = (case find_row mf_sha (m_sha n) ps of
     None \<Rightarrow> []
   | Some p \<Rightarrow> if mf_buckets p = buckets_to_csv (m_buckets n) then [] else [shifted_of p n])"

definition diff_spec :: "manifest_row list \<Rightarrow> manifest_track list \<Rightarrow> manifest_diff" where
  "diff_spec ps ns = \<lparr>df_added = map added_of (filter (\<lambda>n. m_sha n \<notin> mf_sha ` set ps) ns),
     df_removed = map removed_of (filter (\<lambda>p. mf_sha p \<notin> m_sha ` set ns) ps),
     df_shifted = concat (map (shift_entry ps) ns)\<rparr>"

lemma shift_entry_simps:
  "mf_sha p \<noteq> m_sha n \<Longrightarrow> shift_entry (p # ps) n = shift_entry ps n"
  "mf_sha p = m_sha n \<Longrightarrow> shift_entry (p # ps) n = (if mf_buckets p = buckets_to_csv (m_buckets n) then [] else [shifted_of p n])"
  by (simp_all add: shift_entry_def)

lemma shift_entry_none: "m_sha n \<notin> mf_sha ` set ps \<Longrightarrow> shift_entry ps n = []"
  by (simp add: shift_entry_def find_row_None [THEN iffD2] del: find_row_None)

lemma shift_entry_map: "mf_sha p \<notin> m_sha ` set ns \<Longrightarrow> map (shift_entry (p # ps)) ns = map (shift_entry ps) ns"
  by (intro map_cong refl shift_entry_simps) auto

lemma filter_prev: "mf_sha p \<notin> m_sha ` set ns \<Longrightarrow>
    filter (\<lambda>n. m_sha n \<notin> mf_sha ` set (p # ps)) ns = filter (\<lambda>n. m_sha n \<notin> mf_sha ` set ps) ns"
  by (rule filter_cong) force+

lemma filter_next: "m_sha n \<notin> mf_sha ` set ps \<Longrightarrow>
    filter (\<lambda>p. mf_sha p \<notin> m_sha ` set (n # ns)) ps = filter (\<lambda>p. mf_sha p \<notin> m_sha ` set ns) ps"
  by (rule filter_cong) force+

lemma diff_spec_prev:
  assumes "mf_sha p \<notin> m_sha ` set ns"
  shows "diff_spec (p # ps) ns = (diff_spec ps ns)\<lparr>df_removed := removed_of p # df_removed (diff_spec ps ns)\<rparr>"
  unfolding diff_spec_def filter_prev [OF assms] shift_entry_map [OF assms] using assms by simp

lemma diff_spec_next:
  assumes "m_sha n \<notin> mf_sha ` set ps"
  shows "diff_spec ps (n # ns) = (diff_spec ps ns)\<lparr>df_added := added_of n # df_added (diff_spec ps ns)\<rparr>"
  unfolding diff_spec_def filter_next [OF assms] using assms by (simp add: shift_entry_none)

lemma diff_spec_both:
  assumes "mf_sha p = m_sha n" "mf_sha p \<notin> mf_sha ` set ps" "m_sha n \<notin> m_sha ` set ns"
  shows "diff_spec (p # ps) (n # ns) = (if mf_buckets p = buckets_to_csv (m_buckets n) then diff_spec ps ns
    else (diff_spec ps ns)\<lparr>df_shifted := shifted_of p n # df_shifted (diff_spec ps ns)\<rparr>)"
proof -
  have p: "mf_sha p \<notin> m_sha ` set ns" and n: "m_sha n \<notin> mf_sha ` set ps" using assms by simp_all
  have "filter (\<lambda>x. m_sha x \<notin> mf_sha ` set (p # ps)) (n # ns) = filter (\<lambda>x. m_sha x \<notin> mf_sha ` set ps) ns"
    using filter_prev [OF p] assms(1) by simp
  moreover have "filter (\<lambda>x. mf_sha x \<notin> m_sha ` set (n # ns)) (p # ps) = filter (\<lambda>x. mf_sha x \<notin> m_sha ` set ns) ps"
    using filter_next [OF n] assms(1) by simp
  moreover have "map (shift_entry (p # ps)) (n # ns) = shift_entry (p # ps) n # map (shift_entry ps) ns"
    using shift_entry_map [OF p] by simp
  ultimately show ?thesis unfolding diff_spec_def using assms(1) by (simp only: shift_entry_simps) simp
qed

lemma merge_walk_spec:
  "sorted_wrt (<) (map mf_sha ps) \<Longrightarrow> sorted_wrt (<) (map m_sha ns) \<Longrightarrow> merge_walk ps ns = diff_spec ps ns"
proof (induction ps ns rule: merge_walk.induct)
  case (1 p ps n ns)
  have ps: "\<forall>q\<in>set ps. mf_sha p < mf_sha q" and ns: "\<forall>q\<in>set ns. m_sha n < m_sha q" using "1.prems" by auto
  consider "mf_sha p < m_sha n" | "m_sha n < mf_sha p" | "mf_sha p = m_sha n" by fastforce
  then show ?case
  proof cases
    case less: 1
    with ns have "mf_sha p \<notin> m_sha ` set (n # ns)" by auto
    with less "1.IH"(1) "1.prems" show ?thesis by (simp add: diff_spec_prev Let_def)
  next
    case 2
    with ps have "m_sha n \<notin> mf_sha ` set (p # ps)" by auto
    with 2 "1.IH"(2) "1.prems" show ?thesis by (simp add: diff_spec_next Let_def)
  next
    case 3
    with ps ns have "mf_sha p \<notin> mf_sha ` set ps" "m_sha n \<notin> m_sha ` set ns" by auto
    with 3 "1.IH"(3,4) "1.prems" show ?thesis by (simp add: diff_spec_both Let_def)
  qed
qed (auto simp: diff_spec_def shift_entry_none)

lemma prev_load_sorted: "distinct (map mf_sha (manifest_current d)) \<Longrightarrow> sorted_wrt (<) (map mf_sha (prev_load d))"
  by (simp add: prev_load_def strict_sorted_iff)

lemma set_prev_load [simp]: "set (prev_load d) = set (manifest_current d)"
  by (simp add: prev_load_def)

text \<open>C21: the difference lists exactly the tracks that join, those that leave, and those that stay with
  other buckets, the latter with the buckets they gain and lose.\<close>

theorem diff_is_set_difference:
  assumes "distinct (map mf_sha (manifest_current d))" "sorted_wrt (<) (map m_sha (m_resident m))"
  shows "let r = merge_walk (prev_load d) (m_resident m); old = mf_sha ` set (manifest_current d); new = m_sha ` set (m_resident m)
    in dt_sha ` set (df_added r) = new - old \<and> dt_sha ` set (df_removed r) = old - new \<and>
       set (df_shifted r) = {shifted_of p n | p n. p \<in> set (manifest_current d) \<and> n \<in> set (m_resident m) \<and>
         mf_sha p = m_sha n \<and> mf_buckets p \<noteq> buckets_to_csv (m_buckets n)}"
proof -
  let ?ps = "prev_load d"
  have r: "merge_walk ?ps (m_resident m) = diff_spec ?ps (m_resident m)"
    by (rule merge_walk_spec [OF prev_load_sorted assms(2)]) (rule assms(1))
  have "set (shift_entry ?ps n) = {shifted_of p n | p. p \<in> set (manifest_current d) \<and> mf_sha p = m_sha n \<and>
      mf_buckets p \<noteq> buckets_to_csv (m_buckets n)}" for n
  proof (cases "find_row mf_sha (m_sha n) ?ps")
    case None
    then have "m_sha n \<notin> mf_sha ` set (manifest_current d)" by simp
    then have "\<forall>p\<in>set (manifest_current d). mf_sha p \<noteq> m_sha n" by force
    with None show ?thesis by (auto simp: shift_entry_def simp del: find_row_None)
  next
    case (Some p)
    then have p: "p \<in> set (manifest_current d)" "mf_sha p = m_sha n" by (auto dest: find_row_SomeD)
    from assms(1) have inj: "inj_on mf_sha (set (manifest_current d))" by (simp add: distinct_map)
    have uniq: "q = p" if "q \<in> set (manifest_current d)" "mf_sha q = m_sha n" for q
      by (rule inj_onD [OF inj]) (use p that in simp_all)
    have "{shifted_of q n | q. q \<in> set (manifest_current d) \<and> mf_sha q = m_sha n \<and> mf_buckets q \<noteq> buckets_to_csv (m_buckets n)} =
      (if mf_buckets p = buckets_to_csv (m_buckets n) then {} else {shifted_of p n})" using p by (auto intro!: exI [of _ p] dest: uniq)
    then show ?thesis by (simp add: shift_entry_def Some)
  qed
  then have "set (df_shifted (diff_spec ?ps (m_resident m))) = {shifted_of p n | p n. p \<in> set (manifest_current d) \<and>
      n \<in> set (m_resident m) \<and> mf_sha p = m_sha n \<and> mf_buckets p \<noteq> buckets_to_csv (m_buckets n)}"
    by (auto simp: diff_spec_def)
  moreover have "dt_sha ` set (df_added (diff_spec ?ps (m_resident m))) = m_sha ` set (m_resident m) - mf_sha ` set (manifest_current d)"
    "dt_sha ` set (df_removed (diff_spec ?ps (m_resident m))) = mf_sha ` set (manifest_current d) - m_sha ` set (m_resident m)"
    by (auto simp: diff_spec_def added_of_def removed_of_def image_iff)
  ultimately show ?thesis unfolding Let_def r by blast
qed

theorem diff_is_set_difference_witness:
  "dt_sha ` set (df_removed (merge_walk (prev_load r_sample_db) (m_resident (sample_manifest\<lparr>m_resident := []\<rparr>)))) = {''aa''}"
  using diff_is_set_difference [of r_sample_db "sample_manifest\<lparr>m_resident := []\<rparr>"]
  by (simp add: Let_def r_sample_db_def)

lemma csv_pieces_append: "CHR '','' \<notin> set b \<Longrightarrow> csv_pieces cur (b @ r) = csv_pieces (cur @ b) r"
  by (induction b arbitrary: cur) auto

lemma csv_split_join:
  assumes "bs \<noteq> []" "bs \<noteq> [[]]" "\<forall>b\<in>set bs. CHR '','' \<notin> set b" shows "csv_split (buckets_to_csv bs) = bs"
proof -
  have p: "csv_pieces [] (join '','' bs) = bs" if "bs \<noteq> []" "\<forall>b\<in>set bs. CHR '','' \<notin> set b" for bs
    using that
  proof (induction bs rule: induct_list012)
    case (2 x)
    then show ?case using csv_pieces_append [of x "[]" "[]"] by simp
  next
    case (3 x y xs)
    then show ?case using csv_pieces_append [of x "[]"] by simp
  qed simp
  have "join '','' bs \<noteq> []" using assms by (cases bs; cases "tl bs") auto
  with p assms show ?thesis by (simp add: csv_split_def buckets_to_csv_def)
qed

section \<open>Writing the manifest\<close>

lemma fill_csv_join:
  "length cur \<le> 511 \<Longrightarrow> fill_csv cur first bs = take 511 (cur @ (if first \<or> bs = [] then [] else '','') @ join '','' bs)"
proof (induction cur first bs rule: fill_csv.induct)
  case (2 cur first b bs)
  let ?p = "(if first then [] else '','') @ b"
  have j: "(if first \<or> b # bs = [] then [] else '','') @ join '','' (b # bs) = ?p @ (if bs = [] then [] else '','') @ join '','' bs"
    by (cases bs) auto
  show ?case
  proof (cases "length cur + length ?p \<ge> 512")
    case True
    then have "511 - length cur \<le> length ?p" by linarith
    with True "2.prems" show ?thesis unfolding j by (simp add: Let_def)
  next
    case False
    then have "length (cur @ ?p) \<le> 511" by simp
    from "2.IH" [OF refl False this] False show ?thesis unfolding j by (simp add: Let_def)
  qed
qed simp

lemma buckets_csv_eq: "length (buckets_to_csv (m_buckets t)) \<le> 511 \<Longrightarrow> buckets_csv t = buckets_to_csv (m_buckets t)"
  using fill_csv_join [of "[]" True "m_buckets t"] by (simp add: buckets_csv_def buckets_to_csv_def)

text \<open>What holds inside the transaction, whatever statements fail: \<open>d\<close> is the database it started from.\<close>

definition writing :: "db \<Rightarrow> fs \<Rightarrow> manifest \<Rightarrow> world \<Rightarrow> bool" where
  "writing d f m w \<longleftrightarrow> w_txn w = Some d \<and> w_fs w = f \<and> (db_ok d \<longrightarrow> db_ok (w_db w)) \<and>
     unsync_overrides (w_db w) = unsync_overrides d \<and> track_blacklist (w_db w) = track_blacklist d \<and>
     (\<forall>r\<in>set (manifest_current (w_db w)). r \<in> set (manifest_current d) \<or>
        \<not> excluded d (mf_sha r) \<and> mf_sha r \<in> m_sha ` set (m_resident m))"

lemma db_ok_clear: "db_ok d \<Longrightarrow> db_ok (d\<lparr>manifest_current := []\<rparr>)"
  by (simp add: db_ok_def track_shas_def)

lemma db_ok_set_meta: "db_ok (set_meta k v d) = db_ok d"
  by (simp add: db_ok_def track_shas_def set_meta_def)

lemma set_meta_same [simp]: "unsync_overrides (set_meta k v d) = unsync_overrides d"
  "track_blacklist (set_meta k v d) = track_blacklist d" "manifest_current (set_meta k v d) = manifest_current d"
  by (simp_all add: set_meta_def)

lemma writing_clear: "writing d f m w \<Longrightarrow> writing d f m (snd (sql_write (\<lambda>d. d\<lparr>manifest_current := []\<rparr>) w))"
proof -
  obtain b w' where x: "sql_write (\<lambda>d. d\<lparr>manifest_current := []\<rparr>) w = (b, w')" by fastforce
  assume I: "writing d f m w"
  from x show ?thesis
    by (cases rule: sql_write_cases) (use I x in \<open>simp_all add: writing_def db_ok_clear\<close>)
qed

lemma insert_manifest_row_ok: "insert_manifest_row t d = Some d' \<Longrightarrow> db_ok d \<Longrightarrow> db_ok d'"
proof (cases "excluded d (m_sha t)")
  case False
  assume i: "insert_manifest_row t d = Some d'" and ok: "db_ok d"
  from i False have d': "d' = d\<lparr>manifest_current := manifest_current d @
      [\<lparr>mf_sha = m_sha t, mf_buckets = buckets_csv t, mf_size = m_size t\<rparr>]\<rparr>"
    and new: "m_sha t \<notin> mf_sha ` set (manifest_current d)" "m_sha t \<in> track_shas d"
    by (auto simp: insert_manifest_row_def split: if_splits)
  have "track_shas d' = track_shas d" by (simp add: d' track_shas_def)
  with ok new show ?thesis by (simp add: db_ok_def d')
qed (simp add: insert_manifest_row_def)

lemma writing_insert:
  assumes "writing d f m w" "t \<in> set (m_resident m)"
  shows "writing d f m (snd (sql_exec (insert_manifest_row t) w))"
proof -
  obtain b w' where x: "sql_exec (insert_manifest_row t) w = (b, w')" by fastforce
  then show ?thesis
  proof (cases rule: sql_exec_cases)
    case (ok q d')
    have "db_ok (w_db w) \<Longrightarrow> db_ok d'" using insert_manifest_row_ok ok(2) by blast
    moreover have "unsync_overrides d' = unsync_overrides (w_db w) \<and> track_blacklist d' = track_blacklist (w_db w) \<and>
        (\<forall>r\<in>set (manifest_current d'). r \<in> set (manifest_current (w_db w)) \<or> mf_sha r = m_sha t \<and> \<not> excluded (w_db w) (m_sha t))"
      using ok(2) by (auto simp: insert_manifest_row_def split: if_splits)
    moreover have e: "excluded (w_db w) h = excluded d h" for h using assms(1) by (simp add: writing_def excluded_def)
    ultimately show ?thesis using assms ok(3) x unfolding writing_def e by fastforce
  next
    case (fail q)
    with assms(1) x show ?thesis by (simp add: writing_def)
  qed
qed

lemma writing_meta: "writing d f m w \<Longrightarrow> writing d f m (snd (sql_write (set_meta k v) w))"
proof -
  obtain b w' where x: "sql_write (set_meta k v) w = (b, w')" by fastforce
  assume I: "writing d f m w"
  from x show ?thesis
    by (cases rule: sql_write_cases) (use I x in \<open>simp_all add: writing_def db_ok_set_meta\<close>)
qed

text \<open>C19: whatever statements fail, a write that reports an error leaves the stored manifest as it was,
  and one that succeeds adds no track that is unsynced or blacklisted, nor one the resolver did not
  choose; the schema's constraints hold.\<close>

theorem write_manifest_excludes:
  assumes "write_manifest_to_db m w = (rc, w')" "w_txn w = None" "db_ok (w_db w)"
  shows "(rc \<noteq> 0 \<longrightarrow> durable w' = durable w) \<and> w_fs w' = w_fs w \<and> db_ok (durable w') \<and>
    (\<forall>r\<in>set (manifest_current (durable w')). r \<in> set (manifest_current (w_db w)) \<or>
       \<not> excluded (w_db w) (mf_sha r) \<and> mf_sha r \<in> m_sha ` set (m_resident m))"
proof -
  obtain b w1 where b: "db_begin w = (b, w1)" by fastforce
  then show ?thesis
  proof (cases rule: db_begin_cases)
    case (fail q)
    with assms b show ?thesis by (auto simp: write_manifest_to_db_def durable_def)
  next
    case (ok q)
    define w2 where "w2 = snd (sql_write (\<lambda>d. d\<lparr>manifest_current := []\<rparr>) w1)"
    define w3 where "w3 = fold (\<lambda>t w. snd (sql_exec (insert_manifest_row t) w)) (m_resident m) w2"
    define w4 where "w4 = fold (\<lambda>(k, v) w. snd (sql_write (set_meta k v) w)) (manifest_meta_rows m) w3"
    have "writing (w_db w) (w_fs w) m w1" using ok by (simp add: writing_def)
    then have "writing (w_db w) (w_fs w) m w2" unfolding w2_def by (rule writing_clear)
    then have "writing (w_db w) (w_fs w) m w3" unfolding w3_def
      by (rule fold_invariant [where Q = "\<lambda>t. t \<in> set (m_resident m)", rotated]) (simp_all add: writing_insert)
    then have w4: "writing (w_db w) (w_fs w) m w4" unfolding w4_def
      by (rule fold_invariant [where Q = "\<lambda>_. True", rotated]) (auto simp: writing_meta)
    obtain c w5 where c: "db_commit w4 = (c, w5)" by fastforce
    have rc: "rc = (if c then 0 else - 1) \<and> w' = w5"
      using assms(1) b ok c by (auto simp: write_manifest_to_db_def Let_def w2_def w3_def w4_def split: bool.splits)
    from c show ?thesis
    proof (cases rule: db_commit_cases)
      case (ok q)
      with w4 rc assms show ?thesis by (auto simp: writing_def durable_def)
    next
      case (fail q)
      with w4 rc assms show ?thesis by (auto simp: writing_def durable_def)
    qed
  qed
qed

section \<open>Writing, then comparing\<close>

definition manifest_row_of :: "manifest_track \<Rightarrow> manifest_row" where
  "manifest_row_of t = \<lparr>mf_sha = m_sha t, mf_buckets = buckets_csv t, mf_size = m_size t\<rparr>"

text \<open>The tracks the insertion accepts: known ones that are neither unsynced nor blacklisted.\<close>

definition storable :: "db \<Rightarrow> manifest_track \<Rightarrow> bool" where
  "storable d t \<longleftrightarrow> m_sha t \<in> track_shas d \<and> \<not> excluded d (m_sha t)"

lemma insert_rows_quiet:
  assumes "w_sql w = []" "distinct (map m_sha ts)" "\<forall>t\<in>set ts. m_sha t \<notin> mf_sha ` set (manifest_current (w_db w))"
  shows "fold (\<lambda>t w. snd (sql_exec (insert_manifest_row t) w)) ts w = w\<lparr>w_db := (w_db w)\<lparr>manifest_current :=
    manifest_current (w_db w) @ map manifest_row_of (filter (storable (w_db w)) ts)\<rparr>\<rparr>"
  using assms
proof (induction ts arbitrary: w)
  case (Cons t ts)
  let ?rows = "if storable (w_db w) t then [manifest_row_of t] else []"
  let ?w = "w\<lparr>w_db := (w_db w)\<lparr>manifest_current := manifest_current (w_db w) @ ?rows\<rparr>\<rparr>"
  have "snd (sql_exec (insert_manifest_row t) w) = ?w"
    using Cons.prems by (simp add: sql_exec_quiet insert_manifest_row_def manifest_row_of_def storable_def)
  moreover have "fold (\<lambda>t w. snd (sql_exec (insert_manifest_row t) w)) ts ?w = ?w\<lparr>w_db := (w_db ?w)\<lparr>manifest_current :=
      manifest_current (w_db ?w) @ map manifest_row_of (filter (storable (w_db ?w)) ts)\<rparr>\<rparr>"
  proof (rule Cons.IH)
    show "\<forall>u\<in>set ts. m_sha u \<notin> mf_sha ` set (manifest_current (w_db ?w))"
    proof -
      have "\<forall>u\<in>set ts. m_sha u \<noteq> m_sha t" using Cons.prems(2) by simp (metis imageI)
      with Cons.prems(3) show ?thesis by (auto simp: manifest_row_of_def split: if_splits)
    qed
  qed (use Cons.prems in simp_all)
  moreover have "storable (w_db ?w) = storable (w_db w)" by (simp add: storable_def track_shas_def excluded_def fun_eq_iff)
  ultimately show ?case by simp
qed simp

lemma metas_quiet:
  "w_sql w = [] \<Longrightarrow> fold (\<lambda>(k, v) w. snd (sql_write (set_meta k v) w)) kvs w =
    w\<lparr>w_db := fold (\<lambda>(k, v). set_meta k v) kvs (w_db w)\<rparr>"
  by (induction kvs arbitrary: w) (auto simp: sql_write_quiet)

lemma metas_keep: "manifest_current (fold (\<lambda>(k, v). set_meta k v) kvs d) = manifest_current d"
  by (induction kvs arbitrary: d) auto

lemma find_set_meta:
  "find_row fst k (manifest_meta (set_meta k' v d)) = (if k = k' then Some (k, v) else find_row fst k (manifest_meta d))"
proof -
  have "fst (if fst x = k' then (k', v) else (k', v)) = k'" for x :: "string \<times> string" by simp
  have "find_row fst k (upsert fst (\<lambda>old new. new) (k', v) xs) = (if k = k' then Some (k, v) else find_row fst k xs)" for xs :: "(string \<times> string) list"
    by (induction xs) auto
  then show ?thesis by (simp add: set_meta_def)
qed

lemma fill_csv_length: "length cur \<le> 511 \<Longrightarrow> length (fill_csv cur first bs) \<le> 511"
  by (induction bs arbitrary: cur first) (auto simp: Let_def)

lemma csv_cut_iff: "buckets_csv t = buckets_to_csv (m_buckets t) \<longleftrightarrow> length (buckets_to_csv (m_buckets t)) \<le> 511"
  using fill_csv_length [of "[]" True "m_buckets t"] buckets_csv_eq [of t] by (auto simp: buckets_csv_def)

lemma merge_walk_stored:
  assumes "sorted_wrt (<) (map m_sha ns)"
  shows "merge_walk (map manifest_row_of (filter P ns)) ns = \<lparr>df_added = map added_of (filter (\<lambda>t. \<not> P t) ns), df_removed = [],
    df_shifted = map (\<lambda>t. shifted_of (manifest_row_of t) t)
      (filter (\<lambda>t. P t \<and> length (buckets_to_csv (m_buckets t)) > 511) ns)\<rparr>"
  using assms
proof (induction ns)
  case (Cons n ns)
  note IH = Cons.IH [OF sorted_wrt.simps(2) [THEN iffD1, THEN conjunct2], OF Cons.prems [simplified list.map]]
  show ?case
  proof (cases "P n")
    case True
    have "mf_sha (manifest_row_of n) = m_sha n" "mf_buckets (manifest_row_of n) = buckets_csv n"
      by (simp_all add: manifest_row_of_def)
    with True IH show ?thesis by (simp add: csv_cut_iff Let_def)
  next
    case False
    show ?thesis
    proof (cases "filter P ns")
      case Nil
      then have "filter (\<lambda>t. \<not> P t) ns = ns" "filter (\<lambda>t. P t \<and> length (buckets_to_csv (m_buckets t)) > 511) ns = []"
        by (auto simp: filter_empty_conv filter_id_conv)
      with Nil False show ?thesis by simp
    next
      case (Cons p ps)
      then have "p \<in> set (filter P ns)" by simp
      then have "p \<in> set ns" by simp
      with Cons.prems have "m_sha n < m_sha p" by simp
      then have "\<not> mf_sha (manifest_row_of p) < m_sha n" "m_sha n < mf_sha (manifest_row_of p)"
        by (simp_all add: manifest_row_of_def)
      with Cons False IH show ?thesis by (simp add: Let_def)
    qed
  qed
qed simp

text \<open>C20: what \<open>resolve --diff\<close> shows right after a manifest has been written, when no statement fails.
  For a manifest sorted by identity whose used bytes are a \<open>long long\<close>, written outside a transaction, the
  write succeeds; the used bytes read back are the manifest's; and the difference between the copy and the
  manifest itself is exactly what the write leaves out: as added, in order, the tracks that the insertion skips
  (unknown to the database, unsynced or blacklisted), as removed nothing, and as shifted the stored tracks whose
  list of bucket names does not fit its 511 bytes. A manifest without such tracks has no difference from its copy.\<close>

theorem written_manifest_diff:
  assumes "w_sql w = []" "w_txn w = None" "sorted_wrt (<) (map m_sha (m_resident m))"
    and "- (2 ^ 63) \<le> m_used m" "m_used m < 2 ^ 63"
  shows "\<exists>w'. write_manifest_to_db m w = (0, w') \<and> read_used_before (w_db w') = m_used m \<and>
    merge_walk (prev_load (w_db w')) (m_resident m) =
      \<lparr>df_added = map added_of (filter (\<lambda>t. \<not> storable (w_db w) t) (m_resident m)), df_removed = [],
       df_shifted = map (\<lambda>t. shifted_of (manifest_row_of t) t)
         (filter (\<lambda>t. storable (w_db w) t \<and> length (buckets_to_csv (m_buckets t)) > 511) (m_resident m))\<rparr>"
proof -
  let ?rows = "map manifest_row_of (filter (storable (w_db w)) (m_resident m))"
  let ?w1 = "w\<lparr>w_db := (w_db w)\<lparr>manifest_current := []\<rparr>, w_txn := Some (w_db w)\<rparr>"
  let ?w2 = "?w1\<lparr>w_db := (w_db ?w1)\<lparr>manifest_current := ?rows\<rparr>\<rparr>"
  let ?w3 = "?w2\<lparr>w_db := fold (\<lambda>(k, v). set_meta k v) (manifest_meta_rows m) (w_db ?w2)\<rparr>"
  have dist: "distinct (map m_sha (m_resident m))" using assms(3) by (rule sorted_wrt_distinct_less)
  have "storable (w_db ?w1) = storable (w_db w)" by (simp add: storable_def track_shas_def excluded_def fun_eq_iff)
  then have "fold (\<lambda>t w. snd (sql_exec (insert_manifest_row t) w)) (m_resident m) ?w1 = ?w2"
    using assms(1) dist by (subst insert_rows_quiet) simp_all
  moreover have "fold (\<lambda>(k, v) w. snd (sql_write (set_meta k v) w)) (manifest_meta_rows m) ?w2 = ?w3"
    using assms(1) by (subst metas_quiet) simp_all
  moreover have "db_begin w = (True, w\<lparr>w_txn := Some (w_db w)\<rparr>)"
    using assms(1,2) by (simp add: db_begin_def sql_write_quiet)
  moreover have "snd (sql_write (\<lambda>d. d\<lparr>manifest_current := []\<rparr>) (w\<lparr>w_txn := Some (w_db w)\<rparr>)) = ?w1"
    using assms(1) by (simp add: sql_write_quiet)
  moreover have "db_commit ?w3 = (True, ?w3\<lparr>w_txn := None\<rparr>)"
    using assms(1) by (simp add: db_commit_def sql_write_quiet)
  ultimately have wr: "write_manifest_to_db m w = (0, ?w3\<lparr>w_txn := None\<rparr>)"
    by (simp only: write_manifest_to_db_def prod.case bool.case Let_def)
  have "sorted (map m_sha (m_resident m))" using assms(3) by (simp add: strict_sorted_iff)
  then have "sorted (map mf_sha ?rows)" by (simp add: manifest_row_of_def comp_def sorted_filter)
  then have "prev_load (w_db (?w3\<lparr>w_txn := None\<rparr>)) = ?rows"
    by (simp add: prev_load_def metas_keep sort_key_id_if_sorted)
  moreover have "read_used_before (w_db (?w3\<lparr>w_txn := None\<rparr>)) = m_used m"
    using atoll_show_int [OF assms(4,5), of "[]"]
    by (simp add: read_used_before_def manifest_meta_rows_def find_set_meta del: find_row_None)
  ultimately show ?thesis
    using wr merge_walk_stored [OF assms(3), of "storable (w_db w)"] by (intro exI [of _ "?w3\<lparr>w_txn := None\<rparr>"]) simp
qed

definition diff_sample_world :: world where
  "diff_sample_world = \<lparr>w_db = r_sample_db, w_fs = \<lparr>fs_nodes = [], fs_data = [], fs_next = 0, fs_faults = []\<rparr>,
     w_sql = [], w_txn = None\<rparr>"

definition diff_sample_manifest :: manifest where
  "diff_sample_manifest = sample_manifest\<lparr>m_resident := [\<lparr>m_sha = ''aa'', m_size = 7, m_buckets = [''loved'', ''manual_pins'']\<rparr>]\<rparr>"

lemma diff_sample_ok: "db_ok r_sample_db"
  by (simp add: db_ok_def r_sample_db_def r_sample_track_def empty_db_def track_shas_def)

theorem written_manifest_diff_witness:
  "let m = diff_sample_manifest\<lparr>m_resident := m_resident diff_sample_manifest @
      [\<lparr>m_sha = ''zz'', m_size = 9, m_buckets = [''loved'']\<rparr>]\<rparr>
   in \<exists>w'. write_manifest_to_db m diff_sample_world = (0, w') \<and> read_used_before (w_db w') = 7 \<and>
     merge_walk (prev_load (w_db w')) (m_resident m) = \<lparr>df_added =
       [\<lparr>dt_sha = ''zz'', dt_size = 9, dt_csv = ''loved'', dt_buckets = [''loved'']\<rparr>], df_removed = [], df_shifted = []\<rparr>"
proof -
  let ?m = "diff_sample_manifest\<lparr>m_resident := m_resident diff_sample_manifest @
      [\<lparr>m_sha = ''zz'', m_size = 9, m_buckets = [''loved'']\<rparr>]\<rparr>"
  have s: "sorted_wrt (<) (map m_sha (m_resident ?m))" "w_sql diff_sample_world = []" "w_txn diff_sample_world = None"
    by (simp_all add: diff_sample_manifest_def diff_sample_world_def)
  have d: "storable (w_db diff_sample_world) \<lparr>m_sha = ''aa'', m_size = 7, m_buckets = [''loved'', ''manual_pins'']\<rparr>"
    "\<not> storable (w_db diff_sample_world) \<lparr>m_sha = ''zz'', m_size = 9, m_buckets = [''loved'']\<rparr>"
    by (simp_all add: storable_def diff_sample_world_def r_sample_db_def r_sample_track_def track_shas_def excluded_def empty_db_def)
  from written_manifest_diff [OF s(2,3,1)] d show ?thesis
    by (simp add: Let_def diff_sample_manifest_def sample_manifest_def added_of_def buckets_to_csv_def)
qed

theorem write_manifest_excludes_witness:
  "let w = diff_sample_world\<lparr>w_sql := [False, True, False, True]\<rparr>; w' = snd (write_manifest_to_db diff_sample_manifest w)
   in db_ok (durable w') \<and> w_fs w' = w_fs w"
proof -
  let ?w = "diff_sample_world\<lparr>w_sql := [False, True, False, True]\<rparr>"
  obtain rc w' where r: "write_manifest_to_db diff_sample_manifest ?w = (rc, w')" by fastforce
  have "w_fs w' = w_fs ?w \<and> db_ok (durable w')"
    using write_manifest_excludes [OF r] diff_sample_ok by (simp add: diff_sample_world_def)
  then show ?thesis by (simp add: r Let_def)
qed

text \<open>The MiB conversion rounds a negative number of bytes towards zero: a manifest that shrinks by one
  MiB is printed as no change.\<close>

lemma mib_of_minus_one: "BYTES_TO_MIB (- 1048576) = 0 \<and> BYTES_TO_MIB 1048576 = 1"
  by (simp add: BYTES_TO_MIB_def)

end
