(* ===== verification/Transcode.thy ===== *)
theory Transcode
  imports Emit Fs
begin

text \<open>
  The encoder: \<open>transcode.c\<close> (the \<open>ffmpeg\<close> command line and the meaning of its exit) and
  \<open>loudness.c\<close> (the levelling gain, the reader of the loudness summary, the buffer that collects
  it). \<open>ffmpeg\<close> is a parameter: what a run does to the files and how it ends.

  \<open>strtod\<close> reads decimal numbers, infinities and NaN; hexadecimal numbers, which \<open>loudnorm\<close> never
  prints, are outside the model. Allocation never fails.
\<close>

section \<open>The levelling gain\<close>

definition LOUDNESS_SILENCE_LUFS :: double where "LOUDNESS_SILENCE_LUFS = -70"
definition LOUDNESS_PEAK_CEILING_DBTP :: double where "LOUDNESS_PEAK_CEILING_DBTP = -1"
definition LOUDNESS_MAX_BOOST_DB :: double where "LOUDNESS_MAX_BOOST_DB = 12"
definition LOUDNESS_MAX_CUT_DB :: double where "LOUDNESS_MAX_CUT_DB = -30"

lemmas loudness_consts = LOUDNESS_SILENCE_LUFS_def LOUDNESS_PEAK_CEILING_DBTP_def
  LOUDNESS_MAX_BOOST_DB_def LOUDNESS_MAX_CUT_DB_def

definition peak_limit :: "fp \<Rightarrow> double \<Rightarrow> double" where
  "peak_limit tp g = (case tp of
     Fin t \<Rightarrow> let c = dsub LOUDNESS_PEAK_CEILING_DBTP t; ceiling = (if c < 0 then 0 else c)
              in if g > ceiling then ceiling else g
   | _ \<Rightarrow> g)"

definition loudness_gain :: "fp \<Rightarrow> fp \<Rightarrow> double \<Rightarrow> double" where
  "loudness_gain i tp target = (case i of
     Fin i \<Rightarrow>
       if i \<le> LOUDNESS_SILENCE_LUFS then 0
       else let g = dsub target i;
                g = (if g > 0 then peak_limit tp g else g);
                g = (if g > LOUDNESS_MAX_BOOST_DB then LOUDNESS_MAX_BOOST_DB else g)
            in if g < LOUDNESS_MAX_CUT_DB then LOUDNESS_MAX_CUT_DB else g
   | _ \<Rightarrow> 0)"

section \<open>Reading the summary\<close>

text \<open>\<open>strstr\<close>, with the match skipped; with a one-letter pattern, \<open>strchr\<close>.\<close>

fun after_str :: "string \<Rightarrow> string \<Rightarrow> string option" where
  "after_str p s = (case strip_prefix p s of
     Some r \<Rightarrow> Some r
   | None \<Rightarrow> (case s of [] \<Rightarrow> None | c # cs \<Rightarrow> after_str p cs))"

declare after_str.simps [simp del]

definition strtod_fp :: "string \<Rightarrow> fp option" where
  "strtod_fp s =
     (let (neg, t) = take_sign (dropWhile isspace s); l = map to_lower t
      in if strip_prefix ''inf'' l \<noteq> None then Some (FInf neg)
         else if strip_prefix ''nan'' l \<noteq> None then Some FNaN
         else map_option (\<lambda>(v, rest). Fin v) (strtod s))"

definition read_key :: "string \<Rightarrow> string \<Rightarrow> fp option" where
  "read_key text key =
     Option.bind (after_str key text) (\<lambda>p.
     Option.bind (after_str '':'' p) (\<lambda>p.
     Option.bind (after_str [CHR 0x22] p) strtod_fp))"

definition loudness_parse :: "string \<Rightarrow> (fp \<times> fp) option" where
  "loudness_parse text =
     Option.bind (read_key text ([CHR 0x22] @ ''input_i'' @ [CHR 0x22])) (\<lambda>i.
     Option.bind (read_key text ([CHR 0x22] @ ''input_tp'' @ [CHR 0x22])) (\<lambda>tp. Some (i, tp)))"

section \<open>Collecting the output of the analysis pass\<close>

text \<open>
  The read loop of \<open>loudness_measure\<close>: the buffer doubles up to 1 MiB and then drops its older
  half. Each element of the list is what one \<open>read\<close> of at most 4096 bytes returned.
\<close>

definition make_room :: "nat \<times> string \<Rightarrow> nat \<times> string" where
  "make_room = (\<lambda>(cap, buf).
     if length buf + 4096 + 1 > cap
     then (if cap \<ge> 2 ^ 20 then (cap, drop (length buf div 2) buf) else (cap * 2, buf))
     else (cap, buf))"

fun collect_reads :: "string list \<Rightarrow> nat \<times> string \<Rightarrow> nat \<times> string" where
  "collect_reads [] cb = make_room cb"
| "collect_reads (r # rs) cb = (case make_room cb of (cap, buf) \<Rightarrow> collect_reads rs (cap, buf @ r))"

datatype wait_status = Exited nat | Signaled nat | Other_status

definition loudness_argv :: "path \<Rightarrow> string list" where
  "loudness_argv src = [''ffmpeg'', ''-nostdin'', ''-hide_banner'', ''-nostats'', ''-i'', src,
     ''-map'', ''0:a'', ''-af'', ''loudnorm=print_format=json'', ''-f'', ''null'', ''-'']"

text \<open>
  The analysis child: \<open>None\<close> where the pipe or the fork fails, else what it wrote to its standard
  error, as the reads deliver it, and how it ended.
\<close>

type_synonym analysis = "(string list \<times> wait_status) option"

definition loudness_measure :: "analysis \<Rightarrow> (fp \<times> fp) option" where
  "loudness_measure run = (case run of
     None \<Rightarrow> None
   | Some (reads, status) \<Rightarrow>
       (case collect_reads reads (16384, []) of (cap, buf) \<Rightarrow>
          if status = Exited 0 then loudness_parse buf else None))"

section \<open>transcode.c\<close>

record transcode_cfg =
  tc_enabled :: bool
  tc_format :: "string option"
  tc_bitrate :: int
  tc_level :: int

definition transcode_dst_ext :: "transcode_cfg \<Rightarrow> string option" where
  "transcode_dst_ext cfg = (case tc_format cfg of
     None \<Rightarrow> None
   | Some f \<Rightarrow> if f = ''opus'' then Some ''.opus'' else if f = ''aac'' then Some ''.m4a''
              else if f = ''flac'' then Some ''.flac'' else None)"

definition codec_for_format :: "string option \<Rightarrow> string option" where
  "codec_for_format fmt = (case fmt of
     None \<Rightarrow> None
   | Some f \<Rightarrow> if f = ''opus'' then Some ''libopus'' else if f = ''aac'' then Some ''aac'' else None)"

text \<open>\<open>printf("%.2f")\<close>: the nearest hundredth of the exact value, ties to even.\<close>

definition show_hundredths :: "double \<Rightarrow> string" where
  "show_hundredths x =
     (let n = nat (rhe (\<bar>x\<bar> * 100))
      in (if x < 0 then ''-'' else []) @ show_nat (n div 100) @ ''.'' @
         [digit_char (n div 10 mod 10), digit_char (n mod 10)])"

definition volume_arg :: "double \<Rightarrow> string" where
  "volume_arg gain = (if gain \<noteq> 0 then ''volume='' @ show_hundredths gain @ ''dB'' else [])"

definition transcode_argv :: "path \<Rightarrow> path \<Rightarrow> string \<Rightarrow> bool \<Rightarrow> int \<Rightarrow> string \<Rightarrow> string list" where
  "transcode_argv src dst codec is_opus kbps vol =
     [''ffmpeg'', ''-nostdin'', ''-loglevel'', ''error'', ''-y'', ''-i'', src, ''-map'', ''0:a''] @
     (if is_opus then [''-vn'']
      else [''-map'', ''0:v?'', ''-c:v'', ''copy'', ''-disposition:v'', ''attached_pic'']) @
     (if vol \<noteq> [] then [''-af'', vol] else []) @
     [''-c:a'', codec, ''-b:a'', show_int kbps @ ''k''] @
     (if is_opus then [''-vbr'', ''on'', ''-compression_level'', ''10''] else []) @
     [''-map_metadata'', ''0'', dst]"

text \<open>How the encoder's child ends: the fork or the wait may fail.\<close>

datatype child_end = Fork_failed | Wait_failed | Ended wait_status

record ffmpeg_env =
  fe_encode :: "string list \<Rightarrow> fs \<Rightarrow> child_end \<times> fs"
  fe_analyse :: "string list \<Rightarrow> fs \<Rightarrow> analysis"

record transcode_result =
  tr_gain_db :: fp
  tr_source_lufs :: fp

definition encode_result :: "child_end \<Rightarrow> int" where
  "encode_result e = (case e of
     Fork_failed \<Rightarrow> -1 | Wait_failed \<Rightarrow> -1
   | Ended (Exited rc) \<Rightarrow> (if rc = 0 then 0 else -2)
   | Ended _ \<Rightarrow> -2)"

text \<open>The measured loudness, the gain and what the result records of them.\<close>

definition level_track :: "ffmpeg_env \<Rightarrow> transcode_cfg \<Rightarrow> path \<Rightarrow> fs \<Rightarrow> double \<times> transcode_result" where
  "level_track E cfg src s =
     (if tc_level cfg = 0 then (0, \<lparr>tr_gain_db = FNaN, tr_source_lufs = FNaN\<rparr>)
      else case loudness_measure (fe_analyse E (loudness_argv src) s) of
        None \<Rightarrow> (0, \<lparr>tr_gain_db = Fin 0, tr_source_lufs = FNaN\<rparr>)
      | Some (i, tp) \<Rightarrow> let g = loudness_gain i tp (of_ll (tc_level cfg))
                        in (g, \<lparr>tr_gain_db = Fin g, tr_source_lufs = i\<rparr>))"

definition transcode_audio ::
  "ffmpeg_env \<Rightarrow> path \<Rightarrow> path \<Rightarrow> transcode_cfg \<Rightarrow> fs \<Rightarrow> int \<times> transcode_result \<times> fs" where
  "transcode_audio E src dst cfg s = (case codec_for_format (tc_format cfg) of
     None \<Rightarrow> (-1, \<lparr>tr_gain_db = FNaN, tr_source_lufs = FNaN\<rparr>, s)
   | Some codec \<Rightarrow>
       let kbps = (if tc_bitrate cfg > 0 then tc_bitrate cfg else 128);
           is_opus = (tc_format cfg = Some ''opus'');
           (gain, lvl) = level_track E cfg src s
       in case fe_encode E (transcode_argv src dst codec is_opus kbps (volume_arg gain)) s of
            (e, s') \<Rightarrow> (encode_result e, lvl, s'))"

section \<open>The gain\<close>

lemma peak_limit_le: "peak_limit tp g \<le> g \<or> peak_limit tp g = 0"
  by (auto simp: peak_limit_def Let_def split: fp.splits)

lemma peak_limit_bounds:
  assumes "0 < g" shows "0 \<le> peak_limit tp g" "peak_limit tp g \<le> g"
  using assms by (auto simp: peak_limit_def Let_def split: fp.splits)

lemma peak_limit_ceiling: "0 < peak_limit (Fin t) g \<Longrightarrow> peak_limit (Fin t) g \<le> dsub (-1) t"
  by (auto simp: peak_limit_def Let_def loudness_consts split: if_splits)

text \<open>C25: The levelling gain is always between -30 and +12 dB; it never goes past the gain that
  reaches the target, in either direction; and a boost never lifts the measured true peak above
  -1 dBTP.\<close>

theorem loudness_gain_safe:
  "- 30 \<le> loudness_gain i tp target \<and> loudness_gain i tp target \<le> 12 \<and>
   (\<forall>x. i = Fin x \<longrightarrow> min 0 (dsub target x) \<le> loudness_gain i tp target \<and>
      loudness_gain i tp target \<le> max 0 (dsub target x)) \<and>
   (\<forall>t. tp = Fin t \<and> 0 < loudness_gain i tp target \<longrightarrow> loudness_gain i tp target \<le> dsub (-1) t)"
proof (cases i)
  case (Fin x)
  show ?thesis
  proof (cases "x \<le> -70")
    case True
    with Fin show ?thesis by (simp add: loudness_gain_def loudness_consts)
  next
    case False
    show ?thesis
    proof (cases "0 < dsub target x")
      case True
      note b = peak_limit_bounds [OF True, of tp]
      from True False b Fin have "loudness_gain i tp target = min 12 (peak_limit tp (dsub target x))"
        by (simp add: loudness_gain_def loudness_consts Let_def)
      with b Fin show ?thesis 
        by (auto simp: min_le_iff_disj dest: peak_limit_ceiling)
    next
      case neg: False
      with False Fin have "loudness_gain i tp target = max (- 30) (dsub target x)"
        by (simp add: loudness_gain_def loudness_consts Let_def)
      with neg Fin show ?thesis by auto
    qed
  qed
qed (simp_all add: loudness_gain_def)

lemma rnd_numeral: "\<bar>numeral k :: int\<bar> \<le> 2 ^ 53 \<Longrightarrow> rnd (numeral k) = numeral k"
  using rnd_int [of "numeral k"] by simp

theorem loudness_gain_safe_witness:
  "loudness_gain (Fin (-23)) (Fin (-5)) (-18) = 4 \<and> (4 :: double) \<le> max 0 (dsub (-18) (-23)) \<and>
   (4 :: double) \<le> dsub (-1) (-5)"
proof -
  have g: "loudness_gain (Fin (-23)) (Fin (-5)) (-18) = 4"
    by (simp add: loudness_gain_def peak_limit_def loudness_consts dsub_def rnd_numeral Let_def)
  show ?thesis using loudness_gain_safe [of "Fin (-23)" "Fin (-5)" "-18"] by (simp add: g)
qed

section \<open>The output buffer\<close>

definition cap_ok :: "nat \<Rightarrow> bool" where
  "cap_ok cap \<longleftrightarrow> (\<exists>k\<in>{14..20}. cap = 2 ^ k)"

text \<open>The buffer is the end of what was read, and what was dropped leaves at least 510 KiB.\<close>

definition tail_of :: "string \<Rightarrow> string \<Rightarrow> bool" where
  "tail_of out buf \<longleftrightarrow> (\<exists>pre. out = pre @ buf \<and> (pre \<noteq> [] \<longrightarrow> 522240 \<le> length buf))"

lemma tail_of_append: "tail_of out buf \<Longrightarrow> tail_of (out @ r) (buf @ r)"
  by (auto simp: tail_of_def intro: le_trans)

lemma cap_ok_bounds: "cap_ok cap \<Longrightarrow> 2 ^ 14 \<le> cap \<and> cap \<le> 2 ^ 20"
  using power_increasing [of 14 _ "2::nat"] power_increasing [of _ 20 "2::nat"] by (auto simp: cap_ok_def)

lemma cap_ok_double: "cap_ok cap \<Longrightarrow> cap < 2 ^ 20 \<Longrightarrow> cap_ok (cap * 2)"
proof -
  assume "cap_ok cap" and lt: "cap < 2 ^ 20"
  then obtain k where k: "14 \<le> k" "cap = 2 ^ k" by (auto simp: cap_ok_def)
  with lt have "k < 20" by (metis one_less_numeral_iff power_strict_increasing_iff semiring_norm(76))
  with k show ?thesis by (auto simp: cap_ok_def intro: bexI [of _ "Suc k"])
qed

lemma make_room_ok:
  assumes "cap_ok cap" "length buf < cap" "tail_of out buf" "make_room (cap, buf) = (cap', buf')"
  shows "cap_ok cap' \<and> length buf' + 4096 < cap' \<and> tail_of out buf'"
proof (cases "length buf + 4096 + 1 > cap \<and> cap \<ge> 2 ^ 20")
  case True
  with cap_ok_bounds [OF assms(1)] have cap: "cap = 2 ^ 20" by simp
  from True assms(4) have b: "cap' = cap" "buf' = drop (length buf div 2) buf"
    by (auto simp: make_room_def)
  have "buf = take (length buf div 2) buf @ buf'" by (simp add: b)
  with assms(3) obtain pre where "out = (pre @ take (length buf div 2) buf) @ buf'"
    unfolding tail_of_def by (metis append.assoc)
  moreover have "522240 \<le> length buf'" using True b cap by simp
  ultimately have "tail_of out buf'" unfolding tail_of_def by blast
  with assms(1,2) b cap show ?thesis by simp
next
  case False
  with assms cap_ok_bounds [OF assms(1)] cap_ok_double [OF assms(1)] show ?thesis
    by (auto simp: make_room_def split: if_splits)
qed

lemma collect_reads_ok:
  assumes "cap_ok cap" "length buf < cap" "tail_of out buf" "\<forall>r\<in>set rs. length r \<le> 4096"
    and "collect_reads rs (cap, buf) = (cap', buf')"
  shows "cap_ok cap' \<and> length buf' + 4096 < cap' \<and> tail_of (out @ concat rs) buf'"
  using assms
proof (induction rs arbitrary: cap buf out)
  case (Cons r rs)
  obtain c b where m: "make_room (cap, buf) = (c, b)" by fastforce
  from make_room_ok [OF Cons.prems(1-3) m] have ok: "cap_ok c" "length b + 4096 < c" "tail_of out b" by auto
  from Cons.prems m have "length (b @ r) < c" "collect_reads rs (c, b @ r) = (cap', buf')"
    using ok by auto
  from Cons.IH [OF ok(1) this(1) tail_of_append [OF ok(3)] _ this(2)] Cons.prems show ?case by simp
next
  case Nil
  then have "make_room (cap, buf) = (cap', buf')" by simp
  from make_room_ok [OF Nil(1-3) this] show ?case by simp
qed

text \<open>Whatever the analysis pass prints, every read has room in the buffer, the buffer stays
  within 1 MiB, and it holds the end of the output: all of it, or at least its last 510 KiB, so the
  summary, printed last, is there to be parsed.\<close>

theorem loudness_summary_kept:
  assumes "\<forall>r\<in>set reads. length r \<le> 4096" and "collect_reads reads (16384, []) = (cap, buf)"
  shows "length buf + 4096 < cap \<and> cap \<le> 2 ^ 20 \<and>
    (\<exists>pre. concat reads = pre @ buf \<and> (pre = [] \<or> 522240 \<le> length buf))"
proof -
  have "cap_ok 16384" unfolding cap_ok_def by (rule bexI [of _ 14]) simp_all
  moreover have "tail_of [] []" by (simp add: tail_of_def)
  ultimately have "cap_ok cap \<and> length buf + 4096 < cap \<and> tail_of (concat reads) buf"
    using collect_reads_ok [of 16384 "[]" "[]" reads cap buf] assms by simp
  then show ?thesis using cap_ok_bounds [of cap] by (auto simp: tail_of_def)
qed

theorem loudness_summary_kept_witness:
  "collect_reads [''ab'', ''c''] (16384, []) = (16384, ''abc'') \<and> length ''abc'' + 4096 < (16384 :: nat)"
proof -
  have c: "collect_reads [''ab'', ''c''] (16384, []) = (16384, ''abc'')" by (simp add: make_room_def)
  have "length ''abc'' + 4096 < (16384 :: nat) \<and> (16384 :: nat) \<le> 2 ^ 20 \<and>
    (\<exists>pre. concat [''ab'', ''c''] = pre @ ''abc'' \<and> (pre = [] \<or> 522240 \<le> length ''abc''))"
    by (rule loudness_summary_kept [OF _ c]) simp
  with c show ?thesis by blast
qed

section \<open>Levelling and the encode\<close>

text \<open>Levelling is never a reason for a track not to be encoded: where the measurement fails,
  \<open>ffmpeg\<close> gets the command line it gets with levelling switched off, and the call returns what
  it returns then.\<close>

theorem failed_measurement_encodes_flat:
  assumes "loudness_measure (fe_analyse E (loudness_argv src) s) = None"
  shows "transcode_audio E src dst cfg s = (rc, lvl, s') \<Longrightarrow>
    \<exists>lvl0. transcode_audio E src dst (cfg\<lparr>tc_level := 0\<rparr>) s = (rc, lvl0, s') \<and> tr_source_lufs lvl = FNaN"
  using assms
  by (auto simp: transcode_audio_def level_track_def codec_for_format_def split: option.splits if_splits prod.splits)

definition silent_env :: ffmpeg_env where
  "silent_env = \<lparr>fe_encode = \<lambda>argv s. (Ended (Exited 0), s), fe_analyse = \<lambda>argv s. None\<rparr>"

theorem failed_measurement_encodes_flat_witness:
  "\<exists>lvl0. transcode_audio silent_env ''/a/x.flac'' ''/r/x.opus''
     (\<lparr>tc_enabled = True, tc_format = Some ''opus'', tc_bitrate = 128, tc_level = -18\<rparr>\<lparr>tc_level := 0\<rparr>)
     \<lparr>fs_nodes = [], fs_data = [], fs_next = 0, fs_faults = []\<rparr> =
     (0, lvl0, \<lparr>fs_nodes = [], fs_data = [], fs_next = 0, fs_faults = []\<rparr>)"
  (is "\<exists>lvl0. transcode_audio _ _ _ (?c\<lparr>tc_level := 0\<rparr>) ?s = _")
proof -
  have m: "loudness_measure (fe_analyse silent_env (loudness_argv ''/a/x.flac'') ?s) = None"
    by (simp add: silent_env_def loudness_measure_def)
  have r: "transcode_audio silent_env ''/a/x.flac'' ''/r/x.opus'' ?c ?s =
      (0, \<lparr>tr_gain_db = Fin 0, tr_source_lufs = FNaN\<rparr>, ?s)"
    by (simp add: transcode_audio_def level_track_def codec_for_format_def silent_env_def
        loudness_measure_def encode_result_def)
  from failed_measurement_encodes_flat [OF m r] show ?thesis by blast
qed

end
