(* ===== verification/Rotate.thy ===== *)
theory Rotate
  imports Transcode TrackRepo
begin

text \<open>
  \<open>rotate.c\<close>: makes the resident directory hold what the stored manifest lists. In move mode a
  track's file is linked to the other side and unlinked (copied where the two sides are on
  different file systems); in transcode mode the archive file stays and a lossy copy is encoded
  under \<open>resident/\<close> and deleted again. Cover images follow the audio, empty directories go.

  The state is the counters of \<open>struct rotate_stats\<close> and the world. Every call that changes the
  tree may fail by the fault schedule of the file system, every write statement by that of the
  database; reads (\<open>stat\<close>, \<open>readdir\<close>, \<open>SELECT\<close>) do not fail. \<open>readdir\<close> lists the directory as it
  was when the loop started. A \<open>write\<close> writes all it is given or fails.
\<close>

section \<open>State\<close>

record rstate =
  ro_w :: world
  ro_added :: int
  ro_removed :: int
  ro_to_add :: int
  ro_to_remove :: int
  ro_already :: int
  ro_fallback :: int
  ro_errors :: int
  ro_respawned :: int
  ro_relocated :: int
  ro_orphans :: int

definition rotate_init :: "world \<Rightarrow> rstate" where
  "rotate_init w = \<lparr>ro_w = w, ro_added = 0, ro_removed = 0, ro_to_add = 0, ro_to_remove = 0,
     ro_already = 0, ro_fallback = 0, ro_errors = 0, ro_respawned = 0, ro_relocated = 0,
     ro_orphans = 0\<rparr>"

definition bump_errors :: "rstate \<Rightarrow> rstate" where
  "bump_errors s = s\<lparr>ro_errors := ro_errors s + 1\<rparr>"

definition bump_already :: "rstate \<Rightarrow> rstate" where
  "bump_already s = s\<lparr>ro_already := ro_already s + 1\<rparr>"

abbreviation r_fs :: "rstate \<Rightarrow> fs" where "r_fs s \<equiv> w_fs (ro_w s)"
abbreviation r_db :: "rstate \<Rightarrow> db" where "r_db s \<equiv> w_db (ro_w s)"

definition set_fs :: "fs \<Rightarrow> rstate \<Rightarrow> rstate" where
  "set_fs f s = s\<lparr>ro_w := (ro_w s)\<lparr>w_fs := f\<rparr>\<rparr>"

text \<open>A system call, and a write statement with the C return code (0 or -1).\<close>

definition on_fs :: "(fs \<Rightarrow> sysres \<times> fs) \<Rightarrow> rstate \<Rightarrow> sysres \<times> rstate" where
  "on_fs call s = (case call (r_fs s) of (r, f) \<Rightarrow> (r, set_fs f s))"

definition on_db :: "(db \<Rightarrow> db option) \<Rightarrow> rstate \<Rightarrow> bool \<times> rstate" where
  "on_db f s = (case sql_exec f (ro_w s) of (ok, w) \<Rightarrow> (ok, s\<lparr>ro_w := w\<rparr>))"

section \<open>Files\<close>

fun chunks :: "nat \<Rightarrow> string \<Rightarrow> string list" where
  "chunks n [] = []"
| "chunks n (c # cs) = (if n = 0 then [c # cs] else take n (c # cs) # chunks n (drop n (c # cs)))"

fun write_all :: "path \<Rightarrow> string list \<Rightarrow> fs \<Rightarrow> bool \<times> fs" where
  "write_all p [] s = (True, s)"
| "write_all p (c # cs) s = (case sys_write p c s of
     (None, s') \<Rightarrow> write_all p cs s'
   | (Some e, s') \<Rightarrow> (False, s'))"

definition copy_only :: "path \<Rightarrow> path \<Rightarrow> fs \<Rightarrow> bool \<times> fs" where
  "copy_only src dst s = (case fs_get s src of
     None \<Rightarrow> (False, s)
   | Some n \<Rightarrow> (case sys_create_excl dst s of
       (Some e, s1) \<Rightarrow> (False, s1)
     | (None, s1) \<Rightarrow>
         let (ok, s2) = (case n of Reg i \<Rightarrow> write_all dst (chunks 65536 (file_data s1 i)) s1
                                 | _ \<Rightarrow> (False, s1));
             (ok, s3) = (if ok then (case sys_fsync s2 of (r, f) \<Rightarrow> (r = None, f)) else (False, s2))
         in if ok then (True, s3) else (False, snd (sys_unlink dst s3))))"

definition copy_and_unlink :: "path \<Rightarrow> path \<Rightarrow> fs \<Rightarrow> bool \<times> fs" where
  "copy_and_unlink src dst s = (case copy_only src dst s of
     (False, s1) \<Rightarrow> (False, s1)
   | (True, s1) \<Rightarrow> (case sys_unlink src s1 of (r, s2) \<Rightarrow> (r = None, s2)))"

definition swap_segment :: "path \<Rightarrow> path \<Rightarrow> string \<Rightarrow> string \<Rightarrow> path option" where
  "swap_segment lib cur from to =
     map_option (\<lambda>tail. lib @ [slash] @ to @ [slash] @ tail)
       (strip_prefix (lib @ [slash] @ from @ [slash]) cur)"

definition path_with_ext :: "path \<Rightarrow> string \<Rightarrow> path" where
  "path_with_ext p ext =
     (let (dir, base) = (case split_last slash p of None \<Rightarrow> ([], p) | Some (d, b) \<Rightarrow> (d @ [slash], b))
      in dir @ (case split_last CHR ''.'' base of None \<Rightarrow> base | Some (stem, e) \<Rightarrow> stem) @ ext)"

text \<open>The size \<open>stat\<close> gives; of anything but a regular file it is of no use here, and 0.\<close>

definition file_size :: "fs \<Rightarrow> path \<Rightarrow> int" where
  "file_size s p = (case fs_content s p of None \<Rightarrow> 0 | Some c \<Rightarrow> int (length c))"

section \<open>The sets of the diff\<close>

text \<open>\<open>set_sort\<close> is the library's \<open>sort\<close>; \<open>set_contains\<close> is a binary search.\<close>

function search_loop :: "sha list \<Rightarrow> sha \<Rightarrow> nat \<Rightarrow> nat \<Rightarrow> bool" where
  "search_loop xs h lo hi =
     (if lo < hi
      then (let mid = (lo + hi) div 2
            in if xs ! mid = h then True
               else if xs ! mid < h then search_loop xs h (mid + 1) hi
               else search_loop xs h lo mid)
      else False)"
  by auto
termination by (relation "measure (\<lambda>(xs, h, lo, hi). hi - lo)") auto

declare search_loop.simps [simp del]

definition set_contains :: "sha list \<Rightarrow> sha \<Rightarrow> bool" where
  "set_contains xs h = search_loop xs h 0 (length xs)"

definition load_manifest :: "db \<Rightarrow> sha list" where
  "load_manifest d = sort (map mf_sha (manifest_current d))"

definition load_resident :: "db \<Rightarrow> sha list" where
  "load_resident d = sort (map rs_sha (filter (\<lambda>r. rs_loc r = Resident) (residency_state d)))"

section \<open>The residency table\<close>

text \<open>
  \<open>INSERT ... ON CONFLICT(sha256) DO UPDATE\<close>: a new row needs its track (the foreign key).
\<close>

definition put_residency :: "residency \<Rightarrow> (residency \<Rightarrow> residency) \<Rightarrow> db \<Rightarrow> db option" where
  "put_residency r f d =
     (if rs_sha r \<notin> rs_sha ` set (residency_state d) \<and> rs_sha r \<notin> track_shas d then None
      else Some (d\<lparr>residency_state := upsert rs_sha (\<lambda>old new. f old) r (residency_state d)\<rparr>))"

definition upsert_residency :: "sha \<Rightarrow> location \<Rightarrow> string \<Rightarrow> db \<Rightarrow> db option" where
  "upsert_residency h loc now = put_residency
     \<lparr>rs_sha = h, rs_loc = loc, rs_updated = now, rs_tpath = None, rs_tsize = None,
      rs_tformat = None, rs_gain = None, rs_lufs = None\<rparr>
     (\<lambda>old. old\<lparr>rs_loc := loc, rs_updated := now\<rparr>)"

definition no_nan :: "fp \<Rightarrow> fp option" where
  "no_nan x = (if x = FNaN then None else Some x)"

definition upsert_residency_transcode ::
  "sha \<Rightarrow> string \<Rightarrow> path \<Rightarrow> int \<Rightarrow> string option \<Rightarrow> transcode_result option \<Rightarrow> db \<Rightarrow> db option" where
  "upsert_residency_transcode h now tpath tsize tformat lvl =
     (let gain = Option.bind lvl (\<lambda>l. no_nan (tr_gain_db l));
          lufs = Option.bind lvl (\<lambda>l. no_nan (tr_source_lufs l))
      in put_residency
        \<lparr>rs_sha = h, rs_loc = Resident, rs_updated = now, rs_tpath = Some tpath, rs_tsize = Some tsize,
         rs_tformat = tformat, rs_gain = gain, rs_lufs = lufs\<rparr>
        (\<lambda>old. old\<lparr>rs_loc := Resident, rs_updated := now, rs_tpath := Some tpath, rs_tsize := Some tsize,
           rs_tformat := tformat,
           rs_gain := (if lvl = None then rs_gain old else gain),
           rs_lufs := (if lvl = None then rs_lufs old else lufs)\<rparr>))"

definition upsert_residency_archive_clear_transcode :: "sha \<Rightarrow> string \<Rightarrow> db \<Rightarrow> db option" where
  "upsert_residency_archive_clear_transcode h now = put_residency
     \<lparr>rs_sha = h, rs_loc = Archive, rs_updated = now, rs_tpath = None, rs_tsize = None,
      rs_tformat = None, rs_gain = None, rs_lufs = None\<rparr>
     (\<lambda>old. old\<lparr>rs_loc := Archive, rs_updated := now, rs_tpath := None, rs_tsize := None,
        rs_tformat := None, rs_gain := None, rs_lufs := None\<rparr>)"

definition update_transcode_path :: "sha \<Rightarrow> path \<Rightarrow> int \<Rightarrow> string \<Rightarrow> db \<Rightarrow> db option" where
  "update_transcode_path h tpath tsize now d =
     Some (d\<lparr>residency_state := map (\<lambda>r. if rs_sha r = h
        then r\<lparr>rs_tpath := Some tpath, rs_tsize := Some tsize, rs_updated := now\<rparr> else r)
        (residency_state d)\<rparr>)"

definition audio_present :: "bool \<Rightarrow> db \<Rightarrow> fs \<Rightarrow> sha \<Rightarrow> bool" where
  "audio_present transcode_on d f h =
     (case (if transcode_on then lookup_transcode_path d h else lookup_track_path d h) of
        None \<Rightarrow> False
      | Some p \<Rightarrow> is_reg f p)"

definition filter_resident_present :: "bool \<Rightarrow> sha list \<Rightarrow> rstate \<Rightarrow> sha list \<times> rstate" where
  "filter_resident_present transcode_on xs s =
     (let here = audio_present transcode_on (r_db s) (r_fs s)
      in (filter here xs,
          s\<lparr>ro_respawned := ro_respawned s + int (length (filter (\<lambda>h. \<not> here h) xs))\<rparr>))"

section \<open>Covers\<close>

definition COVER_SIDECAR_NAMES :: "string list" where
  "COVER_SIDECAR_NAMES = [''cover.jpg'', ''cover.png'', ''folder.jpg'', ''folder.png'']"

definition link_cover :: "path \<Rightarrow> path \<Rightarrow> string \<Rightarrow> fs \<Rightarrow> fs" where
  "link_cover adir rdir name s =
     (let src = adir @ [slash] @ name; dst = rdir @ [slash] @ name
      in if \<not> is_reg s src then s
         else if fs_get s dst \<noteq> None then s
         else (case mkparents dst s of
             (Some e, s1) \<Rightarrow> s1
           | (None, s1) \<Rightarrow> (case sys_link src dst s1 of
                 (None, s2) \<Rightarrow> s2
               | (Some e, s2) \<Rightarrow> if e = EXDEV then snd (copy_only src dst s2) else s2)))"

definition link_album_covers :: "path \<Rightarrow> path \<Rightarrow> fs \<Rightarrow> fs" where
  "link_album_covers archive_audio resident_audio s =
     (case (split_last slash archive_audio, split_last slash resident_audio) of
        (Some (adir, b), Some (rdir, b')) \<Rightarrow> fold (link_cover adir rdir) COVER_SIDECAR_NAMES s
      | _ \<Rightarrow> s)"

definition covers :: "path \<Rightarrow> path \<Rightarrow> rstate \<Rightarrow> rstate" where
  "covers a r s = set_fs (link_album_covers a r (r_fs s)) s"

section \<open>Transcode mode\<close>

text \<open>What a run is given: the library, the clock and \<open>ffmpeg\<close>.\<close>

record rotate_env =
  re_lib :: path
  re_now :: string
  re_ffmpeg :: ffmpeg_env

text \<open>The end of \<open>promote_transcode\<close>: the row, the covers, the count.\<close>

definition promote_finish ::
  "rotate_env \<Rightarrow> transcode_cfg \<Rightarrow> sha \<Rightarrow> path \<Rightarrow> path \<Rightarrow> transcode_result option \<Rightarrow> rstate \<Rightarrow> int \<times> rstate" where
  "promote_finish E tc h archive_path tpath lvl s =
     (case on_db (upsert_residency_transcode h (re_now E) tpath (file_size (r_fs s) tpath)
                    (tc_format tc) lvl) s of
        (False, s) \<Rightarrow> (-1, bump_errors s)
      | (True, s) \<Rightarrow>
          let s = covers archive_path tpath s
          in if lvl = None then (1, bump_already s) else (0, s))"

definition promote_encode ::
  "rotate_env \<Rightarrow> transcode_cfg \<Rightarrow> sha \<Rightarrow> path \<Rightarrow> path \<Rightarrow> rstate \<Rightarrow> int \<times> rstate" where
  "promote_encode E tc h archive_path tpath s = (case on_fs (mkparents tpath) s of
     (Some e, s) \<Rightarrow> (-1, bump_errors s)
   | (None, s) \<Rightarrow> (case transcode_audio (re_ffmpeg E) archive_path tpath tc (r_fs s) of
       (trc, lvl, f) \<Rightarrow>
         let s = set_fs f s
         in if trc \<noteq> 0 then (-1, snd (on_fs (sys_unlink tpath) (bump_errors s)))
            else if fs_get (r_fs s) tpath = None then (-1, bump_errors s)
            else promote_finish E tc h archive_path tpath (Some lvl) s))"

text \<open>A file that is already there is not encoded again (and the row keeps its levels).\<close>

definition promote_transcode ::
  "rotate_env \<Rightarrow> transcode_cfg \<Rightarrow> sha \<Rightarrow> rstate \<Rightarrow> int \<times> rstate" where
  "promote_transcode E tc h s = (case lookup_track_path (r_db s) h of
     None \<Rightarrow> (-1, bump_errors s)
   | Some archive_path \<Rightarrow> (case swap_segment (re_lib E) archive_path ''archive'' ''resident'' of
     None \<Rightarrow> (-1, bump_errors s)
   | Some resident_path \<Rightarrow> (case transcode_dst_ext tc of
     None \<Rightarrow> (-1, bump_errors s)
   | Some new_ext \<Rightarrow>
       let tpath = path_with_ext resident_path new_ext
       in if is_reg (r_fs s) tpath then promote_finish E tc h archive_path tpath None s
          else promote_encode E tc h archive_path tpath s)))"

definition demote_transcode :: "rotate_env \<Rightarrow> sha \<Rightarrow> rstate \<Rightarrow> int \<times> rstate" where
  "demote_transcode E h s =
     (let s = (case lookup_transcode_path (r_db s) h of
          None \<Rightarrow> s
        | Some p \<Rightarrow> snd (on_fs (sys_unlink p) s))
      in case on_db (upsert_residency_archive_clear_transcode h (re_now E)) s of
           (False, s) \<Rightarrow> (-1, bump_errors s)
         | (True, s) \<Rightarrow> (0, s))"

text \<open>The extension of a file name with its dot: \<open>strrchr(strrchr(p, '/'), '.')\<close>.\<close>

definition path_ext :: "path \<Rightarrow> string option" where
  "path_ext p = Option.bind (split_last slash p) (\<lambda>(d, base).
     map_option (\<lambda>(stem, e). CHR ''.'' # e) (split_last CHR ''.'' base))"

definition expected_transcode :: "path \<Rightarrow> path \<Rightarrow> path \<Rightarrow> path option" where
  "expected_transcode lib archive_path cur =
     Option.bind (swap_segment lib archive_path ''archive'' ''resident'') (\<lambda>base.
     Option.bind (swap_segment lib cur ''resident'' ''resident'') (\<lambda>_.
     Option.bind (path_ext cur) (\<lambda>ext. Some (path_with_ext base ext))))"

text \<open>The row adopts the file at the expected path.\<close>

definition relocate_adopt :: "rotate_env \<Rightarrow> sha \<Rightarrow> path \<Rightarrow> path \<Rightarrow> rstate \<Rightarrow> rstate" where
  "relocate_adopt E h archive_path expected s =
     (case on_db (update_transcode_path h expected (file_size (r_fs s) expected) (re_now E)) s of
        (False, s) \<Rightarrow> bump_errors s
      | (True, s) \<Rightarrow>
          let s = covers archive_path expected s
          in s\<lparr>ro_relocated := ro_relocated s + 1\<rparr>)"

definition relocate_to :: "rotate_env \<Rightarrow> sha \<Rightarrow> path \<Rightarrow> path \<Rightarrow> path \<Rightarrow> rstate \<Rightarrow> rstate" where
  "relocate_to E h archive_path cur expected s =
     (if fs_get (r_fs s) expected \<noteq> None then
        (if \<not> is_reg (r_fs s) expected then bump_errors s
         else case on_fs (sys_unlink cur) s of
             (None, s) \<Rightarrow> relocate_adopt E h archive_path expected s
           | (Some e, s) \<Rightarrow> if e = ENOENT then relocate_adopt E h archive_path expected s
                           else bump_errors s)
      else (case on_fs (mkparents expected) s of
          (Some e, s) \<Rightarrow> bump_errors s
        | (None, s) \<Rightarrow> (case on_fs (sys_rename cur expected) s of
            (Some e, s) \<Rightarrow> bump_errors s
          | (None, s) \<Rightarrow>
              if fs_get (r_fs s) expected = None then bump_errors s
              else relocate_adopt E h archive_path expected s)))"

definition relocate_one :: "rotate_env \<Rightarrow> sha \<Rightarrow> rstate \<Rightarrow> rstate" where
  "relocate_one E h s =
     (case (lookup_track_path (r_db s) h, lookup_transcode_path (r_db s) h) of
        (Some archive_path, Some cur) \<Rightarrow> (case expected_transcode (re_lib E) archive_path cur of
            None \<Rightarrow> s
          | Some expected \<Rightarrow>
              if expected = cur then s else relocate_to E h archive_path cur expected s)
      | _ \<Rightarrow> s)"

definition relocate_transcodes :: "rotate_env \<Rightarrow> sha list \<Rightarrow> rstate \<Rightarrow> rstate" where
  "relocate_transcodes E xs s = fold (relocate_one E) xs s"

section \<open>Pruning\<close>

definition is_cover_sidecar_name :: "string \<Rightarrow> bool" where
  "is_cover_sidecar_name name \<longleftrightarrow> name \<in> set COVER_SIDECAR_NAMES"

definition dot_name :: "string \<Rightarrow> bool" where
  "dot_name name \<longleftrightarrow> name \<noteq> [] \<and> hd name = CHR ''.''"

text \<open>
  The two loops over one directory, for the recursive call \<open>rec\<close>; the flag is \<open>keep\<close>.
\<close>

definition prune_entry :: "(path \<Rightarrow> fs \<Rightarrow> bool \<times> fs) \<Rightarrow> path \<Rightarrow> string \<Rightarrow> bool \<times> fs \<Rightarrow> bool \<times> fs" where
  "prune_entry rec dir name = (\<lambda>(keep, s).
     if dot_name name then (True, s)
     else let child = dir @ [slash] @ name in
       case fs_get s child of
         None \<Rightarrow> (True, s)
       | Some Dir \<Rightarrow> (case rec child s of (removed, s') \<Rightarrow> (keep \<or> \<not> removed, s'))
       | Some n \<Rightarrow> (keep \<or> \<not> (n \<noteq> Special \<and> is_cover_sidecar_name name), s))"

definition prune_sidecar :: "path \<Rightarrow> string \<Rightarrow> bool \<times> fs \<Rightarrow> bool \<times> fs" where
  "prune_sidecar dir name = (\<lambda>(keep, s).
     if \<not> is_cover_sidecar_name name then (True, s)
     else let child = dir @ [slash] @ name in
       if is_reg s child then (case sys_unlink child s of
           (None, s') \<Rightarrow> (keep, s')
         | (Some e, s') \<Rightarrow> (True, s'))
       else (True, s))"

text \<open>
  \<open>prune_dir\<close>, with the depth of the tree below \<open>dir\<close> as a bound on the recursion
  (\<open>prune_resident_tree\<close> starts it with a depth no path of the tree reaches).
\<close>

fun prune_dir :: "nat \<Rightarrow> path \<Rightarrow> fs \<Rightarrow> bool \<times> fs" where
  "prune_dir 0 dir s = (False, s)"
| "prune_dir (Suc n) dir s =
     (if \<not> is_dir s dir then (False, s)
      else case fold (prune_entry (prune_dir n) dir) (fs_entries s dir) (False, s) of
        (True, s1) \<Rightarrow> (False, s1)
      | (False, s1) \<Rightarrow>
          if \<not> is_dir s1 dir then (False, s1)
          else (case fold (prune_sidecar dir) (fs_entries s1 dir) (False, s1) of
            (True, s2) \<Rightarrow> (False, s2)
          | (False, s2) \<Rightarrow> (case sys_rmdir dir s2 of (r, s3) \<Rightarrow> (r = None, s3))))"

definition tree_depth :: "fs \<Rightarrow> nat" where
  "tree_depth s = Suc (foldr (\<lambda>(p, n) m. max (length p) m) (fs_nodes s) 0)"

definition prune_resident_tree :: "path \<Rightarrow> fs \<Rightarrow> fs" where
  "prune_resident_tree lib s =
     (let res = lib @ ''/resident'' in
      if \<not> is_dir s res then s
      else fold (\<lambda>name s. let child = res @ [slash] @ name in
                  if dot_name name then s
                  else if is_dir s child then snd (prune_dir (tree_depth s) child s) else s)
                (fs_entries s res) s)"

section \<open>Orphans\<close>

definition is_transcode_output_name :: "string \<Rightarrow> bool" where
  "is_transcode_output_name name = (case split_last CHR ''.'' name of
     None \<Rightarrow> False
   | Some (stem, e) \<Rightarrow> e = ''opus'' \<or> e = ''m4a'')"

text \<open>The inode numbers residency rows refer to; \<open>bsearch\<close> in the sorted array is membership.\<close>

definition transcode_refs :: "db \<Rightarrow> fs \<Rightarrow> nat list" where
  "transcode_refs d s = [i. r \<leftarrow> residency_state d, p \<leftarrow> (case rs_tpath r of None \<Rightarrow> [] | Some p \<Rightarrow> [p]),
     i \<leftarrow> (case fs_inode s p of None \<Rightarrow> [] | Some i \<Rightarrow> [i])]"

definition orphan_entry ::
  "(path \<Rightarrow> fs \<times> int \<Rightarrow> fs \<times> int) \<Rightarrow> nat list \<Rightarrow> path \<Rightarrow> string \<Rightarrow> fs \<times> int \<Rightarrow> fs \<times> int" where
  "orphan_entry rec refs dir name = (\<lambda>(s, n).
     if dot_name name then (s, n)
     else let child = dir @ [slash] @ name in
       case fs_get s child of
         Some Dir \<Rightarrow> rec child (s, n)
       | Some (Reg i) \<Rightarrow>
           if is_transcode_output_name name \<and> i \<notin> set refs
           then (case sys_unlink child s of (r, s') \<Rightarrow> (s', if r = None then n + 1 else n))
           else (s, n)
       | _ \<Rightarrow> (s, n))"

fun remove_orphans_in :: "nat \<Rightarrow> nat list \<Rightarrow> path \<Rightarrow> fs \<times> int \<Rightarrow> fs \<times> int" where
  "remove_orphans_in 0 refs dir sn = sn"
| "remove_orphans_in (Suc k) refs dir (s, n) =
     (if \<not> is_dir s dir then (s, n)
      else fold (orphan_entry (remove_orphans_in k refs) refs dir) (fs_entries s dir) (s, n))"

definition remove_orphan_transcodes :: "rotate_env \<Rightarrow> rstate \<Rightarrow> rstate" where
  "remove_orphan_transcodes E s =
     (case remove_orphans_in (tree_depth (r_fs s)) (transcode_refs (r_db s) (r_fs s))
             (re_lib E @ ''/resident'') (r_fs s, ro_orphans s) of
        (f, n) \<Rightarrow> (set_fs f s)\<lparr>ro_orphans := n\<rparr>)"

section \<open>Move mode\<close>

definition same_inode :: "fs \<Rightarrow> path \<Rightarrow> path \<Rightarrow> bool" where
  "same_inode s p q \<longleftrightarrow> fs_inode s p \<noteq> None \<and> fs_inode s p = fs_inode s q"

text \<open>The statements after the file has moved; each failure is counted, none stops the others.\<close>

definition move_record :: "rotate_env \<Rightarrow> sha \<Rightarrow> path \<Rightarrow> path \<Rightarrow> location \<Rightarrow> rstate \<Rightarrow> rstate" where
  "move_record E h cur new_path target s =
     (let (rc, w) = track_repo_update_path h new_path (re_now E) (ro_w s);
          s = s\<lparr>ro_w := w\<rparr>;
          s = (if rc \<noteq> 0 then bump_errors s else s);
          (ok, s) = on_db (upsert_residency h target (re_now E)) s;
          s = (if ok then s else bump_errors s)
      in if target = Resident then covers cur new_path s else s)"

definition unlink_moved :: "path \<Rightarrow> rstate \<Rightarrow> rstate" where
  "unlink_moved cur s = (case on_fs (sys_unlink cur) s of
     (None, s) \<Rightarrow> s
   | (Some e, s) \<Rightarrow> if e = ENOENT then s else bump_errors s)"

text \<open>The move proper, with both paths known.\<close>

definition move_file :: "rotate_env \<Rightarrow> sha \<Rightarrow> path \<Rightarrow> path \<Rightarrow> location \<Rightarrow> rstate \<Rightarrow> int \<times> rstate" where
  "move_file E h cur new_path target s = (case on_fs (mkparents new_path) s of
     (Some e, s) \<Rightarrow> (-1, bump_errors s)
   | (None, s) \<Rightarrow> (case on_fs (sys_link cur new_path) s of
       (None, s) \<Rightarrow> (0, move_record E h cur new_path target (unlink_moved cur s))
     | (Some e, s) \<Rightarrow>
         if e = EEXIST then
           (if same_inode (r_fs s) cur new_path
            then (1, move_record E h cur new_path target (unlink_moved cur (bump_already s)))
            else (-1, bump_errors s))
         else if e = EXDEV then
           (case copy_and_unlink cur new_path (r_fs s) of
              (False, f) \<Rightarrow> (-1, bump_errors (set_fs f s))
            | (True, f) \<Rightarrow>
                let s = set_fs f s
                in (0, move_record E h cur new_path target (s\<lparr>ro_fallback := ro_fallback s + 1\<rparr>)))
         else (-1, bump_errors s)))"

definition move_one ::
  "rotate_env \<Rightarrow> sha \<Rightarrow> string \<Rightarrow> string \<Rightarrow> location \<Rightarrow> rstate \<Rightarrow> int \<times> rstate" where
  "move_one E h from to target s = (case lookup_track_path (r_db s) h of
     None \<Rightarrow> (-1, bump_errors s)
   | Some cur \<Rightarrow> (case swap_segment (re_lib E) cur from to of
       None \<Rightarrow>
         if swap_segment (re_lib E) cur to from \<noteq> None then
           (case on_db (upsert_residency h target (re_now E)) s of
              (False, s) \<Rightarrow> (-1, bump_errors s)
            | (True, s) \<Rightarrow> (1, bump_already s))
         else (-1, bump_errors s)
     | Some new_path \<Rightarrow> move_file E h cur new_path target s))"

section \<open>The run\<close>

definition sys_open_creat :: "path \<Rightarrow> fs \<Rightarrow> sysres \<times> fs" where
  "sys_open_creat p = injected (\<lambda>s. case fs_get s p of
     Some Dir \<Rightarrow> (Some EISDIR, s)
   | Some n \<Rightarrow> (None, s)
   | None \<Rightarrow> if \<not> parent_ok s p then (Some ENOENT, s)
             else (None, (put_node p (Reg (fs_next s)) s)
                    \<lparr>fs_next := Suc (fs_next s), fs_data := AList.update (fs_next s) [] (fs_data s)\<rparr>))"

definition ensure_resident_nomedia :: "path \<Rightarrow> fs \<Rightarrow> fs" where
  "ensure_resident_nomedia lib s =
     (let p = lib @ ''/resident/.nomedia''
      in if length p \<ge> 1024 then s else snd (sys_open_creat p s))"

definition count_not_in :: "sha list \<Rightarrow> sha list \<Rightarrow> int" where
  "count_not_in ys xs = int (length (filter (\<lambda>x. \<not> set_contains ys x) xs))"

text \<open>One iteration of the adds and of the removes: \<open>apply\<close> is the operation of the mode.\<close>

definition add_one :: "(sha \<Rightarrow> rstate \<Rightarrow> int \<times> rstate) \<Rightarrow> sha list \<Rightarrow> sha \<Rightarrow> rstate \<Rightarrow> rstate" where
  "add_one apply resident h s =
     (if set_contains resident h then s
      else case apply h s of
        (rc, s') \<Rightarrow> if rc = 0 \<and> ro_errors s' = ro_errors s then s'\<lparr>ro_added := ro_added s' + 1\<rparr> else s')"

definition remove_one :: "(sha \<Rightarrow> rstate \<Rightarrow> int \<times> rstate) \<Rightarrow> sha list \<Rightarrow> sha \<Rightarrow> rstate \<Rightarrow> rstate" where
  "remove_one apply manifest h s =
     (if set_contains manifest h then s
      else case apply h s of
        (rc, s') \<Rightarrow> if rc = 0 \<and> ro_errors s' = ro_errors s then s'\<lparr>ro_removed := ro_removed s' + 1\<rparr> else s')"

text \<open>The rows the cover backfill goes over: the resident tracks with both their paths.\<close>

definition resident_paths :: "db \<Rightarrow> (path \<times> path option) list" where
  "resident_paths d = [(t_path t, rs_tpath r). t \<leftarrow> tracks d, r \<leftarrow> residency_state d,
     rs_sha r = t_sha t \<and> rs_loc r = Resident]"

definition backfill_one :: "rotate_env \<Rightarrow> bool \<Rightarrow> path \<times> path option \<Rightarrow> rstate \<Rightarrow> rstate" where
  "backfill_one E transcode_on = (\<lambda>(track_path, xcode_path) s.
     if transcode_on then (case xcode_path of None \<Rightarrow> s | Some x \<Rightarrow> covers track_path x s)
     else (case swap_segment (re_lib E) track_path ''resident'' ''archive'' of
         None \<Rightarrow> s
       | Some archive_audio \<Rightarrow> covers archive_audio track_path s))"

definition backfill_covers :: "rotate_env \<Rightarrow> bool \<Rightarrow> rstate \<Rightarrow> rstate" where
  "backfill_covers E transcode_on s = fold (backfill_one E transcode_on) (resident_paths (r_db s)) s"

definition rotate_adds :: "rotate_env \<Rightarrow> transcode_cfg option \<Rightarrow> sha \<Rightarrow> rstate \<Rightarrow> int \<times> rstate" where
  "rotate_adds E tc h s = (case tc of
     Some c \<Rightarrow> promote_transcode E c h s
   | None \<Rightarrow> move_one E h ''archive'' ''resident'' Resident s)"

definition rotate_removes :: "rotate_env \<Rightarrow> transcode_cfg option \<Rightarrow> sha \<Rightarrow> rstate \<Rightarrow> int \<times> rstate" where
  "rotate_removes E tc h s = (case tc of
     Some c \<Rightarrow> demote_transcode E h s
   | None \<Rightarrow> move_one E h ''resident'' ''archive'' Archive s)"

text \<open>
  \<open>rotate_run_ex\<close>: the configuration counts only when it is enabled. The rescan request to
  Syncthing at the end has no effect on the state.
\<close>

definition rotate_run_ex :: "rotate_env \<Rightarrow> transcode_cfg option \<Rightarrow> world \<Rightarrow> rstate" where
  "rotate_run_ex E cfg w =
     (let s = rotate_init w;
          s = set_fs (ensure_resident_nomedia (re_lib E) (r_fs s)) s;
          tc = (case cfg of None \<Rightarrow> None | Some c \<Rightarrow> if tc_enabled c then Some c else None);
          transcode_on = (tc \<noteq> None);
          manifest = load_manifest (r_db s);
          (resident, s) = filter_resident_present transcode_on (load_resident (r_db s)) s;
          s = (if transcode_on then relocate_transcodes E resident s else s);
          s = s\<lparr>ro_to_add := count_not_in resident manifest, ro_to_remove := count_not_in manifest resident\<rparr>;
          s = fold (add_one (rotate_adds E tc) resident) manifest s;
          s = fold (remove_one (rotate_removes E tc) manifest) resident s;
          s = (if transcode_on then remove_orphan_transcodes E s else s);
          s = set_fs (prune_resident_tree (re_lib E) (r_fs s)) s;
          s = backfill_covers E transcode_on s
      in snd (on_db (\<lambda>d. Some (set_meta ''last_rotation_at'' (re_now E) d)) s))"

end
