(* ===== verification/FsFacts.thy ===== *)
theory FsFacts
  imports Fs
begin

text \<open>
  What the calls of the file system model leave of the tree, under every fault schedule: the cases of
  the calls that create, write, link and remove files, and the states a fresh file leads to.
\<close>

section \<open>Calls that only add\<close>

lemma sys_link_files:
  assumes "sys_link old new s = (r, s')"
  shows "files_kept s s' \<and> (fs_wf s \<longrightarrow> fs_wf s')"
  using assms
proof (cases rule: sys_link_cases)
  case (fail e)
  then show ?thesis by (simp add: same_tree_files same_tree_wf)
next
  case (ok s0 n)
  then have "fs_inode s new = None" by (simp add: fs_inode_def)
  with ok have "files_kept s s'"
    by (auto simp: files_kept_def inode_put_node content_put_node same_tree_get) (simp add: same_tree_def)
  moreover have "fs_wf s'" if "fs_wf s"
  proof -
    from ok that have "i < fs_next s0" if "n = Reg i" for i
    proof -
      from ok that have "fs_inode s old = Some i" by (simp add: fs_inode_def)
      with \<open>fs_wf s\<close> ok show ?thesis by (simp add: fs_wf_def same_tree_def)
    qed
    moreover from ok that have "fs_wf s0" using same_tree_wf by blast
    ultimately show ?thesis using ok by (auto simp: fs_wf_def inode_put_node split: node.splits if_splits)
  qed
  ultimately show ?thesis by blast
qed

lemma sys_link_new:
  assumes "sys_link old new s = (None, s')"
  shows "fs_get s' new = fs_get s old \<and> fs_get s old \<noteq> None \<and> fs_get s new = None \<and>
    fs_get s' old = fs_get s old \<and> fs_content s' new = fs_content s old"
  using assms
proof (cases rule: sys_link_cases)
  case (ok s0 n)
  then show ?thesis
    by (auto simp: get_put_node same_tree_get content_put_node fs_content_def fs_inode_def
        split: node.splits) (simp_all add: file_data_def same_tree_def)
qed simp

text \<open>A fresh file: the state differs from the old one at the new path and the new inode only.\<close>

definition fresh_file :: "path \<Rightarrow> fs \<Rightarrow> fs" where
  "fresh_file p s = (put_node p (Reg (fs_next s)) s)
     \<lparr>fs_next := Suc (fs_next s), fs_data := AList.update (fs_next s) [] (fs_data s)\<rparr>"

lemma get_fresh: "fs_get (fresh_file p s) q = (if q = p then Some (Reg (fs_next s)) else fs_get s q)"
  by (simp add: fresh_file_def fs_get_def put_node_def update_conv')

lemma inode_fresh: "fs_inode (fresh_file p s) q = (if q = p then Some (fs_next s) else fs_inode s q)"
  by (simp add: fs_inode_def get_fresh)

lemma data_fresh: "file_data (fresh_file p s) i = (if i = fs_next s then [] else file_data s i)"
  by (simp add: fresh_file_def file_data_def put_node_def update_conv')

lemma next_fresh [simp]: "fs_next (fresh_file p s) = Suc (fs_next s)"
  by (simp add: fresh_file_def)

lemma fresh_wf: "fs_wf s \<Longrightarrow> fs_wf (fresh_file p s)"
  by (auto simp: fs_wf_def inode_fresh less_Suc_eq split: if_splits)

lemma sys_create_excl_cases:
  assumes "sys_create_excl p s = (r, s')"
  obtains (fail) e where "r = Some e" "same_tree s s'"
  | (ok) s0 where "r = None" "same_tree s s0" "fs_get s p = None" "s' = fresh_file p s0"
  using assms [unfolded sys_create_excl_def]
proof (cases rule: injected_cases)
  case (fault e)
  then show thesis by (rule fail)
next
  case (run s0)
  then have "(\<exists>e. r = Some e \<and> same_tree s s') \<or>
      (\<exists>s0. r = None \<and> same_tree s s0 \<and> fs_get s p = None \<and> s' = fresh_file p s0)"
    by (auto simp: same_tree_get fresh_file_def split: if_splits)
  with fail ok show thesis by metis
qed

text \<open>
  Everything that happens to the bytes of inodes from \<open>n\<close> on is invisible to the files of \<open>s\<close>.
\<close>

definition grown :: "fs \<Rightarrow> fs \<Rightarrow> bool" where
  "grown s s' \<longleftrightarrow> fs_next s \<le> fs_next s' \<and>
     (\<forall>i < fs_next s. file_data s' i = file_data s i) \<and>
     (\<forall>p. fs_inode s p \<noteq> None \<longrightarrow> fs_inode s' p = fs_inode s p)"

lemma grown_refl [simp]: "grown s s"
  by (simp add: grown_def)

lemma grown_trans: "grown s s' \<Longrightarrow> grown s' s'' \<Longrightarrow> grown s s''"
  by (auto simp: grown_def)

lemma same_tree_data: "same_tree s s' \<Longrightarrow> file_data s' = file_data s"
  by (simp add: fun_eq_iff file_data_def same_tree_def)

lemma same_tree_grown: "same_tree s s' \<Longrightarrow> grown s s'"
  by (simp add: grown_def same_tree_data same_tree_get) (simp add: same_tree_def)

lemma grown_files: "fs_wf s \<Longrightarrow> grown s s' \<Longrightarrow> files_kept s s'"
  by (force simp: grown_def files_kept_def fs_wf_def fs_content_def)

lemma fresh_grown:
  assumes "same_tree s s0" "fs_get s p = None" shows "grown s (fresh_file p s0)"
proof -
  from assms have "fs_inode s p = None" by (simp add: fs_inode_def)
  with assms show ?thesis
    by (auto simp: grown_def inode_fresh data_fresh same_tree_get same_tree_data) (auto simp: same_tree_def)
qed

section \<open>Writing and removing\<close>

lemma sys_write_cases:
  assumes "sys_write p bs s = (r, s')" "fs_inode s p = Some i"
  obtains (fail) e where "r = Some e" "same_tree s s'"
  | (ok) s0 where "r = None" "same_tree s s0" "s' = s0\<lparr>fs_data := AList.update i (file_data s i @ bs) (fs_data s0)\<rparr>"
  using assms(1) [unfolded sys_write_def]
proof (cases rule: injected_cases)
  case (fault e)
  then show thesis by (rule fail)
next
  case (run s0)
  with assms(2) have "r = None \<and> s' = s0\<lparr>fs_data := AList.update i (file_data s i @ bs) (fs_data s0)\<rparr>"
    by (auto simp: same_tree_get same_tree_data)
  with run ok show thesis by blast
qed

lemma data_upd:
  "fs_get (s\<lparr>fs_data := d\<rparr>) = fs_get s" "fs_inode (s\<lparr>fs_data := d\<rparr>) = fs_inode s"
  "fs_next (s\<lparr>fs_data := d\<rparr>) = fs_next s"
  by (simp_all add: fun_eq_iff fs_get_def fs_inode_def)

lemma file_data_upd: "file_data (s\<lparr>fs_data := AList.update i x (fs_data s)\<rparr>) j = (if j = i then x else file_data s j)"
  by (simp add: file_data_def update_conv')

lemma sys_fsync_same: "sys_fsync s = (r, s') \<Longrightarrow> same_tree s s'"
  unfolding sys_fsync_def by (erule injected_cases) auto

lemma sys_unlink_other:
  assumes "sys_unlink p s = (r, s')"
  shows "fs_next s' = fs_next s \<and> file_data s' = file_data s \<and> (\<forall>q. q \<noteq> p \<longrightarrow> fs_get s' q = fs_get s q) \<and>
    (fs_get s' p = fs_get s p \<or> r = None \<and> fs_get s' p = None) \<and> (fs_wf s \<longrightarrow> fs_wf s')"
  using assms
proof (cases rule: sys_unlink_cases)
  case (fail e)
  then show ?thesis by (simp add: same_tree_get same_tree_data same_tree_wf) (simp add: same_tree_def)
next
  case (ok s0 n)
  then show ?thesis
    by (auto simp: get_del_node same_tree_get same_tree_data fs_wf_def inode_del_node split: if_splits)
      (simp_all add: same_tree_def)
qed

lemma unlink_fresh_grown:
  assumes "sys_unlink p s1 = (r, s2)" "grown s s1" "fs_inode s p = None"
  shows "grown s s2"
proof -
  note u = sys_unlink_other [OF assms(1)]
  have "fs_inode s2 q = fs_inode s q" if "fs_inode s q \<noteq> None" for q
  proof -
    from that assms(3) have "q \<noteq> p" by auto
    with u have "fs_inode s2 q = fs_inode s1 q" by (simp add: fs_inode_def)
    with that assms(2) show ?thesis by (simp add: grown_def)
  qed
  with assms(2) u show ?thesis by (simp add: grown_def)
qed

end
