(* ===== verification/RotateFs.thy ===== *)
theory RotateFs
  imports Rotate FsFacts
begin

text \<open>
  What the file operations of \<open>rotate.c\<close> leave of the tree, under every fault schedule: nothing
  they create touches a file that is there, a copy that succeeds has the bytes of its source. The
  locale \<open>tree_order\<close> is the contract between the single calls and the loops over them (covers,
  pruning, orphans): a preorder on trees that the calls respect is respected by the loops.
\<close>

lemma sys_open_creat_cases:
  assumes "sys_open_creat p s = (r, s')"
  obtains (same) "same_tree s s'"
  | (ok) s0 where "same_tree s s0" "fs_get s p = None" "s' = fresh_file p s0"
  using assms [unfolded sys_open_creat_def]
proof (cases rule: injected_cases)
  case (fault e)
  then show thesis by (blast intro: same)
next
  case (run s0)
  then have "same_tree s s' \<or> (\<exists>s0. same_tree s s0 \<and> fs_get s p = None \<and> s' = fresh_file p s0)"
    by (auto simp: same_tree_get fresh_file_def split: if_splits option.splits node.splits)
  with same ok show thesis by metis
qed

section \<open>Copies\<close>

lemma concat_chunks: "concat (chunks n xs) = xs"
proof (induction n xs rule: chunks.induct)
  case (2 n c cs)
  then show ?case by (cases "n = 0") simp_all
qed simp

text \<open>Writing to a file whose inode is newer than \<open>s\<close>.\<close>

lemma write_all_grown:
  assumes "write_all p cs s1 = (ok, s2)" "fs_inode s1 p = Some i" "grown s s1" "fs_next s \<le> i"
  shows "grown s s2 \<and> fs_get s2 = fs_get s1 \<and> fs_next s2 = fs_next s1 \<and>
    (ok \<longrightarrow> file_data s2 i = file_data s1 i @ concat cs)"
  using assms
proof (induction cs arbitrary: s1)
  case (Cons c cs)
  obtain r s' where w: "sys_write p c s1 = (r, s')" by fastforce
  from w Cons.prems(2) show ?case
  proof (cases rule: sys_write_cases)
    case (fail e)
    with Cons.prems w show ?thesis
      by (auto simp: same_tree_get intro: grown_trans same_tree_grown) (auto simp: same_tree_def)
  next
    case (ok s0)
    have g: "fs_get s' = fs_get s1" "fs_inode s' = fs_inode s1" "fs_next s' = fs_next s1"
      using ok(2) by (simp_all add: ok(3) data_upd same_tree_get) (simp add: same_tree_def)
    have d: "file_data s' j = (if j = i then file_data s1 i @ c else file_data s1 j)" for j
      using ok(2) by (simp add: ok(3) file_data_upd same_tree_data)
    have "grown s s'" using Cons.prems(3,4) by (simp add: grown_def g d)
    from Cons.IH [OF _ _ this Cons.prems(4), of] Cons.prems w ok(1) g d show ?thesis by auto
  qed
qed auto

lemma copy_only_files:
  assumes c: "copy_only src dst s = (ok, s')" and wf: "fs_wf s"
  shows "files_kept s s' \<and> fs_wf s' \<and>
    (ok \<longrightarrow> fs_content s src \<noteq> None \<and> fs_content s' dst = fs_content s src \<and> fs_get s dst = None)"
proof (cases "fs_get s src")
  case None
  with c wf show ?thesis by (simp add: copy_only_def)
next
  case (Some n)
  obtain r s1 where cr: "sys_create_excl dst s = (r, s1)" by fastforce
  from cr show ?thesis
  proof (cases rule: sys_create_excl_cases)
    case (fail e)
    with c Some cr wf show ?thesis
      by (simp add: copy_only_def same_tree_files same_tree_wf)
  next
    case (ok s0)
    define i where "i = fs_next s"
    have g1: "grown s s1" using ok fresh_grown by blast
    have nx: "fs_next s0 = i" using ok by (simp add: same_tree_def i_def)
    have i1: "fs_inode s1 dst = Some i" "file_data s1 i = []" "fs_next s1 = Suc i"
      by (simp_all add: ok inode_fresh data_fresh nx)
    have wf1: "fs_wf s1" using ok wf fresh_wf same_tree_wf by metis
    have dst: "fs_inode s dst = None" using ok by (simp add: fs_inode_def)
    obtain b2 s2 where w: "(case n of Reg j \<Rightarrow> write_all dst (chunks 65536 (file_data s1 j)) s1
        | _ \<Rightarrow> (False, s1)) = (b2, s2)" by fastforce
    have w2: "grown s s2 \<and> fs_get s2 = fs_get s1 \<and> fs_next s2 = fs_next s1 \<and>
      (b2 \<longrightarrow> (\<exists>j. n = Reg j \<and> file_data s2 i = file_data s1 j))"
    proof (cases n)
      case (Reg j)
      with w have "write_all dst (chunks 65536 (file_data s1 j)) s1 = (b2, s2)" by simp
      from write_all_grown [OF this i1(1) g1] i1(2) Reg show ?thesis by (simp add: i_def concat_chunks)
    qed (use w g1 in auto)
    obtain b3 s3 where f: "(if b2 then (case sys_fsync s2 of (r, f) \<Rightarrow> (r = None, f)) else (False, s2)) = (b3, s3)"
      by fastforce
    have f3: "same_tree s2 s3 \<and> (b3 \<longrightarrow> b2)"
      using f by (auto split: if_splits prod.splits dest: sys_fsync_same)
    have g3: "grown s s3" using w2 f3 same_tree_grown grown_trans by blast
    have wf3: "fs_wf s3"
    proof -
      have "fs_wf s2" using wf1 w2 by (simp add: fs_wf_def fs_inode_def)
      with f3 show ?thesis using same_tree_wf by blast
    qed
    have s': "ok = b3 \<and> s' = (if b3 then s3 else snd (sys_unlink dst s3))"
      using c Some cr ok(1) w f by (auto simp: copy_only_def Let_def)
    show ?thesis
    proof (cases b3)
      case True
      with w2 f3 obtain j where j: "n = Reg j" "file_data s2 i = file_data s1 j" by auto
      have "fs_inode s src = Some j" using Some j by (simp add: fs_inode_def)
      with wf have "j < fs_next s" by (simp add: fs_wf_def)
      then have "file_data s1 j = file_data s j" using g1 by (simp add: grown_def)
      moreover have "fs_get s3 = fs_get s1" using f3 w2 same_tree_get(1) by metis
      then have "fs_inode s3 dst = Some i" using i1(1) by (simp add: fs_inode_def)
      ultimately have "fs_content s3 dst = fs_content s src"
        using j f3 Some same_tree_data [of s2 s3] by (simp add: fs_content_def fs_inode_def)
      with True s' g3 wf wf3 Some j ok show ?thesis
        by (simp add: grown_files fs_content_def) (simp add: fs_inode_def)
    next
      case False
      obtain r4 s4 where u: "sys_unlink dst s3 = (r4, s4)" by fastforce
      with False s' have "s' = s4" by simp
      with unlink_fresh_grown [OF u g3 dst] sys_unlink_other [OF u] wf wf3 False s' show ?thesis
        by (simp add: grown_files)
    qed
  qed
qed

section \<open>The contract of the loops\<close>

text \<open>
  \<open>R\<close> orders trees, \<open>loses p\<close> says that the order does not mind the loss of \<open>p\<close>. Nothing else is
  known of either inside the locale.
\<close>

locale tree_order =
  fixes R :: "fs \<Rightarrow> fs \<Rightarrow> bool" and loses :: "path \<Rightarrow> bool"
  assumes R_trans: "R s s1 \<Longrightarrow> R s1 s2 \<Longrightarrow> R s s2"
    and R_kept: "files_kept s s1 \<Longrightarrow> R s s1"
    and R_unlink: "loses p \<Longrightarrow> sys_unlink p s = (r, s1) \<Longrightarrow> R s s1"
begin

text \<open>A step from a well-formed tree to a well-formed tree that respects the order.\<close>

definition step :: "fs \<Rightarrow> fs \<Rightarrow> bool" where
  "step s s' \<longleftrightarrow> (fs_wf s \<longrightarrow> fs_wf s' \<and> R s s')"

lemma stepI: "(fs_wf s \<Longrightarrow> files_kept s s' \<and> fs_wf s') \<Longrightarrow> step s s'"
  using R_kept by (auto simp: step_def)

lemma step_refl [simp]: "step s s"
  by (rule stepI) simp

lemma step_trans [trans]: "step s s1 \<Longrightarrow> step s1 s2 \<Longrightarrow> step s s2"
  using R_trans by (auto simp: step_def)

lemma step_same: "same_tree s s' \<Longrightarrow> step s s'"
  by (rule stepI) (simp add: same_tree_files same_tree_wf)

lemma step_fold: "(\<And>x s. x \<in> set xs \<Longrightarrow> step s (f x s)) \<Longrightarrow> step s (fold f xs s)"
  by (induction xs arbitrary: s) (auto intro: step_trans)

lemma step_mkparents: "mkparents p s = (r, s') \<Longrightarrow> step s s'"
proof (rule stepI)
  assume m: "mkparents p s = (r, s')" and wf: "fs_wf s"
  from mkparents_files [OF m] have k: "files_kept s s'" "\<forall>q. fs_inode s' q = fs_inode s q" by auto
  then have "fs_next s \<le> fs_next s'" by (simp add: files_kept_def)
  with k wf show "files_kept s s' \<and> fs_wf s'" using wf_inode_same by blast
qed

lemma step_link: "sys_link a b s = (r, s') \<Longrightarrow> step s s'"
  by (rule stepI) (simp add: sys_link_files)

lemma step_copy: "copy_only a b s = (ok, s') \<Longrightarrow> step s s'"
  by (rule stepI) (simp add: copy_only_files)

lemma step_unlink: "loses p \<Longrightarrow> sys_unlink p s = (r, s') \<Longrightarrow> step s s'"
  using R_unlink sys_unlink_other by (simp add: step_def)

lemma step_creat:
  assumes "sys_open_creat p s = (r, s')" shows "step s s'"
  using assms
proof (cases rule: sys_open_creat_cases)
  case (ok s0)
  with fresh_grown grown_files fresh_wf same_tree_wf show ?thesis by (metis stepI)
qed (rule step_same)

lemma step_rmdir:
  assumes "sys_rmdir p s = (r, s')" shows "step s s'"
  using assms
proof (cases rule: sys_rmdir_cases)
  case (ok s0)
  then have "fs_inode s p = None" by (simp add: fs_inode_def)
  with ok have "files_kept s s' \<and> (fs_wf s \<longrightarrow> fs_wf s')"
    by (auto simp: files_kept_def inode_del_node content_del_node same_tree_get fs_wf_def split: if_splits)
      (simp_all add: same_tree_def)
  then show ?thesis by (simp add: stepI)
qed (rule step_same)

lemma step_cover: "step s (link_cover a r name s)"
proof -
  obtain x s1 where m: "mkparents (r @ [slash] @ name) s = (x, s1)" by fastforce
  obtain y s2 where l: "sys_link (a @ [slash] @ name) (r @ [slash] @ name) s1 = (y, s2)" by fastforce
  obtain z s3 where c: "copy_only (a @ [slash] @ name) (r @ [slash] @ name) s2 = (z, s3)" by fastforce
  note st = step_mkparents [OF m] step_link [OF l] step_copy [OF c]
  from st have "step s s2" "step s s3" by (blast intro: step_trans)+
  with st m l c show ?thesis by (simp add: link_cover_def Let_def split: option.split)
qed

lemma step_covers: "step s (link_album_covers a r s)"
  by (auto simp: link_album_covers_def intro!: step_fold step_cover split: option.split)

lemma step_nomedia: "step s (ensure_resident_nomedia lib s)"
  using step_creat by (auto simp: ensure_resident_nomedia_def Let_def) (metis prod.collapse)

text \<open>Pruning a directory whose cover images may go.\<close>

lemma step_fold_pair:
  assumes "\<And>x k s k' s'. x \<in> set xs \<Longrightarrow> f x (k, s) = (k', s') \<Longrightarrow> step s s'"
    and "fold f xs (k, s) = (k', s')"
  shows "step s s'"
  using assms
proof (induction xs arbitrary: k s)
  case (Cons x xs)
  obtain k1 s1 where f: "f x (k, s) = (k1, s1)" by fastforce
  have "step s s1" by (rule Cons.prems(1) [OF _ f]) simp
  also have "step s1 s'"
  proof (rule Cons.IH)
    show "fold f xs (k1, s1) = (k', s')" using Cons.prems(2) f by simp
  qed (rule Cons.prems(1), auto)
  finally show ?case .
qed simp

lemma step_prune_sidecar:
  assumes "\<And>name. is_cover_sidecar_name name \<Longrightarrow> loses (dir @ [slash] @ name)"
    and "prune_sidecar dir name (k, s) = (k', s')"
  shows "step s s'"
proof -
  obtain r s1 where u: "sys_unlink (dir @ [slash] @ name) s = (r, s1)" by fastforce
  have "is_cover_sidecar_name name \<Longrightarrow> step s s1" using u assms(1) step_unlink by blast
  with assms(2) u show ?thesis
    by (auto simp: prune_sidecar_def Let_def split: if_splits option.splits)
qed

lemma step_prune:
  assumes "\<And>rest name. is_cover_sidecar_name name \<Longrightarrow> loses (dir @ rest @ [slash] @ name)"
    and "prune_dir n dir s = (b, s')"
  shows "step s s'"
  using assms
proof (induction n arbitrary: dir s b s')
  case (Suc n)
  have rec: "step s s'" if "prune_entry (prune_dir n) dir name (k, s) = (k', s')" for name k s k' s'
  proof -
    obtain b1 s1 where p: "prune_dir n (dir @ [slash] @ name) s = (b1, s1)" by fastforce
    have "step s s1"
      by (rule Suc.IH [OF _ p]) (use Suc.prems(1) [of _ "slash # name @ _"] in simp)
    with that p show ?thesis
      by (auto simp: prune_entry_def Let_def split: if_splits option.splits node.splits)
  qed
  have side: "step s s'" if "prune_sidecar dir name (k, s) = (k', s')" for name k s k' s'
    by (rule step_prune_sidecar [OF _ that]) (use Suc.prems(1) [of _ "[]"] in simp)
  obtain k1 s1 where f1: "fold (prune_entry (prune_dir n) dir) (fs_entries s dir) (False, s) = (k1, s1)"
    by fastforce
  obtain k2 s2 where f2: "fold (prune_sidecar dir) (fs_entries s1 dir) (False, s1) = (k2, s2)"
    by fastforce
  obtain r s3 where rm: "sys_rmdir dir s2 = (r, s3)" by fastforce
  have s1: "step s s1" by (rule step_fold_pair [OF _ f1]) (rule rec)
  have s2: "step s s2" by (rule step_trans [OF s1 step_fold_pair [OF _ f2]]) (rule side)
  have s3: "step s s3" by (rule step_trans [OF s2 step_rmdir [OF rm]])
  from Suc.prems(2) f1 f2 rm s1 s2 s3 show ?case
    by (auto split: if_splits bool.splits)
qed simp

lemma step_prune_tree:
  assumes "\<And>rest name. is_cover_sidecar_name name \<Longrightarrow> loses (lib @ ''/resident/'' @ rest @ [slash] @ name)"
  shows "step s (prune_resident_tree lib s)"
proof -
  have "step s (snd (prune_dir n (lib @ ''/resident'' @ slash # name) s))" for n name s
  proof -
    obtain b s1 where p: "prune_dir n (lib @ ''/resident'' @ slash # name) s = (b, s1)" by fastforce
    have "step s s1"
      by (rule step_prune [OF _ p]) (use assms [of _ "name @ _"] in simp)
    with p show ?thesis by simp
  qed
  then show ?thesis
    by (auto simp: prune_resident_tree_def Let_def intro!: step_fold)
qed

text \<open>The orphan sweep unlinks encoded files only.\<close>

lemma step_orphans:
  assumes "\<And>rest. loses (dir @ [slash] @ rest)" and "remove_orphans_in k refs dir (s, n) = (s', n')"
  shows "step s s'"
  using assms
proof (induction k arbitrary: dir s n s' n')
  case (Suc k)
  have one: "step s s'" if "orphan_entry (remove_orphans_in k refs) refs dir name (s, n) = (s', n')"
    for name s n s' n'
  proof -
    obtain s1 n1 where p: "remove_orphans_in k refs (dir @ [slash] @ name) (s, n) = (s1, n1)" by fastforce
    have 1: "step s s1"
      by (rule Suc.IH [OF _ p]) (use Suc.prems(1) [of "name @ [slash] @ _"] in simp)
    obtain r s2 where u: "sys_unlink (dir @ [slash] @ name) s = (r, s2)" by fastforce
    have 2: "step s s2" by (rule step_unlink [OF Suc.prems(1) u])
    from that p u 1 2 show ?thesis
      by (auto simp: orphan_entry_def Let_def split: if_splits option.splits node.splits)
  qed
  have "step s s'" if "fold (orphan_entry (remove_orphans_in k refs) refs dir) xs (s, n) = (s', n')" for xs s n
    using that
  proof (induction xs arbitrary: s n)
    case (Cons x xs)
    obtain s1 n1 where o: "orphan_entry (remove_orphans_in k refs) refs dir x (s, n) = (s1, n1)" by fastforce
    with Cons.prems have "step s1 s'" by (intro Cons.IH [of _ n1]) simp
    with one [OF o] show ?case by (rule step_trans)
  qed simp
  with Suc.prems(2) show ?case by (auto split: if_splits)
qed simp

text \<open>The same for the loops over the counters and the world.\<close>

lemma step_rfold:
  "(\<And>x s. x \<in> set xs \<Longrightarrow> step (r_fs s) (r_fs (f x s))) \<Longrightarrow> step (r_fs s) (r_fs (fold f xs s))"
proof (induction xs arbitrary: s)
  case (Cons x xs)
  have "step (r_fs s) (r_fs (f x s))" by (rule Cons.prems) simp
  also have "step (r_fs (f x s)) (r_fs (fold f xs (f x s)))"
    by (rule Cons.IH) (rule Cons.prems, simp)
  finally show ?case by simp
qed simp

lemma step_set_fs: "step (r_fs s) f \<Longrightarrow> step (r_fs s) (r_fs (set_fs f s))"
  by (simp add: set_fs_def)

lemma step_rcovers: "step (r_fs s) (r_fs (covers a r s))"
  unfolding covers_def by (rule step_set_fs) (rule step_covers)

lemma step_backfill: "step (r_fs s) (r_fs (backfill_covers E t s))"
proof -
  have "step (r_fs s) (r_fs (backfill_one E t x s))" for x s
    using step_rcovers by (cases x) (simp add: backfill_one_def split: option.split)
  then show ?thesis unfolding backfill_covers_def by (rule step_rfold)
qed

lemma step_apply:
  assumes "\<And>h s rc s'. apply h s = (rc, s') \<Longrightarrow> step (r_fs s) (r_fs s')"
  shows "step (r_fs s) (r_fs (fold (add_one apply xs) ys s))"
    "step (r_fs s) (r_fs (fold (remove_one apply xs) ys s))"
proof -
  have one: "step (r_fs s) (r_fs (add_one apply xs h s))" "step (r_fs s) (r_fs (remove_one apply xs h s))" for h s
    using assms [of h s] by (auto simp: add_one_def remove_one_def split: prod.split)
  show "step (r_fs s) (r_fs (fold (add_one apply xs) ys s))" by (rule step_rfold) (rule one)
  show "step (r_fs s) (r_fs (fold (remove_one apply xs) ys s))" by (rule step_rfold) (rule one)
qed

end

end
