(* ===== verification/RotateSafe.thy ===== *)
theory RotateSafe
  imports RotateFs
begin

text \<open>
  No run of \<open>rotate\<close> loses audio, whatever calls and statements fail: in move mode every file that
  is not a cover image is still there, on one of the two sides, with its bytes; in transcode mode
  every file outside \<open>resident/\<close> is untouched. Both are instances of the contract \<open>tree_order\<close>.
\<close>

section \<open>The database statements leave the files alone\<close>

lemma set_fs_simps [simp]:
  "r_fs (set_fs f s) = f" "r_db (set_fs f s) = r_db s" "ro_errors (set_fs f s) = ro_errors s"
  "r_fs (bump_errors s) = r_fs s" "r_db (bump_errors s) = r_db s"
  "r_fs (bump_already s) = r_fs s" "r_db (bump_already s) = r_db s"
  "ro_errors (bump_already s) = ro_errors s" "ro_errors (bump_errors s) = ro_errors s + 1"
  by (simp_all add: set_fs_def bump_errors_def bump_already_def)

lemma covers_simps [simp]:
  "r_fs (covers a r s) = link_album_covers a r (r_fs s)" "r_db (covers a r s) = r_db s"
  "ro_errors (covers a r s) = ro_errors s"
  by (simp_all add: covers_def)

lemma on_fs_eq: "on_fs call s = (r, s') \<longleftrightarrow> (\<exists>f. call (r_fs s) = (r, f) \<and> s' = set_fs f s)"
  by (auto simp: on_fs_def split: prod.split)

lemma on_db_cases:
  assumes "on_db f s = (b, s')"
  obtains (ok) q d where "b" "f (r_db s) = Some d" "s' = s\<lparr>ro_w := (ro_w s)\<lparr>w_db := d, w_sql := q\<rparr>\<rparr>"
  | (fail) q where "\<not> b" "s' = s\<lparr>ro_w := (ro_w s)\<lparr>w_sql := q\<rparr>\<rparr>"
proof -
  obtain w where w: "sql_exec f (ro_w s) = (b, w)" and s': "s' = s\<lparr>ro_w := w\<rparr>"
    using assms by (auto simp: on_db_def split: prod.splits)
  from w show thesis
  proof (cases rule: sql_exec_cases)
    case (ok q d)
    with s' that(1) show thesis by blast
  next
    case (fail q)
    with s' that(2) show thesis by blast
  qed
qed

lemma on_db_fs: "on_db f s = (b, s') \<Longrightarrow> r_fs s' = r_fs s \<and> ro_errors s' = ro_errors s"
  by (elim on_db_cases) auto

lemma update_path_fs: "track_repo_update_path h p now w = (rc, w') \<Longrightarrow> w_fs w' = w_fs w"
  by (auto simp: track_repo_update_path_def split: prod.splits dest: sql_exec_fs)

section \<open>Move mode: audio changes sides, nothing more\<close>

definition basename :: "path \<Rightarrow> string" where
  "basename p = (case split_last slash p of None \<Rightarrow> p | Some (d, b) \<Rightarrow> b)"

definition cover_path :: "path \<Rightarrow> bool" where
  "cover_path p \<longleftrightarrow> is_cover_sidecar_name (basename p)"

definition side :: "path \<Rightarrow> string \<Rightarrow> path \<Rightarrow> path" where
  "side lib seg t = lib @ [slash] @ seg @ [slash] @ t"

text \<open>The two names one track may have: the same below \<open>archive/\<close> and below \<open>resident/\<close>.\<close>

definition same_track :: "path \<Rightarrow> path \<Rightarrow> path \<Rightarrow> bool" where
  "same_track lib p q \<longleftrightarrow> p = q \<or> (\<exists>t. {p, q} = {side lib ''archive'' t, side lib ''resident'' t})"

definition kept_audio :: "path \<Rightarrow> fs \<Rightarrow> fs \<Rightarrow> bool" where
  "kept_audio lib s s' \<longleftrightarrow> (\<forall>p c. fs_content s p = Some c \<and> \<not> cover_path p \<longrightarrow>
     (\<exists>q. same_track lib p q \<and> fs_content s' q = Some c))"

lemma basename_append: "basename (d @ slash # t) = basename t"
proof (cases "slash \<in> set t")
  case True
  then obtain a b where "split_last slash t = Some (a, b)" by (auto simp: split_last_def)
  then have "t = a @ slash # b" "slash \<notin> set b" by (auto simp: split_last_Some_iff)
  then have "split_last slash (d @ slash # t) = Some (d @ slash # a, b)" by (simp add: split_last_Some_iff)
  with \<open>split_last slash t = Some (a, b)\<close> show ?thesis by (simp add: basename_def)
next
  case False
  then show ?thesis by (simp add: basename_def split_last_append) (metis split_last_None option.simps(4))
qed

lemma cover_path_append: "is_cover_sidecar_name name \<Longrightarrow> cover_path (d @ slash # name)"
proof -
  assume n: "is_cover_sidecar_name name"
  then have "slash \<notin> set name" by (auto simp: is_cover_sidecar_name_def COVER_SIDECAR_NAMES_def)
  with n show ?thesis by (simp add: cover_path_def basename_def split_last_append)
qed

lemma basename_side: "basename (side lib seg t) = basename t"
  using basename_append [of "lib @ slash # seg" t] by (simp add: side_def)

lemma sides_differ: "side lib ''archive'' t \<noteq> side lib ''resident'' t'"
  by (simp add: side_def)

lemma side_inj: "side lib seg t = side lib seg t' \<longleftrightarrow> t = t'"
  by (simp add: side_def)

lemma same_track_refl [simp]: "same_track lib p p"
  by (simp add: same_track_def)

lemma same_track_trans: "same_track lib p q \<Longrightarrow> same_track lib q r \<Longrightarrow> same_track lib p r"
  unfolding same_track_def doubleton_eq_iff using sides_differ by (metis side_inj)

lemma same_track_cover: "same_track lib p q \<Longrightarrow> cover_path q = cover_path p"
  by (auto simp: same_track_def doubleton_eq_iff cover_path_def basename_side)

lemma kept_audio_trans: "kept_audio lib s s1 \<Longrightarrow> kept_audio lib s1 s2 \<Longrightarrow> kept_audio lib s s2"
  unfolding kept_audio_def using same_track_trans same_track_cover by metis

lemma files_kept_content: "files_kept s s' \<Longrightarrow> fs_content s p = Some c \<Longrightarrow> fs_content s' p = Some c"
  by (auto simp: files_kept_def fs_content_def)

lemma unlink_content: "sys_unlink p s = (r, s') \<Longrightarrow> q \<noteq> p \<Longrightarrow> fs_content s' q = fs_content s q"
  using sys_unlink_other [of p s r s'] by (simp add: fs_content_def fs_inode_def)

interpretation audio: tree_order "kept_audio lib" cover_path for lib
proof
  fix s s1 s2
  show "kept_audio lib s s1 \<Longrightarrow> kept_audio lib s1 s2 \<Longrightarrow> kept_audio lib s s2" by (rule kept_audio_trans)
  show "kept_audio lib s s1" if "files_kept s s1"
    using files_kept_content [OF that] same_track_refl unfolding kept_audio_def by blast
  show "kept_audio lib s s1" if "cover_path p" "sys_unlink p s = (r, s1)" for p r
    using that unlink_content [OF that(2)] same_track_refl unfolding kept_audio_def by metis
qed

text \<open>A file may go when its twin on the other side has its bytes.\<close>

lemma unlink_twin:
  assumes "sys_unlink p s = (r, s')" "same_track lib p q" "q \<noteq> p" "fs_content s q = fs_content s p"
  shows "audio.step lib s s'"
proof -
  have "kept_audio lib s s'"
    using assms unlink_content [OF assms(1)] same_track_refl unfolding kept_audio_def by metis
  with sys_unlink_other [OF assms(1)] show ?thesis by (simp add: audio.step_def)
qed

lemma swap_segment_Some:
  "swap_segment lib cur from to = Some new \<longleftrightarrow> (\<exists>t. cur = side lib from t \<and> new = side lib to t)"
  by (auto simp: swap_segment_def side_def)

definition sides :: "string \<Rightarrow> string \<Rightarrow> bool" where
  "sides from to \<longleftrightarrow> {from, to} = {''archive'', ''resident''}"

lemma swap_twin:
  assumes "swap_segment lib cur from to = Some new" "sides from to"
  shows "same_track lib cur new \<and> new \<noteq> cur"
  using assms sides_differ sides_differ [symmetric]
  by (auto simp: swap_segment_Some sides_def same_track_def doubleton_eq_iff)

lemma move_record_fs: "audio.step lib (r_fs s) (r_fs (move_record E h cur new target s))"
proof -
  obtain rc w where u: "track_repo_update_path h new (re_now E) (ro_w s) = (rc, w)" by fastforce
  define s1 where "s1 = (if rc \<noteq> 0 then bump_errors (s\<lparr>ro_w := w\<rparr>) else s\<lparr>ro_w := w\<rparr>)"
  obtain ok s2 where d: "on_db (upsert_residency h target (re_now E)) s1 = (ok, s2)" by fastforce
  have fs: "r_fs s2 = r_fs s" using on_db_fs [OF d] update_path_fs [OF u] by (simp add: s1_def)
  have "move_record E h cur new target s =
      (let s = (if ok then s2 else bump_errors s2) in if target = Resident then covers cur new s else s)"
    by (simp add: move_record_def u d s1_def [symmetric] Let_def)
  with fs audio.step_covers show ?thesis by (simp add: Let_def)
qed

lemma step_record:
  "audio.step lib s0 (r_fs s) \<Longrightarrow> audio.step lib s0 (r_fs (move_record E h cur new target s))"
  by (rule audio.step_trans [OF _ move_record_fs])

lemma copy_and_unlink_fs:
  assumes "copy_and_unlink cur new s = (ok, s')" "same_track lib cur new" "new \<noteq> cur"
  shows "audio.step lib s s'"
proof -
  obtain b s1 where c: "copy_only cur new s = (b, s1)" by fastforce
  obtain r s2 where u: "sys_unlink cur s1 = (r, s2)" by fastforce
  have 1: "audio.step lib s s1" by (rule audio.step_copy [OF c])
  have "audio.step lib s1 s2" if "b" "fs_wf s"
  proof (rule unlink_twin [OF u assms(2,3)])
    from copy_only_files [OF c that(2)] that(1) have "fs_content s1 new = fs_content s cur"
      "fs_content s cur \<noteq> None" "files_kept s s1" by auto
    then show "fs_content s1 new = fs_content s1 cur" using files_kept_content by fastforce
  qed
  then have "audio.step lib s s2" if "b"
    using that 1 audio.step_trans unfolding audio.step_def by blast
  with assms(1) c u 1 show ?thesis by (auto simp: copy_and_unlink_def split: bool.splits)
qed

lemma move_one_fs:
  assumes "move_one E h from to target s = (rc, s')" "sides from to"
  shows "audio.step (re_lib E) (r_fs s) (r_fs s')"
proof (cases "lookup_track_path (r_db s) h")
  case None
  with assms(1) show ?thesis by (auto simp: move_one_def)
next
  case (Some cur)
  note cur = this
  show ?thesis
  proof (cases "swap_segment (re_lib E) cur from to")
    case None
    with cur assms(1) show ?thesis
      by (auto simp: move_one_def split: if_splits prod.splits bool.splits dest: on_db_fs)
  next
    case (Some new)
    from swap_twin [OF Some assms(2)] have twin: "same_track (re_lib E) cur new" "new \<noteq> cur" by auto
    obtain m f1 where m: "mkparents new (r_fs s) = (m, f1)" by fastforce
    obtain l f2 where l: "sys_link cur new f1 = (l, f2)" by fastforce
    obtain u f3 where u: "sys_unlink cur f2 = (u, f3)" by fastforce
    obtain c f4 where c: "copy_and_unlink cur new f2 = (c, f4)" by fastforce
    note st = audio.step_mkparents [OF m] audio.step_link [OF l]
    have f2: "audio.step (re_lib E) (r_fs s) f2" using st by (blast intro: audio.step_trans)
    have f3: "audio.step (re_lib E) (r_fs s) f3" if "fs_content f2 new = fs_content f2 cur"
      using f2 unlink_twin [OF u twin that] by (rule audio.step_trans)
    have same: "fs_content f2 new = fs_content f2 cur" if "l = None"
    proof -
      from sys_link_new l that have "fs_get f2 new = fs_get f2 cur" by metis
      then show ?thesis by (simp add: fs_content_def fs_inode_def)
    qed
    have inode: "fs_content f2 new = fs_content f2 cur" if "same_inode f2 cur new"
      using that by (simp add: same_inode_def fs_content_def)
    have f4: "audio.step (re_lib E) (r_fs s) f4"
      using f2 copy_and_unlink_fs [OF c twin] by (rule audio.step_trans)
    from assms(1) cur Some m l u c st f2 f3 f4 same inode show ?thesis
      by (auto simp: move_one_def move_file_def unlink_moved_def on_fs_def Let_def intro!: step_record
          split: option.splits if_splits bool.splits)
  qed
qed

text \<open>C22: In move mode a run of rotate loses no audio: whatever system calls and statements fail at
  whatever point, every file that is not a cover image has its bytes afterwards under its name or
  under the name of the other side.\<close>

theorem rotate_loses_no_audio:
  assumes "fs_wf (w_fs w)" and "cfg = None \<or> \<not> tc_enabled (the cfg)"
    and "fs_content (w_fs w) p = Some c" and "\<not> cover_path p"
  shows "\<exists>q. same_track (re_lib E) p q \<and> fs_content (r_fs (rotate_run_ex E cfg w)) q = Some c"
proof -
  let ?st = "audio.step (re_lib E)"
  define s1 where "s1 = set_fs (ensure_resident_nomedia (re_lib E) (w_fs w)) (rotate_init w)"
  define M where "M = load_manifest (r_db s1)"
  obtain R s2 where R: "filter_resident_present False (load_resident (r_db s1)) s1 = (R, s2)" by fastforce
  define s3 where "s3 = s2\<lparr>ro_to_add := count_not_in R M, ro_to_remove := count_not_in M R\<rparr>"
  define s4 where "s4 = fold (add_one (rotate_adds E None) R) M s3"
  define s5 where "s5 = fold (remove_one (rotate_removes E None) M) R s4"
  define s6 where "s6 = set_fs (prune_resident_tree (re_lib E) (r_fs s5)) s5"
  define s7 where "s7 = backfill_covers E False s6"
  obtain b s8 where s8: "on_db (\<lambda>d. Some (set_meta ''last_rotation_at'' (re_now E) d)) s7 = (b, s8)" by fastforce
  have run: "rotate_run_ex E cfg w = s8"
    using assms(2) R s8 by (cases cfg) (simp_all add: rotate_run_ex_def Let_def s1_def M_def s3_def s4_def
        s5_def s6_def s7_def rotate_init_def)
  have f1: "?st (w_fs w) (r_fs s1)" unfolding s1_def by (simp add: audio.step_nomedia)
  have f3: "r_fs s3 = r_fs s1" using R by (auto simp: s3_def filter_resident_present_def Let_def)
  have f4: "?st (r_fs s3) (r_fs s4)" unfolding s4_def
    by (rule audio.step_apply) (auto simp: rotate_adds_def sides_def intro: move_one_fs)
  have f5: "?st (r_fs s4) (r_fs s5)" unfolding s5_def
    by (rule audio.step_apply) (auto simp: rotate_removes_def sides_def intro: move_one_fs)
  have f6: "?st (r_fs s5) (r_fs s6)" unfolding s6_def
  proof (simp only: set_fs_simps, rule audio.step_prune_tree)
    fix rest name assume "is_cover_sidecar_name name"
    then show "cover_path (re_lib E @ ''/resident/'' @ rest @ [slash] @ name)"
      using cover_path_append [of name "re_lib E @ ''/resident/'' @ rest"] by simp
  qed
  have f7: "?st (r_fs s6) (r_fs s7)" unfolding s7_def by (rule audio.step_backfill)
  have "?st (w_fs w) (r_fs s8)"
    using f1 f3 f4 f5 f6 f7 on_db_fs [OF s8] by (metis audio.step_trans)
  with assms run show ?thesis by (auto simp: audio.step_def kept_audio_def)
qed

text \<open>A small library: one archived track, listed by the manifest.\<close>

definition sample_track :: "sha \<Rightarrow> path \<Rightarrow> track" where
  "sample_track h p = \<lparr>t_sha = h, t_path = p, t_mtime_ns = 0, t_size = 3, t_format = None, t_title = None,
     t_artist = None, t_album = None, t_album_artist = None, t_track_number = None, t_disc_number = None,
     t_year = None, t_genre = None, t_duration_ms = None, t_tags_status = ''ok'', t_tag_warning = None,
     t_date_added = [], t_last_seen = []\<rparr>"

definition sample_fs :: fs where
  "sample_fs = \<lparr>fs_nodes = [(''/m'', Dir), (''/m/archive'', Dir), (''/m/archive/a.flac'', Reg 0)],
     fs_data = [(0, ''abc'')], fs_next = 1, fs_faults = [None, None, None, Some EXDEV]\<rparr>"

definition sample_world :: world where
  "sample_world = \<lparr>w_db = empty_db\<lparr>tracks := [sample_track ''h'' ''/m/archive/a.flac''],
       manifest_current := [\<lparr>mf_sha = ''h'', mf_buckets = [], mf_size = 3\<rparr>]\<rparr>,
     w_fs = sample_fs, w_sql = [], w_txn = None\<rparr>"

definition sample_env :: rotate_env where
  "sample_env = \<lparr>re_lib = ''/m'', re_now = ''now'', re_ffmpeg = silent_env\<rparr>"

lemma sample_fs_wf: "fs_wf sample_fs"
  by (auto simp: fs_wf_def fs_inode_def fs_get_def sample_fs_def split: if_splits)

lemma sample_content: "fs_content sample_fs ''/m/archive/a.flac'' = Some ''abc''"
  by (simp add: sample_fs_def fs_content_def fs_inode_def fs_get_def file_data_def)

lemma sample_not_cover: "\<not> cover_path ''/m/archive/a.flac''"
  by (simp add: cover_path_def basename_def split_last_def is_cover_sidecar_name_def COVER_SIDECAR_NAMES_def)

theorem rotate_loses_no_audio_witness:
  "\<exists>q. same_track ''/m'' ''/m/archive/a.flac'' q \<and>
     fs_content (r_fs (rotate_run_ex sample_env None sample_world)) q = Some ''abc''"
  using rotate_loses_no_audio [of sample_world None "''/m/archive/a.flac''" "''abc''" sample_env]
    sample_fs_wf sample_content sample_not_cover
  by (simp add: sample_world_def sample_env_def)

section \<open>Transcode mode: the masters are not touched\<close>

definition under_resident :: "path \<Rightarrow> path \<Rightarrow> bool" where
  "under_resident lib p \<longleftrightarrow> strip_prefix (lib @ ''/resident/'') p \<noteq> None"

definition masters_kept :: "path \<Rightarrow> fs \<Rightarrow> fs \<Rightarrow> bool" where
  "masters_kept lib s s' \<longleftrightarrow> (\<forall>p c. fs_content s p = Some c \<and> \<not> under_resident lib p \<longrightarrow> fs_content s' p = Some c)"

interpretation masters: tree_order "masters_kept lib" "under_resident lib" for lib
proof
  fix s s1 s2
  show "masters_kept lib s s1 \<Longrightarrow> masters_kept lib s1 s2 \<Longrightarrow> masters_kept lib s s2"
    by (simp add: masters_kept_def)
  show "masters_kept lib s s1" if "files_kept s s1"
    using files_kept_content [OF that] unfolding masters_kept_def by blast
  show "masters_kept lib s s1" if "under_resident lib p" "sys_unlink p s = (r, s1)" for p r
    using that unlink_content [OF that(2)] unfolding masters_kept_def by metis
qed

text \<open>
  What the code relies on \<open>ffmpeg\<close> for: the encode writes its output file and no other file.
\<close>

definition encoder_ok :: "ffmpeg_env \<Rightarrow> bool" where
  "encoder_ok F \<longleftrightarrow> (\<forall>argv s e s'. fs_wf s \<and> fe_encode F argv s = (e, s') \<longrightarrow>
     fs_wf s' \<and> (\<forall>q. q \<noteq> last argv \<and> fs_content s q \<noteq> None \<longrightarrow> fs_content s' q = fs_content s q))"

text \<open>Every transcode path of the database is below \<open>resident/\<close>.\<close>

definition tpaths_ok :: "path \<Rightarrow> db \<Rightarrow> bool" where
  "tpaths_ok lib d \<longleftrightarrow> (\<forall>r\<in>set (residency_state d). \<forall>p. rs_tpath r = Some p \<longrightarrow> under_resident lib p)"

definition mstep :: "path \<Rightarrow> rstate \<Rightarrow> rstate \<Rightarrow> bool" where
  "mstep lib s s' \<longleftrightarrow> (tpaths_ok lib (r_db s) \<and> fs_wf (r_fs s) \<longrightarrow>
     tpaths_ok lib (r_db s') \<and> fs_wf (r_fs s') \<and> masters_kept lib (r_fs s) (r_fs s'))"

lemma mstep_refl [simp]: "mstep lib s s"
  by (simp add: mstep_def masters_kept_def)

lemma mstep_trans: "mstep lib s s1 \<Longrightarrow> mstep lib s1 s2 \<Longrightarrow> mstep lib s s2"
  by (auto simp: mstep_def masters_kept_def)

lemma mstep_fs: "r_db s' = r_db s \<Longrightarrow> masters.step lib (r_fs s) (r_fs s') \<Longrightarrow> mstep lib s s'"
  by (simp add: mstep_def masters.step_def)

lemma mstep_same: "r_db s' = r_db s \<Longrightarrow> r_fs s' = r_fs s \<Longrightarrow> mstep lib s s'"
  by (simp add: mstep_fs)

lemma mstep_set_fs: "masters.step lib (r_fs s) f \<Longrightarrow> mstep lib s (set_fs f s)"
  by (simp add: mstep_fs)

lemma mstep_errors [simp]: "mstep lib s (bump_errors s)" "mstep lib s (bump_already s)"
  by (simp_all add: mstep_same)

lemma mstep_then: "mstep lib s s1 \<Longrightarrow> r_db s2 = r_db s1 \<Longrightarrow> r_fs s2 = r_fs s1 \<Longrightarrow> mstep lib s s2"
  using mstep_trans mstep_same by blast

lemma mstep_on_db:
  assumes "on_db f s = (b, s')" "\<And>d d'. tpaths_ok lib d \<Longrightarrow> f d = Some d' \<Longrightarrow> tpaths_ok lib d'"
  shows "mstep lib s s'"
  using assms(1)
proof (cases rule: on_db_cases)
  case (ok q d)
  with assms(2) [OF _ ok(2)] show ?thesis by (simp add: mstep_def masters_kept_def)
qed (simp add: mstep_same)

lemma mstep_covers: "mstep lib s (covers a r s)"
  by (rule mstep_fs) (simp_all add: masters.step_covers)

lemma mstep_fold: "(\<And>x s. mstep lib s (f x s)) \<Longrightarrow> mstep lib s (fold f xs s)"
  by (induction xs arbitrary: s) (auto intro: mstep_trans)

lemma mstep_apply:
  assumes "\<And>h s rc s'. apply h s = (rc, s') \<Longrightarrow> mstep lib s s'"
  shows "mstep lib s (fold (add_one apply xs) ys s)" "mstep lib s (fold (remove_one apply xs) ys s)"
proof -
  have one: "mstep lib s (add_one apply xs h s)" "mstep lib s (remove_one apply xs h s)" for h s
  proof -
    obtain rc s' where a: "apply h s = (rc, s')" by fastforce
    then have "mstep lib s s'" by (rule assms)
    with a mstep_then show "mstep lib s (add_one apply xs h s)" "mstep lib s (remove_one apply xs h s)"
      by (auto simp: add_one_def remove_one_def)
  qed
  show "mstep lib s (fold (add_one apply xs) ys s)" by (rule mstep_fold) (rule one)
  show "mstep lib s (fold (remove_one apply xs) ys s)" by (rule mstep_fold) (rule one)
qed

text \<open>The statements keep the transcode paths below \<open>resident/\<close>.\<close>

lemma tpaths_put:
  assumes "tpaths_ok lib d" "put_residency r f d = Some d'"
    and "\<And>p. rs_tpath r = Some p \<Longrightarrow> under_resident lib p"
    and "\<And>x p. rs_tpath (f x) = Some p \<Longrightarrow> rs_tpath x = Some p \<or> under_resident lib p"
  shows "tpaths_ok lib d'"
proof -
  from assms(2) have d': "residency_state d' = upsert rs_sha (\<lambda>old new. f old) r (residency_state d)"
    by (auto simp: put_residency_def split: if_splits)
  have "under_resident lib p" if "y \<in> set (residency_state d')" "rs_tpath y = Some p" for y p
    using set_upsert [OF that(1) [unfolded d']] assms(1,3,4) that(2) unfolding tpaths_ok_def by blast
  then show ?thesis by (simp add: tpaths_ok_def)
qed

lemma tpaths_statements:
  "tpaths_ok lib d \<Longrightarrow> upsert_residency h loc now d = Some d' \<Longrightarrow> tpaths_ok lib d'"
  "tpaths_ok lib d \<Longrightarrow> upsert_residency_archive_clear_transcode h now d = Some d' \<Longrightarrow> tpaths_ok lib d'"
  "tpaths_ok lib d \<Longrightarrow> under_resident lib p \<Longrightarrow>
     upsert_residency_transcode h now p n fmt lvl d = Some d' \<Longrightarrow> tpaths_ok lib d'"
  "tpaths_ok lib d \<Longrightarrow> under_resident lib p \<Longrightarrow> update_transcode_path h p n now d = Some d' \<Longrightarrow> tpaths_ok lib d'"
  unfolding upsert_residency_def upsert_residency_archive_clear_transcode_def
    upsert_residency_transcode_def Let_def
  by (erule (1) tpaths_put; simp)+ (auto simp: update_transcode_path_def tpaths_ok_def)

lemma tpath_lookup: "tpaths_ok lib d \<Longrightarrow> lookup_transcode_path d h = Some p \<Longrightarrow> under_resident lib p"
  by (auto simp: tpaths_ok_def lookup_transcode_path_def bind_eq_Some_conv dest: find_residency_Some)

lemma under_resident_swap: "swap_segment lib p a ''resident'' = Some q \<Longrightarrow> under_resident lib q"
  by (auto simp: swap_segment_def under_resident_def simp flip: not_None_eq simp: strip_prefix_None)

lemma under_resident_iff: "under_resident lib p \<longleftrightarrow> (\<exists>t. p = side lib ''resident'' t)"
  by (simp add: under_resident_def side_def)

lemma path_with_ext_append: "\<exists>t'. path_with_ext (d @ slash # t) e = d @ slash # t'"
proof (cases "split_last slash t")
  case None
  then have "slash \<notin> set t" by simp
  then show ?thesis by (simp add: path_with_ext_def split_last_append)
next
  case (Some ab)
  then obtain a b where ab: "ab = (a, b)" "t = a @ slash # b" "slash \<notin> set b"
    by (cases ab) (auto simp: split_last_Some_iff)
  have "split_last slash (d @ slash # t) = Some (d @ slash # a, b)" using ab by (simp add: split_last_Some_iff)
  then show ?thesis by (simp add: path_with_ext_def)
qed

lemma under_resident_ext: "under_resident lib p \<Longrightarrow> under_resident lib (path_with_ext p e)"
proof -
  assume "under_resident lib p"
  then obtain t where "p = (lib @ ''/resident'') @ slash # t" by (auto simp: under_resident_iff side_def)
  with path_with_ext_append [of "lib @ ''/resident''" t e] show ?thesis
    by (auto simp: under_resident_iff side_def)
qed

lemma last_argv: "last (transcode_argv src dst codec opus k v) = dst"
  by (simp add: transcode_argv_def)

lemma encoder_okD:
  assumes "encoder_ok F" "fe_encode F argv s = (e, s')" "fs_wf s"
  shows "fs_wf s'" "q \<noteq> last argv \<Longrightarrow> fs_content s q \<noteq> None \<Longrightarrow> fs_content s' q = fs_content s q"
  using assms unfolding encoder_ok_def by blast+

lemma transcode_audio_step:
  assumes "transcode_audio F src dst tc s = (rc, lvl, s')" "encoder_ok F" "under_resident lib dst"
  shows "masters.step lib s s'"
proof (cases "codec_for_format (tc_format tc)")
  case None
  with assms(1) show ?thesis by (simp add: transcode_audio_def)
next
  case (Some codec)
  define kbps where "kbps = (if tc_bitrate tc > 0 then tc_bitrate tc else 128)"
  obtain g l where gl: "level_track F tc src s = (g, l)" by fastforce
  obtain e where e: "fe_encode F (transcode_argv src dst codec (tc_format tc = Some ''opus'') kbps (volume_arg g)) s = (e, s')"
    using assms(1) Some gl by (auto simp: transcode_audio_def kbps_def Let_def split: prod.splits)
  show ?thesis
  proof (cases "fs_wf s")
    case True
    note ok = encoder_okD [OF assms(2) e True, unfolded last_argv]
    have "masters_kept lib s s'"
      unfolding masters_kept_def
    proof (intro allI impI)
      fix p c assume p: "fs_content s p = Some c \<and> \<not> under_resident lib p"
      with assms(3) have "p \<noteq> dst" by auto
      with ok(2) p show "fs_content s' p = Some c" by simp
    qed
    with ok(1) show ?thesis by (simp add: masters.step_def)
  qed (simp add: masters.step_def)
qed

lemma backfill_db: "r_db (backfill_covers E t s) = r_db s"
proof -
  have "r_db (backfill_one E t x s) = r_db s" for x s
    by (cases x) (simp add: backfill_one_def split: option.split)
  then have "r_db (fold (backfill_one E t) xs s) = r_db s" for xs
    by (induction xs arbitrary: s) auto
  then show ?thesis by (simp add: backfill_covers_def)
qed

lemma promote_finish_step:
  assumes "promote_finish E tc h a tp lvl s = (rc, s')" "under_resident (re_lib E) tp"
  shows "mstep (re_lib E) s s'"
proof -
  obtain b s2 where d: "on_db (upsert_residency_transcode h (re_now E) tp (file_size (r_fs s) tp)
      (tc_format tc) lvl) s = (b, s2)" by fastforce
  have "mstep (re_lib E) s s2" by (rule mstep_on_db [OF d]) (rule tpaths_statements(3) [OF _ assms(2)])
  then have "mstep (re_lib E) s (covers a tp s2)" "mstep (re_lib E) s (bump_errors s2)"
    by (rule mstep_trans, simp add: mstep_covers)+
  moreover from this(1) have "mstep (re_lib E) s (bump_already (covers a tp s2))"
    by (rule mstep_trans) simp
  ultimately show ?thesis
    using assms(1) d by (auto simp: promote_finish_def Let_def split: bool.splits if_splits)
qed

lemma promote_encode_step:
  assumes "promote_encode E tc h a tp s = (rc, s')" "encoder_ok (re_ffmpeg E)"
    "under_resident (re_lib E) tp"
  shows "mstep (re_lib E) s s'"
proof -
  let ?m = "mstep (re_lib E)"
  obtain m f1 where m: "mkparents tp (r_fs s) = (m, f1)" by fastforce
  obtain trc lvl f2 where t: "transcode_audio (re_ffmpeg E) a tp tc f1 = (trc, lvl, f2)"
    by (metis prod_cases3)
  define s2 where "s2 = set_fs f2 (set_fs f1 s)"
  obtain u f3 where u: "sys_unlink tp f2 = (u, f3)" by fastforce
  have 1: "?m s (set_fs f1 s)" by (rule mstep_set_fs [OF masters.step_mkparents [OF m]])
  have 2: "?m s s2" unfolding s2_def
    by (rule mstep_trans [OF 1 mstep_set_fs]) (use transcode_audio_step [OF t assms(2,3)] in simp)
  have 3: "?m s (set_fs f3 (bump_errors s2))"
    by (rule mstep_trans [OF 2 mstep_trans [OF mstep_errors(1) mstep_set_fs]])
      (use masters.step_unlink [OF assms(3) u] in \<open>simp add: s2_def\<close>)
  have 4: "?m s s4" if "promote_finish E tc h a tp (Some lvl) s2 = (x, s4)" for x s4
    by (rule mstep_trans [OF 2 promote_finish_step [OF that assms(3)]])
  have 5: "?m s (bump_errors (set_fs f1 s))" "?m s (bump_errors s2)"
    by (rule mstep_trans [OF 1], simp, rule mstep_trans [OF 2], simp)
  have e: "promote_encode E tc h a tp s = (if m \<noteq> None then (-1, bump_errors (set_fs f1 s))
      else if trc \<noteq> 0 then (-1, set_fs f3 (bump_errors s2))
      else if fs_get f2 tp = None then (-1, bump_errors s2) else promote_finish E tc h a tp (Some lvl) s2)"
    using m t u by (simp add: promote_encode_def Let_def on_fs_def s2_def split: option.split)
  show ?thesis using assms(1) 3 4 5 unfolding e by (auto split: if_splits)
qed

lemma promote_step:
  assumes "promote_transcode E tc h s = (rc, s')" "encoder_ok (re_ffmpeg E)"
  shows "mstep (re_lib E) s s'"
  using assms promote_encode_step [OF _ assms(2)] promote_finish_step under_resident_ext under_resident_swap
  by (auto simp: promote_transcode_def Let_def split: option.splits if_splits)

lemma demote_step:
  assumes "demote_transcode E h s = (rc, s')"
  shows "mstep lib s s'"
proof -
  define s1 where "s1 = (case lookup_transcode_path (r_db s) h of None \<Rightarrow> s
    | Some p \<Rightarrow> snd (on_fs (sys_unlink p) s))"
  obtain b s2 where d: "on_db (upsert_residency_archive_clear_transcode h (re_now E)) s1 = (b, s2)" by fastforce
  have 1: "mstep lib s s1"
  proof (cases "lookup_transcode_path (r_db s) h")
    case (Some p)
    obtain u f where u: "sys_unlink p (r_fs s) = (u, f)" by fastforce
    with Some have s1: "s1 = set_fs f s" by (simp add: s1_def on_fs_def)
    show ?thesis
    proof (cases "tpaths_ok lib (r_db s)")
      case True
      from masters.step_unlink [OF tpath_lookup [OF True Some] u] show ?thesis by (simp add: s1 mstep_fs)
    qed (simp add: mstep_def)
  qed (simp add: s1_def)
  have 2: "mstep lib s1 s2" by (rule mstep_on_db [OF d]) (rule tpaths_statements(2))
  from assms d have "s' = (if b then s2 else bump_errors s2)"
    by (simp add: demote_transcode_def s1_def Let_def split: bool.splits)
  with mstep_trans [OF 1 2] mstep_trans mstep_errors(1) show ?thesis by metis
qed

text \<open>A rename below \<open>resident/\<close>.\<close>

lemma rename_step:
  assumes "sys_rename cur new s = (r, s')" "under_resident lib cur" "under_resident lib new"
  shows "masters.step lib s s'"
  using assms(1)
proof (cases rule: sys_rename_cases)
  case (ok s0 n)
  have cur: "fs_inode s' q = fs_inode s q" if "\<not> under_resident lib q" for q
  proof -
    from that assms(2,3) have "q \<noteq> new" "q \<noteq> cur" by auto
    with ok show ?thesis by (simp add: inode_del_node inode_put_node same_tree_get)
  qed
  have data: "file_data s' = file_data s" "fs_next s' = fs_next s"
    using ok by (simp_all add: same_tree_data) (simp add: same_tree_def)
  have new: "fs_inode s' new = fs_inode s cur" "fs_inode s' cur = None"
    using ok by (simp_all add: fs_inode_def get_del_node get_put_node)
  have "fs_wf s'" if "fs_wf s"
  proof -
    have "i < fs_next s" if "fs_inode s' q = Some i" for q i
    proof (cases "q = new \<or> q = cur")
      case True
      with that new \<open>fs_wf s\<close> show ?thesis by (auto simp: fs_wf_def)
    next
      case False
      with ok that have "fs_inode s q = Some i" by (simp add: inode_del_node inode_put_node same_tree_get)
      with \<open>fs_wf s\<close> show ?thesis by (simp add: fs_wf_def)
    qed
    with data show ?thesis by (simp add: fs_wf_def)
  qed
  moreover have "masters_kept lib s s'"
    unfolding masters_kept_def using cur data by (auto simp: fs_content_def)
  ultimately show ?thesis by (simp add: masters.step_def)
qed (simp_all add: masters.step_same)

lemma adopt_step:
  assumes "under_resident (re_lib E) x"
  shows "mstep (re_lib E) s (relocate_adopt E h a x s)"
proof -
  obtain b s1 where d: "on_db (update_transcode_path h x (file_size (r_fs s) x) (re_now E)) s = (b, s1)" by fastforce
  have 1: "mstep (re_lib E) s s1" by (rule mstep_on_db [OF d]) (rule tpaths_statements(4) [OF _ assms])
  have "mstep (re_lib E) s (covers a x s1)" "mstep (re_lib E) s (bump_errors s1)"
    using mstep_trans [OF 1] mstep_covers mstep_errors by blast+
  with d mstep_then show ?thesis by (auto simp: relocate_adopt_def Let_def split: bool.split)
qed

lemma relocate_to_step:
  assumes "under_resident (re_lib E) cur" "under_resident (re_lib E) x"
  shows "mstep (re_lib E) s (relocate_to E h a cur x s)"
proof (cases "fs_get (r_fs s) x = None")
  case True
  obtain m f1 where m: "mkparents x (r_fs s) = (m, f1)" by fastforce
  obtain r f2 where r: "sys_rename cur x f1 = (r, f2)" by fastforce
  have 1: "mstep (re_lib E) s (set_fs f1 s)" by (rule mstep_set_fs [OF masters.step_mkparents [OF m]])
  have 3: "mstep (re_lib E) s (set_fs f2 (set_fs f1 s))"
    by (rule mstep_trans [OF 1 mstep_set_fs]) (use rename_step [OF r assms] in simp)
  show ?thesis
    using True m r mstep_trans [OF 1 mstep_errors(1)] mstep_trans [OF 3 mstep_errors(1)]
      mstep_trans [OF 3 adopt_step [OF assms(2)]]
    by (simp add: relocate_to_def on_fs_def split: option.split)
next
  case False
  obtain u f1 where u: "sys_unlink cur (r_fs s) = (u, f1)" by fastforce
  have 1: "mstep (re_lib E) s (set_fs f1 s)" by (rule mstep_set_fs [OF masters.step_unlink [OF assms(1) u]])
  show ?thesis
    using False u mstep_trans [OF 1 mstep_errors(1)] mstep_trans [OF 1 adopt_step [OF assms(2)]]
    by (simp add: relocate_to_def on_fs_def split: option.split)
qed

lemma relocate_step: "mstep (re_lib E) s (relocate_one E h s)"
proof (cases "\<exists>a cur x. lookup_track_path (r_db s) h = Some a \<and> lookup_transcode_path (r_db s) h = Some cur \<and>
    expected_transcode (re_lib E) a cur = Some x")
  case True
  then obtain a cur x where x: "lookup_track_path (r_db s) h = Some a"
    "lookup_transcode_path (r_db s) h = Some cur" "expected_transcode (re_lib E) a cur = Some x" by blast
  from x(3) obtain base cur' e where "swap_segment (re_lib E) a ''archive'' ''resident'' = Some base"
    "swap_segment (re_lib E) cur ''resident'' ''resident'' = Some cur'" "x = path_with_ext base e"
    by (auto simp: expected_transcode_def bind_eq_Some_conv)
  then have "under_resident (re_lib E) x" "under_resident (re_lib E) cur"
    using under_resident_ext under_resident_swap by (auto simp: swap_segment_Some under_resident_iff)
  with x relocate_to_step show ?thesis by (simp add: relocate_one_def)
qed (auto simp: relocate_one_def split: option.splits)

lemma orphans_step: "mstep (re_lib E) s (remove_orphan_transcodes E s)"
proof -
  obtain f n where o: "remove_orphans_in (tree_depth (r_fs s)) (transcode_refs (r_db s) (r_fs s))
      (re_lib E @ ''/resident'') (r_fs s, ro_orphans s) = (f, n)" by fastforce
  have "masters.step (re_lib E) (r_fs s) f"
    by (rule masters.step_orphans [OF _ o]) (auto simp: under_resident_iff side_def)
  then have "mstep (re_lib E) s (set_fs f s)" by (rule mstep_set_fs)
  with o show ?thesis by (auto simp: remove_orphan_transcodes_def intro: mstep_then)
qed

text \<open>C24: In transcode mode a run of rotate leaves every file outside \<open>resident/\<close> as it was,
  whatever calls and statements fail, given that \<open>ffmpeg\<close> writes its output file only; and it keeps
  the transcode paths of the database below \<open>resident/\<close>, so the next run is covered too.\<close>

theorem rotate_keeps_masters:
  assumes "fs_wf (w_fs w)" and "tpaths_ok (re_lib E) (w_db w)" and "encoder_ok (re_ffmpeg E)"
    and "tc_enabled c"
  shows "tpaths_ok (re_lib E) (r_db (rotate_run_ex E (Some c) w)) \<and>
    (\<forall>p d. \<not> under_resident (re_lib E) p \<and> fs_content (w_fs w) p = Some d \<longrightarrow>
       fs_content (r_fs (rotate_run_ex E (Some c) w)) p = Some d)"
proof -
  let ?m = "mstep (re_lib E)"
  define s1 where "s1 = set_fs (ensure_resident_nomedia (re_lib E) (w_fs w)) (rotate_init w)"
  define M where "M = load_manifest (r_db s1)"
  obtain R s2 where R: "filter_resident_present True (load_resident (r_db s1)) s1 = (R, s2)" by fastforce
  define s2' where "s2' = relocate_transcodes E R s2"
  define s3 where "s3 = s2'\<lparr>ro_to_add := count_not_in R M, ro_to_remove := count_not_in M R\<rparr>"
  define s4 where "s4 = fold (add_one (rotate_adds E (Some c)) R) M s3"
  define s5 where "s5 = fold (remove_one (rotate_removes E (Some c)) M) R s4"
  define s5' where "s5' = remove_orphan_transcodes E s5"
  define s6 where "s6 = set_fs (prune_resident_tree (re_lib E) (r_fs s5')) s5'"
  define s7 where "s7 = backfill_covers E True s6"
  obtain b s8 where s8: "on_db (\<lambda>d. Some (set_meta ''last_rotation_at'' (re_now E) d)) s7 = (b, s8)" by fastforce
  have run: "rotate_run_ex E (Some c) w = s8"
    using assms(4) R s8 by (simp add: rotate_run_ex_def Let_def s1_def M_def s2'_def s3_def s4_def
        s5_def s5'_def s6_def s7_def rotate_init_def)
  have m1: "?m (rotate_init w) s1" unfolding s1_def
    by (rule mstep_set_fs) (simp add: masters.step_nomedia rotate_init_def)
  have m2: "?m s1 s2" using R by (auto simp: filter_resident_present_def Let_def intro: mstep_same)
  have m3: "?m s2 s3" unfolding s3_def s2'_def relocate_transcodes_def
    by (rule mstep_then [OF mstep_fold]) (simp_all add: relocate_step)
  have m4: "?m s3 s4" unfolding s4_def
    by (rule mstep_apply) (auto simp: rotate_adds_def intro: promote_step assms(3))
  have m5: "?m s4 s5" unfolding s5_def
    by (rule mstep_apply) (auto simp: rotate_removes_def intro: demote_step)
  have m6: "?m s5 s5'" unfolding s5'_def by (rule orphans_step)
  have m7: "?m s5' s6" unfolding s6_def
    by (rule mstep_set_fs, rule masters.step_prune_tree) (auto simp: under_resident_iff side_def)
  have m8: "?m s6 s7" unfolding s7_def
    by (rule mstep_fs) (simp_all add: masters.step_backfill backfill_db)
  have m9: "?m s7 s8" by (rule mstep_on_db [OF s8]) (auto simp: set_meta_def tpaths_ok_def)
  have "?m (rotate_init w) s8" using m1 m2 m3 m4 m5 m6 m7 m8 m9 by (metis mstep_trans)
  with assms(1,2) run show ?thesis by (auto simp: mstep_def masters_kept_def rotate_init_def)
qed

text \<open>An encoder that meets the contract: it creates its output where the directory exists.\<close>

definition touch_encoder :: "string list \<Rightarrow> fs \<Rightarrow> child_end \<times> fs" where
  "touch_encoder argv s = (case sys_create_excl (last argv) s of
     (None, s') \<Rightarrow> (Ended (Exited 0), s') | (Some e, s') \<Rightarrow> (Ended (Exited 1), s'))"

definition touch_env :: ffmpeg_env where
  "touch_env = \<lparr>fe_encode = touch_encoder, fe_analyse = \<lambda>argv s. None\<rparr>"

lemma touch_env_ok: "encoder_ok touch_env"
proof -
  have "fs_wf s' \<and> (\<forall>q. q \<noteq> last argv \<and> fs_content s q \<noteq> None \<longrightarrow> fs_content s' q = fs_content s q)"
    if "fs_wf s" "touch_encoder argv s = (e, s')" for argv s e s'
  proof -
    from that(2) have "\<exists>r. sys_create_excl (last argv) s = (r, s')"
      by (auto simp: touch_encoder_def split: prod.splits option.splits)
    then obtain r where c: "sys_create_excl (last argv) s = (r, s')" by blast
    have "files_kept s s' \<and> fs_wf s'"
      using c
    proof (cases rule: sys_create_excl_cases)
      case (ok s0)
      with fresh_grown grown_files fresh_wf same_tree_wf that(1) show ?thesis by metis
    qed (simp add: same_tree_files same_tree_wf that(1))
    then show ?thesis using files_kept_content by fastforce
  qed
  then show ?thesis by (auto simp: encoder_ok_def touch_env_def)
qed

theorem rotate_keeps_masters_witness:
  "fs_content (r_fs (rotate_run_ex (sample_env\<lparr>re_ffmpeg := touch_env\<rparr>)
     (Some \<lparr>tc_enabled = True, tc_format = Some ''opus'', tc_bitrate = 128, tc_level = -18\<rparr>) sample_world))
     ''/m/archive/a.flac'' = Some ''abc''"
proof -
  let ?c = "\<lparr>tc_enabled = True, tc_format = Some ''opus'', tc_bitrate = 128, tc_level = -18\<rparr>"
  have "\<not> under_resident ''/m'' ''/m/archive/a.flac''" by (simp add: under_resident_def)
  moreover have "tpaths_ok ''/m'' (w_db sample_world)"
    by (simp add: tpaths_ok_def sample_world_def empty_db_def)
  ultimately show ?thesis
    using rotate_keeps_masters [of sample_world "sample_env\<lparr>re_ffmpeg := touch_env\<rparr>" ?c]
      sample_fs_wf sample_content touch_env_ok
    by (simp add: sample_world_def sample_env_def)
qed

end
