(* ===== verification/RotateProps.thy ===== *)
theory RotateProps
  imports RotateSafe
begin

text \<open>
  What a run of \<open>rotate\<close> achieves: the residency table it leaves, the counts it reports, and what
  two of its recovery paths do and do not do. The operations of both modes share the contract
  \<open>residency_step\<close>, and the diff rests on the binary search being membership.
\<close>

section \<open>The binary search\<close>

lemma search_loop_correct:
  "sorted xs \<Longrightarrow> hi \<le> length xs \<Longrightarrow> search_loop xs h lo hi \<longleftrightarrow> (\<exists>i. lo \<le> i \<and> i < hi \<and> xs ! i = h)"
proof (induction xs h lo hi rule: search_loop.induct)
  case (1 xs h lo hi)
  define mid where "mid = (lo + hi) div 2"
  show ?case
  proof (cases "lo < hi")
    case True
    then have mid: "lo \<le> mid" "mid < hi" by (auto simp: mid_def)
    then have len: "mid < length xs" using "1.prems" by simp
    consider (eq) "xs ! mid = h" | (less) "xs ! mid < h" | (gr) "h < xs ! mid" by fastforce
    then show ?thesis
    proof cases
      case eq
      with mid True show ?thesis by (auto simp: search_loop.simps [of xs h lo hi] mid_def [symmetric] Let_def)
    next
      case less
      have "mid < i" if "i < hi" "xs ! i = h" for i
        using sorted_nth_mono [OF "1.prems"(1), of i mid] len less that by (metis leD linorder_not_less)
      then have "(\<exists>i. lo \<le> i \<and> i < hi \<and> xs ! i = h) \<longleftrightarrow> (\<exists>i. mid + 1 \<le> i \<and> i < hi \<and> xs ! i = h)"
        using mid(1) by (metis Suc_eq_plus1 Suc_le_eq le_less_trans less_imp_le)
      moreover have "search_loop xs h lo hi = search_loop xs h (mid + 1) hi"
        using less True by (auto simp add: search_loop.simps [of xs h lo hi] mid_def [symmetric] Let_def)
      ultimately show ?thesis using "1.IH"(1) [OF True mid_def] "1.prems" less by simp
    next
      case gr
      have "i < mid" if "lo \<le> i" "i < hi" "xs ! i = h" for i
        using sorted_nth_mono [OF "1.prems"(1), of mid i] "1.prems"(2) gr that
        by (metis leD linorder_not_less less_le_trans)
      then have "(\<exists>i. lo \<le> i \<and> i < hi \<and> xs ! i = h) \<longleftrightarrow> (\<exists>i. lo \<le> i \<and> i < mid \<and> xs ! i = h)"
        using mid(2) by (metis less_trans)
      moreover have "search_loop xs h lo hi = search_loop xs h lo mid"
        using gr True by (auto simp add: search_loop.simps [of xs h lo hi] mid_def [symmetric] Let_def)
      ultimately show ?thesis using "1.IH"(2) [OF True mid_def] "1.prems" gr mid by simp
    qed
  qed (simp add: search_loop.simps)
qed

lemma sorted_filter_plain: "sorted xs \<Longrightarrow> sorted (filter P xs)"
  using sorted_filter [of id xs P] by simp

lemma set_contains_iff: "sorted xs \<Longrightarrow> set_contains xs h \<longleftrightarrow> h \<in> set xs"
  by (simp add: set_contains_def search_loop_correct in_set_conv_nth)

section \<open>The location of a track\<close>

definition rloc :: "sha \<Rightarrow> db \<Rightarrow> location option" where
  "rloc h d = map_option rs_loc (find_residency h d)"

lemma rloc_put:
  assumes "on_db (put_residency r f) s = (b, s')"
    and "\<And>x. rs_sha (f x) = rs_sha x" and "\<And>x. rs_loc (f x) = rs_loc r"
  shows "(g \<noteq> rs_sha r \<longrightarrow> rloc g (r_db s') = rloc g (r_db s)) \<and>
    (b \<longrightarrow> rloc (rs_sha r) (r_db s') = Some (rs_loc r))"
  using assms(1)
proof (cases rule: on_db_cases)
  case (ok q d)
  then have d: "residency_state d = upsert rs_sha (\<lambda>old new. f old) r (residency_state (r_db s))"
    by (auto simp: put_residency_def split: if_splits)
  have "find_residency g d = (if g = rs_sha r
      then Some (case find_residency g (r_db s) of None \<Rightarrow> r | Some x \<Rightarrow> f x) else find_residency g (r_db s))" for g
    unfolding find_residency_def d by (rule find_row_upsert) (rule assms(2))
  with ok assms(3) show ?thesis by (auto simp: rloc_def split: option.split)
qed simp

lemma rloc_statements:
  "on_db (upsert_residency h loc now) s = (b, s') \<Longrightarrow>
     (g \<noteq> h \<longrightarrow> rloc g (r_db s') = rloc g (r_db s)) \<and> (b \<longrightarrow> rloc h (r_db s') = Some loc)"
  "on_db (upsert_residency_transcode h now p n fmt lvl) s = (b, s') \<Longrightarrow>
     (g \<noteq> h \<longrightarrow> rloc g (r_db s') = rloc g (r_db s)) \<and> (b \<longrightarrow> rloc h (r_db s') = Some Resident)"
  "on_db (upsert_residency_archive_clear_transcode h now) s = (b, s') \<Longrightarrow>
     (g \<noteq> h \<longrightarrow> rloc g (r_db s') = rloc g (r_db s)) \<and> (b \<longrightarrow> rloc h (r_db s') = Some Archive)"
  unfolding upsert_residency_def upsert_residency_transcode_def
    upsert_residency_archive_clear_transcode_def Let_def
  by (drule rloc_put [where g = g]; simp)+

lemma rloc_relocate:
  assumes "on_db (update_transcode_path h p n now) s = (b, s')"
  shows "rloc g (r_db s') = rloc g (r_db s)"
  using assms
proof (cases rule: on_db_cases)
  case (ok q d)
  have "find_residency g d = map_option (\<lambda>r. if rs_sha r = h
      then r\<lparr>rs_tpath := Some p, rs_tsize := Some n, rs_updated := now\<rparr> else r) (find_residency g (r_db s))"
    using ok(2) by (auto simp: update_transcode_path_def find_residency_def intro!: find_row_map_upd)
  with ok show ?thesis by (auto simp: rloc_def option.map_comp o_def intro!: option.map_cong)
qed simp

lemma update_path_rloc:
  "track_repo_update_path h p now w = (rc, w') \<Longrightarrow> rloc g (w_db w') = rloc g (w_db w)"
  by (auto simp: track_repo_update_path_def rloc_def find_residency_def update_track_def Let_def
      split: prod.splits if_splits elim!: sql_exec_cases)

section \<open>The contract of the four operations\<close>

text \<open>What a run has dealt with less what it set out to do, as its counters tell.\<close>

definition handled :: "rstate \<Rightarrow> int" where
  "handled s = ro_added s + ro_removed s + ro_already s"

definition balance :: "rstate \<Rightarrow> int" where
  "balance s = handled s - (ro_to_add s + ro_to_remove s)"

text \<open>
  An operation on one track: it never takes an error back, leaves the other tracks where they are,
  and where it counts no error its track is at the target and reported once.
\<close>

locale residency_step =
  fixes move :: "sha \<Rightarrow> rstate \<Rightarrow> int \<times> rstate" and target :: location
  assumes op_errors: "move h s = (rc, s') \<Longrightarrow> ro_errors s \<le> ro_errors s'"
    and op_frame: "move h s = (rc, s') \<Longrightarrow> g \<noteq> h \<Longrightarrow> rloc g (r_db s') = rloc g (r_db s)"
    and op_done: "move h s = (rc, s') \<Longrightarrow> ro_errors s' = ro_errors s \<Longrightarrow> rloc h (r_db s') = Some target"
    and op_counts: "move h s = (rc, s') \<Longrightarrow> ro_errors s' = ro_errors s \<Longrightarrow>
       rc = 0 \<and> balance s' = balance s \<or> rc = 1 \<and> balance s' = balance s + 1"
begin

text \<open>One iteration of either loop, with the tracks it passes over.\<close>

definition one_ok :: "(sha \<Rightarrow> bool) \<Rightarrow> (sha \<Rightarrow> rstate \<Rightarrow> rstate) \<Rightarrow> bool" where
  "one_ok skip f \<longleftrightarrow> (\<forall>h s. ro_errors s \<le> ro_errors (f h s) \<and> (skip h \<longrightarrow> f h s = s) \<and>
     (\<forall>g. g \<noteq> h \<longrightarrow> rloc g (r_db (f h s)) = rloc g (r_db s)) \<and>
     (\<not> skip h \<and> ro_errors (f h s) = ro_errors s \<longrightarrow>
        rloc h (r_db (f h s)) = Some target \<and> balance (f h s) = balance s + 1))"

lemma add_one_ok: "one_ok (set_contains xs) (add_one move xs)"
  unfolding one_ok_def
proof (intro allI)
  fix h s
  obtain rc s' where a: "move h s = (rc, s')" by fastforce
  show "ro_errors s \<le> ro_errors (add_one move xs h s) \<and> (set_contains xs h \<longrightarrow> add_one move xs h s = s) \<and>
     (\<forall>g. g \<noteq> h \<longrightarrow> rloc g (r_db (add_one move xs h s)) = rloc g (r_db s)) \<and>
     (\<not> set_contains xs h \<and> ro_errors (add_one move xs h s) = ro_errors s \<longrightarrow>
        rloc h (r_db (add_one move xs h s)) = Some target \<and> balance (add_one move xs h s) = balance s + 1)"
    using op_errors [OF a] op_frame [OF a] op_done [OF a] op_counts [OF a] a
    by (auto simp: add_one_def balance_def handled_def)
qed

lemma remove_one_ok: "one_ok (set_contains xs) (remove_one move xs)"
  unfolding one_ok_def
proof (intro allI)
  fix h s
  obtain rc s' where a: "move h s = (rc, s')" by fastforce
  show "ro_errors s \<le> ro_errors (remove_one move xs h s) \<and> (set_contains xs h \<longrightarrow> remove_one move xs h s = s) \<and>
     (\<forall>g. g \<noteq> h \<longrightarrow> rloc g (r_db (remove_one move xs h s)) = rloc g (r_db s)) \<and>
     (\<not> set_contains xs h \<and> ro_errors (remove_one move xs h s) = ro_errors s \<longrightarrow>
        rloc h (r_db (remove_one move xs h s)) = Some target \<and> balance (remove_one move xs h s) = balance s + 1)"
    using op_errors [OF a] op_frame [OF a] op_done [OF a] op_counts [OF a] a
    by (auto simp: remove_one_def balance_def handled_def)
qed

lemma loop_errors: "one_ok skip f \<Longrightarrow> ro_errors s \<le> ro_errors (fold f xs s)"
  by (induction xs arbitrary: s) (auto simp: one_ok_def intro: order_trans)

lemma loop_ok:
  assumes "one_ok skip f" "ro_errors (fold f xs s) = ro_errors s"
  shows "rloc g (r_db (fold f xs s)) =
      (if g \<in> set xs \<and> \<not> skip g then Some target else rloc g (r_db s)) \<and>
    balance (fold f xs s) = balance s + int (length (filter (\<lambda>h. \<not> skip h) xs))"
  using assms(2)
proof (induction xs arbitrary: s)
  case (Cons x xs)
  from assms(1) have one: "ro_errors s \<le> ro_errors (f x s)" "skip x \<longrightarrow> f x s = s"
    "\<forall>g. g \<noteq> x \<longrightarrow> rloc g (r_db (f x s)) = rloc g (r_db s)"
    "\<not> skip x \<and> ro_errors (f x s) = ro_errors s \<longrightarrow>
       rloc x (r_db (f x s)) = Some target \<and> balance (f x s) = balance s + 1"
    unfolding one_ok_def by blast+
  have "ro_errors (f x s) = ro_errors s"
    using one(1) loop_errors [OF assms(1), of "f x s" xs] Cons.prems by simp
  with Cons.IH [of "f x s"] Cons.prems one show ?case by auto
qed simp

end

text \<open>The operations of \<open>rotate.c\<close> keep the contract.\<close>

definition moved_ok :: "sha \<Rightarrow> location \<Rightarrow> rstate \<Rightarrow> int \<Rightarrow> rstate \<Rightarrow> bool" where
  "moved_ok h target s rc s' \<longleftrightarrow> ro_errors s \<le> ro_errors s' \<and>
     (\<forall>g. g \<noteq> h \<longrightarrow> rloc g (r_db s') = rloc g (r_db s)) \<and>
     (ro_errors s' = ro_errors s \<longrightarrow> rloc h (r_db s') = Some target \<and>
        (rc = 0 \<and> balance s' = balance s \<or> rc = 1 \<and> balance s' = balance s + 1))"

lemma balance_simps [simp]:
  "balance (set_fs f s) = balance s" "balance (bump_errors s) = balance s"
  "balance (bump_already s) = balance s + 1" "balance (covers a r s) = balance s"
  "balance (s\<lparr>ro_fallback := n\<rparr>) = balance s" "balance (s\<lparr>ro_w := w\<rparr>) = balance s"
  by (simp_all add: balance_def handled_def set_fs_def bump_errors_def bump_already_def covers_def)

lemma handled_simps [simp]:
  "handled (set_fs f s) = handled s" "handled (bump_errors s) = handled s"
  "handled (covers a r s) = handled s" "handled (s\<lparr>ro_relocated := n\<rparr>) = handled s"
  by (simp_all add: handled_def set_fs_def bump_errors_def covers_def)

lemma moved_ok_error: "moved_ok h target s rc (bump_errors s)"
  by (simp add: moved_ok_def)

lemma on_db_counts:
  "on_db f s = (b, s') \<Longrightarrow> balance s' = balance s \<and> handled s' = handled s \<and> ro_errors s' = ro_errors s"
  by (elim on_db_cases) (simp_all add: balance_def handled_def)

lemma promote_finish_ok:
  "promote_finish E tc h a tp lvl s = (rc, s') \<Longrightarrow> moved_ok h Resident s rc s'"
  by (auto simp: promote_finish_def moved_ok_def Let_def split: prod.splits bool.splits if_splits
      dest: rloc_statements(2) on_db_counts)

lemma moved_ok_from:
  "moved_ok h target s1 rc s' \<Longrightarrow> r_db s1 = r_db s \<Longrightarrow> balance s1 = balance s \<Longrightarrow> ro_errors s1 = ro_errors s \<Longrightarrow>
   moved_ok h target s rc s'"
  by (simp add: moved_ok_def)

lemma promote_encode_ok:
  assumes "promote_encode E tc h a tp s = (rc, s')" shows "moved_ok h Resident s rc s'"
proof -
  have fin: "moved_ok h Resident s rc s'" if "promote_finish E tc h a tp lvl (set_fs f (set_fs g s)) = (rc, s')" for lvl f g
    by (rule moved_ok_from [OF promote_finish_ok [OF that]]) simp_all
  have err: "moved_ok h Resident s rc' (set_fs f (bump_errors (set_fs f' (set_fs g s))))"
    "moved_ok h Resident s rc' (bump_errors (set_fs f' (set_fs g s)))"
    "moved_ok h Resident s rc' (bump_errors (set_fs g s))" for rc' f f' g
    by (simp_all add: moved_ok_def)
  from assms show ?thesis
    by (auto simp: promote_encode_def on_fs_def Let_def split: prod.splits option.splits if_splits
        intro: fin err)
qed

lemma move_record_ok:
  "move_record E h cur new target s = s' \<Longrightarrow> moved_ok h target s 0 s'"
proof -
  assume s': "move_record E h cur new target s = s'"
  obtain rc w where u: "track_repo_update_path h new (re_now E) (ro_w s) = (rc, w)" by fastforce
  define s1 where "s1 = (if rc \<noteq> 0 then bump_errors (s\<lparr>ro_w := w\<rparr>) else s\<lparr>ro_w := w\<rparr>)"
  obtain ok s2 where d: "on_db (upsert_residency h target (re_now E)) s1 = (ok, s2)" by fastforce
  define s3 where "s3 = (if ok then s2 else bump_errors s2)"
  have "s' = (if target = Resident then covers cur new s3 else s3)"
    by (simp add: s' [symmetric] move_record_def u d s1_def [symmetric] s3_def Let_def)
  moreover have "rloc g (r_db s1) = rloc g (r_db s)" for g
    using update_path_rloc [OF u] by (simp add: s1_def)
  ultimately show ?thesis
    using rloc_statements(1) [OF d] on_db_counts [OF d]
    by (auto simp: moved_ok_def s3_def s1_def split: if_splits)
qed

lemma unlink_moved_simps [simp]:
  "r_db (unlink_moved cur s) = r_db s" "balance (unlink_moved cur s) = balance s"
  "ro_errors s \<le> ro_errors (unlink_moved cur s)"
  by (auto simp: unlink_moved_def on_fs_def split: prod.splits option.splits)

text \<open>An operation that ran some steps before \<open>move_record\<close>.\<close>

lemma moved_ok_record:
  assumes "r_db s1 = r_db s" "ro_errors s \<le> ro_errors s1"
    and "rc = 0 \<and> balance s1 = balance s \<or> rc = 1 \<and> balance s1 = balance s + 1"
  shows "moved_ok h target s rc (move_record E h cur new target s1)"
  using move_record_ok [of E h cur new target s1, OF refl] assms by (auto simp: moved_ok_def)

lemma move_file_ok:
  assumes "move_file E h cur new target s = (rc, s')" shows "moved_ok h target s rc s'"
proof -
  have err: "moved_ok h target s rc' (bump_errors (set_fs f (set_fs g s)))"
    "moved_ok h target s rc' (bump_errors (set_fs f' (set_fs f (set_fs g s))))"
    "moved_ok h target s rc' (bump_errors (set_fs g s))" for rc' f f' g
    by (simp_all add: moved_ok_def)
  from assms show ?thesis
    by (auto simp: move_file_def on_fs_def Let_def split: prod.splits option.splits if_splits bool.splits
        intro!: err moved_ok_record intro: order_trans [OF _ unlink_moved_simps(3)])
qed

lemma move_one_ok:
  assumes "move_one E h from to target s = (rc, s')" shows "moved_ok h target s rc s'"
proof (cases "lookup_track_path (r_db s) h")
  case None
  with assms show ?thesis by (auto simp: move_one_def moved_ok_error)
next
  case (Some cur)
  show ?thesis
  proof (cases "swap_segment (re_lib E) cur from to")
    case None
    obtain b s1 where d: "on_db (upsert_residency h target (re_now E)) s = (b, s1)" by fastforce
    with None Some assms rloc_statements(1) [OF d] on_db_counts [OF d] show ?thesis
      by (auto simp: move_one_def moved_ok_def split: if_splits bool.splits)
  next
    case (Some new)
    with \<open>lookup_track_path (r_db s) h = Some cur\<close> assms show ?thesis
      by (simp add: move_one_def move_file_ok)
  qed
qed

interpretation adds: residency_step "rotate_adds E tc" Resident for E tc
proof -
  have moved: "moved_ok h Resident s rc s'" if "rotate_adds E tc h s = (rc, s')" for h s rc s'
  proof (cases tc)
    case (Some c)
    with that show ?thesis
      by (auto simp: rotate_adds_def promote_transcode_def Let_def moved_ok_error
          split: option.splits if_splits intro: promote_finish_ok promote_encode_ok)
  next
    case None
    with that show ?thesis by (simp add: rotate_adds_def move_one_ok)
  qed
  show "residency_step (rotate_adds E tc) Resident"
    by unfold_locales (use moved in \<open>auto simp: moved_ok_def\<close>)
qed

interpretation removes: residency_step "rotate_removes E tc" Archive for E tc
proof -
  have moved: "moved_ok h Archive s rc s'" if r: "rotate_removes E tc h s = (rc, s')" for h s rc s'
  proof (cases tc)
    case (Some c)
    define s1 where "s1 = (case lookup_transcode_path (r_db s) h of None \<Rightarrow> s
      | Some p \<Rightarrow> snd (on_fs (sys_unlink p) s))"
    have s1: "r_db s1 = r_db s" "balance s1 = balance s" "ro_errors s1 = ro_errors s"
      by (auto simp: s1_def on_fs_def split: option.split prod.split)
    obtain b s2 where d: "on_db (upsert_residency_archive_clear_transcode h (re_now E)) s1 = (b, s2)" by fastforce
    from r Some d have "rc = (if b then 0 else -1)" "s' = (if b then s2 else bump_errors s2)"
      by (auto simp: rotate_removes_def demote_transcode_def s1_def Let_def split: bool.splits)
    with rloc_statements(3) [OF d] on_db_counts [OF d] s1 show ?thesis
      by (auto simp: moved_ok_def)
  next
    case None
    with r show ?thesis by (simp add: rotate_removes_def move_one_ok)
  qed
  show "residency_step (rotate_removes E tc) Archive"
    by unfold_locales (use moved in \<open>auto simp: moved_ok_def\<close>)
qed

section \<open>The run\<close>

lemma resident_iff: "db_ok d \<Longrightarrow> h \<in> set (load_resident d) \<longleftrightarrow> rloc h d = Some Resident"
proof -
  assume "db_ok d"
  then have "distinct (map rs_sha (residency_state d))" by (simp add: db_ok_def)
  then have "find_residency h d = Some r \<longleftrightarrow> r \<in> set (residency_state d) \<and> rs_sha r = h" for r
    unfolding find_residency_def using find_row_in find_row_SomeD by metis
  then show ?thesis by (auto simp: load_resident_def rloc_def)
qed

lemma relocate_rest:
  "rloc g (r_db (relocate_one E h s)) = rloc g (r_db s) \<and> handled (relocate_one E h s) = handled s \<and>
   ro_errors s \<le> ro_errors (relocate_one E h s)"
proof -
  have adopt: "rloc g (r_db (relocate_adopt E h a x s)) = rloc g (r_db s) \<and>
      handled (relocate_adopt E h a x s) = handled s \<and> ro_errors s \<le> ro_errors (relocate_adopt E h a x s)" for a x s
  proof -
    obtain b s1 where d: "on_db (update_transcode_path h x (file_size (r_fs s) x) (re_now E)) s = (b, s1)" by fastforce
    with d rloc_relocate [OF d] on_db_counts [OF d] show ?thesis
      by (auto simp: relocate_adopt_def Let_def split: bool.split)
  qed
  show ?thesis
    using adopt [of _ _ "set_fs _ s"] adopt [of _ _ "set_fs _ (set_fs _ s)"]
    by (auto simp: relocate_one_def relocate_to_def on_fs_def split: option.split prod.split)
qed

lemma relocates_rest:
  "rloc g (r_db (relocate_transcodes E xs s)) = rloc g (r_db s) \<and>
   handled (relocate_transcodes E xs s) = handled s \<and> ro_errors s \<le> ro_errors (relocate_transcodes E xs s)"
  unfolding relocate_transcodes_def
proof (induction xs arbitrary: s)
  case (Cons x xs)
  from Cons.IH [of "relocate_one E x s"] relocate_rest [of g E x s] show ?case by auto
qed simp

lemma backfill_rest:
  "balance (backfill_covers E t s) = balance s \<and> ro_errors (backfill_covers E t s) = ro_errors s"
proof -
  have "balance (backfill_one E t x s) = balance s \<and> ro_errors (backfill_one E t x s) = ro_errors s" for x s
    by (cases x) (simp add: backfill_one_def split: option.split)
  then have "balance (fold (backfill_one E t) xs s) = balance s \<and> ro_errors (fold (backfill_one E t) xs s) = ro_errors s" for xs
    by (induction xs arbitrary: s) auto
  then show ?thesis by (simp add: backfill_covers_def)
qed

lemma orphans_rest:
  "r_db (remove_orphan_transcodes E s) = r_db s" "ro_errors (remove_orphan_transcodes E s) = ro_errors s"
  "balance (remove_orphan_transcodes E s) = balance s"
  by (simp_all add: remove_orphan_transcodes_def balance_def handled_def set_fs_def split: prod.split)

definition effective_cfg :: "transcode_cfg option \<Rightarrow> transcode_cfg option" where
  "effective_cfg cfg = (case cfg of None \<Rightarrow> None | Some c \<Rightarrow> if tc_enabled c then Some c else None)"

text \<open>The resident rows whose audio a run finds on disk.\<close>

definition really_resident :: "rotate_env \<Rightarrow> transcode_cfg option \<Rightarrow> world \<Rightarrow> sha \<Rightarrow> bool" where
  "really_resident E cfg w h \<longleftrightarrow> rloc h (w_db w) = Some Resident \<and>
     audio_present (effective_cfg cfg \<noteq> None) (w_db w) (ensure_resident_nomedia (re_lib E) (w_fs w)) h"

text \<open>C23: A run of rotate that reports no error has made the residency table the manifest: a track
  is resident afterwards exactly when the manifest lists it, but for rows that were resident before,
  are not listed and had already lost their file, which stay; and every track the diff found to move
  is counted once as added, removed or already applied.\<close>

theorem rotate_clean_run:
  assumes ok: "db_ok (w_db w)" and clean: "ro_errors (rotate_run_ex E cfg w) = 0"
  shows "(rloc h (r_db (rotate_run_ex E cfg w)) = Some Resident \<longleftrightarrow>
      h \<in> mf_sha ` set (manifest_current (w_db w)) \<or>
      rloc h (w_db w) = Some Resident \<and> \<not> really_resident E cfg w h) \<and>
    ro_added (rotate_run_ex E cfg w) + ro_removed (rotate_run_ex E cfg w) + ro_already (rotate_run_ex E cfg w) =
      ro_to_add (rotate_run_ex E cfg w) + ro_to_remove (rotate_run_ex E cfg w)"
proof -
  define tc where "tc = effective_cfg cfg"
  define s1 where "s1 = set_fs (ensure_resident_nomedia (re_lib E) (w_fs w)) (rotate_init w)"
  define M where "M = load_manifest (w_db w)"
  define R where "R = filter (audio_present (tc \<noteq> None) (w_db w) (r_fs s1)) (load_resident (w_db w))"
  define s2 where "s2 = snd (filter_resident_present (tc \<noteq> None) (load_resident (w_db w)) s1)"
  define s3 where "s3 = (if tc \<noteq> None then relocate_transcodes E R s2 else s2)"
  define s4 where "s4 = s3\<lparr>ro_to_add := count_not_in R M, ro_to_remove := count_not_in M R\<rparr>"
  define s5 where "s5 = fold (add_one (rotate_adds E tc) R) M s4"
  define s6 where "s6 = fold (remove_one (rotate_removes E tc) M) R s5"
  define s7 where "s7 = (if tc \<noteq> None then remove_orphan_transcodes E s6 else s6)"
  define s8 where "s8 = set_fs (prune_resident_tree (re_lib E) (r_fs s7)) s7"
  define s9 where "s9 = backfill_covers E (tc \<noteq> None) s8"
  obtain b s10 where s10: "on_db (\<lambda>d. Some (set_meta ''last_rotation_at'' (re_now E) d)) s9 = (b, s10)" by fastforce
  have db1: "r_db s1 = w_db w" by (simp add: s1_def rotate_init_def)
  have split: "filter_resident_present (tc \<noteq> None) (load_resident (w_db w)) s1 = (R, s2)"
    by (simp add: s2_def R_def filter_resident_present_def Let_def db1)
  have run: "rotate_run_ex E cfg w = s10"
    using s10 split unfolding rotate_run_ex_def effective_cfg_def [symmetric] tc_def [symmetric]
    by (simp add: Let_def s1_def M_def s3_def s4_def s5_def s6_def s7_def s8_def s9_def rotate_init_def
        cong: if_cong)
  have b2: "r_db s2 = w_db w" "handled s2 = 0" "ro_errors s2 = 0"
    by (simp_all add: s2_def filter_resident_present_def Let_def s1_def rotate_init_def handled_def set_fs_def)
  have b3: "rloc g (r_db s3) = rloc g (w_db w)" "handled s3 = 0" "0 \<le> ro_errors s3" for g
    using relocates_rest [of g E R s2] b2 by (simp_all add: s3_def)
  have s4h: "handled s4 = handled s3" "r_db s4 = r_db s3" "ro_errors s4 = ro_errors s3"
    by (simp_all add: s4_def handled_def)
  have b4: "balance s4 = - (count_not_in R M + count_not_in M R)"
    using b3(2) s4h by (simp add: balance_def) (simp add: s4_def)
  have fin: "r_db s8 = r_db s6" "balance s9 = balance s6" "ro_errors s9 = ro_errors s6" "r_db s9 = r_db s6"
    using orphans_rest [of E s6] backfill_rest [of E "tc \<noteq> None" s8] backfill_db [of E "tc \<noteq> None" s8]
    by (simp_all add: s7_def s8_def s9_def)
  have e9: "balance s10 = balance s6" "ro_errors s10 = ro_errors s6" "rloc g (r_db s10) = rloc g (r_db s6)" for g
  proof -
    show "balance s10 = balance s6" "ro_errors s10 = ro_errors s6" using on_db_counts [OF s10] fin by simp_all
    from s10 have "rloc g (r_db s10) = rloc g (r_db s9)"
      by (cases rule: on_db_cases) (auto simp: rloc_def find_residency_def set_meta_def)
    with fin show "rloc g (r_db s10) = rloc g (r_db s6)" by simp
  qed
  have e: "ro_errors s5 = ro_errors s4" "ro_errors s6 = ro_errors s5"
    using adds.loop_errors [OF adds.add_one_ok, where s = s4 and xs = M, of E tc R]
      removes.loop_errors [OF removes.remove_one_ok, where s = s5 and xs = R, of E tc M]
      clean b3(3) s4h e9(2) unfolding run s5_def [symmetric] s6_def [symmetric] by simp_all
  note l5 = adds.loop_ok [OF adds.add_one_ok e(1) [unfolded s5_def], of h, folded s5_def]
  note l6 = removes.loop_ok [OF removes.remove_one_ok e(2) [unfolded s6_def], of h, folded s6_def]
  have M: "set_contains M g \<longleftrightarrow> g \<in> mf_sha ` set (manifest_current (w_db w))"
    and R: "set_contains R g \<longleftrightarrow> really_resident E cfg w g" for g
  proof -
    have "sorted M" by (simp add: M_def load_manifest_def)
    then show "set_contains M g \<longleftrightarrow> g \<in> mf_sha ` set (manifest_current (w_db w))"
      by (simp add: set_contains_iff) (simp add: M_def load_manifest_def)
    have "sorted R" by (simp add: R_def load_resident_def sorted_filter_plain)
    then show "set_contains R g \<longleftrightarrow> really_resident E cfg w g"
      using resident_iff [OF ok] by (simp add: set_contains_iff)
        (auto simp: R_def really_resident_def tc_def s1_def)
  qed
  have setM: "g \<in> set M \<longleftrightarrow> set_contains M g" and setR: "g \<in> set R \<longleftrightarrow> set_contains R g" for g
    by (simp_all add: set_contains_iff M_def load_manifest_def R_def load_resident_def sorted_filter_plain)
  have "rloc h (r_db s10) = (if set_contains R h \<and> \<not> set_contains M h then Some Archive
      else if set_contains M h \<and> \<not> set_contains R h then Some Resident else rloc h (w_db w))"
    using l5 l6 b3(1) s4h(2) e9(3) unfolding setM setR by simp
  moreover have "really_resident E cfg w h \<Longrightarrow> rloc h (w_db w) = Some Resident"
    by (simp add: really_resident_def)
  moreover have "balance s10 = 0"
    using l5 l6 b4 e9(1) by (simp add: count_not_in_def)
  ultimately show ?thesis unfolding run by (auto simp: M R balance_def handled_def)
qed

text \<open>A listed track whose file an earlier, interrupted run has already moved.\<close>

definition quiet_world :: world where
  "quiet_world = sample_world\<lparr>w_db := (w_db sample_world)\<lparr>tracks := [sample_track ''h'' ''/m/resident/a.flac'']\<rparr>,
     w_fs := \<lparr>fs_nodes = [], fs_data = [], fs_next = 0, fs_faults = []\<rparr>\<rparr>"

lemma quiet_db_ok: "db_ok (w_db quiet_world)"
  by (simp add: quiet_world_def sample_world_def db_ok_def empty_db_def sample_track_def track_shas_def)

lemma quiet_clean: "ro_errors (rotate_run_ex sample_env None quiet_world) = 0"
  by code_simp

theorem rotate_clean_run_witness:
  "rloc ''h'' (r_db (rotate_run_ex sample_env None quiet_world)) = Some Resident"
  using rotate_clean_run [OF quiet_db_ok quiet_clean, of "''h''"]
  by (simp add: quiet_world_def sample_world_def)

end
