(* ===== verification/Lock.thy ===== *)
theory Lock
  imports Emit
begin

text \<open>
  The PID lockfile of \<open>lock.c\<close>, as processes of one machine run it against the kernel: a step
  relation with one step for each system call of \<open>lock_acquire\<close> and \<open>lock_release\<close>. The kernel's state
  is the file the path names (an inode, or nothing), who holds the \<open>flock\<close> of each inode, and the bytes
  of each inode; \<open>flock\<close> is the descriptor's, so it survives the unlinking of the name.
\<close>

section \<open>Processes and the kernel\<close>

type_synonym pid = nat
type_synonym inode = nat

datatype pstate =
    Idle
  | Opened inode
  | Locked inode
  | Holding inode
  | Unlinked inode

record ksys =
  k_name :: "inode option"
  k_fresh :: inode
  k_flock :: "inode \<Rightarrow> pid option"
  k_bytes :: "inode \<Rightarrow> string"
  k_proc :: "pid \<Rightarrow> pstate"

definition k_init :: ksys where
  "k_init = \<lparr>k_name = None, k_fresh = 0, k_flock = (\<lambda>i. None), k_bytes = (\<lambda>i. []), k_proc = (\<lambda>p. Idle)\<rparr>"

text \<open>The pid in the file: \<open>strtol\<close>, 0 for no number or one out of range.\<close>

definition read_pid_best_effort :: "string \<Rightarrow> int" where
  "read_pid_best_effort bytes = (case strtoll (take 31 bytes) of
     None \<Rightarrow> 0
   | Some (v, rest) \<Rightarrow> if v \<le> 0 \<or> v > 0x7fffffff then 0 else v)"

definition set_proc :: "pid \<Rightarrow> pstate \<Rightarrow> ksys \<Rightarrow> ksys" where
  "set_proc p st s = s\<lparr>k_proc := (k_proc s)(p := st)\<rparr>"

text \<open>\<open>open(path, O_RDWR | O_CREAT)\<close>.\<close>

definition do_open :: "pid \<Rightarrow> ksys \<Rightarrow> ksys" where
  "do_open p s = (case k_name s of
     Some i \<Rightarrow> set_proc p (Opened i) s
   | None \<Rightarrow> set_proc p (Opened (k_fresh s))
       (s\<lparr>k_name := Some (k_fresh s), k_bytes := (k_bytes s)(k_fresh s := []), k_fresh := Suc (k_fresh s)\<rparr>))"

text \<open>\<open>flock(LOCK_EX | LOCK_NB)\<close>; a process that finds it taken closes the file and reports the pid it reads.\<close>

definition do_flock :: "pid \<Rightarrow> inode \<Rightarrow> ksys \<Rightarrow> ksys" where
  "do_flock p i s = (if k_flock s i = None
     then set_proc p (Locked i) (s\<lparr>k_flock := (k_flock s)(i := Some p)\<rparr>)
     else set_proc p Idle s)"

definition busy_pid :: "inode \<Rightarrow> ksys \<Rightarrow> int option" where
  "busy_pid i s = (if k_flock s i = None then None else Some (read_pid_best_effort (k_bytes s i)))"

text \<open>\<open>ftruncate\<close> and the best-effort \<open>write\<close>, which may be cut short after \<open>n\<close> bytes.\<close>

definition do_write :: "pid \<Rightarrow> inode \<Rightarrow> nat \<Rightarrow> ksys \<Rightarrow> ksys" where
  "do_write p i n s = set_proc p (Holding i)
     (s\<lparr>k_bytes := (k_bytes s)(i := take n (show_int (int p) @ [nl]))\<rparr>)"

definition do_close :: "pid \<Rightarrow> inode \<Rightarrow> ksys \<Rightarrow> ksys" where
  "do_close p i s = set_proc p Idle (s\<lparr>k_flock := (k_flock s)(i := None)\<rparr>)"

text \<open>\<open>unlink(path)\<close> removes whatever the path names now.\<close>

definition do_unlink :: "pid \<Rightarrow> inode \<Rightarrow> ksys \<Rightarrow> ksys" where
  "do_unlink p i s = set_proc p (Unlinked i) (s\<lparr>k_name := None\<rparr>)"

text \<open>
  The steps: \<open>acquire\<close> opens, locks and writes, \<open>release\<close> unlinks and closes; a failing \<open>ftruncate\<close>
  closes; a process may die anywhere, which closes its descriptors and unlinks nothing. The flag says
  whether the step is the unlink.
\<close>

inductive lstep :: "ksys \<Rightarrow> bool \<Rightarrow> ksys \<Rightarrow> bool" where
  acquire_open: "k_proc s p = Idle \<Longrightarrow> lstep s False (do_open p s)"
| acquire_flock: "k_proc s p = Opened i \<Longrightarrow> lstep s False (do_flock p i s)"
| acquire_write: "k_proc s p = Locked i \<Longrightarrow> lstep s False (do_write p i n s)"
| acquire_fails: "k_proc s p = Locked i \<Longrightarrow> lstep s False (do_close p i s)"
| release_unlink: "k_proc s p = Holding i \<Longrightarrow> lstep s True (do_unlink p i s)"
| release_close: "k_proc s p = Unlinked i \<Longrightarrow> lstep s False (do_close p i s)"
| dies_open: "k_proc s p = Opened i \<Longrightarrow> lstep s False (set_proc p Idle s)"
| dies_locked: "k_proc s p = Locked i \<or> k_proc s p = Holding i \<Longrightarrow> lstep s False (do_close p i s)"

inductive lreach :: "bool \<Rightarrow> ksys \<Rightarrow> bool" where
  init: "lreach u k_init"
| step: "lreach u s \<Longrightarrow> lstep s b s' \<Longrightarrow> b \<longrightarrow> u \<Longrightarrow> lreach u s'"

text \<open>Who holds the \<open>flock\<close> of an inode, and who has returned from \<open>lock_acquire\<close>.\<close>

fun owns :: "pstate \<Rightarrow> inode \<Rightarrow> bool" where
  "owns (Locked i) j = (i = j)"
| "owns (Holding i) j = (i = j)"
| "owns (Unlinked i) j = (i = j)"
| "owns _ j = False"

definition holder :: "ksys \<Rightarrow> pid \<Rightarrow> bool" where
  "holder s p \<longleftrightarrow> (\<exists>i. k_proc s p = Holding i)"

section \<open>Invariants\<close>

text \<open>The kernel's record of a lock and the processes agree.\<close>

definition flock_inv :: "ksys \<Rightarrow> bool" where
  "flock_inv s \<longleftrightarrow> (\<forall>p i. k_flock s i = Some p \<longleftrightarrow> owns (k_proc s p) i)"

lemma flock_invD: "flock_inv s \<Longrightarrow> k_flock s i = Some p \<longleftrightarrow> owns (k_proc s p) i"
  by (simp add: flock_inv_def)

lemma owns_unique: "flock_inv s \<Longrightarrow> owns (k_proc s p) i \<Longrightarrow> owns (k_proc s q) i \<Longrightarrow> p = q"
  by (metis flock_invD option.inject)

lemma owns_one: "owns st i \<Longrightarrow> owns st j \<Longrightarrow> i = j"
  by (cases st) auto

lemma close_inv: "flock_inv s \<Longrightarrow> owns (k_proc s p) i \<Longrightarrow> flock_inv (do_close p i s)"
  unfolding flock_inv_def by (auto simp: do_close_def set_proc_def) (metis owns_one option.inject)+

lemma lstep_flock_inv:
  assumes "lstep s b s'" "flock_inv s" shows "flock_inv s'"
  using assms
proof (cases rule: lstep.cases)
  case (acquire_open p)
  with assms(2) show ?thesis by (auto simp: flock_inv_def do_open_def set_proc_def split: option.split)
next
  case (acquire_flock p i)
  show ?thesis
  proof (cases "k_flock s i")
    case None
    with flock_invD [OF assms(2)] have "\<not> owns (k_proc s q) i" for q by (metis option.distinct(1))
    with None assms(2) acquire_flock show ?thesis by (auto simp: flock_inv_def do_flock_def set_proc_def)
  next
    case (Some q)
    with assms(2) acquire_flock show ?thesis by (auto simp: flock_inv_def do_flock_def set_proc_def)
  qed
next
  case (acquire_write p i n)
  with assms(2) show ?thesis by (auto simp: flock_inv_def do_write_def set_proc_def)
next
  case (acquire_fails p i)
  with assms(2) close_inv show ?thesis by simp
next
  case (release_unlink p i)
  with assms(2) show ?thesis by (auto simp: flock_inv_def do_unlink_def set_proc_def)
next
  case (release_close p i)
  with assms(2) close_inv show ?thesis by simp
next
  case (dies_open p i)
  with assms(2) show ?thesis by (auto simp: flock_inv_def set_proc_def)
next
  case (dies_locked p i)
  with assms(2) close_inv [of s p i] show ?thesis by auto
qed

lemma lreach_flock_inv: "lreach u s \<Longrightarrow> flock_inv s"
proof (induction rule: lreach.induct)
  case (init u)
  then show ?case by (simp add: flock_inv_def k_init_def)
next
  case (step u s b s')
  then show ?case by (rule_tac lstep_flock_inv)
qed

text \<open>While no process unlinks the file, every open descriptor is of the file the path names.\<close>

fun opened :: "pstate \<Rightarrow> inode option" where
  "opened Idle = None"
| "opened (Opened i) = Some i"
| "opened (Locked i) = Some i"
| "opened (Holding i) = Some i"
| "opened (Unlinked i) = Some i"

definition name_inv :: "ksys \<Rightarrow> bool" where
  "name_inv s \<longleftrightarrow> (\<forall>p. opened (k_proc s p) = None \<or> opened (k_proc s p) = k_name s)"

lemma lreach_name_inv: "lreach u s \<Longrightarrow> \<not> u \<Longrightarrow> name_inv s"
proof (induction rule: lreach.induct)
  case (init u)
  then show ?case by (simp add: name_inv_def k_init_def)
next
  case (step u s b s')
  then have inv: "opened (k_proc s p) = None \<or> opened (k_proc s p) = k_name s" for p by (simp add: name_inv_def)
  from step(2) show ?case
  proof (cases rule: lstep.cases)
    case (acquire_open p)
    with inv show ?thesis by (force simp: name_inv_def do_open_def set_proc_def split: option.split)
  next
    case (release_unlink p i)
    with step show ?thesis by simp
  qed (use inv in \<open>auto simp: name_inv_def do_flock_def do_write_def do_close_def set_proc_def split: if_splits;
      metis opened.simps option.distinct(1)\<close>)+
qed

section \<open>Properties\<close>

text \<open>C30: the lock excludes as far as the name is stable. No two processes that have returned from
  \<open>lock_acquire\<close> hold the same file; and while no holder has unlinked the lockfile (all of them died
  instead of releasing), there is at most one holder.\<close>

theorem lock_exclusive:
  assumes "lreach u s" "k_proc s p = Holding i" "k_proc s q = Holding j"
  shows "(i = j \<longrightarrow> p = q) \<and> (\<not> u \<longrightarrow> p = q)"
proof -
  have own: "owns (k_proc s p) i" "owns (k_proc s q) j" using assms(2,3) by simp_all
  have same: "p = q" if "i = j" using owns_unique [OF lreach_flock_inv [OF assms(1)]] own that by blast
  moreover have "i = j" if "\<not> u"
    using lreach_name_inv [OF assms(1) that] assms(2,3) unfolding name_inv_def
    by (metis opened.simps(4) option.distinct(1) option.inject)
  ultimately show ?thesis by blast
qed

text \<open>
  The run that breaks the exclusion: 2 opens the file while 1 holds it, 1 unlinks and closes, 2 locks
  the unlinked file, 3 creates and locks a new one. \<open>view\<close> computes the states of a run.
\<close>

definition race :: ksys where
  "race = do_write 3 1 9 (do_flock 3 1 (do_open 3 (do_write 2 0 9 (do_flock 2 0 (do_close 1 0 (do_unlink 1 0
     (do_open 2 (do_write 1 0 9 (do_flock 1 0 (do_open 1 k_init))))))))))"

definition view :: "ksys \<Rightarrow> inode option \<times> inode \<times> (inode \<Rightarrow> pid option) \<times> (pid \<Rightarrow> pstate)" where
  "view s = (k_name s, k_fresh s, k_flock s, k_proc s)"

lemma view_proc: "k_proc s = snd (snd (snd (view s)))"
  by (simp add: view_def)

lemma view_simps:
  "view k_init = (None, 0, (\<lambda>i. None), (\<lambda>p. Idle))"
  "view (do_open p s) = (case view s of (nm, fr, fl, pr) \<Rightarrow> (case nm of
      Some i \<Rightarrow> (nm, fr, fl, pr(p := Opened i)) | None \<Rightarrow> (Some fr, Suc fr, fl, pr(p := Opened fr))))"
  "view (do_flock p i s) = (case view s of (nm, fr, fl, pr) \<Rightarrow>
      if fl i = None then (nm, fr, fl(i := Some p), pr(p := Locked i)) else (nm, fr, fl, pr(p := Idle)))"
  "view (do_write p i n s) = (case view s of (nm, fr, fl, pr) \<Rightarrow> (nm, fr, fl, pr(p := Holding i)))"
  "view (do_unlink p i s) = (case view s of (nm, fr, fl, pr) \<Rightarrow> (None, fr, fl, pr(p := Unlinked i)))"
  "view (do_close p i s) = (case view s of (nm, fr, fl, pr) \<Rightarrow> (nm, fr, fl(i := None), pr(p := Idle)))"
  by (simp_all add: view_def k_init_def do_open_def do_flock_def do_write_def do_unlink_def do_close_def set_proc_def
      split: option.split)

lemmas run_steps = lreach.step [OF _ lstep.acquire_open] lreach.step [OF _ lstep.acquire_flock]
  lreach.step [OF _ lstep.acquire_write] lreach.step [OF _ lstep.release_unlink]
  lreach.step [OF _ lstep.release_close] lreach.init

lemma race_reached: "lreach True race"
  unfolding race_def by (intro run_steps) (simp_all add: view_proc view_simps)

text \<open>With a release in progress the lock does not exclude. Some run reaches a state in which two
  different processes have both returned from \<open>lock_acquire\<close> on the same path: one locked the file
  that the releasing process had already unlinked, the other the file created after it.\<close>

theorem lock_two_holders:
  "\<exists>s p q. lreach True s \<and> p \<noteq> q \<and> holder s p \<and> holder s q"
proof -
  have "holder race 2" "holder race 3"
    by (simp_all add: race_def holder_def view_proc view_simps)
  with race_reached show ?thesis by (intro exI [of _ race] exI [of _ 2] exI [of _ 3]) simp
qed

definition one_holder :: ksys where
  "one_holder = do_write 1 0 9 (do_flock 1 0 (do_open 1 k_init))"

lemma lock_exclusive_witness:
  "lreach False one_holder \<and> k_proc one_holder 1 = Holding 0 \<and> k_proc one_holder 2 \<noteq> Holding 0 \<and>
    k_proc one_holder 2 \<noteq> Holding 1"
proof -
  have r: "lreach False one_holder"
    unfolding one_holder_def by (intro run_steps) (simp_all add: view_proc view_simps)
  have h: "k_proc one_holder 1 = Holding 0" by (simp add: one_holder_def view_proc view_simps)
  have "k_proc one_holder 2 \<noteq> Holding j" for j
    using lock_exclusive [OF r h, of 2 j] by auto
  with r h show ?thesis by blast
qed

end
