(* ===== verification/AtomicIo.thy ===== *)
theory AtomicIo
  imports FsFacts Emit
begin

text \<open>
  The atomic file writes of \<open>atomic_io.c\<close>: \<open>atomic_write_file\<close> for a buffer, and the writer with a
  \<open>stdio\<close> stream that \<open>publish.c\<close> uses. \<open>ws\<close> schedules short writes: the next \<open>write\<close> of \<open>n\<close> bytes
  writes one more than its entry, at most \<open>n\<close>. A crash is a fault schedule whose calls all fail from
  some point on. Paths do not end in a slash; memory never runs out.
\<close>

definition make_tmp_path :: "nat \<Rightarrow> path \<Rightarrow> path" where
  "make_tmp_path pid p = p @ ''.tmp.'' @ show_int (int pid)"

text \<open>The results of opening and flushing the directory are not looked at.\<close>

definition fsync_parent_dir :: "path \<Rightarrow> fs \<Rightarrow> fs" where
  "fsync_parent_dir p s = (if length p \<ge> 4096 then s else snd (sys_fsync s))"

definition aio_ensure_parent_dir :: "path \<Rightarrow> fs \<Rightarrow> sysres \<times> fs" where
  "aio_ensure_parent_dir p s = (if length p \<ge> 4096 then (Some ENAMETOOLONG, s) else mkparents p s)"

lemma sys_write_faults:
  assumes "sys_write p bs s = (r, s')"
  shows "length (fs_faults s') \<le> length (fs_faults s)" "r \<noteq> None \<Longrightarrow> length (fs_faults s') < length (fs_faults s)"
  using assms by (auto simp: sys_write_def injected_def split: list.splits option.splits)

definition short_write :: "nat list \<Rightarrow> string \<Rightarrow> nat" where
  "short_write ws bs = (case ws of [] \<Rightarrow> length bs | w # _ \<Rightarrow> min (Suc w) (length bs))"

function write_loop :: "path \<Rightarrow> nat list \<Rightarrow> string \<Rightarrow> fs \<Rightarrow> sysres \<times> fs" where
  "write_loop p ws bs s = (if bs = [] then (None, s)
     else case sys_write p (take (short_write ws bs) bs) s of
       (None, s1) \<Rightarrow> write_loop p (tl ws) (drop (short_write ws bs) bs) s1
     | (Some e, s1) \<Rightarrow> if e = EINTR then write_loop p ws bs s1 else (Some e, s1))"
  by pat_completeness auto
termination
proof (relation "measure (\<lambda>(p, ws, bs, s). length bs + length (fs_faults s))", goal_cases)
  case (2 p ws bs s)
  have "0 < short_write ws bs" using 2(1) by (auto simp: short_write_def split: list.split)
  with 2 sys_write_faults(1) [OF 2(2) [symmetric]] show ?case by (cases bs) auto
next
  case (3 p ws bs s)
  with sys_write_faults(2) [OF 3(2) [symmetric]] show ?case by simp
qed simp

declare write_loop.simps [simp del]

definition atomic_write_file :: "nat \<Rightarrow> path \<Rightarrow> string \<Rightarrow> nat list \<Rightarrow> fs \<Rightarrow> sysres \<times> fs" where
  "atomic_write_file pid p bytes ws s = (case aio_ensure_parent_dir p s of
     (Some e, s) \<Rightarrow> (Some e, s)
   | (None, s) \<Rightarrow> let tmp = make_tmp_path pid p in
     (case sys_create_trunc tmp s of
       (Some e, s) \<Rightarrow> (Some e, s)
     | (None, s) \<Rightarrow> (case write_loop tmp ws bytes s of
         (Some e, s) \<Rightarrow> (Some e, snd (sys_unlink tmp s))
       | (None, s) \<Rightarrow> (case sys_fsync s of
           (Some e, s) \<Rightarrow> (Some e, snd (sys_unlink tmp s))
         | (None, s) \<Rightarrow> (case sys_rename tmp p s of
             (Some e, s) \<Rightarrow> (Some e, snd (sys_unlink tmp s))
           | (None, s) \<Rightarrow> (None, fsync_parent_dir p s))))))"

section \<open>The stream writer\<close>

text \<open>\<open>aw_buf\<close> is what the stream has not written yet; \<open>fwrite\<close> writes it out when it would exceed \<open>cap\<close>.\<close>

record atomic_writer =
  aw_final :: path
  aw_tmp :: path
  aw_buf :: string

definition atomic_writer_open :: "nat \<Rightarrow> path \<Rightarrow> fs \<Rightarrow> atomic_writer option \<times> fs" where
  "atomic_writer_open pid p s = (case aio_ensure_parent_dir p s of
     (Some e, s) \<Rightarrow> (None, s)
   | (None, s) \<Rightarrow> (case sys_create_trunc (make_tmp_path pid p) s of
       (Some e, s) \<Rightarrow> (None, s)
     | (None, s) \<Rightarrow> (Some \<lparr>aw_final = p, aw_tmp = make_tmp_path pid p, aw_buf = []\<rparr>, s)))"

definition stream_put :: "nat \<Rightarrow> string \<Rightarrow> atomic_writer \<Rightarrow> fs \<Rightarrow> bool \<times> atomic_writer \<times> fs" where
  "stream_put cap bs w s =
     (if length (aw_buf w @ bs) \<le> cap then (True, w\<lparr>aw_buf := aw_buf w @ bs\<rparr>, s)
      else case sys_write (aw_tmp w) (aw_buf w @ bs) s of (r, s) \<Rightarrow> (r = None, w\<lparr>aw_buf := []\<rparr>, s))"

text \<open>The result of \<open>fflush\<close> is not looked at.\<close>

definition atomic_writer_commit :: "atomic_writer \<Rightarrow> fs \<Rightarrow> sysres \<times> fs" where
  "atomic_writer_commit w s =
     (let s = (if aw_buf w = [] then s else snd (sys_write (aw_tmp w) (aw_buf w) s))
      in case sys_fsync s of
           (Some e, s) \<Rightarrow> (Some e, snd (sys_unlink (aw_tmp w) s))
         | (None, s) \<Rightarrow> (case sys_rename (aw_tmp w) (aw_final w) s of
             (Some e, s) \<Rightarrow> (Some e, snd (sys_unlink (aw_tmp w) s))
           | (None, s) \<Rightarrow> (None, fsync_parent_dir (aw_final w) s)))"

text \<open>\<open>fclose\<close> writes what is left; then the temporary file goes.\<close>

definition atomic_writer_abort :: "atomic_writer \<Rightarrow> fs \<Rightarrow> fs" where
  "atomic_writer_abort w s =
     (let s = (if aw_buf w = [] then s else snd (sys_write (aw_tmp w) (aw_buf w) s))
      in snd (sys_unlink (aw_tmp w) s))"

section \<open>Only the temporary file changes before the rename\<close>

definition others :: "path \<Rightarrow> fs \<Rightarrow> fs \<Rightarrow> bool" where
  "others t s s' \<longleftrightarrow> fs_wf s' \<and> (\<forall>q. q \<noteq> t \<longrightarrow> fs_inode s' q = fs_inode s q \<and> fs_content s' q = fs_content s q)"

text \<open>The file at \<open>t\<close>, if there is one, has no second name.\<close>

definition private_file :: "path \<Rightarrow> fs \<Rightarrow> bool" where
  "private_file t s \<longleftrightarrow> (\<forall>i q. fs_inode s t = Some i \<longrightarrow> q \<noteq> t \<longrightarrow> fs_inode s q \<noteq> Some i)"

lemma others_trans: "others t s s1 \<Longrightarrow> others t s1 s2 \<Longrightarrow> others t s s2"
  by (auto simp: others_def)

lemma others_same: "fs_wf s \<Longrightarrow> same_tree s s' \<Longrightarrow> others t s s'"
  by (simp add: others_def same_tree_wf same_tree_get)

lemma private_same: "same_tree s s' \<Longrightarrow> private_file t s' = private_file t s"
  by (simp add: private_file_def same_tree_get)

lemma tmp_neq: "make_tmp_path pid p \<noteq> p"
  by (simp add: make_tmp_path_def)

lemma unlink_others: "fs_wf s \<Longrightarrow> sys_unlink t s = (r, s') \<Longrightarrow> others t s s'"
  using sys_unlink_other [of t s r s'] by (auto simp: others_def fs_inode_def fs_content_def)

lemma parent_others:
  assumes "fs_wf s" "aio_ensure_parent_dir p s = (r, s')"
  shows "others t s s' \<and> (private_file t s \<longrightarrow> private_file t s')"
proof -
  have k: "files_kept s s' \<and> (\<forall>q. fs_inode s' q = fs_inode s q)"
    using assms(2) mkparents_files [of p s r s'] by (auto simp: aio_ensure_parent_dir_def split: if_splits)
  then have "fs_wf s'" using wf_inode_same assms(1) by (auto simp: files_kept_def)
  moreover have "fs_content s' q = fs_content s q" for q
  proof (cases "fs_inode s q")
    case None
    with k show ?thesis by (simp add: fs_content_def)
  next
    case (Some i)
    with k show ?thesis by (simp add: files_kept_def)
  qed
  ultimately show ?thesis using k by (simp add: others_def private_file_def)
qed

lemma mkdir_special: "mkdir_each ps s = (r, s') \<Longrightarrow> fs_get s' t = Some Special \<Longrightarrow> fs_get s t = Some Special"
proof (induction ps arbitrary: s)
  case (Cons p ps)
  obtain x s1 where m: "sys_mkdir p s = (x, s1)" by fastforce
  have "fs_get s1 t = Some Special \<Longrightarrow> fs_get s t = Some Special"
    using m by (elim sys_mkdir_cases) (auto simp: same_tree_get get_put_node split: if_splits)
  with Cons m show ?case by (auto split: option.splits if_splits)
qed simp

lemma parent_special: "aio_ensure_parent_dir p s = (r, s') \<Longrightarrow> fs_get s' t = Some Special \<Longrightarrow> fs_get s t = Some Special"
  using mkdir_special
  by (fastforce simp: aio_ensure_parent_dir_def mkparents_def paths_mkdir_p_def split: if_splits option.splits prod.splits)

lemma write_others:
  assumes "fs_wf s" "private_file t s" "sys_write t bs s = (r, s')"
  shows "others t s s' \<and> private_file t s' \<and> fs_inode s' t = fs_inode s t \<and>
    (\<forall>i. fs_inode s t = Some i \<longrightarrow> file_data s' i = file_data s i @ (if r = None then bs else []))"
proof (cases "fs_inode s t")
  case None
  with assms have "same_tree s s'" by (auto simp: sys_write_def same_tree_get elim!: injected_cases)
  with assms(1,2) None show ?thesis by (simp add: others_same private_same same_tree_get)
next
  case (Some i)
  with assms(3) show ?thesis
  proof (cases rule: sys_write_cases)
    case (fail e)
    with assms(1,2) show ?thesis by (simp add: others_same private_same same_tree_get same_tree_data)
  next
    case (ok s0)
    have get: "fs_inode s' = fs_inode s" "fs_next s' = fs_next s"
      using ok(2) by (simp_all add: ok(3) data_upd same_tree_get) (simp add: same_tree_def)
    have data: "file_data s' j = (if j = i then file_data s i @ bs else file_data s j)" for j
      using ok(2) by (simp add: ok(3) file_data_upd same_tree_data)
    have "fs_content s' q = fs_content s q" if "q \<noteq> t" for q
      using assms(2) Some that by (cases "fs_inode s q") (auto simp: fs_content_def get data private_file_def)
    with get data assms(1,2) Some ok(1) show ?thesis by (simp add: others_def fs_wf_def private_file_def)
  qed
qed

lemma write_loop_others:
  assumes "write_loop t ws bs s = (r, s')" "fs_wf s" "private_file t s"
  shows "others t s s' \<and> private_file t s' \<and> fs_inode s' t = fs_inode s t \<and>
    (\<forall>i. fs_inode s t = Some i \<longrightarrow> r = None \<longrightarrow> file_data s' i = file_data s i @ bs)"
  using assms
proof (induction t ws bs s rule: write_loop.induct)
  case (1 t ws bs s)
  show ?case
  proof (cases "bs = []")
    case True
    then have "write_loop t ws bs s = (None, s)" by (subst write_loop.simps) simp
    with 1(3-5) True show ?thesis by (simp add: others_same)
  next
    case False
    let ?n = "short_write ws bs"
    obtain x s1 where w: "sys_write t (take ?n bs) s = (x, s1)" by fastforce
    note W = write_others [OF 1(4,5) w]
    then have wf: "fs_wf s1" "private_file t s1" by (auto simp: others_def)
    show ?thesis
    proof (cases x)
      case None
      with 1(3) w False have l: "write_loop t (tl ws) (drop ?n bs) s1 = (r, s')" by (simp add: write_loop.simps [of t ws bs s])
      from 1(1) [OF False w [symmetric] None l wf] None W show ?thesis
        by (auto intro: others_trans)
    next
      case (Some e)
      show ?thesis
      proof (cases "e = EINTR")
        case True
        with 1(3) w False Some have l: "write_loop t ws bs s1 = (r, s')" by (simp add: write_loop.simps [of t ws bs s])
        from 1(2) [OF False w [symmetric] Some True l wf] W Some show ?thesis by (auto intro: others_trans)
      next
        case ne: False
        with 1(3) w False Some have "r = Some e" "s' = s1" by (simp_all add: write_loop.simps [of t ws bs s])
        with W Some show ?thesis by auto
      qed
    qed
  qed
qed

lemma create_trunc_others:
  assumes "fs_wf s" "private_file t s" "fs_get s t \<noteq> Some Special" "sys_create_trunc t s = (r, s')"
  shows "others t s s' \<and> private_file t s' \<and> (r = None \<longrightarrow> (\<exists>i. fs_inode s' t = Some i \<and> file_data s' i = []))"
  using assms(4) [unfolded sys_create_trunc_def]
proof (cases rule: injected_cases)
  case (fault e)
  with assms(1,2) show ?thesis by (simp add: others_same private_same)
next
  case (run s0)
  have wf: "fs_wf s0" and priv: "private_file t s0" using run(1) assms(1,2) by (simp_all add: same_tree_wf private_same)
  have o0: "others t s s0" using others_same [OF assms(1) run(1)] .
  consider (dir) "fs_get s0 t = Some Dir" | (reg) i where "fs_get s0 t = Some (Reg i)" | (none) "fs_get s0 t = None"
    using assms(3) run(1) by (metis node.exhaust not_None_eq same_tree_get(1))
  then show ?thesis
  proof cases
    case dir
    with run o0 priv show ?thesis by auto
  next
    case reg
    then have i: "fs_inode s0 t = Some i" by (simp add: fs_inode_def)
    from run(2) reg have s': "r = None" "s' = s0\<lparr>fs_data := AList.update i [] (fs_data s0)\<rparr>" by simp_all
    have get: "fs_inode s' = fs_inode s0" "fs_next s' = fs_next s0" by (simp_all add: s' data_upd)
    have "fs_content s' q = fs_content s0 q" if "q \<noteq> t" for q
      using priv i that by (cases "fs_inode s0 q") (auto simp: fs_content_def s'(2) data_upd file_data_upd private_file_def)
    with get wf have "others t s0 s'" by (simp add: others_def fs_wf_def)
    with others_trans [OF o0] priv get i show ?thesis by (auto simp: s'(2) private_file_def file_data_upd data_upd)
  next
    case none
    show ?thesis
    proof (cases "parent_ok s0 t")
      case False
      with run(2) none o0 priv show ?thesis by auto
    next
      case True
      with run(2) none have s': "r = None" "s' = fresh_file t s0" by (simp_all add: fresh_file_def)
      have old: "fs_inode s0 q = Some i \<Longrightarrow> i \<noteq> fs_next s0" for q i using wf by (auto simp: fs_wf_def)
      have "fs_content s' q = fs_content s0 q" if "q \<noteq> t" for q
        using old [of q] that by (cases "fs_inode s0 q") (auto simp: s' fs_content_def inode_fresh data_fresh)
      with fresh_wf [OF wf] have "others t s0 s'" by (simp add: others_def s' inode_fresh)
      with others_trans [OF o0] old show ?thesis by (auto simp: s' private_file_def inode_fresh data_fresh)
    qed
  qed
qed

section \<open>Old or new\<close>

text \<open>What a file write has done when it returns: on success the file is \<open>bytes\<close>, else it is as before.\<close>

definition replaced :: "path \<Rightarrow> path \<Rightarrow> string \<Rightarrow> fs \<Rightarrow> sysres \<Rightarrow> fs \<Rightarrow> bool" where
  "replaced t p bytes s r s' \<longleftrightarrow> (if r = None then fs_content s' p = Some bytes else fs_content s' p = fs_content s p) \<and>
     (\<forall>q. q \<noteq> p \<longrightarrow> q \<noteq> t \<longrightarrow> fs_content s' q = fs_content s q)"

lemma failed_replaced: "others t s s' \<Longrightarrow> t \<noteq> p \<Longrightarrow> replaced t p bytes s (Some e) s'"
  by (simp add: replaced_def others_def)

lemma failed_unlink:
  assumes "others t s s1" "t \<noteq> p" "fs_wf s1" shows "replaced t p bytes s (Some e) (snd (sys_unlink t s1))"
proof -
  obtain r s2 where "sys_unlink t s1 = (r, s2)" by fastforce
  with failed_replaced [OF others_trans [OF assms(1) unlink_others [OF assms(3)]] assms(2)] show ?thesis by fastforce
qed

lemma rename_replaced:
  assumes wf: "fs_wf s" and o: "others t s s1" and i: "fs_inode s1 t = Some i" and priv: "private_file t s1" and tp: "t \<noteq> p"
    and r: "sys_rename t p s1 = (None, s2)"
  shows "replaced t p (file_data s1 i) s None s2"
  using r
proof (cases rule: sys_rename_cases)
  case (same n)
  then have "fs_inode s1 p = Some i" using i by (simp add: fs_inode_def)
  with priv i tp show ?thesis by (auto simp: private_file_def)
next
  case (ok s0 n)
  then have n: "n = Reg i" using i by (auto simp: fs_inode_def split: node.splits)
  have data: "file_data s0 = file_data s1" using same_tree_data [OF ok(2)] .
  have "fs_content s2 q = (if q = t then None else if q = p then Some (file_data s1 i) else fs_content s1 q)" for q
    using ok n by (simp add: content_del_node content_put_node data same_tree_get)
  with o tp show ?thesis by (auto simp: replaced_def others_def)
qed simp

lemma fsync_parent_replaced: "replaced t p b s None s1 \<Longrightarrow> replaced t p b s None (fsync_parent_dir p s1)"
proof -
  obtain x s2 where "sys_fsync s1 = (x, s2)" by fastforce
  moreover assume "replaced t p b s None s1"
  ultimately show ?thesis
    using sys_fsync_same [of s1 x s2] by (auto simp: fsync_parent_dir_def replaced_def same_tree_get)
qed

text \<open>C29: an atomic write leaves the old file or the new one. Whatever call fails, however the writes are cut
  short, and wherever a crash stops it, after \<open>atomic_write_file\<close> the target holds exactly the new bytes
  if it reported success and exactly its old content if it reported an error, and no file other than the
  target and the temporary file has changed.\<close>

theorem atomic_write_old_or_new:
  assumes "fs_wf s" "private_file (make_tmp_path pid p) s" "fs_get s (make_tmp_path pid p) \<noteq> Some Special"
    and "atomic_write_file pid p bytes ws s = (r, s')"
  shows "(if r = None then fs_content s' p = Some bytes else fs_content s' p = fs_content s p) \<and>
    (\<forall>q. q \<noteq> p \<longrightarrow> q \<noteq> make_tmp_path pid p \<longrightarrow> fs_content s' q = fs_content s q)"
proof -
  let ?t = "make_tmp_path pid p"
  obtain r1 s1 where 1: "aio_ensure_parent_dir p s = (r1, s1)" by fastforce
  obtain r2 s2 where 2: "sys_create_trunc ?t s1 = (r2, s2)" by fastforce
  obtain r3 s3 where 3: "write_loop ?t ws bytes s2 = (r3, s3)" by fastforce
  obtain r4 s4 where 4: "sys_fsync s3 = (r4, s4)" by fastforce
  obtain r5 s5 where 5: "sys_rename ?t p s4 = (r5, s5)" by fastforce
  note T = tmp_neq [of pid p]
  from parent_others [OF assms(1) 1] assms(2) have o1: "others ?t s s1" "private_file ?t s1" by auto
  then have wf1: "fs_wf s1" by (simp add: others_def)
  have sp: "fs_get s1 ?t \<noteq> Some Special" using parent_special [OF 1] assms(3) by blast
  note c2 = create_trunc_others [OF wf1 o1(2) sp 2]
  have o2: "others ?t s s2" by (rule others_trans [OF o1(1) conjunct1 [OF c2]])
  then have wf2: "fs_wf s2" by (simp add: others_def)
  have p2: "private_file ?t s2" using c2 by (elim conjE)
  note c3 = write_loop_others [OF 3 wf2 p2]
  have o3: "others ?t s s3" by (rule others_trans [OF o2 conjunct1 [OF c3]])
  then have wf3: "fs_wf s3" by (simp add: others_def)
  have p3: "private_file ?t s3" using c3 by (elim conjE)
  have same: "same_tree s3 s4" by (rule sys_fsync_same [OF 4])
  have o4: "others ?t s s4" "private_file ?t s4" "fs_wf s4"
    using others_trans [OF o3 others_same [OF wf3 same]] p3 wf3 same by (simp_all add: private_same same_tree_wf)
  have "replaced ?t p bytes s r s'"
  proof -
    consider (e1) e where "r1 = Some e" | (e2) e where "r1 = None" "r2 = Some e" | (e3) e where "r1 = None" "r2 = None" "r3 = Some e"
      | (e4) e where "r1 = None" "r2 = None" "r3 = None" "r4 = Some e" | (e5) e where "r1 = None" "r2 = None" "r3 = None" "r4 = None" "r5 = Some e"
      | (ok) "r1 = None" "r2 = None" "r3 = None" "r4 = None" "r5 = None" by fastforce
    then show ?thesis
    proof cases
      case e1
      then have "r = Some e" "s' = s1" using assms(4) 1 by (simp_all add: atomic_write_file_def)
      with failed_replaced [OF o1(1) T] show ?thesis by simp
    next
      case e2
      then have "r = Some e" "s' = s2" using assms(4) 1 2 by (simp_all add: atomic_write_file_def)
      with failed_replaced [OF o2 T] show ?thesis by simp
    next
      case e3
      then have "r = Some e" "s' = snd (sys_unlink ?t s3)" using assms(4) 1 2 3 by (simp_all add: atomic_write_file_def)
      with failed_unlink [OF o3 T wf3] show ?thesis by simp
    next
      case e4
      then have "r = Some e" "s' = snd (sys_unlink ?t s4)" using assms(4) 1 2 3 4 by (simp_all add: atomic_write_file_def)
      with failed_unlink [OF o4(1) T o4(3)] show ?thesis by simp
    next
      case e5
      then have "r = Some e" "s' = snd (sys_unlink ?t s5)" using assms(4) 1 2 3 4 5 by (simp_all add: atomic_write_file_def)
      moreover have "same_tree s4 s5" using 5 e5 by (auto elim: sys_rename_cases)
      then have "others ?t s s5" "fs_wf s5"
        using others_trans [OF o4(1) others_same [OF o4(3)]] o4(3) by (simp_all add: same_tree_wf)
      ultimately show ?thesis using failed_unlink [OF _ T] by simp
    next
      case ok
      from c2 ok(2) obtain i where i': "fs_inode s2 ?t = Some i" "file_data s2 i = []" by blast
      have "fs_inode s4 ?t = Some i" "file_data s4 i = bytes"
        using i' c3 ok(3) same by (simp_all add: same_tree_get same_tree_data)
      with rename_replaced [OF assms(1) o4(1) _ o4(2) T] 5 ok(5) have "replaced ?t p bytes s None s5" by blast
      moreover have "r = None" "s' = fsync_parent_dir p s5" using assms(4) 1 2 3 4 5 ok by (simp_all add: atomic_write_file_def)
      ultimately show ?thesis using fsync_parent_replaced by simp
    qed
  qed
  then show ?thesis by (simp add: replaced_def)
qed

text \<open>The stream writer publishes what it lost. When the write-out of the buffered bytes at
  \<open>atomic_writer_commit\<close> fails (a full disk) and the calls after it succeed, the commit reports success
  and replaces the target by the bytes written out before: the whole content where everything fitted
  the buffer, so an intact catalogue is replaced by an empty file.\<close>

theorem commit_publishes_lost_writes:
  assumes "fs_faults s = [Some e]" "aw_buf w \<noteq> []" "aw_tmp w \<noteq> aw_final w"
    and "fs_inode s (aw_tmp w) = Some i" "private_file (aw_tmp w) s"
    and "parent_ok s (aw_final w)" "fs_get s (aw_final w) \<noteq> Some Dir"
  shows "fst (atomic_writer_commit w s) = None \<and>
    fs_content (snd (atomic_writer_commit w s)) (aw_final w) = Some (file_data s i)"
proof -
  define s1 where "s1 = s\<lparr>fs_faults := []\<rparr>"
  have w: "sys_write (aw_tmp w) (aw_buf w) s = (Some e, s1)" using assms(1) by (simp add: sys_write_def injected_def s1_def)
  have f: "sys_fsync s1 = (None, s1)" by (simp add: sys_fsync_def injected_def s1_def)
  have t: "fs_get s1 (aw_tmp w) = Some (Reg i)" using assms(4) by (auto simp: s1_def fs_inode_def split: option.splits node.splits)
  have "fs_inode s (aw_final w) \<noteq> Some i" using assms(3-5) unfolding private_file_def by metis
  then have "fs_get s1 (aw_final w) \<noteq> Some (Reg i)" by (auto simp: s1_def fs_inode_def)
  with t assms(6,7) have r: "sys_rename (aw_tmp w) (aw_final w) s1 = (None, del_node (aw_tmp w) (put_node (aw_final w) (Reg i) s1))"
    by (simp add: sys_rename_def injected_def s1_def)
  let ?s = "del_node (aw_tmp w) (put_node (aw_final w) (Reg i) s1)"
  have c: "fs_content ?s (aw_final w) = Some (file_data s i)"
    using assms(3) by (auto simp: content_del_node content_put_node s1_def)
  obtain x s2 where x: "sys_fsync ?s = (x, s2)" by fastforce
  then have "fs_content s2 = fs_content ?s" using sys_fsync_same same_tree_get(3) by blast
  with w f r c x assms(2) show ?thesis by (simp add: atomic_writer_commit_def fsync_parent_dir_def)
qed

section \<open>Witnesses\<close>

definition disk :: "errno option list \<Rightarrow> fs" where
  "disk faults = \<lparr>fs_nodes = [(''/m'', Dir), (''/m/c'', Reg 0), (''/m/c.tmp.7'', Reg 1)], fs_data = [(0, ''old''), (1, [])],
     fs_next = 2, fs_faults = faults\<rparr>"

lemma disk_facts: "fs_wf (disk fr)" "private_file ''/m/c.tmp.7'' (disk fr)" "make_tmp_path 7 ''/m/c'' = ''/m/c.tmp.7''"
  "fs_inode (disk fr) ''/m/c.tmp.7'' = Some 1" "file_data (disk fr) 1 = []" "fs_get (disk fr) ''/m/c'' = Some (Reg 0)"
  "fs_get (disk fr) ''/m/c.tmp.7'' = Some (Reg 1)"
proof -
  show "fs_wf (disk fr)" "private_file ''/m/c.tmp.7'' (disk fr)"
    by (auto simp: disk_def fs_wf_def private_file_def fs_inode_def fs_get_def split: if_splits)
  show "make_tmp_path 7 ''/m/c'' = ''/m/c.tmp.7''" by code_simp
qed (simp_all add: disk_def fs_inode_def fs_get_def file_data_def)

lemma atomic_write_old_or_new_witness:
  "fs_content (snd (atomic_write_file 7 ''/m/c'' ''new'' [0] (disk [None, None, None, Some EINTR, Some ENOSPC]))) ''/m/c''
     = Some ''old''"
proof -
  let ?s = "disk [None, None, None, Some EINTR, Some ENOSPC]"
  let ?r = "atomic_write_file 7 ''/m/c'' ''new'' [0] ?s"
  have r: "fst ?r \<noteq> None" by code_simp
  have "?r = (fst ?r, snd ?r)" by simp
  from atomic_write_old_or_new [OF disk_facts(1) _ _ this] disk_facts r
  have "fs_content (snd ?r) ''/m/c'' = fs_content ?s ''/m/c''" by simp
  also have "fs_content ?s ''/m/c'' = Some ''old''" by code_simp
  finally show ?thesis .
qed

lemma commit_publishes_lost_writes_witness:
  "fst (atomic_writer_commit \<lparr>aw_final = ''/m/c'', aw_tmp = ''/m/c.tmp.7'', aw_buf = ''new''\<rparr> (disk [Some ENOSPC])) = None \<and>
   fs_content (snd (atomic_writer_commit \<lparr>aw_final = ''/m/c'', aw_tmp = ''/m/c.tmp.7'', aw_buf = ''new''\<rparr>
     (disk [Some ENOSPC]))) ''/m/c'' = Some []"
proof -
  let ?w = "\<lparr>aw_final = ''/m/c'', aw_tmp = ''/m/c.tmp.7'', aw_buf = ''new''\<rparr>" and ?s = "disk [Some ENOSPC]"
  have p: "parent_ok ?s ''/m/c''" "fs_faults ?s = [Some ENOSPC]" by code_simp+
  from commit_publishes_lost_writes [of ?s ENOSPC ?w 1] p disk_facts(2,4,5,6) show ?thesis by simp
qed

end
