(* ===== verification/Download.thy ===== *)
theory Download
  imports Emit IngestSpec FsFacts "HOL-Library.Word"
begin

text \<open>
  The download dispatcher of \<open>download.c\<close>: requests from the phone's JSONL files, a set of the ids
  that are already terminal in \<open>downloads-desktop.jsonl\<close>, one run of \<open>flacget\<close> for every fresh id and
  the status lines. The JSON library, the clock and \<open>flacget\<close> itself (its exit status, -1 where it
  could not be run or was killed, and the \<open>msg\<close> of its result file) are parameters.
\<close>

record download_env =
  dl_json :: "string \<Rightarrow> json option"
  dl_dumps :: "json \<Rightarrow> string"
  dl_now_ms :: int
  dl_flacget :: "string \<Rightarrow> int \<times> string option"
  dl_reads :: "path \<Rightarrow> read_ev list"

section \<open>The set of ids\<close>

definition IDSET_BUCKETS :: nat where "IDSET_BUCKETS = 1024"

type_synonym idset = "nat \<Rightarrow> string list"

definition empty_idset :: idset where
  "empty_idset = (\<lambda>b. [])"

definition idset_hash :: "string \<Rightarrow> 64 word" where
  "idset_hash s = foldl (\<lambda>h c. push_bit 5 h + h + of_nat (of_char c)) 5381 s"

definition idset_bucket :: "string \<Rightarrow> nat" where
  "idset_bucket s = unat (idset_hash s) mod IDSET_BUCKETS"

definition idset_contains :: "idset \<Rightarrow> string \<Rightarrow> bool" where
  "idset_contains s i \<longleftrightarrow> i \<in> set (s (idset_bucket i))"

definition idset_add :: "string \<Rightarrow> idset \<Rightarrow> idset" where
  "idset_add i s = (if idset_contains s i then s
     else s(idset_bucket i := i # s (idset_bucket i)))"

section \<open>The status file\<close>

record download_state =
  d_fs :: fs
  d_done :: idset
  d_execs :: "(string \<times> string) list"
  d_seen :: nat
  d_skipped :: nat
  d_ok :: nat
  d_err :: nat
  d_parse_error :: nat

definition status_path :: "path \<Rightarrow> path" where
  "status_path meta_dir = meta_dir @ ''/downloads-desktop.jsonl''"

text \<open>\<open>open(path, O_WRONLY | O_APPEND | O_CREAT)\<close>.\<close>

definition sys_open_append :: "path \<Rightarrow> fs \<Rightarrow> sysres \<times> fs" where
  "sys_open_append p = injected (\<lambda>s. case fs_get s p of
     Some Dir \<Rightarrow> (Some EISDIR, s)
   | Some n \<Rightarrow> (None, s)
   | None \<Rightarrow> if \<not> parent_ok s p then (Some ENOENT, s) else (None, fresh_file p s))"

definition status_line :: "download_env \<Rightarrow> string \<Rightarrow> string \<Rightarrow> string option \<Rightarrow> string" where
  "status_line E i state msg = dl_dumps E (JObject
     ([(''v'', JInteger 1), (''id'', JString i), (''state'', JString state), (''ts'', JInteger (dl_now_ms E))] @
      (case msg of None \<Rightarrow> [] | Some m \<Rightarrow> if m = [] then [] else [(''msg'', JString m)])))"

text \<open>Both writes are made; the callers look at neither result.\<close>

definition status_append :: "download_env \<Rightarrow> path \<Rightarrow> string \<Rightarrow> string \<Rightarrow> string option \<Rightarrow> download_state \<Rightarrow> download_state" where
  "status_append E meta_dir i state msg s =
     (let p = status_path meta_dir
      in if length p \<ge> 4096 then s
         else case sys_open_append p (d_fs s) of
           (Some e, f) \<Rightarrow> s\<lparr>d_fs := f\<rparr>
         | (None, f) \<Rightarrow> (case sys_write p (status_line E i state msg) f of (r1, f) \<Rightarrow>
             (case sys_write p [nl] f of (r2, f) \<Rightarrow>
                s\<lparr>d_fs := (if r1 = None \<and> r2 = None then snd (sys_fsync f) else f)\<rparr>)))"

section \<open>Reading lines\<close>

text \<open>The loop both readers share: \<open>g\<close> counts a line that is too long; a read error ends the loop.\<close>

partial_function (option) each_line ::
    "(string \<Rightarrow> 's \<Rightarrow> 's) \<Rightarrow> ('s \<Rightarrow> 's) \<Rightarrow> jsonl_reader \<Rightarrow> 's \<Rightarrow> 's option" where
  "each_line f g r s = (case jsonl_read_line r of
     (AtEof, r') \<Rightarrow> Some s
   | (IoError e, r') \<Rightarrow> Some s
   | (TooLong, r') \<Rightarrow> each_line f g r' (g s)
   | (Line l, r') \<Rightarrow> each_line f g r' (if l = [] then s else f l s))"

declare each_line.simps [code]

definition terminal_id :: "download_env \<Rightarrow> string \<Rightarrow> string option" where
  "terminal_id E l = (case dl_json E l of
     Some (JObject fs) \<Rightarrow>
       (case (get_string (JObject fs) ''id'', get_string (JObject fs) ''state'') of
          (Some i, Some st) \<Rightarrow> if st = ''done'' \<or> st = ''error'' then Some i else None
        | _ \<Rightarrow> None)
   | _ \<Rightarrow> None)"

definition note_terminal :: "download_env \<Rightarrow> string \<Rightarrow> idset \<Rightarrow> idset" where
  "note_terminal E l s = (case terminal_id E l of None \<Rightarrow> s | Some i \<Rightarrow> idset_add i s)"

definition load_terminal_ids :: "download_env \<Rightarrow> path \<Rightarrow> fs \<Rightarrow> (bool \<times> idset) option" where
  "load_terminal_ids E meta_dir f =
     (let p = status_path meta_dir
      in if length p \<ge> 4096 then Some (False, empty_idset)
         else case fs_content f p of
           None \<Rightarrow> Some (True, empty_idset)
         | Some bytes \<Rightarrow> map_option (Pair True)
             (each_line (note_terminal E) id (jsonl_open bytes 0 (dl_reads E p)) empty_idset))"

section \<open>One request\<close>

text \<open>\<open>(c & 0xC0) == 0x80\<close>, and the copy that does not cut a UTF-8 sequence.\<close>

definition utf8_cont :: "char \<Rightarrow> bool" where
  "utf8_cont c \<longleftrightarrow> (of_char c :: nat) div 64 = 2"

fun utf8_cut :: "string \<Rightarrow> nat \<Rightarrow> nat" where
  "utf8_cut src 0 = 0"
| "utf8_cut src (Suc n) = (if utf8_cont (src ! Suc n) then utf8_cut src n else Suc n)"

definition utf8_copy :: "nat \<Rightarrow> string \<Rightarrow> string" where
  "utf8_copy cap src = (if length src \<ge> cap then take (utf8_cut src (cap - 1)) src else src)"

definition FLACGET_RC_NOT_FILED :: int where "FLACGET_RC_NOT_FILED = 3"

definition run_flacget :: "download_env \<Rightarrow> string \<Rightarrow> int \<times> string" where
  "run_flacget E query = (case dl_flacget E query of (rc, msg) \<Rightarrow>
     (rc, case msg of None \<Rightarrow> [] | Some m \<Rightarrow> utf8_copy 1024 m))"

definition error_msg :: "int \<Rightarrow> string \<Rightarrow> string" where
  "error_msg rc result =
     (if result \<noteq> [] then utf8_copy 1024 result
      else if rc = FLACGET_RC_NOT_FILED
      then ''not filed by beets '' @ [CHR 0xE2, CHR 0x80, CHR 0x94] @ '' parked in staging/skipped''
      else ''flacget rc='' @ show_int rc)"

definition parse_request :: "download_env \<Rightarrow> string \<Rightarrow> (string \<times> string) option" where
  "parse_request E l = (case dl_json E l of
     Some (JObject fs) \<Rightarrow>
       (case (get_int (JObject fs) ''v'', get_string (JObject fs) ''id'', get_string (JObject fs) ''query'') of
          (Some v, Some i, Some q) \<Rightarrow> if v = 1 \<and> i \<noteq> [] \<and> q \<noteq> [] then Some (i, q) else None
        | _ \<Rightarrow> None)
   | _ \<Rightarrow> None)"

definition dispatch :: "download_env \<Rightarrow> path \<Rightarrow> string \<Rightarrow> string \<Rightarrow> download_state \<Rightarrow> download_state" where
  "dispatch E meta_dir i query s =
     (let s = status_append E meta_dir i ''running'' None s;
          s = s\<lparr>d_execs := d_execs s @ [(i, query)]\<rparr>
      in case run_flacget E query of (rc, msg) \<Rightarrow>
           if rc = 0 then
             (let s = status_append E meta_dir i ''done'' (Some msg) s
              in s\<lparr>d_done := idset_add i (d_done s), d_ok := d_ok s + 1\<rparr>)
           else
             (let s = status_append E meta_dir i ''error'' (Some (error_msg rc msg)) s
              in s\<lparr>d_done := idset_add i (d_done s), d_err := d_err s + 1\<rparr>))"

definition count_parse_error :: "download_state \<Rightarrow> download_state" where
  "count_parse_error s = s\<lparr>d_parse_error := d_parse_error s + 1\<rparr>"

definition handle_request_line :: "download_env \<Rightarrow> path \<Rightarrow> string \<Rightarrow> download_state \<Rightarrow> download_state" where
  "handle_request_line E meta_dir l s = (case parse_request E l of
     None \<Rightarrow> count_parse_error s
   | Some (i, query) \<Rightarrow>
       let s = s\<lparr>d_seen := d_seen s + 1\<rparr>
       in if idset_contains (d_done s) i then s\<lparr>d_skipped := d_skipped s + 1\<rparr>
          else dispatch E meta_dir i query s)"

section \<open>The run\<close>

definition scan_request_file :: "download_env \<Rightarrow> path \<Rightarrow> path \<Rightarrow> download_state \<Rightarrow> download_state option" where
  "scan_request_file E meta_dir p s = (case fs_content (d_fs s) p of
     None \<Rightarrow> Some s
   | Some bytes \<Rightarrow> each_line (handle_request_line E meta_dir) count_parse_error (jsonl_open bytes 0 (dl_reads E p)) s)"

fun scan_request_files :: "download_env \<Rightarrow> path \<Rightarrow> path list \<Rightarrow> download_state \<Rightarrow> download_state option" where
  "scan_request_files E meta_dir [] s = Some s"
| "scan_request_files E meta_dir (p # ps) s = Option.bind (scan_request_file E meta_dir p s) (scan_request_files E meta_dir ps)"

definition request_files :: "path \<Rightarrow> fs \<Rightarrow> path list" where
  "request_files meta_dir f = sort (filter (glob_match (meta_dir @ ''/downloads-phone-'') ''.jsonl'') (map fst (fs_nodes f)))"

definition download_init :: "fs \<Rightarrow> idset \<Rightarrow> download_state" where
  "download_init f done = \<lparr>d_fs = f, d_done = done, d_execs = [], d_seen = 0, d_skipped = 0, d_ok = 0, d_err = 0,
     d_parse_error = 0\<rparr>"

text \<open>\<open>None\<close> as the path of \<open>flacget\<close> is one that is not configured.\<close>

definition download_run :: "download_env \<Rightarrow> path \<Rightarrow> path option \<Rightarrow> fs \<Rightarrow> (int \<times> download_state) option" where
  "download_run E meta_dir flacget_path f =
     (if meta_dir = [] then Some (0, download_init f empty_idset)
      else if flacget_path = None \<or> flacget_path = Some [] then Some (-1, download_init f empty_idset)
      else Option.bind (load_terminal_ids E meta_dir f) (\<lambda>(ok, done).
        let s = download_init f done
        in if \<not> ok then Some (-1, s)
           else if length (meta_dir @ ''/downloads-phone-*.jsonl'') \<ge> 4096 then Some (-1, s)
           else map_option (Pair 0) (scan_request_files E meta_dir (request_files meta_dir f) s)))"

section \<open>The id set is a set\<close>

definition idset_abs :: "idset \<Rightarrow> string set" where
  "idset_abs s = {i. idset_contains s i}"

lemma idset_add_abs [simp]: "idset_abs (idset_add i s) = insert i (idset_abs s)"
  by (auto simp: idset_abs_def idset_add_def idset_contains_def)

lemma idset_empty [simp]: "idset_abs empty_idset = {}"
  by (simp add: idset_abs_def idset_contains_def empty_idset_def)

lemma idset_contains_iff: "idset_contains s i \<longleftrightarrow> i \<in> idset_abs s"
  by (simp add: idset_abs_def)

section \<open>The line loop is a fold\<close>

text \<open>The lines of a text, \<open>None\<close> for one that is too long.\<close>

function spec_lines :: "string \<Rightarrow> string option list" where
  "spec_lines p = (case spec_read p of
     (Line l, q) \<Rightarrow> Some l # spec_lines q
   | (TooLong, q) \<Rightarrow> None # spec_lines q
   | (_, q) \<Rightarrow> [])"
  by pat_completeness auto
termination
  by (relation "measure length") (auto dest: spec_read_shorter [OF sym])

declare spec_lines.simps [simp del]

definition line_step :: "(string \<Rightarrow> 's \<Rightarrow> 's) \<Rightarrow> ('s \<Rightarrow> 's) \<Rightarrow> string option \<Rightarrow> 's \<Rightarrow> 's" where
  "line_step f g x s = (case x of None \<Rightarrow> g s | Some l \<Rightarrow> if l = [] then s else f l s)"

lemma each_line_fold:
  assumes "jr_ok r" "jr_quiet r"
  shows "each_line f g r s = Some (fold (line_step f g) (spec_lines (jr_pending r)) s)"
  using assms
proof (induction "jr_pending r" arbitrary: r s rule: spec_lines.induct)
  case (1 r)
  obtain x r1 where rl: "jsonl_read_line r = (x, r1)" by fastforce
  from jsonl_read_line_spec [OF 1(3,4) rl]
  have rd: "spec_read (jr_pending r) = (x, jr_pending r1)" and ok1: "jr_ok r1" "jr_quiet r1" by auto
  show ?case
  proof (cases x)
    case (Line l)
    from 1(1) [OF rd [symmetric] Line ok1] rd rl Line show ?thesis
      by (simp add: each_line.simps [of f g r] spec_lines.simps [of "jr_pending r"] line_step_def)
  next
    case AtEof
    with rd rl show ?thesis by (simp add: each_line.simps [of f g r] spec_lines.simps [of "jr_pending r"])
  next
    case TooLong
    from 1(2) [OF rd [symmetric] TooLong ok1] rd rl TooLong show ?thesis
      by (simp add: each_line.simps [of f g r] spec_lines.simps [of "jr_pending r"] line_step_def)
  next
    case (IoError e)
    with rd spec_read_not_io show ?thesis by auto
  qed
qed

section \<open>Appending a status line leaves the request files alone\<close>

definition calm :: "path \<Rightarrow> path set \<Rightarrow> fs \<Rightarrow> fs \<Rightarrow> bool" where
  "calm st P f0 f \<longleftrightarrow> fs_wf f \<and>
     (\<forall>p \<in> P. fs_content f p = fs_content f0 p \<and> (fs_inode f p = None \<or> fs_inode f p \<noteq> fs_inode f st))"

lemma calm_same_tree: "calm st P f0 f \<Longrightarrow> same_tree f f' \<Longrightarrow> calm st P f0 f'"
  by (simp add: calm_def same_tree_wf same_tree_get)

lemma calm_open:
  assumes "calm st P f0 f" "st \<notin> P" "sys_open_append st f = (r, f')"
  shows "calm st P f0 f'"
  using assms(3) [unfolded sys_open_append_def]
proof (cases rule: injected_cases)
  case (fault e)
  with assms(1) calm_same_tree show ?thesis by blast
next
  case (run s0)
  from calm_same_tree [OF assms(1) run(1)] have c: "calm st P f0 s0" .
  have "fs_content (fresh_file st s0) p = fs_content f0 p \<and>
    (fs_inode (fresh_file st s0) p = None \<or> fs_inode (fresh_file st s0) p \<noteq> fs_inode (fresh_file st s0) st)"
    if "p \<in> P" for p
  proof -
    from that assms(2) have "p \<noteq> st" by blast
    moreover from c that have "fs_content s0 p = fs_content f0 p" "fs_wf s0" by (simp_all add: calm_def)
    ultimately show ?thesis
      by (cases "fs_inode s0 p") (auto simp: inode_fresh fs_content_def data_fresh fs_wf_def)
  qed
  with c have "calm st P f0 (fresh_file st s0)" by (simp add: calm_def fresh_wf)
  with c run(2) show ?thesis
    by (auto split: option.splits node.splits if_splits)
qed

lemma calm_write:
  assumes "calm st P f0 f" "sys_write st bs f = (r, f')"
  shows "calm st P f0 f'"
proof (cases "fs_inode f st")
  case None
  from assms(2) [unfolded sys_write_def] show ?thesis
  proof (cases rule: injected_cases)
    case (fault e)
    with assms(1) calm_same_tree show ?thesis by blast
  next
    case (run s0)
    from run(1) None have "fs_inode s0 st = None" by (simp add: same_tree_get)
    with run calm_same_tree [OF assms(1) run(1)] show ?thesis by simp
  qed
next
  case (Some i)
  from assms(2) Some show ?thesis
  proof (cases rule: sys_write_cases)
    case (fail e)
    with assms(1) calm_same_tree show ?thesis by blast
  next
    case (ok s0)
    from calm_same_tree [OF assms(1) ok(2)] have c: "calm st P f0 s0" .
    from ok(2) Some have "fs_inode s0 st = Some i" by (simp add: same_tree_get)
    moreover have "fs_content f' p = fs_content f0 p" if "p \<in> P" for p
    proof -
      from c that \<open>fs_inode s0 st = Some i\<close> have "fs_inode s0 p \<noteq> Some i" "fs_content s0 p = fs_content f0 p"
        by (auto simp: calm_def)
      with ok(3) show ?thesis
        by (cases "fs_inode s0 p") (auto simp: data_upd file_data_upd fs_content_def)
    qed
    ultimately show ?thesis using c ok(3)
      by (simp add: calm_def data_upd fs_wf_def)
  qed
qed

lemma status_append_calm:
  assumes "calm (status_path m) P f0 (d_fs s)" "status_path m \<notin> P"
  shows "calm (status_path m) P f0 (d_fs (status_append E m i st msg s)) \<and>
    (\<exists>f. status_append E m i st msg s = s\<lparr>d_fs := f\<rparr>)"
proof -
  obtain r f where o: "sys_open_append (status_path m) (d_fs s) = (r, f)" by fastforce
  note co = calm_open [OF assms o]
  obtain r1 f1 where w1: "sys_write (status_path m) (status_line E i st msg) f = (r1, f1)" by fastforce
  obtain r2 f2 where w2: "sys_write (status_path m) [nl] f1 = (r2, f2)" by fastforce
  obtain r3 f3 where y: "sys_fsync f2 = (r3, f3)" by fastforce
  from calm_write [OF calm_write [OF co w1] w2] have c2: "calm (status_path m) P f0 f2" .
  from calm_same_tree [OF this sys_fsync_same [OF y]] have "calm (status_path m) P f0 f3" .
  then show ?thesis
  proof (cases "4096 \<le> length (status_path m)")
    case True
    then have "status_append E m i st msg s = s\<lparr>d_fs := d_fs s\<rparr>" by (simp add: status_append_def)
    with assms(1) show ?thesis by (intro conjI exI [of _ "d_fs s"]) simp_all
  next
    case False
    with \<open>calm (status_path m) P f0 f3\<close> co c2 show ?thesis
      by (cases r) (auto simp: status_append_def Let_def o w1 w2 y)
  qed
qed

section \<open>Every fresh request runs once\<close>

definition line_ids :: "download_env \<Rightarrow> string option \<Rightarrow> string set" where
  "line_ids E x = (case x of None \<Rightarrow> {} | Some l \<Rightarrow> if l = [] then {} else
     (case parse_request E l of None \<Rightarrow> {} | Some (i, q) \<Rightarrow> {i}))"

definition file_lines :: "fs \<Rightarrow> path \<Rightarrow> string option list" where
  "file_lines f p = (case fs_content f p of None \<Rightarrow> [] | Some b \<Rightarrow> spec_lines b)"

definition requested :: "download_env \<Rightarrow> path \<Rightarrow> fs \<Rightarrow> string set" where
  "requested E m f = (\<Union>p \<in> set (request_files m f). \<Union>x \<in> set (file_lines f p). line_ids E x)"

definition finished :: "download_env \<Rightarrow> path \<Rightarrow> fs \<Rightarrow> string set" where
  "finished E m f = {i. \<exists>l. Some l \<in> set (file_lines f (status_path m)) \<and> l \<noteq> [] \<and> terminal_id E l = Some i}"

definition progress :: "path \<Rightarrow> path set \<Rightarrow> fs \<Rightarrow> string set \<Rightarrow> string set \<Rightarrow> download_state \<Rightarrow> bool" where
  "progress m P f0 T R s \<longleftrightarrow> calm (status_path m) P f0 (d_fs s) \<and> distinct (map fst (d_execs s)) \<and>
     idset_abs (d_done s) = T \<union> R \<and> fst ` set (d_execs s) = R - T"

lemma dispatch_view:
  assumes "calm (status_path m) P f0 (d_fs s)" "status_path m \<notin> P"
  shows "calm (status_path m) P f0 (d_fs (dispatch E m i q s)) \<and>
    d_execs (dispatch E m i q s) = d_execs s @ [(i, q)] \<and>
    idset_abs (d_done (dispatch E m i q s)) = insert i (idset_abs (d_done s))"
proof -
  obtain f where f: "status_append E m i ''running'' None s = s\<lparr>d_fs := f\<rparr>" and c: "calm (status_path m) P f0 f"
    using status_append_calm [OF assms] by fastforce
  let ?s = "s\<lparr>d_fs := f, d_execs := d_execs s @ [(i, q)]\<rparr>"
  have "\<exists>g. status_append E m i st msg ?s = ?s\<lparr>d_fs := g\<rparr> \<and> calm (status_path m) P f0 g" for st msg
    using status_append_calm [of m P f0 ?s E i st msg] c assms(2) by fastforce
  then obtain g h where
    g: "status_append E m i ''done'' (Some (snd (run_flacget E q))) ?s = ?s\<lparr>d_fs := g\<rparr>" "calm (status_path m) P f0 g" and
    h: "status_append E m i ''error'' (Some (error_msg (fst (run_flacget E q)) (snd (run_flacget E q)))) ?s = ?s\<lparr>d_fs := h\<rparr>"
       "calm (status_path m) P f0 h"
    by meson
  then show ?thesis
    by (cases "run_flacget E q") (simp add: dispatch_def Let_def f)
qed

lemma handle_progress:
  assumes "progress m P f0 T R s" "status_path m \<notin> P"
  shows "progress m P f0 T (R \<union> line_ids E (Some l)) (line_step (handle_request_line E m) count_parse_error (Some l) s)"
proof (cases "l = [] \<or> parse_request E l = None")
  case True
  with assms(1) show ?thesis
    by (cases "l = []") (simp_all add: line_ids_def line_step_def handle_request_line_def count_parse_error_def progress_def)
next
  case False
  then obtain i q where l: "l \<noteq> []" "parse_request E l = Some (i, q)" by auto
  show ?thesis
  proof (cases "i \<in> T \<union> R")
    case True
    with assms(1) l show ?thesis
      by (auto simp: line_ids_def line_step_def handle_request_line_def progress_def idset_contains_iff)
  next
    case False
    let ?s = "s\<lparr>d_seen := d_seen s + 1\<rparr>"
    from assms(1) have "calm (status_path m) P f0 (d_fs ?s)" by (simp add: progress_def)
    note v = dispatch_view [OF this assms(2), of E i q]
    from False l assms(1)
    have "line_step (handle_request_line E m) count_parse_error (Some l) s = dispatch E m i q ?s"
      by (simp add: line_step_def handle_request_line_def progress_def idset_contains_iff)
    moreover from False assms(1) have "i \<notin> fst ` set (d_execs s)" "i \<notin> T" by (auto simp: progress_def)
    ultimately show ?thesis using v assms(1) l
      by (auto simp: progress_def line_ids_def)
  qed
qed

lemma lines_progress:
  "progress m P f0 T R s \<Longrightarrow> status_path m \<notin> P \<Longrightarrow>
   progress m P f0 T (R \<union> (\<Union>x \<in> set xs. line_ids E x)) (fold (line_step (handle_request_line E m) count_parse_error) xs s)"
proof (induction xs arbitrary: R s)
  case Nil
  then show ?case by simp
next
  case (Cons x xs)
  have "progress m P f0 T (R \<union> line_ids E x) (line_step (handle_request_line E m) count_parse_error x s)"
  proof (cases x)
    case None
    with Cons.prems show ?thesis by (simp add: line_ids_def line_step_def count_parse_error_def progress_def)
  next
    case (Some l)
    with handle_progress Cons.prems show ?thesis by blast
  qed
  from Cons.IH [OF this Cons.prems(2)] show ?case by (simp add: Un_assoc)
qed

lemma each_line_open:
  assumes "\<forall>e. Fails e \<notin> set ev"
  shows "each_line f g (jsonl_open b 0 ev) s = Some (fold (line_step f g) (spec_lines b) s)"
  using each_line_fold [of "jsonl_open b 0 ev" f g s] jsonl_open_ok [of b 0 ev] jsonl_open_quiet [OF assms, of b 0] by simp

lemma file_progress:
  assumes "progress m P f0 T R s" "status_path m \<notin> P" "p \<in> P" "\<forall>p e. Fails e \<notin> set (dl_reads E p)"
  shows "\<exists>s'. scan_request_file E m p s = Some s' \<and>
    progress m P f0 T (R \<union> (\<Union>x \<in> set (file_lines f0 p). line_ids E x)) s'"
proof -
  from assms(1,3) have c: "fs_content (d_fs s) p = fs_content f0 p" by (simp add: progress_def calm_def)
  show ?thesis
  proof (cases "fs_content f0 p")
    case None
    with c assms(1) show ?thesis by (simp add: scan_request_file_def file_lines_def)
  next
    case (Some b)
    with c lines_progress [OF assms(1,2)] assms(4) show ?thesis
      by (simp add: scan_request_file_def file_lines_def each_line_open)
  qed
qed

lemma files_progress:
  assumes "progress m P f0 T R s" "status_path m \<notin> P" "set ps \<subseteq> P" "\<forall>p e. Fails e \<notin> set (dl_reads E p)"
  shows "\<exists>s'. scan_request_files E m ps s = Some s' \<and>
    progress m P f0 T (R \<union> (\<Union>p \<in> set ps. \<Union>x \<in> set (file_lines f0 p). line_ids E x)) s'"
  using assms(1,3)
proof (induction ps arbitrary: R s)
  case Nil
  then show ?case by simp
next
  case (Cons p ps)
  then have "p \<in> P" "set ps \<subseteq> P" by auto
  from file_progress [OF Cons.prems(1) assms(2) this(1) assms(4)] obtain s1 where
    s1: "scan_request_file E m p s = Some s1"
    "progress m P f0 T (R \<union> (\<Union>x \<in> set (file_lines f0 p). line_ids E x)) s1" by blast
  from Cons.IH [OF s1(2) \<open>set ps \<subseteq> P\<close>] s1(1) show ?case by (auto simp: Un_assoc)
qed

lemma note_fold:
  "idset_abs (fold (line_step (note_terminal E) id) xs s) =
   idset_abs s \<union> {i. \<exists>l. Some l \<in> set xs \<and> l \<noteq> [] \<and> terminal_id E l = Some i}"
  by (induction xs arbitrary: s) (auto simp: line_step_def note_terminal_def split: option.split if_splits)

lemma load_terminal:
  assumes "\<forall>p e. Fails e \<notin> set (dl_reads E p)" "length (status_path m) < 4096"
  shows "\<exists>d. load_terminal_ids E m f = Some (True, d) \<and> idset_abs d = finished E m f"
  using assms
  by (cases "fs_content f (status_path m)")
     (simp_all add: load_terminal_ids_def finished_def file_lines_def each_line_open note_fold)

lemma status_not_request: "\<not> glob_match (m @ ''/downloads-phone-'') ''.jsonl'' (status_path m)"
proof -
  have "strip_prefix (m @ a) (m @ b) = strip_prefix a b" for a b :: string by (induction m) simp_all
  from this [of "''/downloads-phone-''" "''/downloads-desktop.jsonl''"] show ?thesis
    by (simp add: glob_match_def status_path_def)
qed

text \<open>C28: A download pass runs \<open>flacget\<close> exactly once for every well-formed request id in the
  phone's files for which the status log holds no line with the state done or error, however often
  a request is repeated and whatever \<open>flacget\<close> answers, even where no status line can be written. Any such line
  counts: a later line in another state does not make the id open again. The
  hypotheses: the program is configured, the directory's name is short enough for the path buffer, the files' inode
  numbers are below the counter, no request file is a hard link to the status log, and no read fails.
\<close>

theorem download_exact:
  assumes "fs_wf f" "m \<noteq> []" "fp \<noteq> None" "fp \<noteq> Some []" "length m < 4000"
    "\<forall>p \<in> set (request_files m f). fs_inode f p = None \<or> fs_inode f p \<noteq> fs_inode f (status_path m)"
    "\<forall>p e. Fails e \<notin> set (dl_reads E p)"
  shows "\<exists>s. download_run E m fp f = Some (0, s) \<and> distinct (map fst (d_execs s)) \<and>
    fst ` set (d_execs s) = requested E m f - finished E m f"
proof -
  let ?P = "set (request_files m f)"
  have st: "status_path m \<notin> ?P" using status_not_request by (simp add: request_files_def)
  obtain d where d: "load_terminal_ids E m f = Some (True, d)" "idset_abs d = finished E m f"
    using load_terminal [OF assms(7), of m f] assms(5) by (auto simp: status_path_def)
  have "progress m ?P f (finished E m f) {} (download_init f d)"
    using assms(1,6) d(2) by (simp add: progress_def calm_def download_init_def)
  from files_progress [OF this st subset_refl assms(7)] obtain s where
    "scan_request_files E m (request_files m f) (download_init f d) = Some s"
    "progress m ?P f (finished E m f) (requested E m f) s" by (auto simp: requested_def)
  with d(1) assms(2-5) show ?thesis by (simp add: download_run_def progress_def)
qed

definition ex_dl_env :: download_env where
  "ex_dl_env = \<lparr>dl_json = (\<lambda>l. if l = ''R'' then Some (JObject [(''v'', JInteger 1), (''id'', JString ''a''), (''query'', JString ''q'')])
       else None), dl_dumps = (\<lambda>j. ''S''), dl_now_ms = 7, dl_flacget = (\<lambda>q. (3, None)), dl_reads = (\<lambda>p. [])\<rparr>"

definition ex_dl_fs :: fs where
  "ex_dl_fs = \<lparr>fs_nodes = [(''/m'', Dir), (''/m/downloads-phone-x.jsonl'', Reg 0)],
     fs_data = [(0, [CHR ''R'', nl, CHR ''R'', nl])], fs_next = 1, fs_faults = []\<rparr>"

lemma ex_dl_request: "request_files ''/m'' ex_dl_fs = [''/m/downloads-phone-x.jsonl'']"
  by (simp add: request_files_def ex_dl_fs_def glob_match_def)

lemma ex_dl_lines: "file_lines ex_dl_fs ''/m/downloads-phone-x.jsonl'' = [Some ''R'', Some ''R'']"
  "file_lines ex_dl_fs ''/m/downloads-desktop.jsonl'' = []"
  by (simp_all add: file_lines_def ex_dl_fs_def fs_content_def fs_inode_def fs_get_def file_data_def
      spec_lines.simps spec_read_def after_nl_def JSONL_MAX_LINE_def)

lemma ex_dl_reqs: "requested ex_dl_env ''/m'' ex_dl_fs = {''a''}" "finished ex_dl_env ''/m'' ex_dl_fs = {}"
  by (simp_all add: requested_def finished_def ex_dl_request ex_dl_lines status_path_def line_ids_def parse_request_def
      ex_dl_env_def get_int_def get_string_def)

text \<open>A file with the same request twice: one run, although \<open>flacget\<close> fails.\<close>

theorem download_exact_witness:
  "\<exists>s. download_run ex_dl_env ''/m'' (Some ''/f'') ex_dl_fs = Some (0, s) \<and> distinct (map fst (d_execs s)) \<and>
    fst ` set (d_execs s) = {''a''}"
  using download_exact [of ex_dl_fs "''/m''" "Some ''/f''" ex_dl_env, unfolded ex_dl_reqs]
  by (simp add: ex_dl_request fs_wf_def ex_dl_fs_def fs_inode_def fs_get_def status_path_def ex_dl_env_def)

end
