(* ===== verification/Hash.thy ===== *)
theory Hash
  imports Jsonl Sha256
begin

text \<open>
  The content hash of \<open>hash.c\<close>: the identity of a track. The file is given by what the system
  calls answer: the attributes before, at and after the read, the bytes, and a schedule for
  the reads. \<open>EAGAIN\<close> is \<open>EWOULDBLOCK\<close>.
\<close>

definition READ_CHUNK :: nat where "READ_CHUNK = 64 * 1024"

record file_stat =
  st_dev :: nat
  st_ino :: nat
  st_size :: int
  st_sec :: int
  st_nsec :: int
  st_isdir :: bool

text \<open>
  \<open>a_open\<close> is the first \<open>open\<close>, \<open>a_open2\<close> the one without \<open>O_NOATIME\<close>; \<open>a_pread\<close> how many
  bytes of the header \<open>pread\<close> gives; \<open>a_seek\<close> the failure of \<open>lseek\<close>.
\<close>

record audio_file =
  a_lstat :: "errno + file_stat"
  a_open :: "errno + unit"
  a_open2 :: "errno + unit"
  a_fstat :: "errno + file_stat"
  a_pread :: "errno + nat"
  a_seek :: "errno option"
  a_bytes :: string
  a_sched :: "read_ev list"
  a_post :: "errno + file_stat"

definition has_ext_mp3 :: "path \<Rightarrow> bool" where
  "has_ext_mp3 p \<longleftrightarrow> length p \<ge> 4 \<and> map to_lower (drop (length p - 4) p) = ''.mp3''"

definition decode_syncsafe :: "string \<Rightarrow> nat" where
  "decode_syncsafe b = unat
     ((((push_bit 21 (ucast ((of_char (b ! 0) :: byte) AND 0x7f)) OR
         push_bit 14 (ucast ((of_char (b ! 1) :: byte) AND 0x7f))) OR
         push_bit 7 (ucast ((of_char (b ! 2) :: byte) AND 0x7f))) OR
         ucast ((of_char (b ! 3) :: byte) AND 0x7f)) :: 32 word)"

text \<open>The offset the header leads to; the position the descriptor is left at is the same.\<close>

definition id3_offset :: "string \<Rightarrow> nat" where
  "id3_offset hdr =
     (if length hdr < 10 \<or> take 3 hdr \<noteq> ''ID3'' then 0
      else let flags = (of_char (hdr ! 5) :: byte); offset = 10 + decode_syncsafe (drop 6 hdr)
           in if flags AND 0x10 \<noteq> 0 then offset + 10 else offset)"

definition hash_skip_id3v2 :: "audio_file \<Rightarrow> errno + nat" where
  "hash_skip_id3v2 a = (case a_pread a of
     Inl e \<Rightarrow> Inl e
   | Inr k \<Rightarrow> (case a_seek a of Some e \<Rightarrow> Inl e | None \<Rightarrow> Inr (id3_offset (take (min k 10) (a_bytes a)))))"

definition statbufs_match :: "file_stat \<Rightarrow> file_stat \<Rightarrow> bool" where
  "statbufs_match a b \<longleftrightarrow> st_dev a = st_dev b \<and> st_ino a = st_ino b \<and> st_size a = st_size b \<and>
     st_sec a = st_sec b \<and> st_nsec a = st_nsec b"

text \<open>The read loop: every chunk goes into the hash until a read gives nothing.\<close>

function hash_loop :: "string \<Rightarrow> read_ev list \<Rightarrow> sha256_ctx \<Rightarrow> errno + sha256_ctx" where
  "hash_loop s ev c = (case sys_read READ_CHUNK s ev of
     (Inl e, _) \<Rightarrow> Inl e
   | (Inr bs, s', ev') \<Rightarrow> if bs = [] then Inr c else hash_loop s' ev' (sha256_update (bytes_of bs) c))"
  by pat_completeness auto
termination by (relation "measure (\<lambda>(s, ev, c). length s)") (auto dest!: sys_read_length [OF sym])

declare hash_loop.simps [simp del]

definition hash_audio_payload :: "byte list \<Rightarrow> path option \<Rightarrow> audio_file \<Rightarrow> errno + string" where
  "hash_audio_payload junk p a = (case p of None \<Rightarrow> Inl EINVAL | Some p \<Rightarrow>
     (case a_lstat a of Inl e \<Rightarrow> Inl e | Inr lst \<Rightarrow>
     if st_isdir lst then Inl EISDIR
     else (case (if a_open a = Inl EPERM then a_open2 a else a_open a) of Inl e \<Rightarrow> Inl e | Inr _ \<Rightarrow>
     (case a_fstat a of Inl e \<Rightarrow> Inl e | Inr fs0 \<Rightarrow>
     if \<not> statbufs_match lst fs0 then Inl EWOULDBLOCK
     else (case (if has_ext_mp3 p then hash_skip_id3v2 a
                 else case a_seek a of Some e \<Rightarrow> Inl e | None \<Rightarrow> Inr 0) of Inl e \<Rightarrow> Inl e | Inr offset \<Rightarrow>
     (case hash_loop (drop offset (a_bytes a)) (a_sched a) (sha256_init junk) of Inl e \<Rightarrow> Inl e | Inr c \<Rightarrow>
     (case a_post a of
        Inl e \<Rightarrow> Inl EWOULDBLOCK
      | Inr post \<Rightarrow> if st_size post \<noteq> st_size fs0 \<or> st_sec post \<noteq> st_sec fs0 \<or> st_nsec post \<noteq> st_nsec fs0
                    then Inl EWOULDBLOCK else Inr (sha256_hex (sha256_final c)))))))))"

section \<open>The loop hashes the bytes that are left\<close>

lemma hash_loop_stream:
  "hash_loop s ev c = Inr c' \<Longrightarrow> \<exists>chunks. c' = fold sha256_update chunks c \<and> concat chunks = bytes_of s"
proof (induction s ev c rule: hash_loop.induct)
  case (1 s ev c)
  obtain r s' ev' where r: "sys_read READ_CHUNK s ev = (r, s', ev')" by (metis surj_pair)
  with "1.prems" obtain bs where bs: "r = Inr bs" by (cases r) (auto simp: hash_loop.simps)
  have len: "s = bs @ s' \<and> (bs = [] \<longrightarrow> s = [])"
    using sys_read_length r bs by (auto simp: READ_CHUNK_def)
  show ?case
  proof (cases "bs = []")
    case True
    with "1.prems" r bs have "c' = c" by (simp add: hash_loop.simps)
    with True len show ?thesis by (intro exI [of _ "[]"]) (auto simp: bytes_of_def)
  next
    case False
    with "1.prems" r bs have "hash_loop s' ev' (sha256_update (bytes_of bs) c) = Inr c'"
      by (simp add: hash_loop.simps)
    from "1.IH" [OF r [symmetric] bs refl False this] obtain chunks
      where "c' = fold sha256_update chunks (sha256_update (bytes_of bs) c)" "concat chunks = bytes_of s'" by blast
    with len show ?thesis
      by (intro exI [of _ "bytes_of bs # chunks"]) (simp add: bytes_of_def)
  qed
qed

lemma hash_loop_quiet: "\<exists>c'. hash_loop s [] c = Inr c'"
proof (induction "length s" arbitrary: s c rule: less_induct)
  case less
  show ?case
  proof (cases "s = []")
    case False
    then have "length (drop READ_CHUNK s) < length s" by (simp add: READ_CHUNK_def)
    from less [OF this] False show ?thesis by (subst hash_loop.simps) (simp add: READ_CHUNK_def)
  qed (simp add: hash_loop.simps)
qed

text \<open>What a file's identity is a hash of.\<close>

definition audio_payload :: "path \<Rightarrow> string \<Rightarrow> string" where
  "audio_payload p s = (if has_ext_mp3 p then drop (id3_offset (take 10 s)) s else s)"

text \<open>An ID3v2 tag in front of the audio: version, revision, flags, the size in four 7-bit bytes.\<close>

definition encode_syncsafe :: "nat \<Rightarrow> string" where
  "encode_syncsafe n = map (\<lambda>k. char_of (n div 2 ^ k mod 128)) [21, 14, 7, 0]"

definition id3_tag :: "char \<Rightarrow> char \<Rightarrow> char \<Rightarrow> string \<Rightarrow> string" where
  "id3_tag major minor flags frames =
     ''ID3'' @ [major, minor, flags] @ encode_syncsafe (length frames) @ frames @
     (if (of_char flags :: byte) AND 0x10 \<noteq> 0 then replicate 10 CHR 0x00 else [])"

lemma syncsafe_bytes: "\<forall>x\<in>set [0..<128]. ucast ((of_char (char_of x) :: byte) AND 0x7f) = (of_nat x :: 32 word)"
  by code_simp

lemma syncsafe_byte: "ucast ((of_char (char_of (n mod 128)) :: byte) AND 0x7f) = (take_bit 7 (of_nat n) :: 32 word)"
  for n :: nat
proof -
  have "ucast ((of_char (char_of (n mod 128)) :: byte) AND 0x7f) = (of_nat (n mod 128) :: 32 word)"
    using syncsafe_bytes by simp
  also have "\<dots> = take_bit 7 (of_nat n)"
    using of_nat_take_bit [of 7 n, where 'a = "32 word"] by (simp add: take_bit_eq_mod)
  finally show ?thesis .
qed

lemma decode_encode_syncsafe:
  assumes "n < 2 ^ 28" shows "decode_syncsafe (encode_syncsafe n @ t) = n"
proof -
  define w :: "32 word" where "w = of_nat n"
  have n: "unat w = n" using assms by (simp add: w_def unat_of_nat)
  have d: "of_nat (n div 2 ^ k) = drop_bit k w" for k
  proof -
    have "n div 2 ^ k \<le> n" by simp
    also have "n < 2 ^ 32" using assms by simp
    finally have "n div 2 ^ k < 2 ^ 32" .
    then have "unat (of_nat (n div 2 ^ k) :: 32 word) = n div 2 ^ k" by (simp add: unat_of_nat)
    moreover have "unat (drop_bit k w) = n div 2 ^ k" 
      by (simp only: unat_drop_bit_eq n) (rule drop_bit_eq_div)
    ultimately show ?thesis by (simp only: word_unat_eq_iff)
  qed
  have hi: "\<not> bit w i" if "28 \<le> i" for i
  proof -
    have "n < 2 ^ i" using assms that by (meson less_le_trans one_le_numeral power_increasing)
    then show ?thesis by (simp add: w_def bit_of_nat_iff bit_iff_odd [of n i])
  qed
  have "(push_bit 21 (take_bit 7 (drop_bit 21 w)) OR push_bit 14 (take_bit 7 (drop_bit 14 w))) OR
      push_bit 7 (take_bit 7 (drop_bit 7 w)) OR take_bit 7 (drop_bit 0 w) = w"
    by (rule bit_word_eqI, use hi in \<open>auto simp: bit_simps not_le intro: ccontr\<close>)
  then show ?thesis
    by (simp add: decode_syncsafe_def encode_syncsafe_def syncsafe_byte n or.assoc
        d [of 21, simplified] d [of 14, simplified] d [of 7, simplified] w_def [symmetric])
qed

lemma length_encode_syncsafe [simp]: "length (encode_syncsafe n) = 4"
  by (simp add: encode_syncsafe_def)

lemma id3_offset_tag:
  assumes "length frames < 2 ^ 28"
  shows "id3_offset (take 10 (id3_tag a b f frames @ s)) = length (id3_tag a b f frames)"
proof -
  obtain w x y z where e: "encode_syncsafe (length frames) = [w, x, y, z]"
    by (simp add: encode_syncsafe_def)
  have "take 10 (id3_tag a b f frames @ s) = ''ID3'' @ [a, b, f] @ encode_syncsafe (length frames)"
    by (simp add: id3_tag_def e)
  moreover have "decode_syncsafe (encode_syncsafe (length frames)) = length frames"
    using decode_encode_syncsafe [OF assms, of "[]"] by simp
  ultimately show ?thesis by (simp add: id3_offset_def id3_tag_def Let_def e)
qed

lemma hash_audio_payload_ok:
  assumes "hash_audio_payload junk (Some p) a = Inr h" "length junk = 64" "a_pread a = Inr k" "k \<ge> 10"
  obtains x y z where "h = sha256_hex (sha256_spec (bytes_of (audio_payload p (a_bytes a))))"
    "a_lstat a = Inr x" "a_fstat a = Inr y" "a_post a = Inr z" "statbufs_match x y" "\<not> st_isdir x"
    "st_size z = st_size y" "st_sec z = st_sec y" "st_nsec z = st_nsec y"
proof -
  let ?off = "if has_ext_mp3 p then id3_offset (take 10 (a_bytes a)) else 0"
  from assms(1) obtain x y z c where xyz: "a_lstat a = Inr x" "a_fstat a = Inr y" "a_post a = Inr z"
    "statbufs_match x y" "\<not> st_isdir x" "st_size z = st_size y" "st_sec z = st_sec y" "st_nsec z = st_nsec y"
    and c: "hash_loop (drop ?off (a_bytes a)) (a_sched a) (sha256_init junk) = Inr c"
    and h: "h = sha256_hex (sha256_final c)"
    using assms(3,4)
    by (auto simp: hash_audio_payload_def hash_skip_id3v2_def min_absorb2 split: sum.splits if_splits option.splits)
  from hash_loop_stream [OF c] obtain chunks where
    ch: "c = fold sha256_update chunks (sha256_init junk)" "concat chunks = bytes_of (drop ?off (a_bytes a))" by blast
  from ctx_inv_chunks [OF ctx_inv_init [OF assms(2)], of chunks] obtain bs q
    where "ctx_inv bs q c" "concat bs @ q = concat chunks" by (auto simp: ch(1))
  from final_spec [OF this(1)] this(2) have "h = sha256_hex (sha256_spec (bytes_of (audio_payload p (a_bytes a))))"
    by (simp add: h ch(2) audio_payload_def)
  with xyz that show thesis by blast
qed

lemma audio_payload_tag:
  "has_ext_mp3 p \<Longrightarrow> length frames < 2 ^ 28 \<Longrightarrow> audio_payload p (id3_tag v m f frames @ audio) = audio"
  using id3_offset_tag [of frames v m f audio] by (simp only: audio_payload_def) simp

text \<open>C12: a hash the daemon records is the SHA-256 of the file's audio payload (for an MP3, what
  follows the ID3v2 tag), however the reads were cut, and the file had the same identity, size and
  modification time before, during and after the read.\<close>

theorem hash_audio_payload_correct:
  assumes "hash_audio_payload junk (Some p) a = Inr h" "length junk = 64" "a_pread a = Inr k" "k \<ge> 10"
  shows "h = sha256_hex (sha256_spec (bytes_of (audio_payload p (a_bytes a)))) \<and>
    (\<exists>x y z. a_lstat a = Inr x \<and> a_fstat a = Inr y \<and> a_post a = Inr z \<and> statbufs_match x y \<and>
       \<not> st_isdir x \<and> st_size z = st_size y \<and> st_sec z = st_sec y \<and> st_nsec z = st_nsec y)"
  using assms by (rule hash_audio_payload_ok) blast

definition sample_audio :: audio_file where
  "sample_audio = (let s = \<lparr>st_dev = 1, st_ino = 2, st_size = 17, st_sec = 5, st_nsec = 0, st_isdir = False\<rparr>
     in \<lparr>a_lstat = Inr s, a_open = Inl EPERM, a_open2 = Inr (), a_fstat = Inr s, a_pread = Inr 17, a_seek = None,
        a_bytes = id3_tag CHR 0x04 CHR 0x00 CHR 0x00 ''TIT2'' @ ''mp3'', a_sched = [Chunk 2, Interrupted], a_post = Inr s\<rparr>)"

lemma sample_ext: "has_ext_mp3 ''a.MP3''"
  by code_simp

lemma sample_hashes_any:
  assumes "length frames < 2 ^ 28"
  shows "\<exists>h. hash_audio_payload (replicate 64 0) (Some ''a.MP3'') (sample_audio\<lparr>a_bytes := id3_tag v m f frames @ ''mp3''\<rparr>) = Inr h"
proof -
  have "\<exists>c. hash_loop ''mp3'' [Chunk 2, Interrupted] (sha256_init (replicate 64 0)) = Inr c"
    by (simp add: hash_loop.simps READ_CHUNK_def)
  then show ?thesis using id3_offset_tag [OF assms, of v m f "''mp3''"] sample_ext
    by (auto simp: hash_audio_payload_def hash_skip_id3v2_def sample_audio_def Let_def statbufs_match_def)
qed

lemma sample_hashes: "\<exists>h. hash_audio_payload (replicate 64 0) (Some ''a.MP3'') sample_audio = Inr h"
proof -
  have "sample_audio\<lparr>a_bytes := id3_tag CHR 0x04 CHR 0x00 CHR 0x00 ''TIT2'' @ ''mp3''\<rparr> = sample_audio"
    by (simp add: sample_audio_def Let_def)
  then show ?thesis using sample_hashes_any [of "''TIT2''" "CHR 0x04" "CHR 0x00" "CHR 0x00"] by simp
qed

theorem hash_audio_payload_correct_witness:
  "hash_audio_payload (replicate 64 0) (Some ''a.MP3'') sample_audio =
     Inr (sha256_hex (sha256_spec (bytes_of (audio_payload ''a.MP3'' (a_bytes sample_audio)))))"
proof -
  obtain h where h: "hash_audio_payload (replicate 64 0) (Some ''a.MP3'') sample_audio = Inr h"
    using sample_hashes by blast
  have "h = sha256_hex (sha256_spec (bytes_of (audio_payload ''a.MP3'' (a_bytes sample_audio))))"
    using hash_audio_payload_correct [OF h, of 17] by (simp add: sample_audio_def Let_def)
  with h show ?thesis by simp
qed

text \<open>C14: re-tagging an MP3 leaves its identity: two files whose tags differ, in frames, version or
  footer, but whose audio is the same hash alike.\<close>

theorem retag_keeps_identity:
  assumes "has_ext_mp3 p" "a_bytes a = id3_tag v m f frames @ audio" "a_bytes a' = id3_tag v' m' f' frames' @ audio"
    and "length frames < 2 ^ 28" "length frames' < 2 ^ 28" "length junk = 64"
    and "hash_audio_payload junk (Some p) a = Inr h" "hash_audio_payload junk (Some p) a' = Inr h'"
    and "a_pread a = Inr k" "a_pread a' = Inr k" "k \<ge> 10"
  shows "h = h'"
proof -
  have "h = sha256_hex (sha256_spec (bytes_of audio))"
    using assms by (elim hash_audio_payload_ok [of junk p a h k]) (simp_all add: audio_payload_tag)
  moreover have "h' = sha256_hex (sha256_spec (bytes_of audio))"
    using assms by (elim hash_audio_payload_ok [of junk p a' h' k]) (simp_all add: audio_payload_tag)
  ultimately show ?thesis by simp
qed

definition sample_retagged :: audio_file where
  "sample_retagged = sample_audio\<lparr>a_bytes := id3_tag CHR 0x03 CHR 0x00 CHR 0x10 ''TPE1 and more'' @ ''mp3''\<rparr>"

theorem retag_keeps_identity_witness:
  "\<exists>h. hash_audio_payload (replicate 64 0) (Some ''a.MP3'') sample_audio = Inr h \<and>
     hash_audio_payload (replicate 64 0) (Some ''a.MP3'') sample_retagged = Inr h"
proof -
  obtain h h' where h: "hash_audio_payload (replicate 64 0) (Some ''a.MP3'') sample_audio = Inr h"
    "hash_audio_payload (replicate 64 0) (Some ''a.MP3'') sample_retagged = Inr h'"
    using sample_hashes sample_hashes_any [of "''TPE1 and more''" "CHR 0x03" "CHR 0x00" "CHR 0x10"]
    by (auto simp: sample_retagged_def)
  have "h = h'"
    by (rule retag_keeps_identity [where frames = "''TIT2''" and frames' = "''TPE1 and more''" and k = 17,
          OF _ _ _ _ _ _ h])
      (simp_all add: sample_audio_def sample_retagged_def Let_def sample_ext)
  with h show ?thesis by blast
qed

end
