(* ===== verification/Tags.thy ===== *)
theory Tags
  imports Emit
begin

text \<open>
  Tag extraction of the tag checker (\<open>tagcheck/tags.c\<close>). TagLib is a library: what it answers for a
  file is the argument \<open>taglib_file\<close> (no handle, an invalid file, or the simple tag and the property
  map); which of the answers become which field is the code's.
\<close>

datatype audio_format = FmtUnknown | FmtMp3 | FmtFlac | FmtOpus | FmtOggVorbis | FmtMp4

datatype tag_encoding = EncUnknown | EncUtf8 | EncUtf16 | EncLatin1 | EncOther

record tag_field =
  tf_value :: "string option"
  tf_present :: bool
  tf_multi :: bool
  tf_count :: nat

record tag_record =
  tr_path :: path
  tr_format :: audio_format
  tr_encoding :: tag_encoding
  tr_id3 :: int
  tr_title :: tag_field
  tr_artist :: tag_field
  tr_album :: tag_field
  tr_album_artist :: tag_field
  tr_track_number :: tag_field
  tr_disc_number :: tag_field
  tr_year :: tag_field
  tr_genre :: tag_field
  tr_failed :: bool
  tr_error :: "string option"

record taglib_tag =
  tl_title :: "string option"
  tl_artist :: "string option"
  tl_album :: "string option"
  tl_genre :: "string option"
  tl_year :: nat
  tl_track :: nat

datatype taglib_file = TlNull | TlInvalid | TlFile "taglib_tag option" "string \<Rightarrow> string list option"

definition kExtTable :: "(string \<times> audio_format) list" where
  "kExtTable = [(''.mp3'', FmtMp3), (''.flac'', FmtFlac), (''.opus'', FmtOpus), (''.ogg'', FmtOggVorbis),
     (''.oga'', FmtOggVorbis), (''.m4a'', FmtMp4), (''.m4b'', FmtMp4), (''.mp4'', FmtMp4)]"

text \<open>\<open>strcasecmp(a, b) == 0\<close>.\<close>

definition strcaseeq :: "string \<Rightarrow> string \<Rightarrow> bool" where
  "strcaseeq a b \<longleftrightarrow> map to_lower a = map to_lower b"

text \<open>\<open>strrchr(p, '.')\<close>: the text from the last dot on, directories included.\<close>

definition dot_suffix :: "path \<Rightarrow> string option" where
  "dot_suffix p = map_option (\<lambda>(a, b). CHR ''.'' # b) (split_last (CHR ''.'') p)"

definition tags_format_from_path :: "path \<Rightarrow> audio_format" where
  "tags_format_from_path p = (case dot_suffix p of
     None \<Rightarrow> FmtUnknown
   | Some d \<Rightarrow> (case find (\<lambda>(ext, f). strcaseeq d ext) kExtTable of None \<Rightarrow> FmtUnknown | Some (ext, f) \<Rightarrow> f))"

text \<open>The header is the bytes of the file, \<open>None\<close> where \<open>fopen\<close> fails.\<close>

definition mp3_detect_id3v2 :: "string option \<Rightarrow> int \<times> tag_encoding" where
  "mp3_detect_id3v2 file = (case file of
     None \<Rightarrow> (0, EncUnknown)
   | Some bs \<Rightarrow>
       if length bs < 10 \<or> take 3 bs \<noteq> ''ID3'' then (0, EncUnknown)
       else let v = of_char (bs ! 3) :: int
            in (v, if v = 4 then EncUtf8 else if v = 3 then EncUtf16 else if v = 2 then EncOther else EncUnknown))"

definition no_field :: tag_field where
  "no_field = \<lparr>tf_value = None, tf_present = False, tf_multi = False, tf_count = 0\<rparr>"

definition set_field_from_simple :: "string option \<Rightarrow> tag_field" where
  "set_field_from_simple src = (if src = None \<or> src = Some [] then no_field
     else no_field\<lparr>tf_value := src, tf_present := True\<rparr>)"

definition set_field_from_uint :: "nat \<Rightarrow> tag_field" where
  "set_field_from_uint v = (if v = 0 then no_field
     else no_field\<lparr>tf_value := Some (show_int (int v)), tf_present := True\<rparr>)"

definition enrich_field_from_property :: "string list option \<Rightarrow> tag_field \<Rightarrow> tag_field" where
  "enrich_field_from_property vals f = (case vals of
     None \<Rightarrow> f
   | Some [] \<Rightarrow> f
   | Some [v] \<Rightarrow> if tf_value f = None \<and> v \<noteq> [] then f\<lparr>tf_value := Some v, tf_present := True\<rparr> else f
   | Some (v # vs) \<Rightarrow>
       let g = f\<lparr>tf_multi := True, tf_count := length (v # vs)\<rparr>
       in if tf_value f = None then g\<lparr>tf_value := Some v, tf_present := True\<rparr> else g)"

definition tag_record_new :: "path \<Rightarrow> tag_record" where
  "tag_record_new p = \<lparr>tr_path = p, tr_format = tags_format_from_path p, tr_encoding = EncUnknown, tr_id3 = 0,
     tr_title = no_field, tr_artist = no_field, tr_album = no_field, tr_album_artist = no_field,
     tr_track_number = no_field, tr_disc_number = no_field, tr_year = no_field, tr_genre = no_field,
     tr_failed = False, tr_error = None\<rparr>"

definition mark_read_failed :: "string \<Rightarrow> tag_record \<Rightarrow> tag_record" where
  "mark_read_failed why r = r\<lparr>tr_failed := True, tr_error := Some why\<rparr>"

definition probe_encoding :: "string option \<Rightarrow> tag_record \<Rightarrow> tag_record" where
  "probe_encoding file r =
     (if tr_format r = FmtMp3 then (case mp3_detect_id3v2 file of (v, e) \<Rightarrow> r\<lparr>tr_id3 := v, tr_encoding := e\<rparr>)
      else if tr_format r = FmtUnknown then r
      else r\<lparr>tr_encoding := EncUtf8\<rparr>)"

definition simple_fields :: "taglib_tag option \<Rightarrow> tag_record \<Rightarrow> tag_record" where
  "simple_fields tag r = (case tag of
     None \<Rightarrow> r
   | Some t \<Rightarrow> r\<lparr>tr_title := set_field_from_simple (tl_title t), tr_artist := set_field_from_simple (tl_artist t),
       tr_album := set_field_from_simple (tl_album t), tr_genre := set_field_from_simple (tl_genre t),
       tr_year := set_field_from_uint (tl_year t), tr_track_number := set_field_from_uint (tl_track t)\<rparr>)"

definition property_fields :: "(string \<Rightarrow> string list option) \<Rightarrow> tag_record \<Rightarrow> tag_record" where
  "property_fields props r =
     (let r = r\<lparr>tr_album_artist := enrich_field_from_property (props ''ALBUMARTIST'') (tr_album_artist r),
                tr_disc_number := enrich_field_from_property (props ''DISCNUMBER'') (tr_disc_number r),
                tr_artist := enrich_field_from_property (props ''ARTIST'') (tr_artist r),
                tr_genre := enrich_field_from_property (props ''GENRE'') (tr_genre r)\<rparr>;
          r = (if tf_present (tr_track_number r) then r
               else r\<lparr>tr_track_number := enrich_field_from_property (props ''TRACKNUMBER'') (tr_track_number r)\<rparr>)
      in if tf_present (tr_year r) then r
         else r\<lparr>tr_year := enrich_field_from_property (props ''DATE'') (tr_year r)\<rparr>)"

definition tags_extract :: "path \<Rightarrow> string option \<Rightarrow> taglib_file \<Rightarrow> tag_record" where
  "tags_extract p file lib =
     (let r = probe_encoding file (tag_record_new p)
      in case lib of
           TlNull \<Rightarrow> mark_read_failed (''taglib_file_new returned NULL: '' @ take 200 p) r
         | TlInvalid \<Rightarrow> mark_read_failed (''taglib_file_is_valid=false: '' @ take 200 p) r
         | TlFile tag props \<Rightarrow> property_fields props (simple_fields tag r))"

section \<open>Well-formed fields\<close>

text \<open>A present field has a value, an absent one has none; a multi-value count is at least two.\<close>

definition field_ok :: "tag_field \<Rightarrow> bool" where
  "field_ok f \<longleftrightarrow> (tf_present f \<longleftrightarrow> tf_value f \<noteq> None) \<and> (tf_multi f \<longleftrightarrow> 2 \<le> tf_count f)"

definition tag_fields :: "tag_record \<Rightarrow> tag_field list" where
  "tag_fields r = [tr_title r, tr_artist r, tr_album r, tr_album_artist r, tr_track_number r, tr_disc_number r,
     tr_year r, tr_genre r]"

lemma no_field_ok [simp]: "field_ok no_field"
  by (simp add: field_ok_def no_field_def)

lemma simple_ok [simp]: "field_ok (set_field_from_simple s)" "field_ok (set_field_from_uint n)"
  by (auto simp: set_field_from_simple_def set_field_from_uint_def field_ok_def no_field_def)

lemma enrich_ok [simp]: "field_ok f \<Longrightarrow> field_ok (enrich_field_from_property vals f)"
  by (auto simp: enrich_field_from_property_def field_ok_def Let_def split: option.splits list.splits)

definition record_ok :: "tag_record \<Rightarrow> bool" where
  "record_ok r \<longleftrightarrow> (\<forall>f \<in> set (tag_fields r). field_ok f)"

lemma record_okI:
  "field_ok (tr_title r) \<Longrightarrow> field_ok (tr_artist r) \<Longrightarrow> field_ok (tr_album r) \<Longrightarrow> field_ok (tr_album_artist r) \<Longrightarrow>
   field_ok (tr_track_number r) \<Longrightarrow> field_ok (tr_disc_number r) \<Longrightarrow> field_ok (tr_year r) \<Longrightarrow> field_ok (tr_genre r) \<Longrightarrow>
   record_ok r"
  by (simp add: record_ok_def tag_fields_def)

lemma record_okD:
  assumes "record_ok r"
  shows "field_ok (tr_title r)" "field_ok (tr_artist r)" "field_ok (tr_album r)" "field_ok (tr_album_artist r)"
    "field_ok (tr_track_number r)" "field_ok (tr_disc_number r)" "field_ok (tr_year r)" "field_ok (tr_genre r)"
  using assms by (simp_all add: record_ok_def tag_fields_def)

lemma probe_simps [simp]: "tag_fields (probe_encoding file r) = tag_fields r" "tr_path (probe_encoding file r) = tr_path r"
    "tr_format (probe_encoding file r) = tr_format r"
  by (simp_all add: probe_encoding_def tag_fields_def split: prod.split)

lemma new_ok: "record_ok (tag_record_new p)"
  by (simp add: record_ok_def tag_fields_def tag_record_new_def)

lemma simple_fields_ok: "record_ok r \<Longrightarrow> record_ok (simple_fields tag r)"
  by (cases tag) (auto simp: simple_fields_def intro!: record_okI dest: record_okD)

lemma property_fields_ok:
  assumes "record_ok r" shows "record_ok (property_fields props r)"
  using record_okD [OF assms] unfolding property_fields_def Let_def by (intro record_okI) simp_all

lemma failed_ok: "record_ok r \<Longrightarrow> record_ok (mark_read_failed why r)"
  by (simp add: record_ok_def tag_fields_def mark_read_failed_def)

lemma extract_ok: "record_ok (tags_extract p file lib)"
proof -
  have "record_ok (probe_encoding file (tag_record_new p))" using new_ok by (simp add: record_ok_def)
  then show ?thesis
    by (cases lib) (simp_all add: tags_extract_def Let_def failed_ok simple_fields_ok property_fields_ok)
qed

lemma extract_path [simp]: "tr_path (tags_extract p file lib) = p"
    "tr_format (tags_extract p file lib) = tags_format_from_path p"
  by (simp_all add: tags_extract_def Let_def mark_read_failed_def simple_fields_def property_fields_def tag_record_new_def
      split: taglib_file.split option.split)

end
