(* ===== verification/Check.thy ===== *)
theory Check
  imports Tags
begin

text \<open>
  The canonical-schema checker (\<open>tagcheck/check.c\<close>): a pure function from a tag record to its
  issues. The issue array never fails to grow.
\<close>

datatype canonical_field =
    FIELD_TITLE | FIELD_ARTIST | FIELD_ALBUM | FIELD_ALBUM_ARTIST | FIELD_TRACK_NUMBER | FIELD_DISC_NUMBER
  | FIELD_YEAR | FIELD_GENRE | FIELD_COUNT

datatype check_severity = CHECK_OK | CHECK_FLAG | CHECK_FAIL

record check_issue =
  ci_severity :: check_severity
  ci_field :: canonical_field
  ci_code :: string
  ci_detail :: string

record check_result =
  cr_failed :: bool
  cr_any_fail :: bool
  cr_any_flag :: bool
  cr_issues :: "check_issue list"

primrec canonical_field_name :: "canonical_field \<Rightarrow> string" where
  "canonical_field_name FIELD_TITLE = ''title''"
| "canonical_field_name FIELD_ARTIST = ''artist''"
| "canonical_field_name FIELD_ALBUM = ''album''"
| "canonical_field_name FIELD_ALBUM_ARTIST = ''album_artist''"
| "canonical_field_name FIELD_TRACK_NUMBER = ''track_number''"
| "canonical_field_name FIELD_DISC_NUMBER = ''disc_number''"
| "canonical_field_name FIELD_YEAR = ''year''"
| "canonical_field_name FIELD_GENRE = ''genre''"
| "canonical_field_name FIELD_COUNT = ''unknown''"

primrec field_lookup :: "tag_record \<Rightarrow> canonical_field \<Rightarrow> tag_field option" where
  "field_lookup r FIELD_TITLE = Some (tr_title r)"
| "field_lookup r FIELD_ARTIST = Some (tr_artist r)"
| "field_lookup r FIELD_ALBUM = Some (tr_album r)"
| "field_lookup r FIELD_ALBUM_ARTIST = Some (tr_album_artist r)"
| "field_lookup r FIELD_TRACK_NUMBER = Some (tr_track_number r)"
| "field_lookup r FIELD_DISC_NUMBER = Some (tr_disc_number r)"
| "field_lookup r FIELD_YEAR = Some (tr_year r)"
| "field_lookup r FIELD_GENRE = Some (tr_genre r)"
| "field_lookup r FIELD_COUNT = None"

text \<open>\<open>strstr(s, p) != NULL\<close> and \<open>strcasestr(s, p) != NULL\<close>.\<close>

fun strstr :: "string \<Rightarrow> string \<Rightarrow> bool" where
  "strstr [] p = (p = [])"
| "strstr (c # s) p = (take (length p) (c # s) = p \<or> strstr s p)"

definition strcasestr :: "string \<Rightarrow> string \<Rightarrow> bool" where
  "strcasestr s p = strstr (map to_lower s) (map to_lower p)"

definition check_looks_concatenated_multi_value :: "string option \<Rightarrow> bool" where
  "check_looks_concatenated_multi_value s = (case s of
     None \<Rightarrow> False
   | Some s \<Rightarrow> s \<noteq> [] \<and> (CHR '';'' \<in> set s \<or> slash \<in> set s \<or> strstr s '' & '' \<or> strstr s '', '' \<or>
       strcasestr s '' and '' \<or> strcasestr s '' feat. ''))"

definition issues_push :: "check_severity \<Rightarrow> canonical_field \<Rightarrow> string \<Rightarrow> string \<Rightarrow> check_result \<Rightarrow> check_result" where
  "issues_push sev f code detail r =
     (let r = r\<lparr>cr_issues := cr_issues r @ [\<lparr>ci_severity = sev, ci_field = f, ci_code = code, ci_detail = detail\<rparr>]\<rparr>
      in if sev = CHECK_FAIL then r\<lparr>cr_any_fail := True\<rparr>
         else if sev = CHECK_FLAG then r\<lparr>cr_any_flag := True\<rparr> else r)"

definition check_format :: "tag_record \<Rightarrow> check_result \<Rightarrow> check_result" where
  "check_format rec r =
     (if tr_format rec = FmtMp3 then
        (if tr_id3 rec \<noteq> 4
         then issues_push CHECK_FAIL FIELD_COUNT ''id3_not_v24''
                (''requires ID3v2.4 (got v2.'' @ show_int (tr_id3 rec) @ '' or none)'') r
         else r)
      else if tr_format rec = FmtUnknown
      then issues_push CHECK_FAIL FIELD_COUNT ''unknown_format'' ''file format not recognised by extension'' r
      else r)"

definition canonical_fields :: "canonical_field list" where
  "canonical_fields = [FIELD_TITLE, FIELD_ARTIST, FIELD_ALBUM, FIELD_ALBUM_ARTIST, FIELD_TRACK_NUMBER,
     FIELD_DISC_NUMBER, FIELD_YEAR, FIELD_GENRE]"

definition absent :: "tag_field \<Rightarrow> bool" where
  "absent tf \<longleftrightarrow> \<not> tf_present tf \<or> tf_value tf = None \<or> tf_value tf = Some []"

definition check_presence :: "tag_record \<Rightarrow> canonical_field \<Rightarrow> check_result \<Rightarrow> check_result" where
  "check_presence rec f r = (case field_lookup rec f of
     None \<Rightarrow> r
   | Some tf \<Rightarrow> if absent tf
       then issues_push CHECK_FAIL f ''missing_field'' (''missing canonical field: '' @ canonical_field_name f) r
       else r)"

definition check_heuristic :: "tag_record \<Rightarrow> canonical_field \<Rightarrow> check_result \<Rightarrow> check_result" where
  "check_heuristic rec f r = (case field_lookup rec f of
     None \<Rightarrow> r
   | Some tf \<Rightarrow>
       if \<not> tf_present tf \<or> tf_value tf = None \<or> tf_multi tf then r
       else if check_looks_concatenated_multi_value (tf_value tf)
       then issues_push CHECK_FLAG f ''concat_multi_value''
              (''value '' @ [CHR 0x27] @ take 80 (the (tf_value tf)) @ [CHR 0x27] @
               '' looks concatenated; consider re-tagging as multi-value'') r
       else r)"

definition check_canonical :: "tag_record \<Rightarrow> check_result" where
  "check_canonical rec =
     (let r = \<lparr>cr_failed = False, cr_any_fail = False, cr_any_flag = False, cr_issues = []\<rparr>
      in if tr_failed rec
         then issues_push CHECK_FAIL FIELD_COUNT ''taglib_open_failed''
                (''taglib could not open file: '' @ (case tr_error rec of None \<Rightarrow> ''(unknown)'' | Some w \<Rightarrow> w))
                (r\<lparr>cr_failed := True\<rparr>)
         else fold (check_heuristic rec) [FIELD_ARTIST, FIELD_GENRE]
                (fold (check_presence rec) canonical_fields (check_format rec r)))"

section \<open>The verdict\<close>

lemma push_flags [simp]:
  "cr_any_fail (issues_push s f c d r) \<longleftrightarrow> s = CHECK_FAIL \<or> cr_any_fail r"
  "cr_any_flag (issues_push s f c d r) \<longleftrightarrow> s = CHECK_FLAG \<or> cr_any_flag r"
  "cr_issues (issues_push s f c d r) = cr_issues r @ [\<lparr>ci_severity = s, ci_field = f, ci_code = c, ci_detail = d\<rparr>]"
  "cr_failed (issues_push s f c d r) = cr_failed r"
  by (cases s; simp add: issues_push_def)+

text \<open>The flags mirror the severities of the issues, and no issue has severity OK.\<close>

definition flags_ok :: "check_result \<Rightarrow> bool" where
  "flags_ok r \<longleftrightarrow> cr_any_fail r = (\<exists>i \<in> set (cr_issues r). ci_severity i = CHECK_FAIL) \<and>
     cr_any_flag r = (\<exists>i \<in> set (cr_issues r). ci_severity i = CHECK_FLAG) \<and>
     (\<forall>i \<in> set (cr_issues r). ci_severity i \<noteq> CHECK_OK)"

lemma push_flags_ok: "flags_ok r \<Longrightarrow> s \<noteq> CHECK_OK \<Longrightarrow> flags_ok (issues_push s f c d r)"
  by (auto simp: flags_ok_def)

lemma fold_flags_ok: "(\<And>x r. flags_ok r \<Longrightarrow> flags_ok (g x r)) \<Longrightarrow> flags_ok r \<Longrightarrow> flags_ok (fold g xs r)"
  by (induction xs arbitrary: r) simp_all

lemma check_flags_ok: "flags_ok (check_canonical rec)"
proof -
  have 0: "flags_ok \<lparr>cr_failed = b, cr_any_fail = False, cr_any_flag = False, cr_issues = []\<rparr>" for b
    by (simp add: flags_ok_def)
  have 1: "flags_ok (check_format rec r)" if "flags_ok r" for r
    using that by (simp add: check_format_def push_flags_ok)
  have 2: "flags_ok (check_presence rec f r)" if "flags_ok r" for f r
    using that by (simp add: check_presence_def push_flags_ok split: option.split)
  have 3: "flags_ok (check_heuristic rec f r)" if "flags_ok r" for f r
    using that by (simp add: check_heuristic_def push_flags_ok split: option.split)
  show ?thesis
    using 0 by (auto simp: check_canonical_def Let_def intro!: push_flags_ok fold_flags_ok 1 2 3)
qed

lemma any_fail_format: "cr_any_fail (check_format rec r) \<longleftrightarrow>
    cr_any_fail r \<or> tr_format rec = FmtUnknown \<or> tr_format rec = FmtMp3 \<and> tr_id3 rec \<noteq> 4"
  by (auto simp: check_format_def)

lemma any_fail_presence: "cr_any_fail (check_presence rec f r) \<longleftrightarrow>
    cr_any_fail r \<or> (\<exists>tf. field_lookup rec f = Some tf \<and> absent tf)"
  by (auto simp: check_presence_def split: option.split)

lemma any_fail_heuristic: "cr_any_fail (check_heuristic rec f r) = cr_any_fail r"
  by (auto simp: check_heuristic_def split: option.split)

lemma any_fail_fold: "(\<And>x r. cr_any_fail (g x r) \<longleftrightarrow> cr_any_fail r \<or> P x) \<Longrightarrow>
    cr_any_fail (fold g xs r) \<longleftrightarrow> cr_any_fail r \<or> (\<exists>x \<in> set xs. P x)"
  by (induction xs arbitrary: r) auto

text \<open>A file fails exactly for a read failure, a format or ID3 version that is not canonical, or a
  missing field; the heuristic never fails it.\<close>

lemma check_fails_iff:
  "cr_any_fail (check_canonical rec) \<longleftrightarrow> tr_failed rec \<or> tr_format rec = FmtUnknown \<or>
     (tr_format rec = FmtMp3 \<and> tr_id3 rec \<noteq> 4) \<or> (\<exists>tf \<in> set (tag_fields rec). absent tf)"
proof -
  have "cr_any_fail (fold (check_heuristic rec) fs r) = cr_any_fail r" for fs r
    using any_fail_fold [of "check_heuristic rec" "\<lambda>_. False"] any_fail_heuristic by simp
  moreover have "cr_any_fail (fold (check_presence rec) canonical_fields r) \<longleftrightarrow>
      cr_any_fail r \<or> (\<exists>tf \<in> set (tag_fields rec). absent tf)" for r
    by (auto simp: any_fail_presence canonical_fields_def tag_fields_def)
  ultimately show ?thesis by (auto simp: check_canonical_def Let_def any_fail_format any_fail_heuristic)
qed

end
