(* ===== verification/Walker.thy ===== *)
theory Walker
  imports Tags
begin

text \<open>
  The recursive library walker (\<open>tagcheck/walker.c\<close>). The C library's \<open>fts\<close> traversal of a
  directory is a tree of entries in the order \<open>fts_read\<close> gives them: a directory with its children,
  a regular file, a symbolic link with its resolved target (\<open>realpath\<close>, \<open>None\<close> where that fails), an
  entry that cannot be read, or anything else. \<open>FTS_SKIP\<close> leaves out a directory's children.
\<close>

datatype fts_node =
    FtsD string "fts_node list"
  | FtsF string
  | FtsSL string "path option"
  | FtsErr string
  | FtsOther string

record walk_stats =
  ws_dirs_visited :: nat
  ws_files_seen_total :: nat
  ws_audio_files_seen :: nat
  ws_skipped_non_audio :: nat
  ws_skipped_dotfiles :: nat
  ws_skipped_symlinks :: nat
  ws_open_failures :: nat

definition no_stats :: walk_stats where
  "no_stats = \<lparr>ws_dirs_visited = 0, ws_files_seen_total = 0, ws_audio_files_seen = 0, ws_skipped_non_audio = 0,
     ws_skipped_dotfiles = 0, ws_skipped_symlinks = 0, ws_open_failures = 0\<rparr>"

datatype walk_result = WALK_CONTINUE | WALK_STOP

definition path_under_root :: "path \<Rightarrow> path \<Rightarrow> bool" where
  "path_under_root c r \<longleftrightarrow> (r \<noteq> [] \<and> take (length r) c = r \<and>
     (length c = length r \<or> c ! length r = slash \<or> (last r = slash \<and> c ! (length r - 1) = slash)))"

definition basename_is_dotfile :: "path \<Rightarrow> bool" where
  "basename_is_dotfile p \<longleftrightarrow> take 1 (case split_last slash p of None \<Rightarrow> p | Some (d, b) \<Rightarrow> b) = ''.''"

text \<open>
  \<open>tags\<close> is what \<open>tags_extract\<close> gives for a path (it never runs out of memory here), \<open>cb\<close> the
  callback; the state of the loop is the callback's, the statistics and the callback's last answer.
\<close>

type_synonym 'u walk = "'u \<times> walk_stats \<times> walk_result"

definition count_dir :: "walk_stats \<Rightarrow> walk_stats" where
  "count_dir s = s\<lparr>ws_dirs_visited := ws_dirs_visited s + 1\<rparr>"
definition count_file :: "walk_stats \<Rightarrow> walk_stats" where
  "count_file s = s\<lparr>ws_files_seen_total := ws_files_seen_total s + 1\<rparr>"
definition count_audio :: "walk_stats \<Rightarrow> walk_stats" where
  "count_audio s = s\<lparr>ws_audio_files_seen := ws_audio_files_seen s + 1\<rparr>"
definition count_non_audio :: "walk_stats \<Rightarrow> walk_stats" where
  "count_non_audio s = s\<lparr>ws_skipped_non_audio := ws_skipped_non_audio s + 1\<rparr>"
definition count_dotfile :: "walk_stats \<Rightarrow> walk_stats" where
  "count_dotfile s = s\<lparr>ws_skipped_dotfiles := ws_skipped_dotfiles s + 1\<rparr>"
definition count_symlink :: "walk_stats \<Rightarrow> walk_stats" where
  "count_symlink s = s\<lparr>ws_skipped_symlinks := ws_skipped_symlinks s + 1\<rparr>"
definition count_failure :: "walk_stats \<Rightarrow> walk_stats" where
  "count_failure s = s\<lparr>ws_open_failures := ws_open_failures s + 1\<rparr>"

definition process_audio_file ::
    "(path \<Rightarrow> tag_record) \<Rightarrow> (tag_record \<Rightarrow> 'u \<Rightarrow> walk_result \<times> 'u) \<Rightarrow> path \<Rightarrow> 'u \<times> walk_stats \<Rightarrow> 'u walk" where
  "process_audio_file tags cb p = (\<lambda>(u, s).
     let s = count_audio s; rec = tags p;
         s = (if tr_failed rec then count_failure s else s)
     in case cb rec u of (r, u) \<Rightarrow> (u, s, r))"

definition walk_audio ::
    "(path \<Rightarrow> tag_record) \<Rightarrow> (tag_record \<Rightarrow> 'u \<Rightarrow> walk_result \<times> 'u) \<Rightarrow> path \<Rightarrow> 'u \<times> walk_stats \<Rightarrow> 'u walk" where
  "walk_audio tags cb p = (\<lambda>(u, s).
     if tags_format_from_path p = FmtUnknown then (u, count_non_audio s, WALK_CONTINUE)
     else process_audio_file tags cb p (u, s))"

text \<open>What the library answers about a root: its real path, whether that is a directory, the traversal.\<close>

record library =
  lb_real :: "path option"
  lb_isdir :: bool
  lb_fts :: "fts_node list option"

fun walk_node :: "path \<Rightarrow> (path \<Rightarrow> tag_record) \<Rightarrow> (tag_record \<Rightarrow> 'u \<Rightarrow> walk_result \<times> 'u) \<Rightarrow> path \<Rightarrow>
      fts_node \<Rightarrow> 'u \<times> walk_stats \<Rightarrow> 'u walk"
  and walk_nodes :: "path \<Rightarrow> (path \<Rightarrow> tag_record) \<Rightarrow> (tag_record \<Rightarrow> 'u \<Rightarrow> walk_result \<times> 'u) \<Rightarrow> path \<Rightarrow>
      fts_node list \<Rightarrow> 'u \<times> walk_stats \<Rightarrow> 'u walk" where
  "walk_node rt tags cb d (FtsD n ns) (u, s) =
     (if take 1 n = ''.'' then (u, count_dotfile s, WALK_CONTINUE)
      else walk_nodes rt tags cb (d @ [slash] @ n) ns (u, count_dir s))"
| "walk_node rt tags cb d (FtsF n) (u, s) =
     (let s = count_file s; p = d @ [slash] @ n
      in if basename_is_dotfile p then (u, count_dotfile s, WALK_CONTINUE) else walk_audio tags cb p (u, s))"
| "walk_node rt tags cb d (FtsSL n target) (u, s) =
     (let s = count_file s; p = d @ [slash] @ n
      in if basename_is_dotfile p then (u, count_dotfile s, WALK_CONTINUE)
         else case target of
           None \<Rightarrow> (u, count_symlink s, WALK_CONTINUE)
         | Some t \<Rightarrow> if \<not> path_under_root t rt then (u, count_symlink s, WALK_CONTINUE)
                     else walk_audio tags cb t (u, s))"
| "walk_node rt tags cb d (FtsErr n) (u, s) = (u, count_failure s, WALK_CONTINUE)"
| "walk_node rt tags cb d (FtsOther n) (u, s) = (u, s, WALK_CONTINUE)"
| "walk_nodes rt tags cb d [] (u, s) = (u, s, WALK_CONTINUE)"
| "walk_nodes rt tags cb d (n # ns) (u, s) = (case walk_node rt tags cb d n (u, s) of
     (u, s, WALK_STOP) \<Rightarrow> (u, s, WALK_STOP)
   | (u, s, WALK_CONTINUE) \<Rightarrow> walk_nodes rt tags cb d ns (u, s))"

definition walker_walk ::
    "library \<Rightarrow> (path \<Rightarrow> tag_record) \<Rightarrow> (tag_record \<Rightarrow> 'u \<Rightarrow> walk_result \<times> 'u) \<Rightarrow> 'u \<Rightarrow> int \<times> 'u \<times> walk_stats" where
  "walker_walk lib tags cb u = (case lb_real lib of
     None \<Rightarrow> (1, u, no_stats)
   | Some rt \<Rightarrow>
       if \<not> lb_isdir lib then (1, u, no_stats)
       else case lb_fts lib of
         None \<Rightarrow> (1, u, no_stats)
       | Some ns \<Rightarrow> (case walk_nodes rt tags cb rt ns (u, count_dir no_stats) of (u, s, wr) \<Rightarrow> (0, u, s)))"

section \<open>A walk visits a list of audio files\<close>

text \<open>The specification: the audio files of the tree in order, and a loop over them that the callback can stop.\<close>

definition audio_path :: "path \<Rightarrow> path list" where
  "audio_path p = (if tags_format_from_path p = FmtUnknown then [] else [p])"

fun node_files :: "path \<Rightarrow> path \<Rightarrow> fts_node \<Rightarrow> path list"
  and nodes_files :: "path \<Rightarrow> path \<Rightarrow> fts_node list \<Rightarrow> path list" where
  "node_files rt d (FtsD n ns) = (if take 1 n = ''.'' then [] else nodes_files rt (d @ [slash] @ n) ns)"
| "node_files rt d (FtsF n) = (if basename_is_dotfile (d @ [slash] @ n) then [] else audio_path (d @ [slash] @ n))"
| "node_files rt d (FtsSL n target) = (if basename_is_dotfile (d @ [slash] @ n) then []
     else case target of None \<Rightarrow> [] | Some t \<Rightarrow> if path_under_root t rt then audio_path t else [])"
| "node_files rt d (FtsErr n) = []"
| "node_files rt d (FtsOther n) = []"
| "nodes_files rt d [] = []"
| "nodes_files rt d (n # ns) = node_files rt d n @ nodes_files rt d ns"

definition library_files :: "library \<Rightarrow> path list" where
  "library_files lib = (case lb_real lib of None \<Rightarrow> [] | Some rt \<Rightarrow>
     (case lb_fts lib of None \<Rightarrow> [] | Some ns \<Rightarrow> nodes_files rt rt ns))"

fun visit :: "(path \<Rightarrow> 'u \<Rightarrow> walk_result \<times> 'u) \<Rightarrow> path list \<Rightarrow> 'u \<Rightarrow> walk_result \<times> 'u" where
  "visit f [] u = (WALK_CONTINUE, u)"
| "visit f (p # ps) u = (case f p u of (WALK_STOP, u) \<Rightarrow> (WALK_STOP, u) | (WALK_CONTINUE, u) \<Rightarrow> visit f ps u)"

lemma visit_append:
  "visit f (ps @ qs) u = (case visit f ps u of (WALK_STOP, u) \<Rightarrow> (WALK_STOP, u) | (WALK_CONTINUE, u) \<Rightarrow> visit f qs u)"
  by (induction ps arbitrary: u) (auto split: prod.split walk_result.split)

definition ends :: "'u walk \<Rightarrow> walk_result \<times> 'u" where
  "ends = (\<lambda>(u, s, r). (r, u))"

lemma ends_simp [simp]: "ends (u, s, r) = (r, u)"
  by (simp add: ends_def)

lemma walk_audio_ends: "ends (walk_audio tags cb p (u, s)) = visit (\<lambda>p. cb (tags p)) (audio_path p) u"
  by (auto simp: ends_def walk_audio_def audio_path_def process_audio_file_def Let_def
      split: prod.split walk_result.split)

lemma walk_visits:
  "ends (walk_node rt tags cb d n us) = visit (\<lambda>p. cb (tags p)) (node_files rt d n) (fst us)"
  "ends (walk_nodes rt tags cb d ns us) = visit (\<lambda>p. cb (tags p)) (nodes_files rt d ns) (fst us)"
proof (induction rt tags cb d n us and rt tags cb d ns us rule: walk_node_walk_nodes.induct)
  case (7 rt tags cb d n ns u s)
  obtain u1 s1 r where w: "walk_node rt tags cb d n (u, s) = (u1, s1, r)" by (metis prod_cases3)
  from 7(1) w have "visit (\<lambda>p. cb (tags p)) (node_files rt d n) u = (r, u1)" by simp
  with 7(2) w show ?case by (cases r) (auto simp: visit_append)
qed (auto simp: Let_def walk_audio_ends split: option.split)

lemma walker_walk_visits:
  assumes "walker_walk lib tags cb u = (0, u', s)"
  shows "snd (visit (\<lambda>p. cb (tags p)) (library_files lib) u) = u'"
proof -
  from assms obtain rt ns r where rt: "lb_real lib = Some rt" "lb_fts lib = Some ns"
    and w: "walk_nodes rt tags cb rt ns (u, count_dir no_stats) = (u', s, r)"
    by (auto simp: walker_walk_def split: option.splits if_splits prod.splits)
  from walk_visits(2) [of rt tags cb rt ns "(u, count_dir no_stats)"] w rt show ?thesis
    by (simp add: ends_def library_files_def) (metis snd_conv)
qed

lemma walker_walk_ok: "walker_walk lib tags cb u = (c, u', s) \<Longrightarrow> c \<noteq> 0 \<Longrightarrow> u' = u"
  by (auto simp: walker_walk_def split: option.splits if_splits prod.splits)

lemma library_files_audio: "p \<in> set (library_files lib) \<Longrightarrow> tags_format_from_path p \<noteq> FmtUnknown"
proof -
  have "(p \<in> set (node_files rt d n) \<longrightarrow> tags_format_from_path p \<noteq> FmtUnknown)"
    "(p \<in> set (nodes_files rt d ns) \<longrightarrow> tags_format_from_path p \<noteq> FmtUnknown)" for rt d n ns
    by (induction rt d n and rt d ns rule: node_files_nodes_files.induct)
      (auto simp: audio_path_def split: if_splits option.splits)
  then show "p \<in> set (library_files lib) \<Longrightarrow> tags_format_from_path p \<noteq> FmtUnknown"
    by (auto simp: library_files_def split: option.splits)
qed

end
