(* ===== verification/Scan.thy ===== *)
theory Scan
  imports Hash TrackRepo Check Walker
begin

text \<open>
  The library scan (\<open>scan.c\<close>): the walker's callback brings the tracks table up to date, the sweep
  drops the rows of files that were not seen, all in one transaction. What the system answers about
  the files (their attributes, the bytes the hash reads on the first and the second attempt, the tags)
  is the environment \<open>scan_env\<close>; lookups never fail, write statements by the schedule \<open>w_sql\<close>.
\<close>

section \<open>Environment and state\<close>

record tm =
  tm_year :: nat
  tm_mon :: nat
  tm_mday :: nat
  tm_hour :: nat
  tm_min :: nat
  tm_sec :: nat
  tm_usec :: nat

text \<open>\<open>se_lstat\<close> gives the modification time in nanoseconds and the size, \<open>None\<close> for a vanished file.\<close>

record scan_env =
  se_time :: tm
  se_lstat :: "path \<Rightarrow> (int \<times> int) option"
  se_audio :: "path \<Rightarrow> audio_file"
  se_audio2 :: "path \<Rightarrow> audio_file"
  se_junk :: "byte list"
  se_bytes :: "path \<Rightarrow> string option"
  se_taglib :: "path \<Rightarrow> taglib_file"

record scan_ctx =
  sc_w :: world
  sc_seen :: nat
  sc_added :: nat
  sc_updated :: nat
  sc_removed :: nat
  sc_skipped :: nat
  sc_hash_failed :: nat
  sc_parse_failed :: nat
  sc_hard :: bool

definition scan_init :: "world \<Rightarrow> scan_ctx" where
  "scan_init w = \<lparr>sc_w = w, sc_seen = 0, sc_added = 0, sc_updated = 0, sc_removed = 0, sc_skipped = 0,
     sc_hash_failed = 0, sc_parse_failed = 0, sc_hard = False\<rparr>"

text \<open>\<open>%0nu\<close> and the timestamp of the scan.\<close>

definition show_padded :: "nat \<Rightarrow> nat \<Rightarrow> string" where
  "show_padded n x = (let s = show_nat x in replicate (n - length s) CHR ''0'' @ s)"

definition iso_now_buf :: "tm \<Rightarrow> string" where
  "iso_now_buf t = take 39
     (show_padded 4 (tm_year t + 1900) @ ''-'' @ show_padded 2 (tm_mon t + 1) @ ''-'' @ show_padded 2 (tm_mday t) @
      ''T'' @ show_padded 2 (tm_hour t) @ '':'' @ show_padded 2 (tm_min t) @ '':'' @ show_padded 2 (tm_sec t) @
      ''.'' @ show_padded 6 (tm_usec t) @ ''Z'')"

definition se_now :: "scan_env \<Rightarrow> string" where
  "se_now E = iso_now_buf (se_time E)"

section \<open>The row of a file\<close>

primrec format_string :: "audio_format \<Rightarrow> string option" where
  "format_string FmtMp3 = Some ''mp3''"
| "format_string FmtFlac = Some ''flac''"
| "format_string FmtOpus = Some ''opus''"
| "format_string FmtOggVorbis = Some ''ogg''"
| "format_string FmtMp4 = Some ''m4a''"
| "format_string FmtUnknown = None"

definition csv_append :: "string option \<Rightarrow> string \<Rightarrow> string option" where
  "csv_append csv code = (case csv of
     None \<Rightarrow> Some code
   | Some s \<Rightarrow> Some (if s = [] then code else s @ '','' @ code))"

definition build_tag_warning :: "check_result \<Rightarrow> string option" where
  "build_tag_warning cr =
     fold (\<lambda>i csv. if ci_severity i = CHECK_OK then csv else csv_append csv (ci_code i)) (cr_issues cr) None"

definition json_escape_char :: "char \<Rightarrow> string" where
  "json_escape_char c =
     (if c = CHR 0x22 \<or> c = CHR 0x5C then [CHR 0x5C, c]
      else if c = CHR 0x08 then [CHR 0x5C, CHR ''b'']
      else if c = CHR 0x0C then [CHR 0x5C, CHR ''f'']
      else if c = CHR 0x0A then [CHR 0x5C, CHR ''n'']
      else if c = CHR 0x0D then [CHR 0x5C, CHR ''r'']
      else if c = CHR 0x09 then [CHR 0x5C, CHR ''t'']
      else if of_char c < (0x20 :: nat) then CHR 0x5C # CHR ''u'' # hex4 (of_char c)
      else [c])"

definition json_escape_str :: "string \<Rightarrow> string" where
  "json_escape_str s = concat (map json_escape_char s)"

definition canon_tag_field :: "tag_field \<Rightarrow> string option" where
  "canon_tag_field f =
     (if \<not> tf_present f then None
      else if \<not> tf_multi f \<or> tf_count f \<le> 1 then tf_value f
      else Some (''['' @ [CHR 0x22] @ json_escape_str (case tf_value f of None \<Rightarrow> [] | Some v \<Rightarrow> v) @
                 [CHR 0x22] @ '']''))"

definition plain_field :: "tag_field \<Rightarrow> string option" where
  "plain_field f = (if tf_present f then tf_value f else None)"

definition is_transcode_artifact :: "path \<Rightarrow> bool" where
  "is_transcode_artifact p \<longleftrightarrow> strstr p ''/resident/'' \<and>
     (case dot_suffix p of None \<Rightarrow> False
      | Some d \<Rightarrow> strcaseeq d ''.opus'' \<or> strcaseeq d ''.m4a'' \<or> strcaseeq d ''.aac'')"

text \<open>The tag status, its warning and whether the parse failure is counted.\<close>

definition tag_status :: "tag_record \<Rightarrow> string \<times> string option" where
  "tag_status rec =
     (let cr = check_canonical rec
      in if tr_failed rec then (''parse_failed'', Some ''taglib_open_failed'')
         else if cr_any_fail cr then (''incomplete'', build_tag_warning cr)
         else if cr_any_flag cr then (''ok'', build_tag_warning cr)
         else (''ok'', None))"

definition scan_row :: "string \<Rightarrow> tag_record \<Rightarrow> sha \<Rightarrow> int \<times> int \<Rightarrow> track_row" where
  "scan_row now rec hex = (\<lambda>(mtime, sz).
     \<lparr>r_sha = Some hex, r_path = Some (tr_path rec), r_mtime_ns = mtime, r_size = sz,
      r_format = format_string (tr_format rec), r_title = plain_field (tr_title rec),
      r_artist = canon_tag_field (tr_artist rec), r_album = plain_field (tr_album rec),
      r_album_artist = canon_tag_field (tr_album_artist rec),
      r_track_number = plain_field (tr_track_number rec), r_disc_number = plain_field (tr_disc_number rec),
      r_year = plain_field (tr_year rec), r_genre = plain_field (tr_genre rec), r_duration_ms = -1,
      r_tags_status = Some (fst (tag_status rec)), r_tag_warning = snd (tag_status rec),
      r_date_added = Some now, r_last_seen = now\<rparr>)"

section \<open>The callback\<close>

text \<open>One retry where the file changed under the hash (\<open>EAGAIN\<close>).\<close>

definition hash_with_retry :: "scan_env \<Rightarrow> path \<Rightarrow> errno + string" where
  "hash_with_retry E p = (case hash_audio_payload (se_junk E) (Some p) (se_audio E p) of
     Inl e \<Rightarrow> if e = EWOULDBLOCK then hash_audio_payload (se_junk E) (Some p) (se_audio2 E p) else Inl e
   | Inr h \<Rightarrow> Inr h)"

definition skip_unchanged :: "scan_env \<Rightarrow> sha \<Rightarrow> scan_ctx \<Rightarrow> walk_result \<times> scan_ctx" where
  "skip_unchanged E h c = (case track_repo_mark_seen h (se_now E) (sc_w c) of (rc, w) \<Rightarrow>
     if rc \<noteq> 0 then (WALK_STOP, c\<lparr>sc_w := w, sc_hard := True\<rparr>)
     else (WALK_CONTINUE, c\<lparr>sc_w := w, sc_skipped := sc_skipped c + 1\<rparr>))"

text \<open>Insert or update: by the sha first, then by whether the path had another row (\<open>old\<close>).\<close>

definition store_row :: "track_row \<Rightarrow> sha \<Rightarrow> sha option \<Rightarrow> scan_ctx \<Rightarrow> int \<times> scan_ctx" where
  "store_row row hex old c =
     (if track_repo_lookup_by_sha256 (sc_w c) (Some hex) = 1 then
        (case track_repo_update row (sc_w c) of (rc, w) \<Rightarrow> (rc, c\<lparr>sc_w := w, sc_updated := sc_updated c + 1\<rparr>))
      else case old of
        Some x \<Rightarrow>
          (case track_repo_delete x (sc_w c) of (rc, w) \<Rightarrow>
             (case (if rc \<noteq> 0 then (-1, w) else track_repo_insert row w) of (rc, w) \<Rightarrow>
                (rc, c\<lparr>sc_w := w, sc_updated := sc_updated c + 1\<rparr>)))
      | None \<Rightarrow>
          (case track_repo_insert row (sc_w c) of (rc, w) \<Rightarrow> (rc, c\<lparr>sc_w := w, sc_added := sc_added c + 1\<rparr>)))"

definition scan_changed ::
    "scan_env \<Rightarrow> tag_record \<Rightarrow> int \<times> int \<Rightarrow> sha option \<Rightarrow> scan_ctx \<Rightarrow> walk_result \<times> scan_ctx" where
  "scan_changed E rec st old c = (case hash_with_retry E (tr_path rec) of
     Inl e \<Rightarrow> (WALK_CONTINUE, c\<lparr>sc_hash_failed := sc_hash_failed c + 1\<rparr>)
   | Inr hex \<Rightarrow>
       if is_blacklisted hex (w_db (sc_w c)) then (WALK_CONTINUE, c)
       else let c = (if tr_failed rec then c\<lparr>sc_parse_failed := sc_parse_failed c + 1\<rparr> else c)
            in case store_row (scan_row (se_now E) rec hex st) hex old c of (rc, c) \<Rightarrow>
                 if rc \<noteq> 0 then (WALK_STOP, c\<lparr>sc_hard := True\<rparr>) else (WALK_CONTINUE, c))"

definition on_file :: "scan_env \<Rightarrow> tag_record \<Rightarrow> scan_ctx \<Rightarrow> walk_result \<times> scan_ctx" where
  "on_file E rec c =
     (if is_transcode_artifact (tr_path rec) then (WALK_CONTINUE, c)
      else let c = c\<lparr>sc_seen := sc_seen c + 1\<rparr> in
      case se_lstat E (tr_path rec) of
        None \<Rightarrow> (WALK_CONTINUE, c\<lparr>sc_hash_failed := sc_hash_failed c + 1\<rparr>)
      | Some (mtime, sz) \<Rightarrow>
          (case track_repo_lookup_by_path (sc_w c) (tr_path rec) of
             None \<Rightarrow> scan_changed E rec (mtime, sz) None c
           | Some (h, m, s) \<Rightarrow>
               if m = mtime \<and> s = sz then skip_unchanged E h c
               else scan_changed E rec (mtime, sz) (Some h) c))"

section \<open>The scan\<close>

definition scan_tags :: "scan_env \<Rightarrow> path \<Rightarrow> tag_record" where
  "scan_tags E p = tags_extract p (se_bytes E p) (se_taglib E p)"

definition put_scan_meta :: "path \<Rightarrow> string \<Rightarrow> scan_ctx \<Rightarrow> db \<Rightarrow> db" where
  "put_scan_meta root_dir now c d = d\<lparr>scan_meta := upsert sm_root (\<lambda>old new. new\<lparr>sm_root := sm_root old\<rparr>)
     \<lparr>sm_root = root_dir, sm_last = now, sm_seen = sc_seen c, sm_added = sc_added c,
      sm_updated = sc_updated c, sm_removed = sc_removed c\<rparr> (scan_meta d)\<rparr>"

text \<open>The sweep; \<open>None\<close> is a failed statement.\<close>

definition scan_sweep :: "path option \<Rightarrow> string \<Rightarrow> scan_ctx \<Rightarrow> bool \<times> scan_ctx" where
  "scan_sweep prefix now c = (case prefix of
     None \<Rightarrow> (True, c)
   | Some dir \<Rightarrow> (case track_repo_delete_unseen_under_root dir now (sc_w c) of (n, w) \<Rightarrow>
       if n < 0 then (False, c\<lparr>sc_w := w\<rparr>) else (True, c\<lparr>sc_w := w, sc_removed := nat n\<rparr>)))"

definition scan_finish :: "scan_env \<Rightarrow> path \<Rightarrow> bool \<Rightarrow> scan_ctx \<Rightarrow> int \<times> scan_ctx" where
  "scan_finish E library_root update_meta c =
     (let c = (if update_meta
               then c\<lparr>sc_w := snd (sql_write (put_scan_meta library_root (se_now E) c) (sc_w c))\<rparr> else c)
      in case db_commit (sc_w c) of (ok, w) \<Rightarrow>
           if \<not> ok then (-1, c\<lparr>sc_w := w\<rparr>)
           else (if sc_hash_failed c > 0 \<or> sc_parse_failed c > 0 then 1 else 0, c\<lparr>sc_w := w\<rparr>))"

definition scan_run_internal :: "scan_env \<Rightarrow> path \<Rightarrow> library \<Rightarrow> path option \<Rightarrow> bool \<Rightarrow> world \<Rightarrow> int \<times> scan_ctx" where
  "scan_run_internal E library_root lib prefix update_meta w =
     (case db_begin w of (ok, w) \<Rightarrow>
        if \<not> ok then (-1, scan_init w)
        else case walker_walk lib (scan_tags E) (on_file E) (scan_init w) of (wrc, c, ws) \<Rightarrow>
          if wrc \<noteq> 0 \<or> sc_hard c then (-1, c\<lparr>sc_w := db_rollback (sc_w c)\<rparr>)
          else case scan_sweep prefix (se_now E) c of (ok, c) \<Rightarrow>
            if \<not> ok then (-1, c\<lparr>sc_w := db_rollback (sc_w c)\<rparr>)
            else scan_finish E library_root update_meta c)"

text \<open>\<open>lib\<close> is what the walker finds at the directory it descends into.\<close>

definition scan_run :: "scan_env \<Rightarrow> path \<Rightarrow> library \<Rightarrow> world \<Rightarrow> int \<times> scan_ctx" where
  "scan_run E library_root lib w = scan_run_internal E library_root lib (Some library_root) True w"

definition scan_run_subtree :: "scan_env \<Rightarrow> path \<Rightarrow> library \<Rightarrow> world \<Rightarrow> int \<times> scan_ctx" where
  "scan_run_subtree E library_root lib w = scan_run_internal E library_root lib None False w"

end
