(* ===== verification/WdMap.thy ===== *)
theory WdMap
  imports Prelude "HOL-Library.Word"
begin

text \<open>
  The watch-descriptor map of \<open>watch.c\<close>: an open-addressing hash table with linear probing, at
  most half full, whose removal re-inserts the rest of the probe cluster. A slot with
  \<open>wd = -1\<close> is \<open>None\<close>; allocation never fails. The probe loops of \<open>wdm_set\<close>, \<open>wdm_grow\<close> and
  \<open>wdm_remove\<close> have no bound in the code: here they have one step for each slot, and running out
  (a table without an empty slot, where the code would spin) is \<open>None\<close>.
\<close>

type_synonym slots = "(int \<times> path) option list"

record wd_map =
  wm_slots :: slots
  wm_count :: nat

abbreviation wm_capacity :: "wd_map \<Rightarrow> nat" where
  "wm_capacity m \<equiv> length (wm_slots m)"

definition wdm_init :: wd_map where
  "wdm_init = \<lparr>wm_slots = [], wm_count = 0\<rparr>"

definition wdm_hash :: "int \<Rightarrow> nat \<Rightarrow> nat" where
  "wdm_hash wd cap = unat ((of_int wd :: 32 word) * 2654435761) mod cap"

fun probe_free :: "nat \<Rightarrow> slots \<Rightarrow> nat \<Rightarrow> nat option" where
  "probe_free 0 ss i = None"
| "probe_free (Suc n) ss i =
     (if ss ! i = None then Some i else probe_free n ss ((i + 1) mod length ss))"

fun rehash :: "slots \<Rightarrow> slots \<times> nat \<Rightarrow> (slots \<times> nat) option" where
  "rehash [] fresh = Some fresh"
| "rehash (None # old) fresh = rehash old fresh"
| "rehash (Some (wd, p) # old) (ss, n) =
     Option.bind (probe_free (length ss) ss (wdm_hash wd (length ss)))
       (\<lambda>i. rehash old (ss[i := Some (wd, p)], n + 1))"

definition wdm_grow :: "wd_map \<Rightarrow> wd_map option" where
  "wdm_grow m =
     (let old_cap = wm_capacity m; new_cap = (if old_cap = 0 then 64 else old_cap * 2)
      in map_option (\<lambda>(ss, n). \<lparr>wm_slots = ss, wm_count = n\<rparr>)
           (rehash (wm_slots m) (replicate new_cap None, 0)))"

text \<open>The first slot from \<open>i\<close> on that is empty or holds \<open>wd\<close>.\<close>

fun probe :: "nat \<Rightarrow> slots \<Rightarrow> int \<Rightarrow> nat \<Rightarrow> nat option" where
  "probe 0 ss wd i = None"
| "probe (Suc n) ss wd i = (case ss ! i of
     None \<Rightarrow> Some i
   | Some (w, p) \<Rightarrow> if w = wd then Some i else probe n ss wd ((i + 1) mod length ss))"

definition wdm_set :: "wd_map \<Rightarrow> int \<Rightarrow> path \<Rightarrow> wd_map option" where
  "wdm_set m wd p =
     Option.bind (if wm_capacity m = 0 \<or> wm_count m * 2 \<ge> wm_capacity m then wdm_grow m else Some m)
       (\<lambda>m. let ss = wm_slots m; cap = length ss in
          Option.bind (probe cap ss wd (wdm_hash wd cap)) (\<lambda>i.
            if ss ! i \<noteq> None then Some (m\<lparr>wm_slots := ss[i := Some (wd, p)]\<rparr>)
            else Some (m\<lparr>wm_slots := ss[i := Some (wd, p)], wm_count := wm_count m + 1\<rparr>)))"

definition wdm_get :: "wd_map \<Rightarrow> int \<Rightarrow> path option" where
  "wdm_get m wd =
     (if wm_capacity m = 0 then None
      else case probe (wm_capacity m) (wm_slots m) wd (wdm_hash wd (wm_capacity m)) of
        None \<Rightarrow> None
      | Some i \<Rightarrow> map_option snd (wm_slots m ! i))"

definition wdm_clear :: "wd_map \<Rightarrow> nat \<Rightarrow> wd_map" where
  "wdm_clear m i = m\<lparr>wm_slots := (wm_slots m)[i := None], wm_count := wm_count m - 1\<rparr>"

fun reinsert_cluster :: "nat \<Rightarrow> wd_map \<Rightarrow> nat \<Rightarrow> wd_map option" where
  "reinsert_cluster 0 m nx = None"
| "reinsert_cluster (Suc n) m nx = (case wm_slots m ! nx of
     None \<Rightarrow> Some m
   | Some (wd2, p2) \<Rightarrow>
       Option.bind (wdm_set (wdm_clear m nx) wd2 p2)
         (\<lambda>m. reinsert_cluster n m ((nx + 1) mod wm_capacity m)))"

definition wdm_remove :: "wd_map \<Rightarrow> int \<Rightarrow> wd_map option" where
  "wdm_remove m wd =
     (if wm_capacity m = 0 then Some m
      else case probe (wm_capacity m) (wm_slots m) wd (wdm_hash wd (wm_capacity m)) of
        None \<Rightarrow> Some m
      | Some i \<Rightarrow>
          if wm_slots m ! i = None then Some m
          else reinsert_cluster (wm_capacity m) (wdm_clear m i) ((i + 1) mod wm_capacity m))"

section \<open>Distances on the ring of slots\<close>

definition dist :: "nat \<Rightarrow> nat \<Rightarrow> nat \<Rightarrow> nat" where
  "dist c a b = (if a \<le> b then b - a else b + c - a)"

lemma dist_self [simp]: "dist c a a = 0"
  by (simp add: dist_def)

lemma dist_less: "a < c \<Longrightarrow> b < c \<Longrightarrow> dist c a b < c"
  by (auto simp: dist_def)

lemma dist_inj: "a < c \<Longrightarrow> b < c \<Longrightarrow> b' < c \<Longrightarrow> dist c a b = dist c a b' \<Longrightarrow> b = b'"
  by (auto simp: dist_def split: if_splits)

lemma dist_0: "a < c \<Longrightarrow> b < c \<Longrightarrow> dist c a b = 0 \<longleftrightarrow> a = b"
  by (auto simp: dist_def)

lemma next_slot: "a < c \<Longrightarrow> Suc a mod c = (if Suc a = c then 0 else Suc a)"
  by simp

lemma next_less: "a < c \<Longrightarrow> Suc a mod c < c"
  by (cases c) simp_all

lemma dist_next: "a < c \<Longrightarrow> b < c \<Longrightarrow> b \<noteq> a \<Longrightarrow> dist c (Suc a mod c) b = dist c a b - 1"
  by (auto simp: dist_def next_slot)

text \<open>Where the way from \<open>a\<close> to \<open>j\<close> meets \<open>q\<close>, and \<open>e\<close> lies between \<open>q\<close> and \<open>j\<close>, it meets \<open>e\<close>.\<close>

lemma between:
  assumes "a < c" "x < c" "q < c" "e < c" "j < c"
    and "dist c x q < dist c x e" "dist c x e < dist c x j \<or> j = x \<and> q \<noteq> x" "dist c a q < dist c a j"
  shows "dist c a e < dist c a j"
  using assms by (auto simp: dist_def split: if_splits)

section \<open>Probing\<close>

definition stops :: "slots \<Rightarrow> int \<Rightarrow> nat \<Rightarrow> bool" where
  "stops ss wd j \<longleftrightarrow> (case ss ! j of None \<Rightarrow> True | Some (w, p) \<Rightarrow> w = wd)"

lemma probe_first:
  assumes "i < length ss" "j < length ss" "stops ss wd j" "dist (length ss) i j < n"
  shows "\<exists>r < length ss. probe n ss wd i = Some r \<and> stops ss wd r \<and>
    (\<forall>q < length ss. dist (length ss) i q < dist (length ss) i r \<longrightarrow> \<not> stops ss wd q)"
  using assms
proof (induction n arbitrary: i)
  case (Suc n)
  let ?c = "length ss"
  show ?case
  proof (cases "stops ss wd i")
    case True
    then have "probe (Suc n) ss wd i = Some i" by (auto simp: stops_def split: option.splits)
    with True Suc.prems(1) show ?thesis by auto
  next
    case False
    with Suc.prems have ne: "j \<noteq> i" by auto
    let ?i = "Suc i mod ?c"
    have i': "?i < ?c" using Suc.prems(1) by (rule next_less)
    have "dist ?c ?i j < n" using Suc.prems ne dist_next [of i ?c j] dist_0 [of i ?c j] by auto
    from Suc.IH [OF i' Suc.prems(2,3) this] obtain r where r: "r < ?c" "probe n ss wd ?i = Some r"
      "stops ss wd r" "\<forall>q<?c. dist ?c ?i q < dist ?c ?i r \<longrightarrow> \<not> stops ss wd q" by blast
    have rne: "r \<noteq> i" using r(3) False by auto
    have "probe (Suc n) ss wd i = Some r" using False r(2) by (auto simp: stops_def split: option.splits)
    moreover have "\<not> stops ss wd q" if "q < ?c" "dist ?c i q < dist ?c i r" for q
    proof (cases "q = i")
      case False
      with r(4) that dist_next [OF Suc.prems(1) that(1) False] dist_next [OF Suc.prems(1) r(1) rne]
        dist_0 [OF Suc.prems(1) that(1)] show ?thesis by auto
    qed (use False in simp)
    ultimately show ?thesis using r by blast
  qed
qed simp

lemma probe_free_first:
  assumes "\<And>p j. j < length ss \<Longrightarrow> ss ! j \<noteq> Some (wd, p)" "i < length ss"
  shows "probe_free n ss i = probe n ss wd i"
  using assms
proof (induction n arbitrary: i)
  case (Suc n)
  have "Suc i mod length ss < length ss" using Suc.prems(2) by (rule next_less)
  with Suc show ?case by (auto split: option.splits)
qed simp

section \<open>The table\<close>

text \<open>Nothing on the way from the hash of a key to its slot is empty; no key is there twice.\<close>

definition keys_ok :: "slots \<Rightarrow> bool" where
  "keys_ok ss \<longleftrightarrow> (\<forall>i < length ss. \<forall>j < length ss. \<forall>k p q.
     ss ! i = Some (k, p) \<and> ss ! j = Some (k, q) \<longrightarrow> i = j) \<and> (\<forall>k p. Some (k, p) \<in> set ss \<longrightarrow> 0 \<le> k)"

definition tab_ok :: "slots \<Rightarrow> bool" where
  "tab_ok ss \<longleftrightarrow> keys_ok ss \<and> (\<forall>j < length ss. \<forall>k p. ss ! j = Some (k, p) \<longrightarrow>
     (\<forall>q < length ss. dist (length ss) (wdm_hash k (length ss)) q < dist (length ss) (wdm_hash k (length ss)) j \<longrightarrow>
        ss ! q \<noteq> None))"

definition occupied :: "slots \<Rightarrow> nat" where
  "occupied ss = length (filter (\<lambda>s. s \<noteq> None) ss)"

definition entries :: "slots \<Rightarrow> (int \<times> path) list" where
  "entries ss = concat (map (\<lambda>s. case s of None \<Rightarrow> [] | Some kp \<Rightarrow> [kp]) ss)"

definition holds :: "slots \<Rightarrow> int \<Rightarrow> path option" where
  "holds ss k = map_of (entries ss) k"

lemma entries_simps [simp]:
  "entries [] = []" "entries (None # ss) = entries ss" "entries (Some kp # ss) = kp # entries ss"
  by (simp_all add: entries_def)

lemma set_entries: "kp \<in> set (entries ss) \<longleftrightarrow> Some kp \<in> set ss"
  by (cases kp) (induction ss; auto simp: entries_def split: option.splits)

lemma hash_less [simp]: "0 < c \<Longrightarrow> wdm_hash k c < c"
  by (simp add: wdm_hash_def)

lemma occupied_Cons: "occupied (s # ss) = (if s = None then 0 else 1) + occupied ss"
  by (simp add: occupied_def)

lemma occupied_upd:
  "i < length ss \<Longrightarrow> occupied (ss[i := x]) + (if ss ! i = None then 0 else 1) =
     occupied ss + (if x = None then 0 else 1)"
proof (induction ss arbitrary: i)
  case (Cons s ss)
  then show ?case by (cases i) (auto simp: occupied_Cons split: if_splits)
qed simp

lemma occupied_le: "occupied ss \<le> length ss"
  by (simp add: occupied_def)

lemma free_slot: "occupied ss < length ss \<Longrightarrow> \<exists>i < length ss. ss ! i = None"
proof (rule ccontr)
  assume lt: "occupied ss < length ss" and "\<not> (\<exists>i < length ss. ss ! i = None)"
  then have "filter (\<lambda>s. s \<noteq> None) ss = ss" by (auto simp: filter_id_conv in_set_conv_nth)
  with lt show False by (simp add: occupied_def)
qed

lemma two_free_slots:
  assumes "occupied ss + 1 < length ss" "i < length ss" "ss ! i \<noteq> None \<or> True"
  shows "\<exists>j < length ss. j \<noteq> i \<and> ss ! j = None"
proof -
  have "occupied (ss[i := Some (0, [])]) < length (ss[i := Some (0, [])])"
    using occupied_upd [OF assms(2), of "Some (0, [])"] assms(1) by (simp split: if_splits)
  from free_slot [OF this] obtain j where "j < length ss" "ss[i := Some (0, [])] ! j = None" by auto
  then show ?thesis by (cases "j = i") auto
qed

lemma keys_okD:
  assumes "keys_ok ss" "i < length ss" "j < length ss" "ss ! i = Some (k, p)" "ss ! j = Some (k, q)"
  shows "i = j"
  using assms unfolding keys_ok_def by blast

lemma keys_ok_Cons:
  assumes "keys_ok (s # ss)"
  shows "keys_ok ss" "s = Some (k, p) \<Longrightarrow> Some (k, q) \<notin> set ss"
proof -
  have "i = j" if "i < length ss" "j < length ss" "ss ! i = Some (k, p)" "ss ! j = Some (k, q)" for i j k p q
    using keys_okD [OF assms, of "Suc i" "Suc j" k p q] that by simp
  moreover have "0 \<le> k" if "Some (k, p) \<in> set ss" for k p
    using assms that unfolding keys_ok_def by auto
  ultimately show "keys_ok ss" unfolding keys_ok_def by blast
  show "Some (k, q) \<notin> set ss" if "s = Some (k, p)"
  proof
    assume "Some (k, q) \<in> set ss"
    then obtain j where "j < length ss" "ss ! j = Some (k, q)" by (auto simp: in_set_conv_nth)
    with keys_okD [OF assms, of 0 "Suc j" k p q] that show False by simp
  qed
qed

lemma keys_distinct: "keys_ok ss \<Longrightarrow> distinct (map fst (entries ss))"
proof (induction ss)
  case (Cons s ss)
  note d = Cons.IH [OF keys_ok_Cons(1) [OF Cons.prems]]
  show ?case
  proof (cases s)
    case (Some kp)
    have "fst kp \<notin> fst ` set (entries ss)"
      using keys_ok_Cons(2) [OF Cons.prems, of "fst kp" "snd kp"] Some by (auto simp: set_entries)
    with d Some show ?thesis by simp
  qed (use d in simp)
qed simp

lemma holds_Some: "keys_ok ss \<Longrightarrow> holds ss k = Some p \<longleftrightarrow> Some (k, p) \<in> set ss"
  by (simp add: holds_def map_of_eq_Some_iff keys_distinct set_entries)

lemma holds_None: "keys_ok ss \<Longrightarrow> holds ss k = None \<longleftrightarrow> (\<forall>p. Some (k, p) \<notin> set ss)"
  using holds_Some [of ss k] by (metis not_None_eq)

lemma holds_cong:
  assumes "keys_ok ss" "keys_ok ss'" "\<And>p. Some (k, p) \<in> set ss' \<longleftrightarrow> Some (k, p) \<in> set ss"
  shows "holds ss' k = holds ss k"
proof (cases "holds ss k")
  case None
  with assms holds_None [of ss k] holds_None [of ss' k] show ?thesis by simp
next
  case (Some p)
  with assms holds_Some [of ss k p] holds_Some [of ss' k p] show ?thesis by simp
qed

text \<open>In a well-formed table with room the probe finds the key, or else the slot to put it in.\<close>

lemma probe_tab:
  assumes "tab_ok ss" "occupied ss < length ss"
  obtains (hit) r p where "r < length ss" "probe (length ss) ss k (wdm_hash k (length ss)) = Some r"
      "ss ! r = Some (k, p)"
  | (miss) r where "r < length ss" "probe (length ss) ss k (wdm_hash k (length ss)) = Some r" "ss ! r = None"
      "\<And>q. q < length ss \<Longrightarrow> dist (length ss) (wdm_hash k (length ss)) q < dist (length ss) (wdm_hash k (length ss)) r
         \<Longrightarrow> ss ! q \<noteq> None" "\<And>p. Some (k, p) \<notin> set ss"
proof -
  let ?c = "length ss" and ?h = "wdm_hash k (length ss)"
  from free_slot [OF assms(2)] obtain f where f: "f < ?c" "ss ! f = None" by blast
  then have h: "?h < ?c" by (cases ?c) simp_all
  have "stops ss k f" using f by (simp add: stops_def)
  from probe_first [OF h f(1) this dist_less [OF h f(1)]]
  obtain r where r: "r < ?c" "probe ?c ss k ?h = Some r" "stops ss k r"
    "\<And>q. q < ?c \<Longrightarrow> dist ?c ?h q < dist ?c ?h r \<Longrightarrow> \<not> stops ss k q" by blast
  show thesis
  proof (cases "ss ! r")
    case (Some kp)
    with r(3) have "ss ! r = Some (k, snd kp)" by (cases kp) (simp add: stops_def)
    with r hit show thesis by blast
  next
    case None
    have "Some (k, p) \<notin> set ss" for p
    proof
      assume "Some (k, p) \<in> set ss"
      then obtain j where j: "j < ?c" "ss ! j = Some (k, p)" by (auto simp: in_set_conv_nth)
      then have "stops ss k j" by (simp add: stops_def)
      with r(4) j have "dist ?c ?h r \<le> dist ?c ?h j" by (meson not_le)
      moreover have "\<not> dist ?c ?h r < dist ?c ?h j"
        using assms(1) j r(1) None unfolding tab_ok_def by blast
      ultimately have "r = j" using dist_inj [OF h r(1) j(1)] by simp
      with j None show False by simp
    qed
    moreover have "ss ! q \<noteq> None" if "q < ?c" "dist ?c ?h q < dist ?c ?h r" for q
      using r(4) [OF that] by (auto simp: stops_def split: option.splits)
    ultimately show thesis using miss r None by blast
  qed
qed

lemma get_tab:
  assumes "tab_ok ss" "occupied ss < length ss"
  shows "wdm_get \<lparr>wm_slots = ss, wm_count = n\<rparr> k = holds ss k"
proof -
  have ko: "keys_ok ss" using assms(1) by (simp add: tab_ok_def)
  from assms show ?thesis
  proof (cases rule: probe_tab [where k = k])
    case (hit r p)
    then have "Some (k, p) \<in> set ss" by (metis nth_mem)
    with holds_Some [OF ko] have "holds ss k = Some p" by simp
    with hit show ?thesis by (auto simp: wdm_get_def)
  next
    case (miss r)
    then have "holds ss k = None" using holds_None [OF ko] by blast
    with miss show ?thesis by (auto simp: wdm_get_def)
  qed
qed

text \<open>Putting a key into a slot that is free or its own.\<close>

definition put_ok :: "slots \<Rightarrow> nat \<Rightarrow> int \<Rightarrow> bool" where
  "put_ok ss r k \<longleftrightarrow> r < length ss \<and> 0 \<le> k \<and> (\<forall>i < length ss. \<forall>q. ss ! i = Some (k, q) \<longrightarrow> i = r) \<and>
     (ss ! r = None \<or> (\<exists>q. ss ! r = Some (k, q)))"

lemma put_okD:
  assumes "put_ok ss r k"
  shows "r < length ss" "0 \<le> k" "i < length ss \<Longrightarrow> ss ! i = Some (k, q) \<Longrightarrow> i = r"
    "k' \<noteq> k \<Longrightarrow> ss ! r \<noteq> Some (k', q)"
proof -
  from assms have *: "r < length ss" "0 \<le> k" "\<forall>i < length ss. \<forall>q. ss ! i = Some (k, q) \<longrightarrow> i = r"
    "ss ! r = None \<or> (\<exists>q. ss ! r = Some (k, q))"
    unfolding put_ok_def by simp_all
  show "r < length ss" "0 \<le> k" by (fact *(1), fact *(2))
  show "i < length ss \<Longrightarrow> ss ! i = Some (k, q) \<Longrightarrow> i = r" using *(3) by blast
  show "k' \<noteq> k \<Longrightarrow> ss ! r \<noteq> Some (k', q)" using *(4) by auto
qed

lemma put_nth: "put_ok ss r k \<Longrightarrow> i < length ss \<Longrightarrow>
    ss[r := Some (k, p)] ! i = (if i = r then Some (k, p) else ss ! i)"
  by (simp add: put_ok_def)

lemma put_mem:
  assumes ok: "put_ok ss r k"
  shows "Some (k', q) \<in> set (ss[r := Some (k, p)]) \<longleftrightarrow> (if k' = k then q = p else Some (k', q) \<in> set ss)"
proof (cases "k' = k")
  case True
  have "q = p" if "Some (k, q) \<in> set (ss[r := Some (k, p)])"
  proof -
    from that obtain i where i: "i < length ss" "ss[r := Some (k, p)] ! i = Some (k, q)"
      by (auto simp: in_set_conv_nth)
    with ok have "i = r" by (auto simp: put_nth put_ok_def split: if_splits)
    with i ok show ?thesis by (simp add: put_nth)
  qed
  moreover have "Some (k, p) \<in> set (ss[r := Some (k, p)])"
    using ok by (auto simp: put_ok_def intro: set_update_memI)
  ultimately show ?thesis using True by auto
next
  case False
  have "ss[r := Some (k, p)] ! i = Some (k', q) \<longleftrightarrow> ss ! i = Some (k', q)" if "i < length ss" for i
    using that False put_okD(4) [OF ok False, of q] by (cases "i = r") (simp_all add: put_nth [OF ok])
  then have "Some (k', q) \<in> set (ss[r := Some (k, p)]) \<longleftrightarrow> Some (k', q) \<in> set ss"
    by (auto simp: in_set_conv_nth)
  with False show ?thesis by simp
qed

lemma put_keys:
  assumes ok: "put_ok ss r k" and ko: "keys_ok ss"
  shows "keys_ok (ss[r := Some (k, p)])" "holds (ss[r := Some (k, p)]) = (holds ss)(k \<mapsto> p)"
proof -
  show ko': "keys_ok (ss[r := Some (k, p)])"
    unfolding keys_ok_def
  proof (intro conjI allI impI)
    fix i j k' q q'
    assume i: "i < length (ss[r := Some (k, p)])" and j: "j < length (ss[r := Some (k, p)])"
      and e: "ss[r := Some (k, p)] ! i = Some (k', q) \<and> ss[r := Some (k, p)] ! j = Some (k', q')"
    have own: "n < length ss \<Longrightarrow> ss ! n = Some (k, q) \<Longrightarrow> n = r" for n q using ok by (simp add: put_ok_def)
    show "i = j"
    proof (cases "k' = k")
      case True
      have "n = r" if "n < length ss" "ss[r := Some (k, p)] ! n = Some (k, q)" for n q
        using that own by (cases "n = r") (simp_all add: put_nth [OF ok])
      with True i j e show ?thesis by (metis length_list_update)
    next
      case False
      with i j e ok have "ss ! i = Some (k', q)" "ss ! j = Some (k', q')"
        by (simp_all add: put_nth split: if_splits)
      with i j show ?thesis using keys_okD [OF ko] by simp
    qed
  next
    fix k' q assume "Some (k', q) \<in> set (ss[r := Some (k, p)])"
    then show "0 \<le> k'"
      using put_mem [OF ok, of k' q p] put_okD(2) [OF ok] ko unfolding keys_ok_def by (cases "k' = k") auto
  qed
  have "holds (ss[r := Some (k, p)]) k' = ((holds ss)(k \<mapsto> p)) k'" for k'
  proof (cases "k' = k")
    case True
    with holds_Some [OF ko', of k p] put_mem [OF ok, of k p] show ?thesis by simp
  next
    case False
    with holds_cong [OF ko ko', of k'] put_mem [OF ok, of k'] show ?thesis by simp
  qed
  then show "holds (ss[r := Some (k, p)]) = (holds ss)(k \<mapsto> p)" by (simp add: fun_eq_iff)
qed

text \<open>The way to a slot: the slots before it, from the hash of \<open>k\<close> on.\<close>

definition before :: "nat \<Rightarrow> int \<Rightarrow> nat \<Rightarrow> nat \<Rightarrow> bool" where
  "before c k j q \<longleftrightarrow> q < c \<and> dist c (wdm_hash k c) q < dist c (wdm_hash k c) j"

lemma tab_okD: "tab_ok ss \<Longrightarrow> j < length ss \<Longrightarrow> ss ! j = Some (k, p) \<Longrightarrow> before (length ss) k j q \<Longrightarrow> ss ! q \<noteq> None"
  unfolding tab_ok_def before_def by blast

lemma tab_okI:
  "keys_ok ss \<Longrightarrow> (\<And>j k p q. j < length ss \<Longrightarrow> ss ! j = Some (k, p) \<Longrightarrow> before (length ss) k j q \<Longrightarrow> ss ! q \<noteq> None) \<Longrightarrow>
   tab_ok ss"
  unfolding tab_ok_def before_def by blast

lemma put_tab:
  assumes ok: "put_ok ss r k" and tab: "tab_ok ss"
    and path: "\<And>q. before (length ss) k r q \<Longrightarrow> ss ! q \<noteq> None"
  shows "tab_ok (ss[r := Some (k, p)])"
proof (rule tab_okI)
  show "keys_ok (ss[r := Some (k, p)])" using tab put_keys(1) [OF ok] by (simp add: tab_ok_def)
next
  fix j k' p' q
  assume j: "j < length (ss[r := Some (k, p)])" "ss[r := Some (k, p)] ! j = Some (k', p')"
    and q: "before (length (ss[r := Some (k, p)])) k' j q"
  have "ss ! q \<noteq> None"
  proof (cases "j = r")
    case True
    with j q path ok show ?thesis by (auto simp: put_nth)
  next
    case False
    with j ok have "ss ! j = Some (k', p')" by (simp add: put_nth)
    with tab_okD [OF tab, of j k' p' q] j q show ?thesis by simp
  qed
  with q ok show "ss[r := Some (k, p)] ! q \<noteq> None" by (simp add: put_nth before_def)
qed

text \<open>The insertion of \<open>wdm_set\<close> into a table with room.\<close>

lemma set_tab:
  assumes tab: "tab_ok ss" "occupied ss < length ss" and k: "0 \<le> k"
  obtains r where "r < length ss" "probe (length ss) ss k (wdm_hash k (length ss)) = Some r"
    "tab_ok (ss[r := Some (k, p)])" "holds (ss[r := Some (k, p)]) = (holds ss)(k \<mapsto> p)"
    "ss ! r = None \<longleftrightarrow> holds ss k = None"
proof -
  have ko: "keys_ok ss" using tab by (simp add: tab_ok_def)
  from tab show thesis
  proof (cases rule: probe_tab [where k = k])
    case (hit r q)
    have "put_ok ss r k" using hit k keys_okD [OF ko] by (auto simp: put_ok_def)
    moreover have "ss ! q' \<noteq> None" if "before (length ss) k r q'" for q'
      using tab_okD [OF tab(1) hit(1,3) that] .
    moreover have "holds ss k = Some q" using hit(1,3) holds_Some [OF ko] by (metis nth_mem)
    ultimately show thesis using that hit(1-3) put_tab [OF _ tab(1)] put_keys(2) [OF _ ko] by simp
  next
    case (miss r)
    have "put_ok ss r k" using miss(1,3,5) k nth_mem by (fastforce simp: put_ok_def)
    moreover have "ss ! q' \<noteq> None" if "before (length ss) k r q'" for q'
      using miss(4) that by (simp add: before_def)
    moreover have "holds ss k = None" using miss(5) holds_None [OF ko] by blast
    ultimately show thesis using that miss(1-3) put_tab [OF _ tab(1)] put_keys(2) [OF _ ko] by simp
  qed
qed

section \<open>The operations\<close>

definition wdm_ok :: "wd_map \<Rightarrow> bool" where
  "wdm_ok m \<longleftrightarrow> tab_ok (wm_slots m) \<and> wm_count m = occupied (wm_slots m) \<and>
     even (wm_capacity m) \<and> wm_count m * 2 \<le> wm_capacity m"

definition wdm_abs :: "wd_map \<Rightarrow> int \<Rightarrow> path option" where
  "wdm_abs m = holds (wm_slots m)"

lemma holds_Cons: "holds (s # ss) k = (case s of None \<Rightarrow> holds ss k
    | Some (k', p) \<Rightarrow> if k = k' then Some p else holds ss k)"
  by (cases s) (auto simp: holds_def)

lemma tab_ok_empty: "tab_ok (replicate n None)" "holds (replicate n None) k = None"
  "occupied (replicate n None) = 0"
proof -
  show "tab_ok (replicate n None)" by (simp add: tab_ok_def keys_ok_def)
  have "entries (replicate n None) = []" by (induction n) simp_all
  then show "holds (replicate n None) k = None" by (simp add: holds_def)
  show "occupied (replicate n None) = 0" by (simp add: occupied_def)
qed

lemma rehash_ok:
  assumes "tab_ok ss" "keys_ok old" "\<And>k. holds old k \<noteq> None \<Longrightarrow> holds ss k = None"
    and "occupied ss + occupied old < length ss"
  shows "\<exists>ss'. rehash old (ss, occupied ss) = Some (ss', occupied ss') \<and> tab_ok ss' \<and> length ss' = length ss \<and>
    occupied ss' = occupied ss + occupied old \<and>
    (\<forall>k. holds ss' k = (case holds old k of None \<Rightarrow> holds ss k | Some p \<Rightarrow> Some p))"
  using assms
proof (induction old arbitrary: ss)
  case Nil
  then show ?case by (simp add: occupied_def holds_def)
next
  case (Cons s old)
  show ?case
  proof (cases s)
    case None
    with Cons.IH [of ss] Cons.prems keys_ok_Cons(1) [OF Cons.prems(2)] show ?thesis
      by (simp add: occupied_Cons holds_Cons)
  next
    case (Some kp)
    obtain k p where kp: "kp = (k, p)" by (cases kp)
    have ko: "keys_ok ss" and k: "0 \<le> k" and lt: "occupied ss < length ss"
      using Cons.prems Some kp unfolding tab_ok_def keys_ok_def by (auto simp: occupied_Cons)
    obtain r where r: "r < length ss" "probe (length ss) ss k (wdm_hash k (length ss)) = Some r"
      "tab_ok (ss[r := Some (k, p)])" "holds (ss[r := Some (k, p)]) = (holds ss)(k \<mapsto> p)"
      "ss ! r = None \<longleftrightarrow> holds ss k = None"
      using set_tab [OF Cons.prems(1) lt k] by metis
    have none: "holds ss k = None" using Cons.prems(3) [of k] Some kp by (simp add: holds_Cons)
    let ?s = "ss[r := Some (k, p)]"
    have occ: "occupied ?s = occupied ss + 1" using occupied_upd [OF r(1), of "Some (k, p)"] r(5) none by simp
    have nk: "holds old k = None"
      using keys_ok_Cons [OF Cons.prems(2)] holds_None Some kp by blast
    have "holds ?s k' = None" if "holds old k' \<noteq> None" for k'
      using that Cons.prems(3) [of k'] nk Some kp r(4) by (auto simp: holds_Cons split: if_splits)
    moreover have "occupied ?s + occupied old < length ?s"
      using occ Cons.prems(4) Some by (simp add: occupied_Cons)
    ultimately obtain ss' where ss': "rehash old (?s, occupied ?s) = Some (ss', occupied ss')" "tab_ok ss'"
      "length ss' = length ss" "occupied ss' = occupied ?s + occupied old"
      "\<forall>k'. holds ss' k' = (case holds old k' of None \<Rightarrow> holds ?s k' | Some p \<Rightarrow> Some p)"
      using Cons.IH [OF r(3) keys_ok_Cons(1) [OF Cons.prems(2)]] by auto
    have "probe_free (length ss) ss (wdm_hash k (length ss)) = Some r"
    proof (subst probe_free_first)
      show "ss ! j \<noteq> Some (k, q)" if "j < length ss" for q j
        using none that holds_None [OF ko, of k] by (metis nth_mem)
      show "wdm_hash k (length ss) < length ss" using r(1) by (intro hash_less) linarith
    qed (rule r(2))
    with ss'(1) occ have "rehash (s # old) (ss, occupied ss) = Some (ss', occupied ss')"
      by (simp add: Some kp)
    moreover have "holds ss' k' = (case holds (s # old) k' of None \<Rightarrow> holds ss k' | Some p \<Rightarrow> Some p)" for k'
      using ss'(5) nk r(4) Some kp by (simp add: holds_Cons split: option.split)
    ultimately show ?thesis using ss' occ Some by (auto simp: occupied_Cons)
  qed
qed

lemma grow_ok:
  assumes "wdm_ok m"
  shows "\<exists>m'. wdm_grow m = Some m' \<and> wdm_ok m' \<and> wdm_abs m' = wdm_abs m \<and>
    wm_count m' * 2 < wm_capacity m' \<and> wm_capacity m' \<noteq> 0"
proof -
  define n where "n = (if wm_capacity m = 0 then 64 else wm_capacity m * 2)"
  have ko: "keys_ok (wm_slots m)" and occ: "occupied (wm_slots m) * 2 \<le> wm_capacity m"
    using assms by (auto simp: wdm_ok_def tab_ok_def)
  have n: "occupied (wm_slots m) * 2 < n" "even n" "n \<noteq> 0"
    using occ unfolding n_def by presburger+
  have "occupied (replicate n None) + occupied (wm_slots m) < length (replicate n (None :: (int \<times> path) option))"
    using n(1) by (simp add: tab_ok_empty)
  with rehash_ok [OF tab_ok_empty(1) ko, of n] obtain ss' where
    ss': "rehash (wm_slots m) (replicate n None, 0) = Some (ss', occupied ss')" "tab_ok ss'"
      "length ss' = n" "occupied ss' = occupied (wm_slots m)"
      "\<forall>k. holds ss' k = (case holds (wm_slots m) k of None \<Rightarrow> None | Some p \<Rightarrow> Some p)"
    unfolding tab_ok_empty by auto
  from ss'(5) have "holds ss' = holds (wm_slots m)" by (auto simp: fun_eq_iff split: option.splits)
  moreover have "wdm_grow m = Some \<lparr>wm_slots = ss', wm_count = occupied ss'\<rparr>"
    using ss'(1) by (simp add: wdm_grow_def Let_def n_def)
  moreover have "ss' \<noteq> []" using ss'(3) n(3) by auto
  ultimately show ?thesis using ss' n by (simp add: wdm_ok_def wdm_abs_def)
qed

lemma set_ok:
  assumes ok: "wdm_ok m" and k: "0 \<le> k"
  shows "\<exists>m'. wdm_set m k p = Some m' \<and> wdm_ok m' \<and> wdm_abs m' = (wdm_abs m)(k \<mapsto> p)"
proof -
  obtain m1 where m1: "(if wm_capacity m = 0 \<or> wm_count m * 2 \<ge> wm_capacity m then wdm_grow m else Some m) = Some m1"
    "wdm_ok m1" "wdm_abs m1 = wdm_abs m" "wm_count m1 * 2 < wm_capacity m1"
    using grow_ok [OF ok] ok by (cases "wm_capacity m = 0 \<or> wm_count m * 2 \<ge> wm_capacity m") auto
  let ?ss = "wm_slots m1"
  have tab: "tab_ok ?ss" "occupied ?ss < length ?ss" using m1(2,4) by (auto simp: wdm_ok_def)
  from set_tab [OF tab k, of p] obtain r where r: "r < length ?ss"
    "probe (length ?ss) ?ss k (wdm_hash k (length ?ss)) = Some r" "tab_ok (?ss[r := Some (k, p)])"
    "holds (?ss[r := Some (k, p)]) = (holds ?ss)(k \<mapsto> p)" by metis
  have even: "even (wm_capacity m1)" using m1(2) by (simp add: wdm_ok_def)
  with m1(4) have room: "(wm_count m1 + 1) * 2 \<le> wm_capacity m1" by presburger
  show ?thesis
  proof (cases "?ss ! r = None")
    case True
    with r m1 room even occupied_upd [OF r(1), of "Some (k, p)"] show ?thesis
      by (auto simp: wdm_set_def Let_def wdm_ok_def wdm_abs_def)
  next
    case False
    with r m1 room even occupied_upd [OF r(1), of "Some (k, p)"] show ?thesis
      by (auto simp: wdm_set_def Let_def wdm_ok_def wdm_abs_def)
  qed
qed

lemma get_ok:
  assumes "wdm_ok m" shows "wdm_get m k = wdm_abs m k"
proof (cases "wm_capacity m = 0")
  case True
  then show ?thesis by (simp add: wdm_get_def wdm_abs_def holds_def)
next
  case False
  from assms have "tab_ok (wm_slots m)" "occupied (wm_slots m) * 2 \<le> wm_capacity m"
    by (auto simp: wdm_ok_def)
  with False have "tab_ok (wm_slots m)" "occupied (wm_slots m) < wm_capacity m" by linarith+
  from get_tab [OF this, of "wm_count m" k] show ?thesis by (cases m) (simp add: wdm_abs_def)
qed

section \<open>Removal\<close>

text \<open>
  While the cluster behind a removed slot is re-inserted: \<open>nx\<close> is the next slot to go, \<open>e\<close> the
  empty slot that ends the cluster. The slots from \<open>nx\<close> to before \<open>e\<close> are pending; the ways to
  all other entries avoid them, and no way passes \<open>e\<close>.
\<close>

definition pending :: "nat \<Rightarrow> nat \<Rightarrow> nat \<Rightarrow> nat \<Rightarrow> bool" where
  "pending c nx e q \<longleftrightarrow> q < c \<and> dist c nx q < dist c nx e"

definition mending :: "slots \<Rightarrow> nat \<Rightarrow> nat \<Rightarrow> bool" where
  "mending ss nx e \<longleftrightarrow> keys_ok ss \<and> nx < length ss \<and> e < length ss \<and> ss ! e = None \<and>
     (\<forall>q. pending (length ss) nx e q \<longrightarrow> ss ! q \<noteq> None) \<and>
     (\<forall>j < length ss. \<forall>k p q. ss ! j = Some (k, p) \<and> before (length ss) k j q \<longrightarrow>
        q \<noteq> e \<and> (\<not> pending (length ss) nx e j \<longrightarrow> ss ! q \<noteq> None \<and> \<not> pending (length ss) nx e q))"

lemma mendingD:
  assumes "mending ss nx e"
  shows "keys_ok ss" "nx < length ss" "e < length ss" "ss ! e = None"
    "pending (length ss) nx e q \<Longrightarrow> ss ! q \<noteq> None"
    "j < length ss \<Longrightarrow> ss ! j = Some (k, p) \<Longrightarrow> before (length ss) k j q \<Longrightarrow> q \<noteq> e"
    "j < length ss \<Longrightarrow> ss ! j = Some (k, p) \<Longrightarrow> before (length ss) k j q \<Longrightarrow> \<not> pending (length ss) nx e j \<Longrightarrow>
       ss ! q \<noteq> None \<and> \<not> pending (length ss) nx e q"
  using assms unfolding mending_def by blast+

lemma mending_done: "mending ss e e \<Longrightarrow> tab_ok ss"
  using mendingD(1,7) [of ss e e] by (intro tab_okI) (auto simp: pending_def)

lemma pending_next:
  assumes "nx < c" "e < c" "nx \<noteq> e"
  shows "pending c (Suc nx mod c) e q \<longleftrightarrow> pending c nx e q \<and> q \<noteq> nx"
proof (cases "q < c")
  case True
  have "dist c nx e \<noteq> 0" using assms dist_0 by simp
  show ?thesis
  proof (cases "q = nx")
    case True
    have "dist c (Suc nx mod c) nx = c - 1" using assms by (auto simp: dist_def next_slot)
    moreover have "dist c (Suc nx mod c) e < c" using dist_less [OF next_less [OF assms(1)] assms(2)] .
    ultimately show ?thesis using True by (auto simp: pending_def)
  next
    case False
    with \<open>q < c\<close> assms \<open>dist c nx e \<noteq> 0\<close> dist_next [of nx c q] dist_next [of nx c e] dist_0 [of nx c q]
    show ?thesis by (auto simp: pending_def)
  qed
qed (simp add: pending_def)

text \<open>One step: the entry at \<open>nx\<close> goes to the first free slot on its way, at \<open>nx\<close> at the latest.\<close>

lemma mend_step:
  assumes m: "mending ss nx e" and ne: "nx \<noteq> e" and x: "ss ! nx = Some (k, p)"
    and r: "r < length ss" "ss[nx := None] ! r = None"
    and first: "\<And>q. before (length ss) k r q \<Longrightarrow> ss[nx := None] ! q \<noteq> None"
  shows "mending (ss[nx := None, r := Some (k, p)]) (Suc nx mod length ss) e"
proof -
  let ?c = "length ss" and ?h = "wdm_hash k (length ss)" and ?s = "ss[nx := None, r := Some (k, p)]"
  note D = mendingD [OF m]
  have h: "?h < ?c" using r(1) by (intro hash_less) linarith
  have nth: "?s ! i = (if i = r then Some (k, p) else if i = nx then None else ss ! i)" if "i < ?c" for i
    using that by (simp add: nth_list_update)
  have "\<not> before ?c k r nx" using first [of nx] D(2) by auto
  then have le: "dist ?c ?h r \<le> dist ?c ?h nx" using D(2) by (simp add: before_def)
  have e: "\<not> dist ?c ?h e < dist ?c ?h nx" using D(6) [OF D(2) x, of e] D(3) by (auto simp: before_def)
  have "r \<noteq> e"
  proof
    assume "r = e"
    with le e have "dist ?c ?h e = dist ?c ?h nx" by simp
    with dist_inj [OF h D(3) D(2)] ne show False by simp
  qed
  have pend: "pending ?c (Suc nx mod ?c) e q \<longleftrightarrow> pending ?c nx e q \<and> q \<noteq> nx" for q
    by (rule pending_next [OF D(2,3) ne])
  have pnx: "pending ?c nx e nx" using D(2,3) ne dist_0 [of nx ?c e] by (simp add: pending_def)
  have old: "j \<noteq> nx \<and> ss ! j = Some (k', p')" if "j < ?c" "?s ! j = Some (k', p')" "j \<noteq> r" for j k' p'
    using that(2) unfolding nth [OF that(1)] using that(3) by (simp split: if_splits)
  have keys: "keys_ok ?s"
    unfolding keys_ok_def
  proof (intro conjI allI impI)
    fix i j k' q q'
    assume ij: "i < length ?s" "j < length ?s" "?s ! i = Some (k', q) \<and> ?s ! j = Some (k', q')"
    have key: "\<exists>i'. i' < ?c \<and> ss ! i' = Some (k', q) \<and> (i = r \<longleftrightarrow> i' = nx) \<and> (i \<noteq> r \<longrightarrow> i' = i)"
      if "i < ?c" "?s ! i = Some (k', q)" for i q
      using that old [OF that] x D(2) by (cases "i = r") (auto simp: nth)
    from key [of i q] key [of j q'] ij keys_okD [OF D(1)] show "i = j" by (metis length_list_update)
  next
    fix k' q assume "Some (k', q) \<in> set ?s"
    then obtain j where "j < ?c" "?s ! j = Some (k', q)" by (auto simp: in_set_conv_nth)
    then have "\<exists>q. Some (k', q) \<in> set ss" using old x D(2) by (metis nth nth_mem option.inject prod.inject)
    with D(1) show "0 \<le> k'" unfolding keys_ok_def by blast
  qed
  have way: "q \<noteq> e \<and> (\<not> pending ?c (Suc nx mod ?c) e j \<longrightarrow> ?s ! q \<noteq> None \<and> \<not> pending ?c (Suc nx mod ?c) e q)"
    if j: "j < ?c" "?s ! j = Some (k', p')" and q: "before ?c k' j q" for j k' p' q
  proof (cases "j = r")
    case True
    with j have k': "k' = k" by (simp add: nth)
    with q True have lt: "q < ?c" "dist ?c ?h q < dist ?c ?h nx" using le by (auto simp: before_def)
    have "ss[nx := None] ! q \<noteq> None" using first [of q] q True k' by simp
    then have "?s ! q \<noteq> None" unfolding nth [OF lt(1)] using D(2) by (auto simp: nth_list_update split: if_splits)
    moreover have "\<not> pending ?c (Suc nx mod ?c) e q"
    proof
      assume "pending ?c (Suc nx mod ?c) e q"
      with pend have "dist ?c nx q < dist ?c nx e" "q \<noteq> nx" by (auto simp: pending_def)
      with between [OF h D(2) lt(1) D(3) D(2)] lt(2) e show False by blast
    qed
    ultimately show ?thesis using lt e by auto
  next
    case False
    with old j have jx: "j \<noteq> nx" "ss ! j = Some (k', p')" by auto
    have qc: "q < ?c" using q by (simp add: before_def)
    have "?s ! q \<noteq> None \<and> \<not> pending ?c (Suc nx mod ?c) e q" if "\<not> pending ?c (Suc nx mod ?c) e j"
    proof -
      from that pend jx have "\<not> pending ?c nx e j" by simp
      from D(7) [OF j(1) jx(2) q this] have "ss ! q \<noteq> None" "\<not> pending ?c nx e q" by auto
      with pnx pend qc show ?thesis by (auto simp: nth)
    qed
    with D(6) [OF j(1) jx(2) q] show ?thesis by blast
  qed
  have "?s ! q \<noteq> None" if "pending ?c (Suc nx mod ?c) e q" for q
    using that pend D(5) [of q] nth [of q] by (auto simp: pending_def)
  with keys way D(2,3,4) \<open>r \<noteq> e\<close> ne next_less [OF D(2)] show ?thesis
    unfolding mending_def by simp
qed

lemma mend_content:
  assumes "ss ! nx = Some (k, p)" "nx < length ss" "r < length ss" "ss[nx := None] ! r = None"
  shows "Some kp \<in> set (ss[nx := None, r := Some (k, p)]) \<longleftrightarrow> Some kp \<in> set ss"
    and "occupied (ss[nx := None, r := Some (k, p)]) = occupied ss"
proof -
  let ?s = "ss[nx := None, r := Some (k, p)]"
  have nth: "?s ! i = (if i = r then Some (k, p) else if i = nx then None else ss ! i)" if "i < length ss" for i
    using that by (simp add: nth_list_update)
  have r: "r \<noteq> nx \<Longrightarrow> ss ! r = None" using assms(3,4) by simp
  show "Some kp \<in> set ?s \<longleftrightarrow> Some kp \<in> set ss"
  proof
    assume "Some kp \<in> set ?s"
    then obtain i where "i < length ss" "?s ! i = Some kp" by (auto simp: in_set_conv_nth)
    with nth [of i] have "ss ! i = Some kp \<or> ss ! nx = Some kp" using assms(1) by (auto split: if_splits)
    with assms(2) \<open>i < length ss\<close> show "Some kp \<in> set ss" by (metis nth_mem)
  next
    assume "Some kp \<in> set ss"
    then obtain i where i: "i < length ss" "ss ! i = Some kp" by (auto simp: in_set_conv_nth)
    define i' where "i' = (if i = nx then r else i)"
    have "i' < length ss" using i(1) assms(3) by (simp add: i'_def)
    moreover have "?s ! i' = Some kp"
    proof (cases "i = nx")
      case True
      with i assms(1,3) show ?thesis by (simp add: i'_def)
    next
      case False
      with i(2) r have "i \<noteq> r" by auto
      with False i show ?thesis by (simp add: i'_def)
    qed
    ultimately show "Some kp \<in> set ?s" by (metis length_list_update nth_mem)
  qed
  have "occupied ?s = occupied (ss[nx := None]) + 1"
    using occupied_upd [of r "ss[nx := None]" "Some (k, p)"] assms(3,4) by simp
  moreover have "occupied (ss[nx := None]) + 1 = occupied ss"
    using occupied_upd [OF assms(2), of None] assms(1) by simp
  ultimately show "occupied ?s = occupied ss" by simp
qed

text \<open>
  Re-inserting an entry of the cluster: the table has room, so \<open>wdm_set\<close> does not grow it, and the
  entry lands in the first free slot on its way.
\<close>

lemma reinsert_step:
  assumes m: "mending ss nx e" and ne: "nx \<noteq> e" and x: "ss ! nx = Some (k, p)"
    and n: "n = occupied ss" "n * 2 < length ss"
  obtains ss' where "wdm_set (wdm_clear \<lparr>wm_slots = ss, wm_count = n\<rparr> nx) k p = Some \<lparr>wm_slots = ss', wm_count = n\<rparr>"
    "length ss' = length ss" "mending ss' (Suc nx mod length ss) e" "occupied ss' = n" "holds ss' = holds ss"
proof -
  let ?c = "length ss" and ?s = "ss[nx := None]"
  note D = mendingD [OF m]
  have c: "0 < ?c" using D(2) by linarith
  have "stops ?s k nx" using D(2) by (simp add: stops_def)
  with probe_first [of "wdm_hash k ?c" ?s nx k ?c] D(2) c dist_less [of "wdm_hash k ?c" ?c nx]
  obtain r where r: "r < ?c" "probe ?c ?s k (wdm_hash k ?c) = Some r" "stops ?s k r"
    and first: "\<And>q. q < ?c \<Longrightarrow> dist ?c (wdm_hash k ?c) q < dist ?c (wdm_hash k ?c) r \<Longrightarrow> \<not> stops ?s k q"
    by auto
  have free: "?s ! r = None"
  proof (rule ccontr)
    assume "?s ! r \<noteq> None"
    with r(3) obtain q where q: "?s ! r = Some (k, q)" by (auto simp: stops_def split: option.splits)
    with D(2) r(1) have "r \<noteq> nx" by auto
    with q have "ss ! r = Some (k, q)" by simp
    with keys_okD [OF D(1) r(1) D(2) _ x] \<open>r \<noteq> nx\<close> show False by blast
  qed
  have "?s ! q \<noteq> None" if "before ?c k r q" for q
    using first [of q] that by (auto simp: before_def stops_def split: option.splits)
  from mend_step [OF m ne x r(1) free this]
  have mend: "mending (?s[r := Some (k, p)]) (Suc nx mod ?c) e" .
  note content = mend_content [OF x D(2) r(1) free]
  have "occupied ?s + 1 = occupied ss" using occupied_upd [OF D(2), of None] x by simp
  then have pos: "0 < n" using n(1) by linarith
  have "wdm_set (wdm_clear \<lparr>wm_slots = ss, wm_count = n\<rparr> nx) k p = Some \<lparr>wm_slots = ?s[r := Some (k, p)], wm_count = n\<rparr>"
    using n(2) r(2) free pos D(2) by (auto simp: wdm_set_def wdm_clear_def Let_def)
  moreover have "holds (?s[r := Some (k, p)]) = holds ss"
    using holds_cong [OF D(1) mendingD(1) [OF mend] content(1)] by blast
  ultimately show thesis using that mend content(2) n(1) by simp
qed

lemma reinsert_ok:
  assumes "mending ss nx e" "n = occupied ss" "n * 2 < length ss" "dist (length ss) nx e < fuel" "even (length ss)"
  shows "\<exists>m. reinsert_cluster fuel \<lparr>wm_slots = ss, wm_count = n\<rparr> nx = Some m \<and> wdm_ok m \<and> wdm_abs m = holds ss"
  using assms
proof (induction fuel arbitrary: ss nx)
  case (Suc fuel)
  note D = mendingD [OF Suc.prems(1)]
  show ?case
  proof (cases "nx = e")
    case True
    with Suc.prems mending_done [of ss e] D(4) show ?thesis by (auto simp: wdm_ok_def wdm_abs_def)
  next
    case False
    then have "pending (length ss) nx e nx" using D(2,3) dist_0 [of nx "length ss" e] by (simp add: pending_def)
    with D(5) obtain k p where x: "ss ! nx = Some (k, p)" by fastforce
    from reinsert_step [OF Suc.prems(1) False x Suc.prems(2,3)] obtain ss' where ss':
      "wdm_set (wdm_clear \<lparr>wm_slots = ss, wm_count = n\<rparr> nx) k p = Some \<lparr>wm_slots = ss', wm_count = n\<rparr>"
      "length ss' = length ss" "mending ss' (Suc nx mod length ss) e" "occupied ss' = n" "holds ss' = holds ss" .
    have "dist (length ss) (Suc nx mod length ss) e < fuel"
      using Suc.prems(4) False dist_next [OF D(2,3)] dist_0 [OF D(2,3)] by auto
    with Suc.IH [OF ss'(3)] ss' Suc.prems(3,5) obtain m where
      "reinsert_cluster fuel \<lparr>wm_slots = ss', wm_count = n\<rparr> (Suc nx mod length ss) = Some m" "wdm_ok m"
      "wdm_abs m = holds ss" by auto
    with ss' x show ?thesis by simp
  qed
qed simp

text \<open>A removed slot starts the mending at the slot behind it, up to the next empty one.\<close>

lemma mend_start:
  assumes tab: "tab_ok ss" "occupied ss < length ss" and r: "r < length ss" "ss ! r \<noteq> None"
  obtains e where "mending (ss[r := None]) (Suc r mod length ss) e"
proof -
  let ?c = "length ss" and ?s = "ss[r := None]"
  have ko: "keys_ok ss" using tab(1) by (simp add: tab_ok_def)
  from free_slot [OF tab(2)] obtain f where "f < ?c \<and> ss ! f = None" by blast
  from ex_has_least_nat [of "\<lambda>q. q < ?c \<and> ss ! q = None", OF this, of "dist ?c r"]
  obtain e where e: "e < ?c" "ss ! e = None" "\<And>q. q < ?c \<Longrightarrow> ss ! q = None \<Longrightarrow> dist ?c r e \<le> dist ?c r q" by auto
  have re: "r \<noteq> e" using e(2) r(2) by auto
  have pend: "pending ?c (Suc r mod ?c) e q \<longleftrightarrow> pending ?c r e q \<and> q \<noteq> r" for q
    by (rule pending_next [OF r(1) e(1) re])
  have full: "ss ! q \<noteq> None" if "pending ?c r e q" for q
    using e(3) [of q] that unfolding pending_def by (metis not_less)
  have sub: "j \<noteq> r \<and> ss ! j = Some kp" if "j < ?c" "?s ! j = Some kp" for j kp
    using that by (cases "j = r") auto
  have keys: "keys_ok ?s"
    unfolding keys_ok_def
  proof (intro conjI allI impI)
    fix i j k p q assume "i < length ?s" "j < length ?s" "?s ! i = Some (k, p) \<and> ?s ! j = Some (k, q)"
    then show "i = j" using keys_okD [OF ko] sub by (metis length_list_update)
  next
    fix k p assume "Some (k, p) \<in> set ?s"
    then have "Some (k, p) \<in> set ss" using set_update_subset_insert [of ss r None] by auto
    with ko show "0 \<le> k" unfolding keys_ok_def by blast
  qed
  have way: "q \<noteq> e \<and> (\<not> pending ?c (Suc r mod ?c) e j \<longrightarrow> ?s ! q \<noteq> None \<and> \<not> pending ?c (Suc r mod ?c) e q)"
    if j: "j < ?c" "?s ! j = Some (k, p)" and q: "before ?c k j q" for j k p q
  proof -
    from sub [OF j] have jr: "j \<noteq> r" "ss ! j = Some (k, p)" by auto
    note on_way = tab_okD [OF tab(1) j(1) jr(2)]
    have qe: "q \<noteq> e" using on_way [OF q] e(2) by auto
    have qc: "q < ?c" using q by (simp add: before_def)
    have h: "wdm_hash k ?c < ?c" using r(1) by (intro hash_less) linarith
    have "\<not> pending ?c r e q" if "\<not> pending ?c (Suc r mod ?c) e j"
    proof
      assume "pending ?c r e q"
      then have lt: "dist ?c r q < dist ?c r e" by (simp add: pending_def)
      have "j \<noteq> e" using jr(2) e(2) by auto
      from that pend [of j] jr(1) have "\<not> pending ?c r e j" by blast
      with j(1) have "dist ?c r e \<le> dist ?c r j" by (simp add: pending_def not_less)
      with dist_inj [OF r(1) e(1) j(1)] \<open>j \<noteq> e\<close> have "dist ?c r e < dist ?c r j" by fastforce
      with between [OF h r(1) qc e(1) j(1) lt] q have "before ?c k j e" using e(1) by (simp add: before_def)
      with on_way e(2) show False by blast
    qed
    moreover have "pending ?c r e r" using re r(1) e(1) dist_0 [of r ?c e] by (simp add: pending_def)
    moreover have "?s ! q \<noteq> None" if "q \<noteq> r" using on_way [OF q] that by simp
    ultimately show ?thesis using qe pend by blast
  qed
  have "?s ! q \<noteq> None" if "pending ?c (Suc r mod ?c) e q" for q
  proof -
    from that pend have "q \<noteq> r" "ss ! q \<noteq> None" using full by blast+
    then show ?thesis by simp
  qed
  with keys way e re next_less [OF r(1)] have "mending ?s (Suc r mod ?c) e"
    unfolding mending_def by simp
  then show thesis by (rule that)
qed

lemma clear_holds:
  assumes ko: "keys_ok ss" and ko': "keys_ok (ss[r := None])" and r: "r < length ss" "ss ! r = Some (k, p)"
  shows "holds (ss[r := None]) = (holds ss)(k := None)"
proof
  fix k'
  have sub: "Some (k', q) \<in> set (ss[r := None]) \<longleftrightarrow> k' \<noteq> k \<and> Some (k', q) \<in> set ss" for q
  proof
    assume "Some (k', q) \<in> set (ss[r := None])"
    then obtain i where i: "i < length ss" "ss[r := None] ! i = Some (k', q)" by (auto simp: in_set_conv_nth)
    then have ir: "i \<noteq> r" "ss ! i = Some (k', q)" using r(1) by (cases "i = r"; simp)+
    with i(1) keys_okD [OF ko i(1) r(1) _ r(2)] show "k' \<noteq> k \<and> Some (k', q) \<in> set ss" by (metis nth_mem)
  next
    assume *: "k' \<noteq> k \<and> Some (k', q) \<in> set ss"
    then obtain i where i: "i < length ss" "ss ! i = Some (k', q)" by (auto simp: in_set_conv_nth)
    with * r have "i \<noteq> r" by auto
    with i have "ss[r := None] ! i = Some (k', q)" by simp
    with i(1) show "Some (k', q) \<in> set (ss[r := None])" by (metis length_list_update nth_mem)
  qed
  show "holds (ss[r := None]) k' = ((holds ss)(k := None)) k'"
  proof (cases "k' = k")
    case True
    with sub holds_None [OF ko', of k] show ?thesis by simp
  next
    case False
    with holds_cong [OF ko ko', of k'] sub show ?thesis by simp
  qed
qed

lemma remove_ok:
  assumes ok: "wdm_ok m"
  shows "\<exists>m'. wdm_remove m k = Some m' \<and> wdm_ok m' \<and> wdm_abs m' = (wdm_abs m)(k := None)"
proof (cases "wm_capacity m = 0")
  case True
  with ok show ?thesis by (auto simp: wdm_remove_def wdm_abs_def holds_def fun_eq_iff)
next
  case False
  let ?ss = "wm_slots m"
  have *: "tab_ok ?ss" "occupied ?ss * 2 \<le> length ?ss" using ok by (simp_all add: wdm_ok_def)
  with False have tab: "tab_ok ?ss" "occupied ?ss < length ?ss" by linarith+
  then have ko: "keys_ok ?ss" by (simp add: tab_ok_def)
  from tab show ?thesis
  proof (cases rule: probe_tab [where k = k])
    case (miss r)
    have "wdm_remove m k = Some m" using miss(2,3) False by (simp add: wdm_remove_def)
    moreover have "wdm_abs m k = None" using miss(5) holds_None [OF ko] by (simp add: wdm_abs_def)
    ultimately show ?thesis using ok by (auto simp: fun_eq_iff)
  next
    case (hit r p)
    from mend_start [OF tab hit(1)] hit(3) obtain e where
      mend: "mending (?ss[r := None]) (Suc r mod length ?ss) e" by auto
    note D = mendingD [OF mend]
    have occ: "occupied (?ss[r := None]) + 1 = occupied ?ss"
      using occupied_upd [OF hit(1), of None] hit(3) by simp
    have cnt: "wm_count m = occupied ?ss" "wm_count m * 2 \<le> length ?ss" "even (length ?ss)"
      using ok by (simp_all add: wdm_ok_def)
    have n: "wm_count m - 1 = occupied (?ss[r := None])" using occ cnt(1) by simp
    have n2: "(wm_count m - 1) * 2 < length (?ss[r := None])" using occ cnt(1,2) hit(1) by simp
    have "dist (length ?ss) (Suc r mod length ?ss) e < length ?ss"
      using dist_less D(2,3) by simp
    with reinsert_ok [OF mend n n2, of "length ?ss"] cnt(3) obtain m' where m':
      "reinsert_cluster (length ?ss) \<lparr>wm_slots = ?ss[r := None], wm_count = wm_count m - 1\<rparr> (Suc r mod length ?ss) = Some m'"
      "wdm_ok m'" "wdm_abs m' = holds (?ss[r := None])" by auto
    have "wdm_clear m r = \<lparr>wm_slots = ?ss[r := None], wm_count = wm_count m - 1\<rparr>"
      by (cases m) (simp add: wdm_clear_def)
    with m'(1) hit(2,3) False have "wdm_remove m k = Some m'" by (simp add: wdm_remove_def)
    with m' clear_holds [OF ko D(1) hit(1,3)] show ?thesis by (auto simp: wdm_abs_def)
  qed
qed

section \<open>The map as its users see it\<close>

text \<open>
  What \<open>watch_run\<close> relies on: a table that answers as a map from watch descriptors to directories,
  whatever is watched and unwatched. Descriptors come from the kernel and are not negative.
\<close>

datatype wd_op = Watch int path | Unwatch int

primrec wd_op_ok :: "wd_op \<Rightarrow> bool" where
  "wd_op_ok (Watch k p) = (0 \<le> k)"
| "wd_op_ok (Unwatch k) = True"

primrec wd_op_map :: "wd_op \<Rightarrow> (int \<rightharpoonup> path) \<Rightarrow> (int \<rightharpoonup> path)" where
  "wd_op_map (Watch k p) M = M(k \<mapsto> p)"
| "wd_op_map (Unwatch k) M = M(k := None)"

locale descriptor_map =
  fixes new :: 'm and ok :: "'m \<Rightarrow> bool" and abs :: "'m \<Rightarrow> int \<rightharpoonup> path"
    and put :: "'m \<Rightarrow> int \<Rightarrow> path \<Rightarrow> 'm option" and del :: "'m \<Rightarrow> int \<Rightarrow> 'm option"
    and get :: "'m \<Rightarrow> int \<Rightarrow> path option"
  assumes new: "ok new" "abs new k = None"
    and put: "ok m \<Longrightarrow> 0 \<le> k \<Longrightarrow> \<exists>m'. put m k p = Some m' \<and> ok m' \<and> abs m' = (abs m)(k \<mapsto> p)"
    and del: "ok m \<Longrightarrow> \<exists>m'. del m k = Some m' \<and> ok m' \<and> abs m' = (abs m)(k := None)"
    and get: "ok m \<Longrightarrow> get m k = abs m k"
begin

primrec step :: "'m \<Rightarrow> wd_op \<Rightarrow> 'm option" where
  "step m (Watch k p) = put m k p"
| "step m (Unwatch k) = del m k"

primrec run :: "wd_op list \<Rightarrow> 'm \<Rightarrow> 'm option" where
  "run [] m = Some m"
| "run (x # xs) m = Option.bind (step m x) (run xs)"

lemma step_abs:
  assumes "ok m" "wd_op_ok x"
  shows "\<exists>m'. step m x = Some m' \<and> ok m' \<and> abs m' = wd_op_map x (abs m)"
  using assms put del by (cases x) auto

lemma run_abs:
  assumes "ok m" "\<forall>x \<in> set xs. wd_op_ok x"
  shows "\<exists>m'. run xs m = Some m' \<and> ok m' \<and> abs m' = fold wd_op_map xs (abs m)"
  using assms
proof (induction xs arbitrary: m)
  case (Cons x xs)
  from step_abs [OF Cons.prems(1), of x] Cons.prems(2) obtain m1 where
    m1: "step m x = Some m1" "ok m1" "abs m1 = wd_op_map x (abs m)" by auto
  with Cons.IH [of m1] Cons.prems(2) show ?case by simp
qed simp

lemma run_get:
  assumes "\<forall>x \<in> set xs. wd_op_ok x"
  shows "\<exists>m. run xs new = Some m \<and> ok m \<and> (\<forall>k. get m k = fold wd_op_map xs Map.empty k)"
proof -
  have "abs new = Map.empty" by (simp add: fun_eq_iff new)
  with run_abs [OF new(1) assms] get show ?thesis by auto
qed

end

interpretation wd: descriptor_map wdm_init wdm_ok wdm_abs wdm_set wdm_remove wdm_get
proof
  show "wdm_ok wdm_init" by (simp add: wdm_ok_def wdm_init_def tab_ok_def keys_ok_def occupied_def)
  show "wdm_abs wdm_init k = None" for k by (simp add: wdm_abs_def wdm_init_def holds_def)
qed (fact set_ok remove_ok get_ok)+

primrec wdm_step :: "wd_map \<Rightarrow> wd_op \<Rightarrow> wd_map option" where
  "wdm_step m (Watch k p) = wdm_set m k p"
| "wdm_step m (Unwatch k) = wdm_remove m k"

primrec wdm_run :: "wd_op list \<Rightarrow> wd_map \<Rightarrow> wd_map option" where
  "wdm_run [] m = Some m"
| "wdm_run (x # xs) m = Option.bind (wdm_step m x) (wdm_run xs)"

lemma wdm_run: "wd.run xs m = wdm_run xs m"
proof (induction xs arbitrary: m)
  case (Cons x xs)
  have "wd.step m x = wdm_step m x" by (cases x) simp_all
  with Cons show ?case by (cases "wdm_step m x") simp_all
qed simp

section \<open>Properties\<close>

text \<open>C26: the hash table of watch descriptors refines a map. From the empty table, any sequence of
  insertions and removals succeeds (no probe loop runs through the whole table), and afterwards a lookup
  of any descriptor returns the directory of the latest insertion that no removal followed, whatever
  hash collisions, table growth and cluster re-insertions happened on the way.\<close>

theorem wdm_refines_map:
  assumes "\<forall>x \<in> set xs. wd_op_ok x"
  shows "\<exists>m. wdm_run xs wdm_init = Some m \<and> (\<forall>k. wdm_get m k = fold wd_op_map xs Map.empty k)"
  using wd.run_get [OF assms] by (auto simp: wdm_run)

text \<open>C27: the well-formedness of the table is kept by both updates: distinct non-negative keys, no empty
  slot between the hash of a key and its slot, the counter equal to the number of occupied slots, and at
  most half of the slots occupied, so that every probe loop meets an empty slot.\<close>

theorem wdm_ops_well_formed:
  assumes "wdm_ok m" "0 \<le> k"
  shows "\<exists>m1 m2. wdm_set m k p = Some m1 \<and> wdm_ok m1 \<and> wdm_remove m k = Some m2 \<and> wdm_ok m2"
  using wd.put [OF assms] wd.del [OF assms(1)] by blast

text \<open>Descriptors 1 and 65 have the same hash in a table of 64 slots; the first is removed.\<close>

lemma wdm_refines_map_witness:
  "wdm_hash 1 64 = wdm_hash 65 64 \<and>
   (\<exists>m. wdm_run [Watch 1 ''/lib/a'', Watch 65 ''/lib/b'', Unwatch 1] wdm_init = Some m \<and>
      wdm_get m 65 = Some ''/lib/b'' \<and> wdm_get m 1 = None)"
proof -
  obtain m where "wdm_run [Watch 1 ''/lib/a'', Watch 65 ''/lib/b'', Unwatch 1] wdm_init = Some m"
    "\<And>k. wdm_get m k = fold wd_op_map [Watch 1 ''/lib/a'', Watch 65 ''/lib/b'', Unwatch 1] Map.empty k"
    using wdm_refines_map [of "[Watch 1 ''/lib/a'', Watch 65 ''/lib/b'', Unwatch 1]"] by auto
  moreover have "wdm_hash 1 64 = wdm_hash 65 64" by (simp add: wdm_hash_def)
  ultimately show ?thesis by simp
qed

lemma wdm_ops_well_formed_witness:
  "wdm_ok \<lparr>wm_slots = [Some (0, ''/lib''), None], wm_count = 1\<rparr> \<and>
   (\<exists>m1 m2. wdm_set \<lparr>wm_slots = [Some (0, ''/lib''), None], wm_count = 1\<rparr> 7 ''/lib/a'' = Some m1 \<and> wdm_ok m1 \<and>
      wdm_remove \<lparr>wm_slots = [Some (0, ''/lib''), None], wm_count = 1\<rparr> 7 = Some m2 \<and> wdm_ok m2)"
proof -
  have ok: "wdm_ok \<lparr>wm_slots = [Some (0, ''/lib''), None], wm_count = 1\<rparr>"
    by (simp add: wdm_ok_def tab_ok_def keys_ok_def less_Suc_eq_0_disj wdm_hash_def occupied_def)
  with wdm_ops_well_formed [OF ok, of 7 "''/lib/a''"] show ?thesis by simp
qed

end
