(* ===== verification/Watch.thy ===== *)
theory Watch
  imports Scan WdMap "HOL-Library.Multiset"
begin

text \<open>
  The library watcher of \<open>watch.c\<close>: the inotify limit check, the debounce queue, the recursive
  registration of watches and the event loop. The kernel is a parameter: the directory tree with the
  answers of \<open>opendir\<close> and \<open>inotify_add_watch\<close>, and for every return of \<open>epoll_wait\<close> the ready
  descriptors with what is read from them, the clock, the library a scan finds and the paths for which
  the writer lock is busy.
\<close>

unbundle bit_operations_syntax

section \<open>The limit of watches\<close>

text \<open>\<open>fscanf("%lld")\<close>, which saturates.\<close>

definition scanf_lld :: "string \<Rightarrow> int option" where
  "scanf_lld s = (let (neg, t) = take_sign (dropWhile isspace s); ds = takeWhile digit t;
       v = (if neg then - digits_val ds else digits_val ds)
     in if ds = [] then None else Some (max (- (2 ^ 63)) (min (2 ^ 63 - 1) v)))"

definition watch_check_inotify_limit :: "nat \<Rightarrow> string option \<Rightarrow> int" where
  "watch_check_inotify_limit dir_count proc_file = (case proc_file of
     None \<Rightarrow> -1
   | Some s \<Rightarrow> (let limit = (case scanf_lld s of None \<Rightarrow> -1 | Some n \<Rightarrow> n)
       in if limit < 0 then -1 else if int (dir_count + 100) > limit then -1 else 0))"

section \<open>The debounce queue\<close>

record dq_entry =
  dq_dir :: path
  dq_deadline :: int

record debounce_queue =
  dq_items :: "dq_entry list"
  dq_debounce_ms :: int

definition dq_init :: "int \<Rightarrow> debounce_queue" where
  "dq_init ms = \<lparr>dq_items = [], dq_debounce_ms = ms\<rparr>"

text \<open>The first entry with the same directory gets the new deadline, else the entry is appended.\<close>

fun dq_put :: "path \<Rightarrow> int \<Rightarrow> dq_entry list \<Rightarrow> dq_entry list" where
  "dq_put d t [] = [\<lparr>dq_dir = d, dq_deadline = t\<rparr>]"
| "dq_put d t (e # es) = (if dq_dir e = d then e\<lparr>dq_deadline := t\<rparr> # es else e # dq_put d t es)"

definition dq_push :: "debounce_queue \<Rightarrow> path \<Rightarrow> int \<Rightarrow> debounce_queue" where
  "dq_push q d now = q\<lparr>dq_items := dq_put d (now + dq_debounce_ms q) (dq_items q)\<rparr>"

text \<open>The two-finger compaction: \<open>n\<close> entries from \<open>rd\<close> on are left to look at, \<open>wr\<close> are kept.\<close>

fun dq_compact ::
    "(path \<Rightarrow> 's \<Rightarrow> 's) \<Rightarrow> int \<Rightarrow> nat \<Rightarrow> nat \<Rightarrow> nat \<Rightarrow> dq_entry list \<Rightarrow> 's \<Rightarrow> nat \<times> dq_entry list \<times> 's" where
  "dq_compact cb now 0 rd wr items s = (wr, items, s)"
| "dq_compact cb now (Suc n) rd wr items s =
     (if dq_deadline (items ! rd) \<le> now
      then dq_compact cb now n (rd + 1) wr items (cb (dq_dir (items ! rd)) s)
      else dq_compact cb now n (rd + 1) (wr + 1) (if wr \<noteq> rd then items[wr := items ! rd] else items) s)"

definition dq_drain_due :: "debounce_queue \<Rightarrow> int \<Rightarrow> (path \<Rightarrow> 's \<Rightarrow> 's) \<Rightarrow> 's \<Rightarrow> nat \<times> debounce_queue \<times> 's" where
  "dq_drain_due q now cb s =
     (case dq_compact cb now (length (dq_items q)) 0 0 (dq_items q) s of (wr, items, s) \<Rightarrow>
        (length (dq_items q) - wr, q\<lparr>dq_items := take wr items\<rparr>, s))"

definition LLONG_MAX :: int where "LLONG_MAX = 2 ^ 63 - 1"

definition dq_next_deadline_ms :: "debounce_queue \<Rightarrow> int" where
  "dq_next_deadline_ms q = foldl (\<lambda>m e. if dq_deadline e < m then dq_deadline e else m) LLONG_MAX (dq_items q)"

section \<open>Registering watches\<close>

definition EACCES :: errno where "EACCES = EOTHER 13"

text \<open>A directory: the answers of \<open>opendir\<close> and \<open>inotify_add_watch\<close>, and its entries.\<close>

datatype wdir = WDir "errno option" "errno + int" "wentry list"
  and wentry = Plain string | Sub string wdir

definition skipped_child :: "path \<Rightarrow> string \<Rightarrow> bool" where
  "skipped_child dir name \<longleftrightarrow> take 1 name = ''.'' \<or> length (dir @ [slash] @ name) \<ge> 4096"

fun add_watches_recursive :: "path \<Rightarrow> wdir \<Rightarrow> wd_map \<times> bool \<Rightarrow> int \<times> wd_map \<times> bool"
  and add_entries :: "path \<Rightarrow> wentry list \<Rightarrow> int \<Rightarrow> wd_map \<times> bool \<Rightarrow> int \<times> wd_map \<times> bool" where
  "add_watches_recursive dir (WDir op wd es) (m, enospc) = (case op of
     Some e \<Rightarrow> (if e = EACCES \<or> e = ENOENT then 0 else -1, m, enospc)
   | None \<Rightarrow> (case wd of
       Inl e \<Rightarrow> if e = ENOSPC then (0, m, True) else (-1, m, enospc)
     | Inr k \<Rightarrow> (case wdm_set m k dir of
         None \<Rightarrow> (-1, m, enospc)
       | Some m \<Rightarrow> add_entries dir es 1 (m, enospc))))"
| "add_entries dir [] tot (m, enospc) = (tot, m, enospc)"
| "add_entries dir (Plain name # es) tot (m, enospc) = add_entries dir es tot (m, enospc)"
| "add_entries dir (Sub name d # es) tot (m, enospc) =
     (if skipped_child dir name then add_entries dir es tot (m, enospc)
      else case add_watches_recursive (dir @ [slash] @ name) d (m, enospc) of (sub, m, enospc) \<Rightarrow>
        if sub < 0 then (sub, m, enospc) else add_entries dir es (tot + sub) (m, enospc))"

fun count_dirs :: "path \<Rightarrow> wdir \<Rightarrow> nat" and count_entries :: "path \<Rightarrow> wentry list \<Rightarrow> nat" where
  "count_dirs dir (WDir op wd es) = (if op \<noteq> None then 0 else 1 + count_entries dir es)"
| "count_entries dir [] = 0"
| "count_entries dir (Plain name # es) = count_entries dir es"
| "count_entries dir (Sub name d # es) =
     (if skipped_child dir name then 0 else count_dirs (dir @ [slash] @ name) d) + count_entries dir es"

section \<open>The watcher\<close>

text \<open>\<open>wt_scanned\<close> records the directories whose scan ran (the periodic scan is the library root).\<close>

record watch_state =
  wt_root :: path
  wt_wdm :: wd_map
  wt_dq :: debounce_queue
  wt_periodic :: bool
  wt_pidfile :: bool
  wt_w :: world
  wt_scanned :: "path list"

definition IN_CREATE :: "32 word" where "IN_CREATE = 0x100"
definition IN_DELETE_SELF :: "32 word" where "IN_DELETE_SELF = 0x400"
definition IN_MOVE_SELF :: "32 word" where "IN_MOVE_SELF = 0x800"
definition IN_MOVED_TO :: "32 word" where "IN_MOVED_TO = 0x80"
definition IN_IGNORED :: "32 word" where "IN_IGNORED = 0x8000"
definition IN_ISDIR :: "32 word" where "IN_ISDIR = 0x40000000"

text \<open>One event, with the clock when it is queued and the directory a recursive registration finds.\<close>

record iev =
  iv_wd :: int
  iv_mask :: "32 word"
  iv_name :: string
  iv_now :: int
  iv_child :: wdir

datatype fd_event = Signals nat | Timer bool | Inotify "iev list list"

record wake =
  wk_events :: "fd_event list"
  wk_now :: int
  wk_drain_at :: int
  wk_env :: scan_env
  wk_lib :: "path \<Rightarrow> library"
  wk_busy :: "path \<Rightarrow> bool"

datatype wait = Interrupted | WaitFailed | Woke wake

text \<open>\<open>writer_lock_acquire\<close> and its callers: a scan is skipped where the lock is configured and busy.\<close>

definition writer_lock_free :: "wake \<Rightarrow> path \<Rightarrow> watch_state \<Rightarrow> bool" where
  "writer_lock_free k dir st \<longleftrightarrow> \<not> wt_pidfile st \<or> \<not> wk_busy k dir"

definition on_drain :: "wake \<Rightarrow> path \<Rightarrow> watch_state \<Rightarrow> watch_state" where
  "on_drain k dir st =
     (if \<not> writer_lock_free k dir st then st
      else case scan_run_subtree (wk_env k) (wt_root st) (wk_lib k dir) (wt_w st) of (rc, c) \<Rightarrow>
        st\<lparr>wt_w := sc_w c, wt_scanned := wt_scanned st @ [dir]\<rparr>)"

definition periodic_rescan :: "wake \<Rightarrow> watch_state \<Rightarrow> watch_state" where
  "periodic_rescan k st =
     (if \<not> writer_lock_free k (wt_root st) st then st
      else case scan_run (wk_env k) (wt_root st) (wk_lib k (wt_root st)) (wt_w st) of (rc, c) \<Rightarrow>
        st\<lparr>wt_w := sc_w c, wt_scanned := wt_scanned st @ [wt_root st]\<rparr>)"

text \<open>A new directory in a watched one; arming the timer is the mode.\<close>

definition watch_new_dir :: "path \<Rightarrow> iev \<Rightarrow> watch_state \<Rightarrow> watch_state" where
  "watch_new_dir dir e st =
     (if iv_mask e AND IN_CREATE \<noteq> 0 \<and> iv_mask e AND IN_ISDIR \<noteq> 0 \<and> iv_name e \<noteq> [] \<and>
         length (dir @ [slash] @ iv_name e) < 4096
      then case add_watches_recursive (dir @ [slash] @ iv_name e) (iv_child e) (wt_wdm st, False) of
        (sub, m, enospc) \<Rightarrow> st\<lparr>wt_wdm := m, wt_periodic := wt_periodic st \<or> enospc\<rparr>
      else st)"

text \<open>The flag is \<open>hard_error\<close>. A removal that does not end would leave the table as it is.\<close>

definition handle_event :: "iev \<Rightarrow> watch_state \<Rightarrow> bool \<times> watch_state" where
  "handle_event e st = (case wdm_get (wt_wdm st) (iv_wd e) of
     None \<Rightarrow> (False, st)
   | Some dir \<Rightarrow>
       if iv_mask e AND (IN_DELETE_SELF OR IN_MOVE_SELF) \<noteq> 0 \<and> dir = wt_root st then (True, st)
       else let st = watch_new_dir dir e st
         in (False,
             if iv_mask e AND IN_IGNORED \<noteq> 0
             then st\<lparr>wt_wdm := (case wdm_remove (wt_wdm st) (iv_wd e) of None \<Rightarrow> wt_wdm st | Some m \<Rightarrow> m)\<rparr>
             else st\<lparr>wt_dq := dq_push (wt_dq st) dir (iv_now e)\<rparr>))"

fun handle_events :: "iev list \<Rightarrow> watch_state \<Rightarrow> bool \<times> watch_state" where
  "handle_events [] st = (False, st)"
| "handle_events (e # es) st = (case handle_event e st of
     (True, st) \<Rightarrow> (True, st) | (False, st) \<Rightarrow> handle_events es st)"

fun read_batches :: "bool \<Rightarrow> iev list list \<Rightarrow> watch_state \<Rightarrow> bool \<times> watch_state" where
  "read_batches hard [] st = (hard, st)"
| "read_batches hard (b # bs) st = (case handle_events b st of
     (h, st) \<Rightarrow> if hard \<or> h then (True, st) else read_batches False bs st)"

text \<open>The two flags are \<open>graceful\<close> and \<open>hard_error\<close>.\<close>

definition handle_fd :: "wake \<Rightarrow> fd_event \<Rightarrow> bool \<times> bool \<times> watch_state \<Rightarrow> bool \<times> bool \<times> watch_state" where
  "handle_fd k ev = (\<lambda>(graceful, hard, st). case ev of
     Signals n \<Rightarrow> (graceful \<or> n > 0, hard, st)
   | Timer ok \<Rightarrow> (graceful, hard, if ok \<and> wt_periodic st then periodic_rescan k st else st)
   | Inotify bs \<Rightarrow> (case read_batches hard bs st of (hard, st) \<Rightarrow> (graceful, hard, st)))"

definition drain_queue :: "wake \<Rightarrow> watch_state \<Rightarrow> watch_state" where
  "drain_queue k st = (case dq_drain_due (wt_dq st) (wk_drain_at k) (on_drain k) st of
     (n, q, st) \<Rightarrow> st\<lparr>wt_dq := q\<rparr>)"

text \<open>\<open>timeout_ms\<close>: -1 waits for ever; a large delay is cut to an \<open>int\<close>.\<close>

definition epoll_timeout :: "debounce_queue \<Rightarrow> int \<Rightarrow> int" where
  "epoll_timeout q now =
     (let nxt = dq_next_deadline_ms q
      in if nxt = LLONG_MAX then -1
         else if nxt - now > 0 then sint (of_int (nxt - now) :: 32 word) else 0)"

definition watch_iter :: "wait \<Rightarrow> watch_state \<Rightarrow> int option \<times> watch_state" where
  "watch_iter x st = (case x of
     Interrupted \<Rightarrow> (None, st)
   | WaitFailed \<Rightarrow> (Some (-1), st)
   | Woke k \<Rightarrow> (case fold (handle_fd k) (wk_events k) (False, False, st) of (graceful, hard, st) \<Rightarrow>
       (if hard then Some (-1) else if graceful then Some 0 else None, drain_queue k st)))"

fun watch_loop :: "wait list \<Rightarrow> watch_state \<Rightarrow> int option \<times> watch_state" where
  "watch_loop [] st = (None, st)"
| "watch_loop (x # xs) st = (case watch_iter x st of
     (Some rc, st) \<Rightarrow> (Some rc, st) | (None, st) \<Rightarrow> watch_loop xs st)"

text \<open>What the set-up asks the kernel for.\<close>

record watch_setup =
  wu_isdir :: bool
  wu_tree :: wdir
  wu_limit_file :: "string option"
  wu_inotify :: bool
  wu_fds :: bool

definition watch_start :: "path \<Rightarrow> int \<Rightarrow> bool \<Rightarrow> watch_setup \<Rightarrow> world \<Rightarrow> watch_state option" where
  "watch_start library_root debounce_ms pidfile u w =
     (if \<not> wu_isdir u then None
      else if watch_check_inotify_limit (count_dirs library_root (wu_tree u)) (wu_limit_file u) \<noteq> 0 then None
      else if \<not> wu_inotify u then None
      else case add_watches_recursive library_root (wu_tree u) (wdm_init, False) of (n, m, enospc) \<Rightarrow>
        if n < 0 then None
        else if \<not> wu_fds u then None
        else Some \<lparr>wt_root = library_root, wt_wdm = m, wt_dq = dq_init debounce_ms, wt_periodic = enospc,
               wt_pidfile = pidfile, wt_w = w, wt_scanned = []\<rparr>)"

definition watch_run :: "path \<Rightarrow> int \<Rightarrow> bool \<Rightarrow> watch_setup \<Rightarrow> wait list \<Rightarrow> world \<Rightarrow> int option \<times> world" where
  "watch_run library_root debounce_ms pidfile u xs w =
     (case watch_start library_root debounce_ms pidfile u w of
        None \<Rightarrow> (Some (-1), w)
      | Some st \<Rightarrow> (case watch_loop xs st of (rc, st) \<Rightarrow> (rc, wt_w st)))"

section \<open>The queue is a map of deadlines\<close>

definition dq_ok :: "debounce_queue \<Rightarrow> bool" where
  "dq_ok q \<longleftrightarrow> distinct (map dq_dir (dq_items q))"

definition dq_abs :: "debounce_queue \<Rightarrow> path \<rightharpoonup> int" where
  "dq_abs q = map_of (map (\<lambda>e. (dq_dir e, dq_deadline e)) (dq_items q))"

lemma put_dirs: "set (map dq_dir (dq_put d t es)) = insert d (set (map dq_dir es))"
  by (induction es) auto

lemma put_distinct: "distinct (map dq_dir es) \<Longrightarrow> distinct (map dq_dir (dq_put d t es))"
  using put_dirs by (induction es) auto

lemma put_map: "map_of (map (\<lambda>e. (dq_dir e, dq_deadline e)) (dq_put d t es)) =
    (map_of (map (\<lambda>e. (dq_dir e, dq_deadline e)) es))(d \<mapsto> t)"
  by (induction es) (auto simp: fun_eq_iff)

lemma push_ok: "dq_ok q \<Longrightarrow> dq_ok (dq_push q d now)"
  by (simp add: dq_ok_def dq_push_def put_distinct)

lemma push_abs: "dq_abs (dq_push q d now) = (dq_abs q)(d \<mapsto> now + dq_debounce_ms q)"
  by (simp add: dq_abs_def dq_push_def put_map)

text \<open>The compaction in place keeps the entries that are not due, in their order.\<close>

abbreviation due :: "int \<Rightarrow> dq_entry \<Rightarrow> bool" where
  "due now e \<equiv> dq_deadline e \<le> now"

lemma compact_spec:
  assumes "n + rd = length xs" "wr \<le> rd" "length items = length xs" "drop rd items = drop rd xs"
  shows "case dq_compact cb now n rd wr items s of (wr', items', s') \<Rightarrow>
    take wr' items' = take wr items @ filter (\<lambda>e. \<not> due now e) (drop rd xs) \<and> wr' \<le> length xs \<and>
    wr' = wr + length (filter (\<lambda>e. \<not> due now e) (drop rd xs)) \<and>
    s' = fold cb (map dq_dir (filter (due now) (drop rd xs))) s"
  using assms
proof (induction n arbitrary: rd wr items s)
  case 0
  then show ?case by simp
next
  case (Suc n)
  then have rd: "rd < length xs" by simp
  from rd have dx: "drop rd xs = xs ! rd # drop (Suc rd) xs" by (rule Cons_nth_drop_Suc [symmetric])
  from Suc.prems(3) rd have "drop rd items = items ! rd # drop (Suc rd) items" by (simp add: Cons_nth_drop_Suc)
  with dx Suc.prems(4) have at: "items ! rd = xs ! rd" "drop (Suc rd) items = drop (Suc rd) xs" by simp_all
  show ?case
  proof (cases "due now (xs ! rd)")
    case True
    with Suc.IH [of "Suc rd" wr items "cb (dq_dir (xs ! rd)) s"] Suc.prems at dx show ?thesis by simp
  next
    case False
    let ?items = "if wr \<noteq> rd then items[wr := items ! rd] else items"
    have "drop (Suc rd) ?items = drop (Suc rd) xs" using Suc.prems(2) at(2) by simp
    moreover have "take (Suc wr) ?items = take wr items @ [xs ! rd]"
      using Suc.prems(2,3) rd at(1) by (auto simp: take_Suc_conv_app_nth)
    ultimately show ?thesis
      using False Suc.IH [of "Suc rd" "Suc wr" ?items s] Suc.prems at(1) dx by (simp split: if_splits)
  qed
qed

lemma drain_spec:
  "dq_drain_due q now cb s =
    (length (filter (due now) (dq_items q)), q\<lparr>dq_items := filter (\<lambda>e. \<not> due now e) (dq_items q)\<rparr>,
     fold cb (map dq_dir (filter (due now) (dq_items q))) s)"
proof -
  obtain wr items s' where c: "dq_compact cb now (length (dq_items q)) 0 0 (dq_items q) s = (wr, items, s')"
    by (metis surj_pair)
  from compact_spec [where n = "length (dq_items q)" and rd = 0 and xs = "dq_items q" and wr = 0 and items = "dq_items q"
      and cb = cb and now = now and s = s] c
  have "take wr items = filter (\<lambda>e. \<not> due now e) (dq_items q)"
    "wr = length (filter (\<lambda>e. \<not> due now e) (dq_items q))"
    "s' = fold cb (map dq_dir (filter (due now) (dq_items q))) s" by auto
  moreover have "length (filter (due now) (dq_items q)) + length (filter (\<lambda>e. \<not> due now e) (dq_items q)) = length (dq_items q)"
    by (rule sum_length_filter_compl)
  ultimately show ?thesis by (simp add: dq_drain_due_def c)
qed

lemma filter_map_of:
  assumes "distinct (map dq_dir es)"
  shows "map_of (map (\<lambda>e. (dq_dir e, dq_deadline e)) (filter (\<lambda>e. \<not> due now e) es)) d =
    (case map_of (map (\<lambda>e. (dq_dir e, dq_deadline e)) es) d of
       Some t \<Rightarrow> if t \<le> now then None else Some t | None \<Rightarrow> None)"
  using assms
proof (induction es)
  case (Cons e es)
  have "map_of (map (\<lambda>e. (dq_dir e, dq_deadline e)) (filter (\<lambda>e. \<not> due now e) es)) d = None"
    if "dq_dir e \<notin> dq_dir ` set es" "d = dq_dir e"
    using that by (auto simp: map_of_eq_None_iff)
  with Cons show ?case by (auto split: option.split)
qed simp

lemma due_dirs:
  assumes "distinct (map dq_dir es)"
  shows "d \<in> dq_dir ` set (filter (due now) es) \<longleftrightarrow>
    (\<exists>t. map_of (map (\<lambda>e. (dq_dir e, dq_deadline e)) es) d = Some t \<and> t \<le> now)"
  using assms
proof (induction es)
  case (Cons e es)
  have "map_of (map (\<lambda>e. (dq_dir e, dq_deadline e)) es) d = None" if "dq_dir e \<notin> dq_dir ` set es" "d = dq_dir e"
    using that by (auto simp: map_of_eq_None_iff)
  with Cons show ?case by (cases "d = dq_dir e") auto
qed simp

section \<open>The contract of a debounce queue\<close>

datatype dq_op = Push path int | Drain int

text \<open>What the client relies on: deadlines by directory; the last event of a directory counts.\<close>

primrec deadline_op :: "int \<Rightarrow> dq_op \<Rightarrow> (path \<rightharpoonup> int) \<Rightarrow> (path \<rightharpoonup> int)" where
  "deadline_op ms (Push d t) M = M(d \<mapsto> t + ms)"
| "deadline_op ms (Drain t) M = (\<lambda>d. case M d of Some e \<Rightarrow> if e \<le> t then None else Some e | None \<Rightarrow> None)"

primrec due_op :: "dq_op \<Rightarrow> (path \<rightharpoonup> int) \<Rightarrow> path set" where
  "due_op (Push d t) M = {}"
| "due_op (Drain t) M = {d. \<exists>e. M d = Some e \<and> e \<le> t}"

locale debounce =
  fixes ok :: "'q \<Rightarrow> bool" and abs :: "'q \<Rightarrow> path \<rightharpoonup> int" and delay :: "'q \<Rightarrow> int"
    and push :: "'q \<Rightarrow> path \<Rightarrow> int \<Rightarrow> 'q" and drain :: "'q \<Rightarrow> int \<Rightarrow> 'q \<times> path list"
  assumes push: "ok q \<Longrightarrow> ok (push q d t) \<and> abs (push q d t) = (abs q)(d \<mapsto> t + delay q) \<and> delay (push q d t) = delay q"
    and drain: "ok q \<Longrightarrow> drain q t = (q', ds) \<Longrightarrow> ok q' \<and> delay q' = delay q \<and> distinct ds \<and>
      set ds = {d. \<exists>e. abs q d = Some e \<and> e \<le> t} \<and>
      abs q' = (\<lambda>d. case abs q d of Some e \<Rightarrow> if e \<le> t then None else Some e | None \<Rightarrow> None)"
begin

primrec op :: "dq_op \<Rightarrow> 'q \<Rightarrow> 'q \<times> path list" where
  "op (Push d t) q = (push q d t, [])"
| "op (Drain t) q = drain q t"

primrec run :: "dq_op list \<Rightarrow> 'q \<Rightarrow> 'q \<times> path list list" where
  "run [] q = (q, [])"
| "run (x # xs) q = (case op x q of (q, ds) \<Rightarrow> (case run xs q of (q, dss) \<Rightarrow> (q, ds # dss)))"

primrec spec :: "int \<Rightarrow> dq_op list \<Rightarrow> (path \<rightharpoonup> int) \<Rightarrow> (path \<rightharpoonup> int) \<times> path set list" where
  "spec ms [] M = (M, [])"
| "spec ms (x # xs) M = (case spec ms xs (deadline_op ms x M) of (M', Ds) \<Rightarrow> (M', due_op x M # Ds))"

lemma op_spec:
  assumes "ok q" "op x q = (q', ds)"
  shows "ok q' \<and> delay q' = delay q \<and> distinct ds \<and> set ds = due_op x (abs q) \<and> abs q' = deadline_op (delay q) x (abs q)"
  using assms push [OF assms(1)] drain [OF assms(1)] by (cases x) auto

lemma run_spec:
  assumes "ok q" "run xs q = (q', dss)"
  shows "ok q' \<and> (abs q', map set dss) = spec (delay q) xs (abs q) \<and> (\<forall>ds \<in> set dss. distinct ds)"
  using assms
proof (induction xs arbitrary: q dss)
  case (Cons x xs)
  obtain q1 ds where o: "op x q = (q1, ds)" by fastforce
  note os = op_spec [OF Cons.prems(1) o]
  obtain dss1 where r: "run xs q1 = (q', dss1)" "dss = ds # dss1"
    using Cons.prems(2) o by (auto split: prod.splits)
  from os Cons.IH [OF _ r(1)] have
    "ok q'" "(abs q', map set dss1) = spec (delay q) xs (abs q1)" "\<forall>ds \<in> set dss1. distinct ds" by auto
  with os r(2) show ?case by (auto split: prod.splits)
qed simp

end

text \<open>Draining with the callback that records its argument.\<close>

definition dq_drained :: "debounce_queue \<Rightarrow> int \<Rightarrow> debounce_queue \<times> path list" where
  "dq_drained q t = (case dq_drain_due q t (\<lambda>d ds. ds @ [d]) [] of (n, q, ds) \<Rightarrow> (q, ds))"

lemma fold_record: "fold (\<lambda>d ds. ds @ [d]) xs ds = ds @ xs"
  by (induction xs arbitrary: ds) auto

lemma dq_drained: "dq_drained q t =
    (q\<lparr>dq_items := filter (\<lambda>e. \<not> due t e) (dq_items q)\<rparr>, map dq_dir (filter (due t) (dq_items q)))"
  by (simp add: dq_drained_def drain_spec fold_record)

lemma drained_ok:
  assumes "dq_ok q" "dq_drained q t = (q', ds)"
  shows "dq_ok q' \<and> dq_debounce_ms q' = dq_debounce_ms q \<and> distinct ds \<and>
    set ds = {d. \<exists>e. dq_abs q d = Some e \<and> e \<le> t} \<and>
    dq_abs q' = (\<lambda>d. case dq_abs q d of Some e \<Rightarrow> if e \<le> t then None else Some e | None \<Rightarrow> None)"
proof -
  from assms(2) have q': "q' = q\<lparr>dq_items := filter (\<lambda>e. \<not> due t e) (dq_items q)\<rparr>"
    and ds: "ds = map dq_dir (filter (due t) (dq_items q))" by (auto simp: dq_drained)
  from assms(1) have d: "distinct (map dq_dir (dq_items q))" by (simp add: dq_ok_def)
  have "distinct (map dq_dir (filter P (dq_items q)))" for P using d by (rule distinct_map_filter)
  moreover have "set ds = {d. \<exists>e. dq_abs q d = Some e \<and> e \<le> t}"
    using due_dirs [OF d, of _ t] by (simp add: ds dq_abs_def set_eq_iff)
  ultimately show ?thesis
    using filter_map_of [OF d, of t] by (simp add: q' ds dq_ok_def dq_abs_def fun_eq_iff)
qed

interpretation dq: debounce dq_ok dq_abs dq_debounce_ms dq_push dq_drained
proof
  show "dq_ok (dq_push q d t) \<and> dq_abs (dq_push q d t) = (dq_abs q)(d \<mapsto> t + dq_debounce_ms q) \<and>
      dq_debounce_ms (dq_push q d t) = dq_debounce_ms q" if "dq_ok q" for q d t
    using that by (simp add: push_ok push_abs) (simp add: dq_push_def)
qed (fact drained_ok)

end
