(* ===== verification/ScanProps.thy ===== *)
theory ScanProps
  imports Scan
begin

text \<open>
  What a scan guarantees: the invariant of the walk (every row seen by this scan names a visited file
  with its attributes and its content hash; every visited file that can be indexed has such a row), its
  preservation by the callback, the reconciliation after the sweep, the repeated scan, the transaction.
\<close>

section \<open>The invariant of the walk\<close>

definition honest :: "scan_env \<Rightarrow> db \<Rightarrow> bool" where
  "honest E d \<longleftrightarrow> (\<forall>t \<in> set (tracks d). se_lstat E (t_path t) = Some (t_mtime_ns t, t_size t) \<longrightarrow>
     hash_with_retry E (t_path t) = Inr (t_sha t))"

definition indexable :: "scan_env \<Rightarrow> sha set \<Rightarrow> path \<Rightarrow> sha \<Rightarrow> bool" where
  "indexable E B p h \<longleftrightarrow> \<not> is_transcode_artifact p \<and> se_lstat E p \<noteq> None \<and> hash_with_retry E p = Inr h \<and> h \<notin> B"

definition row_for :: "scan_env \<Rightarrow> track \<Rightarrow> path \<Rightarrow> bool" where
  "row_for E t p \<longleftrightarrow> t_path t = p \<and> t_last_seen t = se_now E \<and> se_lstat E p = Some (t_mtime_ns t, t_size t) \<and>
     hash_with_retry E p = Inr (t_sha t)"

definition scan_inv :: "scan_env \<Rightarrow> sha set \<Rightarrow> path set \<Rightarrow> db \<Rightarrow> bool" where
  "scan_inv E B D d \<longleftrightarrow> db_ok d \<and> honest E d \<and> bl_sha ` set (track_blacklist d) = B \<and>
     (\<forall>t \<in> set (tracks d). t_last_seen t \<le> se_now E) \<and>
     (\<forall>t \<in> set (tracks d). t_last_seen t = se_now E \<longrightarrow> t_path t \<in> D \<and> row_for E t (t_path t)) \<and>
     (\<forall>p \<in> D. \<forall>h. indexable E B p h \<longrightarrow> (\<exists>t \<in> set (tracks d). t_sha t = h \<and> t_last_seen t = se_now E))"

lemma scan_invD:
  assumes "scan_inv E B D d"
  shows "db_ok d" "honest E d" "bl_sha ` set (track_blacklist d) = B"
    "t \<in> set (tracks d) \<Longrightarrow> t_last_seen t \<le> se_now E"
    "t \<in> set (tracks d) \<Longrightarrow> t_last_seen t = se_now E \<Longrightarrow> t_path t \<in> D \<and> row_for E t (t_path t)"
    "p \<in> D \<Longrightarrow> indexable E B p h \<Longrightarrow> \<exists>t \<in> set (tracks d). t_sha t = h \<and> t_last_seen t = se_now E"
  using assms by (simp_all add: scan_inv_def)

lemma scan_inv_start:
  assumes "db_ok d" "honest E d" "\<And>t. t \<in> set (tracks d) \<Longrightarrow> t_last_seen t < se_now E"
  shows "scan_inv E (bl_sha ` set (track_blacklist d)) {} d"
  using assms by (force simp: scan_inv_def dest: less_imp_le)

text \<open>A file that cannot be indexed leaves the table alone.\<close>

lemma inv_skip: "scan_inv E B D d \<Longrightarrow> (\<And>h. \<not> indexable E B p h) \<Longrightarrow> scan_inv E B (insert p D) d"
  by (auto simp: scan_inv_def)

text \<open>Every other outcome puts one row \<open>t\<close> for the file, and drops no row of this scan but one of the same sha.\<close>

lemma inv_put:
  assumes inv: "scan_inv E B D d" and t: "row_for E t p" "t \<in> set (tracks d')"
    and d': "db_ok d'" "track_blacklist d' = track_blacklist d" "set (tracks d') \<subseteq> insert t (set (tracks d))"
    and keep: "\<And>x. x \<in> set (tracks d) \<Longrightarrow> t_last_seen x = se_now E \<Longrightarrow> x \<in> set (tracks d') \<or> t_sha x = t_sha t"
  shows "scan_inv E B (insert p D) d'"
proof -
  note I = scan_invD [OF inv]
  have row: "x = t \<or> x \<in> set (tracks d)" if "x \<in> set (tracks d')" for x using that d'(3) by blast
  have "honest E d'"
    unfolding honest_def
  proof (intro ballI impI)
    fix x assume x: "x \<in> set (tracks d')" "se_lstat E (t_path x) = Some (t_mtime_ns x, t_size x)"
    from row [OF x(1)] show "hash_with_retry E (t_path x) = Inr (t_sha x)"
    proof
      assume "x = t" then show ?thesis using t(1) by (simp add: row_for_def)
    next
      assume "x \<in> set (tracks d)" then show ?thesis using x(2) I(2) by (simp add: honest_def)
    qed
  qed
  moreover have "t_last_seen x \<le> se_now E" if "x \<in> set (tracks d')" for x
    using row [OF that] I(4) t(1) by (auto simp: row_for_def)
  moreover have "t_path x \<in> insert p D \<and> row_for E x (t_path x)"
    if "x \<in> set (tracks d')" "t_last_seen x = se_now E" for x
    using row [OF that(1)]
  proof
    assume "x = t" then show ?thesis using t(1) by (simp add: row_for_def)
  next
    assume "x \<in> set (tracks d)" then show ?thesis using I(5) that(2) by blast
  qed
  moreover have "\<exists>x \<in> set (tracks d'). t_sha x = h \<and> t_last_seen x = se_now E"
    if "q \<in> insert p D" "indexable E B q h" for q h
  proof (cases "q = p")
    case True
    with that t(1) have "t_sha t = h" by (simp add: indexable_def row_for_def)
    with t show ?thesis by (auto simp: row_for_def)
  next
    case False
    with that I(6) obtain x where x: "x \<in> set (tracks d)" "t_sha x = h" "t_last_seen x = se_now E" by blast
    with keep [OF x(1,3)] t show ?thesis by (auto simp: row_for_def)
  qed
  ultimately show ?thesis using d'(1,2) I(3) unfolding scan_inv_def by simp
qed

section \<open>The callback keeps it\<close>

lemma rows_distinct: "db_ok d \<Longrightarrow> distinct (map t_sha (tracks d)) \<and> distinct (map t_path (tracks d))"
  by (simp add: db_ok_def)

lemma sha_row_unique: "db_ok d \<Longrightarrow> x \<in> set (tracks d) \<Longrightarrow> y \<in> set (tracks d) \<Longrightarrow> t_sha x = t_sha y \<Longrightarrow> x = y"
  by (drule rows_distinct) (auto simp: distinct_map dest: inj_onD)

lemma path_row_unique: "db_ok d \<Longrightarrow> x \<in> set (tracks d) \<Longrightarrow> y \<in> set (tracks d) \<Longrightarrow> t_path x = t_path y \<Longrightarrow> x = y"
  by (drule rows_distinct) (auto simp: distinct_map dest: inj_onD)

lemma update_put:
  assumes inv: "scan_inv E B D d" and u: "update_track h g d = Some d'" and r: "r \<in> set (tracks d)" "t_sha r = h"
    and g: "\<And>x. t_sha x = h \<Longrightarrow> t_sha (g x) = h" "row_for E (g r) p"
  shows "scan_inv E B (insert p D) d'"
proof -
  have ok: "db_ok d" using inv by (rule scan_invD)
  let ?f = "\<lambda>t. if t_sha t = h then g t else t"
  have d': "d' = d\<lparr>tracks := map ?f (tracks d)\<rparr>" using u by (simp add: update_track_def Let_def split: if_splits)
  have uniq: "x = r" if "x \<in> set (tracks d)" "t_sha x = h" for x
    using sha_row_unique [OF ok that(1) r(1)] that(2) r(2) by simp
  have ts: "tracks d' = map ?f (tracks d)" by (simp add: d')
  show ?thesis
  proof (rule inv_put [OF inv g(2)])
    have "g r = ?f r" using r(2) by simp
    then show "g r \<in> set (tracks d')" unfolding ts set_map by (rule image_eqI) (rule r(1))
    show "db_ok d'" using update_track_ok [OF g(1) ok u] by simp
    show "track_blacklist d' = track_blacklist d" by (simp add: d')
    show "set (tracks d') \<subseteq> insert (g r) (set (tracks d))"
    proof
      fix x assume "x \<in> set (tracks d')"
      then obtain y where y: "y \<in> set (tracks d)" "x = ?f y" unfolding ts by auto
      show "x \<in> insert (g r) (set (tracks d))"
      proof (cases "t_sha y = h")
        case True
        with uniq [OF y(1)] y(2) show ?thesis by simp
      next
        case False
        with y show ?thesis by simp
      qed
    qed
    show "x \<in> set (tracks d') \<or> t_sha x = t_sha (g r)" if "x \<in> set (tracks d)" for x
      using that g(1) [OF r(2)] unfolding ts set_map by (cases "t_sha x = h") (simp_all add: image_eqI [of _ _ x])
  qed
qed

lemma insert_put:
  assumes inv: "scan_inv E B D d" and i: "insert_track t d = Some d'" and t: "row_for E t p"
  shows "scan_inv E B (insert p D) d'"
proof -
  have ok: "db_ok d" using inv by (rule scan_invD)
  have d': "d' = d\<lparr>tracks := tracks d @ [t]\<rparr>" using i by (simp add: insert_track_def split: if_splits)
  from insert_track_ok [OF ok i] show ?thesis
    by (intro inv_put [OF inv t]) (auto simp: d')
qed

text \<open>A row whose attributes differ from the file's was not seen by this scan: dropping it is safe.\<close>

lemma delete_old_inv:
  assumes inv: "scan_inv E B D d" and r: "r \<in> set (tracks d)" "t_sha r = h" "t_last_seen r \<noteq> se_now E"
  shows "scan_inv E B D (delete_tracks (\<lambda>t. t_sha t = h) d)"
proof -
  note I = scan_invD [OF inv]
  have uniq: "x = r" if "x \<in> set (tracks d)" "t_sha x = h" for x
    using sha_row_unique [OF I(1) that(1) r(1)] that(2) r(2) by simp
  let ?d = "delete_tracks (\<lambda>t. t_sha t = h) d"
  have ts: "set (tracks ?d) = {t \<in> set (tracks d). t_sha t \<noteq> h}" "track_blacklist ?d = track_blacklist d"
    by (auto simp: delete_tracks_def Let_def)
  have "\<exists>t \<in> set (tracks ?d). t_sha t = k \<and> t_last_seen t = se_now E" if "p \<in> D" "indexable E B p k" for p k
  proof -
    from I(6) [OF that] obtain t where t: "t \<in> set (tracks d)" "t_sha t = k" "t_last_seen t = se_now E" by blast
    with uniq r(3) have "t_sha t \<noteq> h" by blast
    with t show ?thesis by (auto simp: ts)
  qed
  moreover have "honest E ?d" using I(2) by (simp add: honest_def ts)
  ultimately show ?thesis using I(3-5) delete_tracks_ok [OF I(1)] unfolding scan_inv_def ts by simp
qed

lemma bind_scan_row: "t_sha (bind_row (scan_row now rec h st)) = h" "t_path (bind_row (scan_row now rec h st)) = tr_path rec"
  "t_last_seen (bind_row (scan_row now rec h st)) = now" "t_mtime_ns (bind_row (scan_row now rec h st)) = fst st"
  "t_size (bind_row (scan_row now rec h st)) = snd st"
  by (simp_all add: bind_row_def scan_row_def split: prod.split)

lemma scan_row_key [simp]: "r_sha (scan_row now rec h st) = Some h" "r_path (scan_row now rec h st) = Some (tr_path rec)"
  by (simp_all add: scan_row_def split: prod.split)

lemma scan_row_for:
  assumes "hash_with_retry E (tr_path rec) = Inr h" "se_lstat E (tr_path rec) = Some st"
  shows "row_for E (bind_row (scan_row (se_now E) rec h st)) (tr_path rec)"
    and "row_for E ((bind_row (scan_row (se_now E) rec h st))\<lparr>t_date_added := x\<rparr>) (tr_path rec)"
  using assms by (simp_all add: row_for_def bind_scan_row)

lemma lookup_path:
  assumes "track_repo_lookup_by_path w p = Some (h, m, s)"
  obtains t where "t \<in> set (tracks (w_db w))" "t_sha t = h" "t_path t = p" "t_mtime_ns t = m" "t_size t = s"
  using assms by (auto simp: track_repo_lookup_by_path_def dest: find_row_SomeD)

lemma skip_unchanged_inv:
  assumes inv: "scan_inv E B D (w_db (sc_w c))" and r: "r \<in> set (tracks (w_db (sc_w c)))" "t_sha r = h" "t_path r = p"
    and st: "se_lstat E p = Some (t_mtime_ns r, t_size r)" and s: "skip_unchanged E h c = (WALK_CONTINUE, c')"
  shows "scan_inv E B (insert p D) (w_db (sc_w c'))"
proof -
  have "hash_with_retry E p = Inr (t_sha r)"
    using scan_invD(2) [OF inv] r st by (auto simp: honest_def)
  then have "row_for E (r\<lparr>t_last_seen := se_now E\<rparr>) p" using r st by (simp add: row_for_def)
  moreover from s obtain w where "sql_exec (update_track h (\<lambda>t. t\<lparr>t_last_seen := se_now E\<rparr>)) (sc_w c) = (True, w)" "sc_w c' = w"
    by (auto simp: skip_unchanged_def track_repo_mark_seen_def split: prod.splits if_splits)
  ultimately show ?thesis
    using update_put [OF inv _ r(1,2), of "\<lambda>t. t\<lparr>t_last_seen := se_now E\<rparr>" _ p] by (auto elim!: sql_exec_cases)
qed

lemma track_repo_update_put:
  assumes inv: "scan_inv E B D (w_db w)" and u: "track_repo_update (scan_row (se_now E) rec h st) w = (0, w')"
    and row: "hash_with_retry E (tr_path rec) = Inr h" "se_lstat E (tr_path rec) = Some st"
  shows "scan_inv E B (insert (tr_path rec) D) (w_db w')"
proof -
  let ?b = "bind_row (scan_row (se_now E) rec h st)"
  from u have h: "h \<in> track_shas (w_db w)"
    and ex: "sql_exec (update_track h (\<lambda>old. ?b\<lparr>t_date_added := t_date_added old\<rparr>)) w = (True, w')"
    by (auto simp: track_repo_update_def Let_def bind_scan_row split: prod.splits if_splits)
  from h obtain r where "r \<in> set (tracks (w_db w))" "t_sha r = h" by (auto simp: track_shas_def)
  from update_put [OF inv _ this _ scan_row_for(2) [OF row]] ex show ?thesis
    by (auto simp: bind_scan_row elim!: sql_exec_cases)
qed

lemma track_repo_insert_put:
  assumes inv: "scan_inv E B D (w_db w)" and u: "track_repo_insert (scan_row (se_now E) rec h st) w = (0, w')"
    and row: "hash_with_retry E (tr_path rec) = Inr h" "se_lstat E (tr_path rec) = Some st"
  shows "scan_inv E B (insert (tr_path rec) D) (w_db w')"
proof -
  from u have "sql_exec (insert_track (bind_row (scan_row (se_now E) rec h st))) w = (True, w')"
    by (auto simp: track_repo_insert_def split: prod.splits if_splits)
  with insert_put [OF inv _ scan_row_for(1) [OF row]] show ?thesis by (auto elim!: sql_exec_cases)
qed

lemma store_row_inv:
  assumes inv: "scan_inv E B D (w_db (sc_w c))" and s: "store_row (scan_row (se_now E) rec h st) h old c = (0, c')"
    and row: "hash_with_retry E (tr_path rec) = Inr h" "se_lstat E (tr_path rec) = Some st"
    and old: "\<And>x. old = Some x \<Longrightarrow> \<exists>r \<in> set (tracks (w_db (sc_w c))). t_sha r = x \<and> t_last_seen r \<noteq> se_now E"
  shows "scan_inv E B (insert (tr_path rec) D) (w_db (sc_w c'))"
proof (cases "track_repo_lookup_by_sha256 (sc_w c) (Some h) = 1")
  case True
  with s track_repo_update_put [OF inv _ row] show ?thesis by (auto simp: store_row_def split: prod.splits)
next
  case False
  show ?thesis
  proof (cases old)
    case None
    with s False track_repo_insert_put [OF inv _ row] show ?thesis by (auto simp: store_row_def split: prod.splits)
  next
    case (Some x)
    obtain rc w1 where d: "track_repo_delete x (sc_w c) = (rc, w1)" by fastforce
    with s False Some have rc: "rc = 0" "\<exists>w2. track_repo_insert (scan_row (se_now E) rec h st) w1 = (0, w2) \<and> sc_w c' = w2"
      by (auto simp: store_row_def split: prod.splits if_splits)
    from old [OF Some] obtain r where r: "r \<in> set (tracks (w_db (sc_w c)))" "t_sha r = x" "t_last_seen r \<noteq> se_now E" by blast
    from d rc(1) have "w_db w1 = delete_tracks (\<lambda>t. t_sha t = x) (w_db (sc_w c))"
      by (auto simp: track_repo_delete_def Let_def split: prod.splits if_splits elim!: sql_write_cases)
    with delete_old_inv [OF inv r] have "scan_inv E B D (w_db w1)" by simp
    from track_repo_insert_put [OF this _ row] rc(2) show ?thesis by blast
  qed
qed

lemma scan_changed_inv:
  assumes inv: "scan_inv E B D (w_db (sc_w c))" and s: "scan_changed E rec st old c = (WALK_CONTINUE, c')"
    and st: "se_lstat E (tr_path rec) = Some st"
    and old: "\<And>x. old = Some x \<Longrightarrow> \<exists>r \<in> set (tracks (w_db (sc_w c))). t_sha r = x \<and> t_last_seen r \<noteq> se_now E"
  shows "scan_inv E B (insert (tr_path rec) D) (w_db (sc_w c'))"
proof (cases "hash_with_retry E (tr_path rec)")
  case (Inl e)
  then have "\<not> indexable E B (tr_path rec) h" for h by (simp add: indexable_def)
  from inv_skip [OF inv this] s Inl show ?thesis by (auto simp: scan_changed_def)
next
  case (Inr h)
  show ?thesis
  proof (cases "is_blacklisted h (w_db (sc_w c))")
    case True
    then have "\<not> indexable E B (tr_path rec) k" for k
      using Inr scan_invD(3) [OF inv] by (auto simp: indexable_def is_blacklisted_def)
    from inv_skip [OF inv this] s Inr True show ?thesis by (auto simp: scan_changed_def)
  next
    case False
    define c1 where "c1 = (if tr_failed rec then c\<lparr>sc_parse_failed := sc_parse_failed c + 1\<rparr> else c)"
    have w: "sc_w c1 = sc_w c" by (simp add: c1_def)
    from s Inr False have "store_row (scan_row (se_now E) rec h st) h old c1 = (0, c')"
      by (auto simp: scan_changed_def Let_def c1_def split: prod.splits if_splits)
    from store_row_inv [OF _ this Inr st] inv old show ?thesis by (simp add: w)
  qed
qed

lemma on_file_inv:
  assumes inv: "scan_inv E B D (w_db (sc_w c))" and s: "on_file E rec c = (WALK_CONTINUE, c')"
  shows "scan_inv E B (insert (tr_path rec) D) (w_db (sc_w c'))"
proof -
  let ?p = "tr_path rec" and ?c = "c\<lparr>sc_seen := sc_seen c + 1\<rparr>"
  have inv': "scan_inv E B D (w_db (sc_w ?c))" using inv by simp
  consider (art) "is_transcode_artifact ?p" | (gone) "\<not> is_transcode_artifact ?p" "se_lstat E ?p = None"
    | (there) st where "\<not> is_transcode_artifact ?p" "se_lstat E ?p = Some st" by fastforce
  then show ?thesis
  proof cases
    case art
    then have "\<not> indexable E B ?p h" for h by (simp add: indexable_def)
    from inv_skip [OF inv this] s art show ?thesis by (simp add: on_file_def)
  next
    case gone
    then have "\<not> indexable E B ?p h" for h by (simp add: indexable_def)
    from inv_skip [OF inv this] s gone show ?thesis by (auto simp: on_file_def)
  next
    case there
    show ?thesis
    proof (cases "track_repo_lookup_by_path (sc_w c) ?p")
      case None
      with s there have "scan_changed E rec st None ?c = (WALK_CONTINUE, c')"
        by (auto simp: on_file_def Let_def split: prod.splits)
      from scan_changed_inv [OF inv' this there(2)] show ?thesis by simp
    next
      case (Some t)
      obtain h m z where "t = (h, m, z)" by (cases t)
      with Some have l: "track_repo_lookup_by_path (sc_w c) ?p = Some (h, m, z)" by simp
      then obtain r where r: "r \<in> set (tracks (w_db (sc_w c)))" "t_sha r = h" "t_path r = ?p" "t_mtime_ns r = m" "t_size r = z"
        by (rule lookup_path)
      show ?thesis
      proof (cases "(m, z) = st")
        case True
        with s there l have "skip_unchanged E h ?c = (WALK_CONTINUE, c')"
          by (auto simp: on_file_def Let_def split: prod.splits)
        from skip_unchanged_inv [OF inv' _ r(2,3) _ this] r there(2) True show ?thesis by auto
      next
        case False
        with s there l have ch: "scan_changed E rec st (Some h) ?c = (WALK_CONTINUE, c')"
          by (auto simp: on_file_def Let_def split: prod.splits if_splits)
        have "t_last_seen r \<noteq> se_now E"
          using scan_invD(5) [OF inv r(1)] r there(2) False by (auto simp: row_for_def)
        with scan_changed_inv [OF inv' ch there(2)] r show ?thesis by auto
      qed
    qed
  qed
qed

section \<open>The walk\<close>

lemma tags_path [simp]: "tr_path (scan_tags E p) = p"
  by (simp add: scan_tags_def)

text \<open>A repository operation leaves the open transaction alone.\<close>

lemma repo_txn:
  "track_repo_mark_seen h now w = (rc, w') \<Longrightarrow> w_txn w' = w_txn w"
  "track_repo_update row w = (rc, w') \<Longrightarrow> w_txn w' = w_txn w"
  "track_repo_insert row w = (rc, w') \<Longrightarrow> w_txn w' = w_txn w"
  "track_repo_delete h w = (rc, w') \<Longrightarrow> w_txn w' = w_txn w"
  "track_repo_delete_unseen_under_root dir now w = (n, w') \<Longrightarrow> w_txn w' = w_txn w"
  by (auto simp: track_repo_mark_seen_def track_repo_update_def track_repo_insert_def track_repo_delete_def
      track_repo_delete_unseen_under_root_def Let_def dest!: sql_exec_fs sql_write_fs split: prod.splits if_splits)

definition same_conn :: "scan_ctx \<Rightarrow> scan_ctx \<Rightarrow> bool" where
  "same_conn c c' \<longleftrightarrow> sc_hard c' = sc_hard c \<and> w_txn (sc_w c') = w_txn (sc_w c)"

lemma store_row_conn: "store_row row h old c = (rc, c') \<Longrightarrow> same_conn c c'"
  by (auto simp: store_row_def same_conn_def dest: repo_txn split: prod.splits if_splits option.splits)
    (metis repo_txn(3,4))

lemma skip_conn: "skip_unchanged E h c = (r, c') \<Longrightarrow>
    sc_hard c' = (sc_hard c \<or> r = WALK_STOP) \<and> w_txn (sc_w c') = w_txn (sc_w c)"
  by (auto simp: skip_unchanged_def dest: repo_txn split: prod.splits if_splits)

lemma changed_conn: "scan_changed E rec st old c = (r, c') \<Longrightarrow>
    sc_hard c' = (sc_hard c \<or> r = WALK_STOP) \<and> w_txn (sc_w c') = w_txn (sc_w c)"
  by (auto simp: scan_changed_def Let_def same_conn_def dest!: store_row_conn
      split: prod.splits if_splits sum.splits)

lemma on_file_conn:
  assumes "on_file E rec c = (r, c')"
  shows "sc_hard c' = (sc_hard c \<or> r = WALK_STOP) \<and> w_txn (sc_w c') = w_txn (sc_w c)"
  using assms
  by (auto simp: on_file_def Let_def dest: skip_conn changed_conn split: prod.splits if_splits option.splits)

lemma visit_conn:
  "visit (\<lambda>p. on_file E (scan_tags E p)) ps c = (r, c') \<Longrightarrow>
   sc_hard c' = (sc_hard c \<or> r = WALK_STOP) \<and> w_txn (sc_w c') = w_txn (sc_w c)"
proof (induction ps arbitrary: c)
  case (Cons p ps)
  obtain x c1 where f: "on_file E (scan_tags E p) c = (x, c1)" by fastforce
  from Cons.prems f Cons.IH [of c1] on_file_conn [OF f] show ?case by (cases x) auto
qed simp

lemma visit_inv:
  assumes "scan_inv E B D (w_db (sc_w c))" "visit (\<lambda>p. on_file E (scan_tags E p)) ps c = (WALK_CONTINUE, c')"
  shows "scan_inv E B (D \<union> set ps) (w_db (sc_w c'))"
  using assms
proof (induction ps arbitrary: c D)
  case (Cons p ps)
  obtain x c1 where f: "on_file E (scan_tags E p) c = (x, c1)" by fastforce
  with Cons.prems(2) have x: "x = WALK_CONTINUE" "visit (\<lambda>p. on_file E (scan_tags E p)) ps c1 = (WALK_CONTINUE, c')"
    by (cases x; simp)+
  from Cons.IH [OF on_file_inv [OF Cons.prems(1), where rec = "scan_tags E p"] x(2)] f x(1) show ?case by simp
qed simp

section \<open>The transaction\<close>

text \<open>What a scan that succeeds has done.\<close>

lemma scan_success:
  assumes "scan_run_internal E root_dir lib prefix meta w = (rc, c)" "rc \<noteq> -1"
  obtains w0 c1 c2 q where "db_begin w = (True, w0)"
    "visit (\<lambda>p. on_file E (scan_tags E p)) (library_files lib) (scan_init w0) = (WALK_CONTINUE, c1)"
    "scan_sweep prefix (se_now E) c1 = (True, c2)" "scan_finish E root_dir meta c2 = (rc, c)"
proof -
  obtain b w0 where b: "db_begin w = (b, w0)" by fastforce
  obtain wrc c1 ws where k: "walker_walk lib (scan_tags E) (on_file E) (scan_init w0) = (wrc, c1, ws)" by (metis prod_cases3)
  obtain ok c2 where sw: "scan_sweep prefix (se_now E) c1 = (ok, c2)" by fastforce
  from assms b k sw have f: "b" "wrc = 0" "\<not> sc_hard c1" "ok" "scan_finish E root_dir meta c2 = (rc, c)"
    by (auto simp: scan_run_internal_def split: if_splits)
  obtain r c1' where v: "visit (\<lambda>p. on_file E (scan_tags E p)) (library_files lib) (scan_init w0) = (r, c1')" by fastforce
  with walker_walk_visits [of lib "scan_tags E" "on_file E" "scan_init w0"] k f(2) have "c1' = c1" by auto
  with visit_conn [OF v] f(3) v have "visit (\<lambda>p. on_file E (scan_tags E p)) (library_files lib) (scan_init w0) = (WALK_CONTINUE, c1)"
    by (cases r) auto
  with that b f sw show thesis by simp
qed

lemma sweep_conn: "scan_sweep prefix now c = (ok, c') \<Longrightarrow> w_txn (sc_w c') = w_txn (sc_w c)"
  by (auto simp: scan_sweep_def dest: repo_txn split: option.splits prod.splits if_splits)

lemma walker_conn:
  assumes "walker_walk lib (scan_tags E) (on_file E) c = (wrc, c', ws)"
  shows "w_txn (sc_w c') = w_txn (sc_w c)"
proof (cases "wrc = 0")
  case True
  obtain r u where "visit (\<lambda>p. on_file E (scan_tags E p)) (library_files lib) c = (r, u)" by fastforce
  with walker_walk_visits [of lib "scan_tags E" "on_file E" c c' ws] assms True visit_conn [OF this] show ?thesis by simp
next
  case False
  with walker_walk_ok [OF assms] show ?thesis by simp
qed

text \<open>C7: a scan is one transaction. When \<open>scan_run\<close> or \<open>scan_run_subtree\<close> fails, whatever failed (a
  statement, the walk, the sweep, the commit), what the database file holds is what it held before.\<close>

theorem scan_all_or_nothing:
  assumes "w_txn w = None" "scan_run_internal E root_dir lib prefix meta w = (-1, c)"
  shows "durable (sc_w c) = w_db w"
proof -
  obtain b w0 where b: "db_begin w = (b, w0)" by fastforce
  show ?thesis
  proof (cases b)
    case False
    with b assms show ?thesis
      by (auto simp: scan_run_internal_def scan_init_def durable_def elim!: db_begin_cases)
  next
    case True
    with b have w0: "w_txn w0 = Some (w_db w)" by (auto elim: db_begin_cases)
    obtain wrc c1 ws where k: "walker_walk lib (scan_tags E) (on_file E) (scan_init w0) = (wrc, c1, ws)" by (metis prod_cases3)
    obtain ok c2 where sw: "scan_sweep prefix (se_now E) c1 = (ok, c2)" by fastforce
    have t1: "w_txn (sc_w c1) = Some (w_db w)" using walker_conn [OF k] w0 by (simp add: scan_init_def)
    with sweep_conn [OF sw] have t2: "w_txn (sc_w c2) = Some (w_db w)" by simp
    have fin: "durable (sc_w c) = w_db w" if "scan_finish E root_dir meta c2 = (-1, c)"
    proof -
      define c3 where "c3 = (if meta then c2\<lparr>sc_w := snd (sql_write (put_scan_meta root_dir (se_now E) c2) (sc_w c2))\<rparr> else c2)"
      obtain y w3 where "sql_write (put_scan_meta root_dir (se_now E) c2) (sc_w c2) = (y, w3)" by fastforce
      with sql_write_fs [OF this] t2 have "w_txn (sc_w c3) = Some (w_db w)" by (simp add: c3_def)
      with that show ?thesis
        by (auto simp: scan_finish_def c3_def [symmetric] Let_def durable_def split: prod.splits if_splits elim!: db_commit_cases)
    qed
    from assms(2) b True k sw t1 t2 fin show ?thesis
      by (auto simp: scan_run_internal_def durable_def db_rollback_def split: if_splits)
  qed
qed

section \<open>Reconciliation\<close>

definition under :: "path \<Rightarrow> path \<Rightarrow> bool" where
  "under dir p \<longleftrightarrow> take (length (root_pattern dir)) p = root_pattern dir"

lemma unseen_under_iff: "unseen_under (root_pattern dir) now t \<longleftrightarrow> under dir (t_path t) \<and> t_last_seen t < now"
  by (simp add: unseen_under_def under_def)

lemma delete_unseen_inv:
  assumes inv: "scan_inv E B D d"
  shows "scan_inv E B D (delete_tracks (unseen_under (root_pattern dir) (se_now E)) d)"
proof -
  note I = scan_invD [OF inv]
  let ?d = "delete_tracks (unseen_under (root_pattern dir) (se_now E)) d"
  have ts: "set (tracks ?d) = {t \<in> set (tracks d). \<not> unseen_under (root_pattern dir) (se_now E) t}"
    "track_blacklist ?d = track_blacklist d"
    by (auto simp: delete_tracks_def Let_def)
  have "\<exists>t \<in> set (tracks ?d). t_sha t = k \<and> t_last_seen t = se_now E" if "p \<in> D" "indexable E B p k" for p k
    using I(6) [OF that] by (auto simp: ts unseen_under_iff)
  moreover have "honest E ?d" using I(2) by (simp add: honest_def ts)
  ultimately show ?thesis using I(3-5) delete_tracks_ok [OF I(1)] unfolding scan_inv_def ts by simp
qed

lemma finish_db:
  assumes "scan_finish E root_dir meta c = (rc, c')"
  shows "tracks (w_db (sc_w c')) = tracks (w_db (sc_w c))" "track_blacklist (w_db (sc_w c')) = track_blacklist (w_db (sc_w c))"
    "db_ok (w_db (sc_w c)) \<Longrightarrow> db_ok (w_db (sc_w c'))"
proof -
  define c3 where "c3 = (if meta then c\<lparr>sc_w := snd (sql_write (put_scan_meta root_dir (se_now E) c) (sc_w c))\<rparr> else c)"
  obtain y w3 where w3: "sql_write (put_scan_meta root_dir (se_now E) c) (sc_w c) = (y, w3)" by fastforce
  have put: "db_ok d \<Longrightarrow> db_ok (put_scan_meta root_dir now x d)" for now x d
    by (simp add: put_scan_meta_def db_ok_def upsert_distinct track_shas_def)
  have "w_db (sc_w c') = w_db (sc_w c3)"
    using assms by (auto simp: scan_finish_def c3_def [symmetric] Let_def split: prod.splits if_splits elim!: db_commit_cases)
  moreover have "w_db (sc_w c3) = w_db (sc_w c) \<or> w_db (sc_w c3) = put_scan_meta root_dir (se_now E) c (w_db (sc_w c))"
    using w3 by (auto simp: c3_def elim!: sql_write_cases)
  ultimately have db: "w_db (sc_w c') = w_db (sc_w c) \<or> w_db (sc_w c') = put_scan_meta root_dir (se_now E) c (w_db (sc_w c))"
    by simp
  then show "tracks (w_db (sc_w c')) = tracks (w_db (sc_w c))" "track_blacklist (w_db (sc_w c')) = track_blacklist (w_db (sc_w c))"
    by (auto simp: put_scan_meta_def)
  show "db_ok (w_db (sc_w c)) \<Longrightarrow> db_ok (w_db (sc_w c'))" using db put by auto
qed

lemma scan_run_inv:
  assumes d: "db_ok (w_db w)" "honest E (w_db w)" "\<forall>t \<in> set (tracks (w_db w)). t_last_seen t < se_now E"
    and run: "scan_run E dir lib w = (rc, c)" "rc \<noteq> -1"
  shows "scan_inv E (bl_sha ` set (track_blacklist (w_db w))) (set (library_files lib)) (w_db (sc_w c))"
    and "t \<in> set (tracks (w_db (sc_w c))) \<Longrightarrow> under dir (t_path t) \<Longrightarrow> t_last_seen t = se_now E"
proof -
  let ?B = "bl_sha ` set (track_blacklist (w_db w))" and ?P = "unseen_under (root_pattern dir) (se_now E)"
  obtain w0 c1 c2 where w0: "db_begin w = (True, w0)"
    and v: "visit (\<lambda>p. on_file E (scan_tags E p)) (library_files lib) (scan_init w0) = (WALK_CONTINUE, c1)"
    and sw: "scan_sweep (Some dir) (se_now E) c1 = (True, c2)" and f: "scan_finish E dir True c2 = (rc, c)"
    using run scan_success unfolding scan_run_def by metis
  have "w_db w0 = w_db w" using w0 by (auto elim: db_begin_cases)
  with scan_inv_start [OF d(1,2)] d(3) have "scan_inv E ?B {} (w_db (sc_w (scan_init w0)))" by (simp add: scan_init_def)
  from visit_inv [OF this v] have i1: "scan_inv E ?B (set (library_files lib)) (w_db (sc_w c1))" by simp
  from sw have d2: "w_db (sc_w c2) = delete_tracks ?P (w_db (sc_w c1))"
    by (auto simp: scan_sweep_def track_repo_delete_unseen_under_root_def Let_def
        split: prod.splits if_splits elim!: sql_write_cases)
  with delete_unseen_inv [OF i1] have i2: "scan_inv E ?B (set (library_files lib)) (w_db (sc_w c2))" by simp
  note fin = finish_db [OF f]
  from i2 fin show i3: "scan_inv E ?B (set (library_files lib)) (w_db (sc_w c))"
    by (simp add: scan_inv_def honest_def)
  show "t_last_seen t = se_now E" if t: "t \<in> set (tracks (w_db (sc_w c)))" "under dir (t_path t)"
  proof -
    have "t \<in> set (tracks (w_db (sc_w c2)))" using t fin(1) by simp
    then have "\<not> ?P t" unfolding d2 by (auto simp: delete_tracks_def Let_def)
    with t(2) scan_invD(4) [OF i3 t(1)] show ?thesis by (simp add: unseen_under_iff)
  qed
qed

text \<open>C5: a full scan reconciles the tracks table with the library. When it succeeds, every row below
  the library root names an audio file the walk found, under the hash of that file's audio; and every
  audio file found that can be read, is no transcode artifact and whose content is not blacklisted has a
  row under its hash.\<close>

theorem scan_reconciles:
  assumes "db_ok (w_db w)" "honest E (w_db w)" "\<forall>t \<in> set (tracks (w_db w)). t_last_seen t < se_now E"
    and "scan_run E dir lib w = (rc, c)" "rc \<noteq> -1"
  shows "(\<forall>t \<in> set (tracks (w_db (sc_w c))). under dir (t_path t) \<longrightarrow>
            t_path t \<in> set (library_files lib) \<and> hash_with_retry E (t_path t) = Inr (t_sha t)) \<and>
         (\<forall>p \<in> set (library_files lib). \<forall>h.
            indexable E (bl_sha ` set (track_blacklist (w_db w))) p h \<longrightarrow> h \<in> track_shas (w_db (sc_w c)))"
proof -
  note inv = scan_run_inv(1) [OF assms] and seen = scan_run_inv(2) [OF assms]
  have "t_path t \<in> set (library_files lib) \<and> hash_with_retry E (t_path t) = Inr (t_sha t)"
    if "t \<in> set (tracks (w_db (sc_w c)))" "under dir (t_path t)" for t
    using scan_invD(5) [OF inv that(1) seen [OF that]] by (simp add: row_for_def)
  moreover have "h \<in> track_shas (w_db (sc_w c))"
    if "p \<in> set (library_files lib)" "indexable E (bl_sha ` set (track_blacklist (w_db w))) p h" for p h
    using scan_invD(6) [OF inv that] by (auto simp: track_shas_def)
  ultimately show ?thesis by blast
qed

section \<open>The scan repeated\<close>

definition touch :: "string \<Rightarrow> path set \<Rightarrow> db \<Rightarrow> db" where
  "touch now D d = d\<lparr>tracks := map (\<lambda>t. if t_path t \<in> D then t\<lparr>t_last_seen := now\<rparr> else t) (tracks d)\<rparr>"

lemma touch_empty [simp]: "touch now {} d = d"
  by (simp add: touch_def)

definition settled :: "scan_env \<Rightarrow> db \<Rightarrow> path \<Rightarrow> bool" where
  "settled E d p \<longleftrightarrow> \<not> is_transcode_artifact p \<and>
     (\<exists>t \<in> set (tracks d). t_path t = p \<and> se_lstat E p = Some (t_mtime_ns t, t_size t))"

lemma touch_rows: "x \<in> set (tracks (touch now D d)) \<Longrightarrow>
    \<exists>t \<in> set (tracks d). t_sha x = t_sha t \<and> t_path x = t_path t \<and> t_mtime_ns x = t_mtime_ns t \<and> t_size x = t_size t \<and>
      (t_path t \<in> D \<longrightarrow> t_last_seen x = now) \<and> (t_path t \<notin> D \<longrightarrow> x = t)"
  by (auto simp: touch_def split: if_splits)

lemma touch_paths: "map t_path (tracks (touch now D d)) = map t_path (tracks d)"
  by (simp add: touch_def comp_def if_distrib cong: if_cong)

lemma lookup_touched:
  assumes "db_ok d" "t \<in> set (tracks d)" "w_db w = touch now D d"
  shows "track_repo_lookup_by_path w (t_path t) = Some (t_sha t, t_mtime_ns t, t_size t)"
proof -
  let ?t = "if t_path t \<in> D then t\<lparr>t_last_seen := now\<rparr> else t"
  have "distinct (map t_path (tracks (touch now D d)))" using assms(1) by (simp add: touch_paths rows_distinct)
  moreover have "?t \<in> set (tracks (touch now D d))" using assms(2) by (simp add: touch_def)
  ultimately have "find_row t_path (t_path ?t) (tracks (touch now D d)) = Some ?t" by (intro find_row_in)
  then show ?thesis by (simp add: track_repo_lookup_by_path_def assms(3) split: if_splits)
qed

lemma mark_touched:
  assumes ok: "db_ok d" and t: "t \<in> set (tracks d)"
  shows "update_track (t_sha t) (\<lambda>x. x\<lparr>t_last_seen := now\<rparr>) (touch now D d) = Some (touch now (insert (t_path t) D) d)"
proof -
  have "x \<in> set (tracks d) \<Longrightarrow> t_sha x = t_sha t \<longleftrightarrow> t_path x = t_path t" for x
    using sha_row_unique [OF ok _ t] path_row_unique [OF ok _ t] by metis
  then have ts: "map (\<lambda>x. if t_sha x = t_sha t then x\<lparr>t_last_seen := now\<rparr> else x) (tracks (touch now D d)) =
      tracks (touch now (insert (t_path t) D) d)"
    by (simp add: touch_def)
  have "distinct (map t_path (tracks (touch now (insert (t_path t) D) d)))" using ok by (simp add: touch_paths rows_distinct)
  with ts have "update_track (t_sha t) (\<lambda>x. x\<lparr>t_last_seen := now\<rparr>) (touch now D d) =
      Some ((touch now D d)\<lparr>tracks := tracks (touch now (insert (t_path t) D) d)\<rparr>)"
    by (simp add: update_track_def Let_def)
  then show ?thesis by (simp add: touch_def)
qed

lemma on_file_settled:
  assumes "db_ok d" "settled E d p" "w_db (sc_w c) = touch (se_now E) D d" "w_sql (sc_w c) = []"
  shows "on_file E (scan_tags E p) c = (WALK_CONTINUE, c\<lparr>sc_seen := sc_seen c + 1, sc_skipped := sc_skipped c + 1,
     sc_w := (sc_w c)\<lparr>w_db := touch (se_now E) (insert p D) d\<rparr>\<rparr>)"
proof -
  from assms(2) obtain t where t: "t \<in> set (tracks d)" "t_path t = p" "se_lstat E p = Some (t_mtime_ns t, t_size t)"
    "\<not> is_transcode_artifact p" by (auto simp: settled_def)
  have l: "track_repo_lookup_by_path (sc_w c) p = Some (t_sha t, t_mtime_ns t, t_size t)"
    using lookup_touched [OF assms(1) t(1) assms(3)] t(2) by simp
  have m: "track_repo_mark_seen (t_sha t) (se_now E) (sc_w c) =
      (0, (sc_w c)\<lparr>w_db := touch (se_now E) (insert p D) d\<rparr>)"
    using mark_touched [OF assms(1) t(1), of "se_now E" D] t(2) assms(3,4)
    by (simp add: track_repo_mark_seen_def sql_exec_quiet)
  from t l m show ?thesis by (simp add: on_file_def skip_unchanged_def)
qed

lemma visit_settled:
  assumes "db_ok d" "\<forall>p \<in> set ps. settled E d p" "w_db (sc_w c) = touch (se_now E) D d" "w_sql (sc_w c) = []"
  shows "visit (\<lambda>p. on_file E (scan_tags E p)) ps c = (WALK_CONTINUE,
     c\<lparr>sc_seen := sc_seen c + length ps, sc_skipped := sc_skipped c + length ps,
       sc_w := (sc_w c)\<lparr>w_db := touch (se_now E) (D \<union> set ps) d\<rparr>\<rparr>)"
  using assms
proof (induction ps arbitrary: c D)
  case Nil
  then show ?case by simp
next
  case (Cons p ps)
  let ?c = "c\<lparr>sc_seen := sc_seen c + 1, sc_skipped := sc_skipped c + 1,
     sc_w := (sc_w c)\<lparr>w_db := touch (se_now E) (insert p D) d\<rparr>\<rparr>"
  have "on_file E (scan_tags E p) c = (WALK_CONTINUE, ?c)" using on_file_settled Cons.prems by simp
  with Cons.IH [of ?c "insert p D"] Cons.prems show ?case by simp
qed

lemma walker_visit:
  assumes "lb_real lib = Some rt" "lb_isdir lib" "lb_fts lib = Some ns"
    and "visit (\<lambda>p. cb (tags p)) (library_files lib) u = (r, u')"
  shows "\<exists>ws. walker_walk lib tags cb u = (0, u', ws)"
proof -
  obtain wrc v ws where k: "walker_walk lib tags cb u = (wrc, v, ws)" by (metis prod_cases3)
  with assms(1-3) have "wrc = 0" by (simp add: walker_walk_def split: prod.splits)
  with k walker_walk_visits [of lib tags cb u v ws] assms(4) show ?thesis by simp
qed

lemma sweep_nothing:
  assumes "\<forall>t \<in> set (tracks (w_db (sc_w c))). \<not> unseen_under (root_pattern dir) now t" "w_sql (sc_w c) = []"
  shows "\<exists>c'. scan_sweep (Some dir) now c = (True, c') \<and> w_db (sc_w c') = w_db (sc_w c) \<and> w_sql (sc_w c') = [] \<and>
    sc_removed c' = 0 \<and> sc_seen c' = sc_seen c \<and> sc_added c' = sc_added c \<and> sc_updated c' = sc_updated c \<and>
    sc_skipped c' = sc_skipped c \<and> sc_hash_failed c' = sc_hash_failed c \<and> sc_parse_failed c' = sc_parse_failed c"
proof -
  have "filter (unseen_under (root_pattern dir) now) (tracks (w_db (sc_w c))) = []"
    using assms(1) by (simp add: filter_empty_conv)
  with delete_tracks_none [of "w_db (sc_w c)" "unseen_under (root_pattern dir) now"] assms show ?thesis
    by (simp add: scan_sweep_def track_repo_delete_unseen_under_root_def sql_write_quiet)
qed

lemma finish_quiet:
  assumes "w_sql (sc_w c) = []" "sc_hash_failed c = 0" "sc_parse_failed c = 0"
  shows "\<exists>c'. scan_finish E dir True c = (0, c') \<and> sc_removed c' = sc_removed c \<and> sc_seen c' = sc_seen c \<and>
    sc_added c' = sc_added c \<and> sc_updated c' = sc_updated c \<and> sc_skipped c' = sc_skipped c \<and>
    w_txn (sc_w c') = None \<and> w_db (sc_w c') = put_scan_meta dir (se_now E) c' (w_db (sc_w c))"
  using assms by (simp add: scan_finish_def Let_def sql_write_quiet db_commit_def put_scan_meta_def)

lemma scan_settled:
  assumes d: "db_ok (w_db w)" "\<forall>p \<in> set (library_files lib). settled E (w_db w) p"
    and old: "\<forall>t \<in> set (tracks (w_db w)). under dir (t_path t) \<longrightarrow> t_path t \<in> set (library_files lib)"
    and lib: "lb_real lib = Some rt" "lb_isdir lib" "lb_fts lib = Some ns"
    and quiet: "w_txn w = None" "w_sql w = []"
  shows "\<exists>c. scan_run E dir lib w = (0, c) \<and> sc_added c = 0 \<and> sc_updated c = 0 \<and> sc_removed c = 0 \<and>
    sc_seen c = length (library_files lib) \<and> sc_skipped c = length (library_files lib) \<and> w_txn (sc_w c) = None \<and>
    w_db (sc_w c) = put_scan_meta dir (se_now E) c (touch (se_now E) (set (library_files lib)) (w_db w))"
proof -
  let ?fs = "library_files lib" and ?d = "touch (se_now E) (set (library_files lib)) (w_db w)"
  define w0 where "w0 = w\<lparr>w_txn := Some (w_db w)\<rparr>"
  have b: "db_begin w = (True, w0)" using quiet by (simp add: db_begin_def sql_write_quiet w0_def)
  define c1 where "c1 = (scan_init w0)\<lparr>sc_seen := length ?fs, sc_skipped := length ?fs, sc_w := w0\<lparr>w_db := ?d\<rparr>\<rparr>"
  have "visit (\<lambda>p. on_file E (scan_tags E p)) ?fs (scan_init w0) = (WALK_CONTINUE, c1)"
    using visit_settled [OF d, of "scan_init w0" "{}"] quiet by (simp add: scan_init_def w0_def c1_def)
  from walker_visit [OF lib, of "on_file E" "scan_tags E", OF this] obtain ws
    where k: "walker_walk lib (scan_tags E) (on_file E) (scan_init w0) = (0, c1, ws)" by blast
  have "\<not> unseen_under (root_pattern dir) (se_now E) t" if "t \<in> set (tracks (w_db (sc_w c1)))" for t
  proof -
    have "t \<in> set (tracks ?d)" using that by (simp add: c1_def)
    from touch_rows [OF this] old show ?thesis by (auto simp: unseen_under_iff)
  qed
  with sweep_nothing [of c1 dir "se_now E"] obtain c2 where c2: "scan_sweep (Some dir) (se_now E) c1 = (True, c2)"
    "w_db (sc_w c2) = w_db (sc_w c1)" "w_sql (sc_w c2) = []" "sc_removed c2 = 0" "sc_seen c2 = sc_seen c1"
    "sc_added c2 = sc_added c1" "sc_updated c2 = sc_updated c1" "sc_skipped c2 = sc_skipped c1"
    "sc_hash_failed c2 = sc_hash_failed c1" "sc_parse_failed c2 = sc_parse_failed c1"
    using quiet by (auto simp: c1_def w0_def)
  from finish_quiet [OF c2(3), of E dir] c2 obtain c where c: "scan_finish E dir True c2 = (0, c)"
    "sc_removed c = 0" "sc_seen c = length ?fs" "sc_added c = 0" "sc_updated c = 0" "sc_skipped c = length ?fs"
    "w_txn (sc_w c) = None" "w_db (sc_w c) = put_scan_meta dir (se_now E) c ?d"
    by (auto simp: c1_def scan_init_def)
  have "scan_run E dir lib w = (0, c)"
    using b k c2(1) c(1) by (simp add: scan_run_def scan_run_internal_def c1_def scan_init_def)
  with c show ?thesis by blast
qed

lemma later_env: "hash_with_retry (E\<lparr>se_time := T\<rparr>) = hash_with_retry E" "se_lstat (E\<lparr>se_time := T\<rparr>) = se_lstat E"
  by (simp_all add: fun_eq_iff hash_with_retry_def split: sum.split)

text \<open>C6: scanning an unchanged library of distinct tracks again is idempotent. The hypotheses: the database
  keeps its keys, its rows are honest (a row whose time stamp and size equal the file's carries the hash of
  the file) and were seen before the first scan; the first full scan did not fail; every file found can be
  indexed (no transcode artifact, readable, content not blacklisted) and no two files have the same content
  (two copies of one track take turns in its row at every scan); and no statement fails in the second scan.
  Then a second scan, at any time and with the files as they were, succeeds and commits, adds, updates and removes
  nothing, skips every file it sees as unchanged, and the whole database is as it was but for the seen marks
  of the library's files and the row of the scan_meta table that records the scan.\<close>

theorem scan_again_is_noop:
  assumes "db_ok (w_db w)" "honest E (w_db w)" "\<forall>t \<in> set (tracks (w_db w)). t_last_seen t < se_now E"
    and first: "scan_run E dir lib w = (rc, c)" "rc \<noteq> -1"
    and idx: "\<forall>p \<in> set (library_files lib). \<exists>h. indexable E (bl_sha ` set (track_blacklist (w_db w))) p h"
    and inj: "inj_on (hash_with_retry E) (set (library_files lib))"
    and w2: "w_db w2 = w_db (sc_w c)" "w_txn w2 = None" "w_sql w2 = []"
  shows "\<exists>c2. scan_run (E\<lparr>se_time := T\<rparr>) dir lib w2 = (0, c2) \<and>
    sc_added c2 = 0 \<and> sc_updated c2 = 0 \<and> sc_removed c2 = 0 \<and>
    sc_seen c2 = length (library_files lib) \<and> sc_skipped c2 = length (library_files lib) \<and> w_txn (sc_w c2) = None \<and>
    w_db (sc_w c2) = put_scan_meta dir (iso_now_buf T) c2 ((w_db w2)\<lparr>tracks :=
      map (\<lambda>t. if t_path t \<in> set (library_files lib) then t\<lparr>t_last_seen := iso_now_buf T\<rparr> else t) (tracks (w_db w2))\<rparr>)"
proof -
  note inv = scan_run_inv(1) [OF assms(1-5)] and seen = scan_run_inv(2) [OF assms(1-5)]
  have "settled (E\<lparr>se_time := T\<rparr>) (w_db w2) p" if p: "p \<in> set (library_files lib)" for p
  proof -
    from idx p obtain h where h: "indexable E (bl_sha ` set (track_blacklist (w_db w))) p h" by blast
    from scan_invD(6) [OF inv p h] obtain t where t: "t \<in> set (tracks (w_db (sc_w c)))" "t_sha t = h" "t_last_seen t = se_now E"
      by blast
    from scan_invD(5) [OF inv t(1,3)] have r: "t_path t \<in> set (library_files lib)" "row_for E t (t_path t)" by auto
    then have "hash_with_retry E (t_path t) = hash_with_retry E p" using h t(2) by (simp add: row_for_def indexable_def)
    with inj r(1) p have "t_path t = p" by (auto dest: inj_onD)
    with r t h show ?thesis by (auto simp: settled_def later_env row_for_def indexable_def w2(1))
  qed
  moreover have "t_path t \<in> set (library_files lib)" if "t \<in> set (tracks (w_db w2))" "under dir (t_path t)" for t
    using scan_invD(5) [OF inv _ seen] that by (simp add: w2(1))
  moreover obtain rt ns where "lb_real lib = Some rt" "lb_isdir lib" "lb_fts lib = Some ns"
    using first by (auto simp: scan_run_def scan_run_internal_def walker_walk_def split: prod.splits if_splits option.splits)
  ultimately show ?thesis
    using scan_settled [of w2 lib "E\<lparr>se_time := T\<rparr>" dir] scan_invD(1) [OF inv] w2
    by (simp add: touch_def se_now_def)
qed

section \<open>A content that moved to a path another row holds\<close>

lemma update_conflict:
  assumes "A \<in> set (tracks d)" "B \<in> set (tracks d)" "t_sha A \<noteq> t_sha B" "t_path (g B) = t_path A"
  shows "update_track (t_sha B) g d = None"
proof -
  let ?f = "\<lambda>t. if t_sha t = t_sha B then g t else t"
  have "\<not> distinct (map t_path (map ?f (tracks d)))"
  proof
    assume "distinct (map t_path (map ?f (tracks d)))"
    then have "inj_on (\<lambda>t. t_path (?f t)) (set (tracks d))" by (simp add: distinct_map comp_def)
    moreover have "t_path (?f A) = t_path (?f B)" using assms(3,4) by simp
    ultimately have "A = B" using assms(1,2) by (rule inj_onD)
    with assms(3) show False by simp
  qed
  then show ?thesis by (simp add: update_track_def)
qed

lemma on_file_conflict:
  assumes ok: "db_ok (w_db (sc_w c))" and A: "A \<in> set (tracks (w_db (sc_w c)))" "t_path A = p"
    and B: "B \<in> set (tracks (w_db (sc_w c)))" "t_path B \<noteq> p"
    and p: "\<not> is_transcode_artifact p" "se_lstat E p = Some st" "st \<noteq> (t_mtime_ns A, t_size A)"
      "hash_with_retry E p = Inr (t_sha B)" "\<not> is_blacklisted (t_sha B) (w_db (sc_w c))"
  shows "\<exists>c'. on_file E (scan_tags E p) c = (WALK_STOP, c')"
proof -
  have AB: "t_sha A \<noteq> t_sha B" using sha_row_unique [OF ok A(1) B(1)] A(2) B(2) by auto
  have "find_row t_path (t_path A) (tracks (w_db (sc_w c))) = Some A"
    using A(1) rows_distinct [OF ok] by (intro find_row_in) auto
  then have l: "track_repo_lookup_by_path (sc_w c) p = Some (t_sha A, t_mtime_ns A, t_size A)"
    using A(2) by (simp add: track_repo_lookup_by_path_def)
  let ?row = "scan_row (se_now E) (scan_tags E p) (t_sha B) st"
  have hit: "t_sha B \<in> track_shas (w_db w)" if "w_db w = w_db (sc_w c)" for w
    using B(1) that by (simp add: track_shas_def)
  have none: "update_track (t_sha B) (\<lambda>old. (bind_row ?row)\<lparr>t_date_added := t_date_added old\<rparr>) (w_db (sc_w c)) = None"
    using update_conflict [OF A(1) B(1) AB] A(2) by (simp add: bind_scan_row)
  have upd: "\<exists>w'. track_repo_update ?row (sc_w c) = (-1, w')"
    using none by (auto simp: track_repo_update_def Let_def bind_scan_row sql_exec_def
        split: prod.split list.split bool.split option.split)
  have "store_row ?row (t_sha B) old c1 = (-1, c1\<lparr>sc_w := snd (track_repo_update ?row (sc_w c)), sc_updated := sc_updated c1 + 1\<rparr>)"
    if "sc_w c1 = sc_w c" for c1 old
    using upd hit [of "sc_w c1"] that by (auto simp: store_row_def track_repo_lookup_by_sha256_def)
  with p l show ?thesis by (auto simp: on_file_def Let_def scan_changed_def split: prod.split)
qed

text \<open>A scan fails for good when a file's content is replaced by that of another known track. If the
  file at a track's path now holds the audio of a different track that still has its row elsewhere (two
  files were swapped, or one was overwritten with a copy of the other), the update of that other row's
  path violates the uniqueness of paths: the scan stops, returns an error and leaves the database as it
  was, so every later scan of the library fails in the same way.\<close>

theorem scan_swapped_files_fail:
  assumes "db_ok (w_db w)" "w_txn w = None" "library_files lib = p # rest" "lb_isdir lib"
    and "A \<in> set (tracks (w_db w))" "t_path A = p" "B \<in> set (tracks (w_db w))" "t_path B \<noteq> p"
    and "\<not> is_transcode_artifact p" "se_lstat E p = Some st" "st \<noteq> (t_mtime_ns A, t_size A)"
    and "hash_with_retry E p = Inr (t_sha B)" "\<not> is_blacklisted (t_sha B) (w_db w)"
  shows "\<exists>c. scan_run E dir lib w = (-1, c) \<and> durable (sc_w c) = w_db w"
proof -
  obtain b w0 where b: "db_begin w = (b, w0)" by fastforce
  then have db: "w_db w0 = w_db w" by (auto elim: db_begin_cases)
  obtain c' where c': "on_file E (scan_tags E p) (scan_init w0) = (WALK_STOP, c')"
    using on_file_conflict [of "scan_init w0" A p B E st] assms db by (auto simp: scan_init_def)
  then have hard: "sc_hard c'" using on_file_conn by blast
  have v: "visit (\<lambda>p. on_file E (scan_tags E p)) (library_files lib) (scan_init w0) = (WALK_STOP, c')"
    using c' assms(3) by simp
  from assms(3,4) obtain rt ns where "lb_real lib = Some rt" "lb_isdir lib" "lb_fts lib = Some ns"
    by (auto simp: library_files_def split: option.splits)
  from walker_visit [OF this, of "on_file E" "scan_tags E", OF v] hard b
  have "\<exists>c. scan_run E dir lib w = (-1, c)" by (auto simp: scan_run_def scan_run_internal_def)
  with scan_all_or_nothing [OF assms(2)] show ?thesis unfolding scan_run_def by blast
qed

section \<open>Witnesses\<close>

definition sample_tm :: tm where
  "sample_tm = \<lparr>tm_year = 124, tm_mon = 0, tm_mday = 2, tm_hour = 3, tm_min = 4, tm_sec = 5, tm_usec = 6\<rparr>"

definition scan_sample :: scan_env where
  "scan_sample = \<lparr>se_time = sample_tm, se_lstat = (\<lambda>p. Some (5, 17)), se_audio = (\<lambda>p. sample_audio),
     se_audio2 = (\<lambda>p. sample_audio), se_junk = replicate 64 0, se_bytes = (\<lambda>p. None), se_taglib = (\<lambda>p. TlNull)\<rparr>"

definition sample_library :: library where
  "sample_library = \<lparr>lb_real = Some ''/lib'', lb_isdir = True,
     lb_fts = Some [FtsF ''cover.jpg'', FtsD ''.git'' [FtsF ''x.mp3''], FtsF ''a.MP3'']\<rparr>"

definition sample_track :: "sha \<Rightarrow> path \<Rightarrow> int \<Rightarrow> track" where
  "sample_track h p m = \<lparr>t_sha = h, t_path = p, t_mtime_ns = m, t_size = 17, t_format = Some ''mp3'', t_title = None,
     t_artist = None, t_album = None, t_album_artist = None, t_track_number = None, t_disc_number = None,
     t_year = None, t_genre = None, t_duration_ms = None, t_tags_status = ''incomplete'', t_tag_warning = None,
     t_date_added = ''2023'', t_last_seen = ''2023''\<rparr>"

definition scan_world :: "track list \<Rightarrow> world" where
  "scan_world ts = \<lparr>w_db = empty_db\<lparr>tracks := ts\<rparr>,
     w_fs = \<lparr>fs_nodes = [], fs_data = [], fs_next = 0, fs_faults = []\<rparr>, w_sql = [], w_txn = None\<rparr>"

lemma sample_now: "''2023'' < se_now scan_sample" "iso_now_buf sample_tm = ''2024-01-02T03:04:05.000006Z''"
proof -
  show iso: "iso_now_buf sample_tm = ''2024-01-02T03:04:05.000006Z''" by code_simp
  show "''2023'' < se_now scan_sample" by (simp add: se_now_def scan_sample_def iso)
qed

lemma sample_files: "library_files sample_library = [''/lib/a.MP3'']" "\<not> is_transcode_artifact ''/lib/a.MP3''"
    "under ''/lib'' ''/lib/a.MP3''"
  by code_simp+

lemma sample_hash: obtains h where "hash_with_retry scan_sample ''/lib/a.MP3'' = Inr h"
proof -
  from sample_hashes obtain h where h: "hash_audio_payload (replicate 64 0) (Some ''a.MP3'') sample_audio = Inr h" by blast
  have "has_ext_mp3 ''/lib/a.MP3''" "has_ext_mp3 ''a.MP3''" by code_simp+
  then have "hash_audio_payload (replicate 64 0) (Some ''/lib/a.MP3'') sample_audio =
      hash_audio_payload (replicate 64 0) (Some ''a.MP3'') sample_audio"
    by (simp add: hash_audio_payload_def)
  with h that show thesis by (simp add: hash_with_retry_def scan_sample_def)
qed

text \<open>A row of the file as it is, and the scan that finds it unchanged.\<close>

lemma sample_scan:
  assumes h: "hash_with_retry scan_sample ''/lib/a.MP3'' = Inr h"
  defines "w \<equiv> scan_world [sample_track h ''/lib/a.MP3'' 5]"
  shows "db_ok (w_db w)" "honest scan_sample (w_db w)" "\<forall>t \<in> set (tracks (w_db w)). t_last_seen t < se_now scan_sample"
    "\<exists>c. scan_run scan_sample ''/lib'' sample_library w = (0, c)"
    "indexable scan_sample (bl_sha ` set (track_blacklist (w_db w))) ''/lib/a.MP3'' h"
proof -
  show ok: "db_ok (w_db w)" by (simp add: w_def scan_world_def db_ok_def empty_db_def)
  show "honest scan_sample (w_db w)" using h by (simp add: w_def scan_world_def honest_def sample_track_def)
  show "\<forall>t \<in> set (tracks (w_db w)). t_last_seen t < se_now scan_sample"
    using sample_now(1) by (simp add: w_def scan_world_def sample_track_def)
  show "indexable scan_sample (bl_sha ` set (track_blacklist (w_db w))) ''/lib/a.MP3'' h"
    using h sample_files(2) by (simp add: indexable_def w_def scan_world_def empty_db_def scan_sample_def)
  have "settled scan_sample (w_db w) ''/lib/a.MP3''"
    using sample_files(2) by (simp add: settled_def w_def scan_world_def sample_track_def scan_sample_def)
  then have "\<exists>c. scan_run scan_sample ''/lib'' sample_library w = (0, c) \<and> sc_added c = 0 \<and> sc_updated c = 0 \<and>
      sc_removed c = 0 \<and> sc_seen c = length (library_files sample_library) \<and>
      sc_skipped c = length (library_files sample_library) \<and> w_txn (sc_w c) = None \<and>
      w_db (sc_w c) = put_scan_meta ''/lib'' (se_now scan_sample) c
        (touch (se_now scan_sample) (set (library_files sample_library)) (w_db w))"
    by (intro scan_settled [where rt = "''/lib''" and ns = "the (lb_fts sample_library)"])
      (simp_all add: ok sample_files, simp_all add: w_def scan_world_def sample_track_def sample_library_def)
  then show "\<exists>c. scan_run scan_sample ''/lib'' sample_library w = (0, c)" by blast
qed

lemma scan_reconciles_witness:
  "\<exists>h c. scan_run scan_sample ''/lib'' sample_library (scan_world [sample_track h ''/lib/a.MP3'' 5]) = (0, c) \<and>
     h \<in> track_shas (w_db (sc_w c))"
proof -
  obtain h where h: "hash_with_retry scan_sample ''/lib/a.MP3'' = Inr h" by (rule sample_hash)
  note S = sample_scan [OF h]
  from S(4) obtain c where c: "scan_run scan_sample ''/lib'' sample_library (scan_world [sample_track h ''/lib/a.MP3'' 5]) = (0, c)"
    by blast
  from scan_reconciles [OF S(1-3) c] S(5) sample_files(1) have "h \<in> track_shas (w_db (sc_w c))" by simp
  with c show ?thesis by blast
qed

lemma scan_again_is_noop_witness:
  "\<exists>h c c2. scan_run scan_sample ''/lib'' sample_library (scan_world [sample_track h ''/lib/a.MP3'' 5]) = (0, c) \<and>
     scan_run (scan_sample\<lparr>se_time := sample_tm\<lparr>tm_sec := 9\<rparr>\<rparr>) ''/lib'' sample_library
       ((sc_w c)\<lparr>w_txn := None, w_sql := []\<rparr>) = (0, c2) \<and> sc_skipped c2 = 1"
proof -
  obtain h where h: "hash_with_retry scan_sample ''/lib/a.MP3'' = Inr h" by (rule sample_hash)
  note S = sample_scan [OF h]
  from S(4) obtain c where c: "scan_run scan_sample ''/lib'' sample_library (scan_world [sample_track h ''/lib/a.MP3'' 5]) = (0, c)"
    by blast
  have "\<exists>c2. scan_run (scan_sample\<lparr>se_time := sample_tm\<lparr>tm_sec := 9\<rparr>\<rparr>) ''/lib'' sample_library
       ((sc_w c)\<lparr>w_txn := None, w_sql := []\<rparr>) = (0, c2) \<and> sc_skipped c2 = 1"
    using scan_again_is_noop [OF S(1-3) c, of "(sc_w c)\<lparr>w_txn := None, w_sql := []\<rparr>" "sample_tm\<lparr>tm_sec := 9\<rparr>"] S(5)
    by (simp add: sample_files) blast
  with c show ?thesis by blast
qed

lemma scan_all_or_nothing_witness:
  "\<exists>c. scan_run_internal scan_sample ''/lib'' (sample_library\<lparr>lb_fts := None\<rparr>) (Some ''/lib'') True (scan_world []) = (-1, c) \<and>
     durable (sc_w c) = w_db (scan_world [])"
proof -
  obtain c where "scan_run_internal scan_sample ''/lib'' (sample_library\<lparr>lb_fts := None\<rparr>) (Some ''/lib'') True (scan_world []) = (-1, c)"
    by (simp add: scan_run_internal_def db_begin_def sql_write_quiet scan_world_def walker_walk_def sample_library_def)
  with scan_all_or_nothing [OF _ this] show ?thesis by (simp add: scan_world_def)
qed

lemma scan_swapped_files_fail_witness:
  "\<exists>h c. scan_run scan_sample ''/lib'' sample_library
      (scan_world [sample_track (CHR ''x'' # h) ''/lib/a.MP3'' 3, sample_track h ''/lib/b.mp3'' 4]) = (-1, c)"
proof -
  obtain h where h: "hash_with_retry scan_sample ''/lib/a.MP3'' = Inr h" by (rule sample_hash)
  let ?A = "sample_track (CHR ''x'' # h) ''/lib/a.MP3'' 3" and ?B = "sample_track h ''/lib/b.mp3'' 4"
  have "db_ok (w_db (scan_world [?A, ?B]))" "w_txn (scan_world [?A, ?B]) = None"
    by (simp_all add: scan_world_def db_ok_def empty_db_def sample_track_def)
  from scan_swapped_files_fail [OF this sample_files(1), of ?A ?B scan_sample "(5, 17)" "''/lib''"] h sample_files(2)
  have "\<exists>c. scan_run scan_sample ''/lib'' sample_library (scan_world [?A, ?B]) = (-1, c)"
    by (simp add: scan_world_def sample_track_def scan_sample_def sample_library_def is_blacklisted_def empty_db_def) blast
  then show ?thesis by blast
qed

end
