(* ===== verification/WatchProps.thy ===== *)
theory WatchProps
  imports Watch ScanProps
begin

text \<open>
  What makes the watcher correct: the debounce queue refines a map of deadlines, the recursive
  registration covers the tree, and a quiet period scans everything that was queued; and what a busy
  writer lock loses.
\<close>

section \<open>The queue\<close>

primrec dq_op_run :: "dq_op \<Rightarrow> debounce_queue \<Rightarrow> debounce_queue \<times> path list" where
  "dq_op_run (Push d t) q = (dq_push q d t, [])"
| "dq_op_run (Drain t) q = dq_drained q t"

primrec dq_run :: "dq_op list \<Rightarrow> debounce_queue \<Rightarrow> debounce_queue \<times> path list list" where
  "dq_run [] q = (q, [])"
| "dq_run (x # xs) q = (case dq_op_run x q of (q, ds) \<Rightarrow> (case dq_run xs q of (q, dss) \<Rightarrow> (q, ds # dss)))"

primrec deadline_spec :: "int \<Rightarrow> dq_op list \<Rightarrow> (path \<rightharpoonup> int) \<Rightarrow> (path \<rightharpoonup> int) \<times> path set list" where
  "deadline_spec ms [] M = (M, [])"
| "deadline_spec ms (x # xs) M = (case deadline_spec ms xs (deadline_op ms x M) of (M', Ds) \<Rightarrow> (M', due_op x M # Ds))"

lemma dq_run: "dq.run xs q = dq_run xs q"
proof (induction xs arbitrary: q)
  case (Cons x xs)
  have "dq.op x q = dq_op_run x q" by (cases x) simp_all
  with Cons show ?case by (simp split: prod.split)
qed simp

lemma deadline_spec: "dq.spec ms xs M = deadline_spec ms xs M"
  by (induction xs arbitrary: M) simp_all

text \<open>C32: the debounce queue refines a map from directories to deadlines. From the empty queue, any
  sequence of pushes and drains leaves exactly the directories whose last event is not yet
  \<open>debounce_ms\<close> old at the last drain after it, with that deadline; and every drain hands out each due directory
  once and no other directory, although the compaction moves the entries inside the array.\<close>

theorem dq_refines_deadlines:
  "case dq_run xs (dq_init ms) of (q, dss) \<Rightarrow>
     (dq_abs q, map set dss) = deadline_spec ms xs Map.empty \<and> list_all distinct dss"
proof -
  obtain q dss where r: "dq_run xs (dq_init ms) = (q, dss)" by fastforce
  moreover have "dq_ok (dq_init ms)" "dq_abs (dq_init ms) = Map.empty" "dq_debounce_ms (dq_init ms) = ms"
    by (simp_all add: dq_ok_def dq_init_def dq_abs_def)
  ultimately show ?thesis
    using dq.run_spec [of "dq_init ms" xs q dss] by (simp add: dq_run deadline_spec list_all_iff)
qed

section \<open>Registration\<close>

text \<open>The registrations a walk makes, and whether the walk meets an answer that makes it give up.\<close>

fun tree_watches :: "path \<Rightarrow> wdir \<Rightarrow> (int \<times> path) list" and entry_watches :: "path \<Rightarrow> wentry list \<Rightarrow> (int \<times> path) list" where
  "tree_watches dir (WDir op wd es) = (case (op, wd) of
     (None, Inr k) \<Rightarrow> (k, dir) # entry_watches dir es | _ \<Rightarrow> [])"
| "entry_watches dir [] = []"
| "entry_watches dir (Plain name # es) = entry_watches dir es"
| "entry_watches dir (Sub name d # es) =
     (if skipped_child dir name then [] else tree_watches (dir @ [slash] @ name) d) @ entry_watches dir es"

fun tree_clean :: "path \<Rightarrow> wdir \<Rightarrow> bool" and entries_clean :: "path \<Rightarrow> wentry list \<Rightarrow> bool" where
  "tree_clean dir (WDir op wd es) = (case op of
     Some e \<Rightarrow> e = EACCES \<or> e = ENOENT
   | None \<Rightarrow> (case wd of Inl e \<Rightarrow> False | Inr k \<Rightarrow> 0 \<le> k \<and> entries_clean dir es))"
| "entries_clean dir [] = True"
| "entries_clean dir (Plain name # es) = entries_clean dir es"
| "entries_clean dir (Sub name d # es) =
     ((skipped_child dir name \<or> tree_clean (dir @ [slash] @ name) d) \<and> entries_clean dir es)"

primrec map_all :: "(int \<times> path) list \<Rightarrow> (int \<rightharpoonup> path) \<Rightarrow> (int \<rightharpoonup> path)" where
  "map_all [] M = M"
| "map_all (x # xs) M = map_all xs (M(fst x \<mapsto> snd x))"

lemma map_all_append: "map_all (xs @ ys) M = map_all ys (map_all xs M)"
  by (induction xs arbitrary: M) auto

lemma map_all_distinct: "distinct (map fst xs) \<Longrightarrow> map_all xs M k = (case map_of xs k of None \<Rightarrow> M k | Some p \<Rightarrow> Some p)"
proof (induction xs arbitrary: M)
  case (Cons x xs)
  then have "map_of xs (fst x) = None" by (auto simp: map_of_eq_None_iff)
  with Cons show ?case by (cases x) (auto split: option.split)
qed simp

lemma add_watches_spec:
  "wdm_ok m \<Longrightarrow> tree_clean dir d \<Longrightarrow> \<exists>m'. add_watches_recursive dir d (m, en) = (int (length (tree_watches dir d)), m', en) \<and>
     wdm_ok m' \<and> wdm_abs m' = map_all (tree_watches dir d) (wdm_abs m)"
  "wdm_ok m \<Longrightarrow> entries_clean dir es \<Longrightarrow> 0 \<le> n \<Longrightarrow>
     \<exists>m'. add_entries dir es n (m, en) = (n + int (length (entry_watches dir es)), m', en) \<and>
     wdm_ok m' \<and> wdm_abs m' = map_all (entry_watches dir es) (wdm_abs m)"
proof (induction dir d and dir es arbitrary: m en and m en n rule: tree_clean_entries_clean.induct)
  case (1 dir op wd es)
  show ?case
  proof (cases op)
    case (Some e)
    with 1(3) 1(2) show ?thesis by auto
  next
    case None
    with 1(3) obtain k where k: "wd = Inr k" "0 \<le> k" "entries_clean dir es" by (auto split: sum.splits)
    from wd.put [OF 1(2) k(2)] obtain m1 where
      m1: "wdm_set m k dir = Some m1" "wdm_ok m1" "wdm_abs m1 = (wdm_abs m)(k \<mapsto> dir)" by blast
    from 1(1) [OF None k(1) m1(2) k(3), of 1 en] obtain m2 where
      "add_entries dir es 1 (m1, en) = (1 + int (length (entry_watches dir es)), m2, en)" "wdm_ok m2"
      "wdm_abs m2 = map_all (entry_watches dir es) (wdm_abs m1)" by auto
    with None k(1) m1 show ?thesis by (simp add: add.commute)
  qed
next
  case (2 dir)
  then show ?case by simp
next
  case (3 dir name es)
  then show ?case by simp
next
  case (4 dir name d es)
  show ?case
  proof (cases "skipped_child dir name")
    case True
    with 4(2) [OF 4(3) _ 4(5)] 4(4) show ?thesis by simp
  next
    case False
    with 4(4) have c: "tree_clean (dir @ [slash] @ name) d" "entries_clean dir es" by simp_all
    from 4(1) [OF 4(3) c(1), of en] obtain m1 where m1:
      "add_watches_recursive (dir @ [slash] @ name) d (m, en) = (int (length (tree_watches (dir @ [slash] @ name) d)), m1, en)"
      "wdm_ok m1"
      "wdm_abs m1 = map_all (tree_watches (dir @ [slash] @ name) d) (wdm_abs m)" by blast
    from 4(2) [OF m1(2) c(2), of "n + int (length (tree_watches (dir @ [slash] @ name) d))" en] 4(5) False m1
    show ?thesis by (auto simp: add.assoc map_all_append)
  qed
qed

lemma count_watches:
  "tree_clean dir d \<Longrightarrow> count_dirs dir d = length (tree_watches dir d)"
  "entries_clean dir es \<Longrightarrow> count_entries dir es = length (entry_watches dir es)"
  by (induction dir d and dir es rule: tree_clean_entries_clean.induct)
     (auto split: option.splits sum.splits)

text \<open>The watcher covers the library. Where the kernel grants every watch (a directory that cannot be
  opened for its permissions or that vanished is left out) with a descriptor of its own, the set-up registers as many
  watches as \<open>count_dirs\<close> counted and does not fall back to periodic scans; afterwards every descriptor maps to the
  path of its directory and no other descriptor maps to anything.\<close>

theorem watches_cover_library:
  assumes "tree_clean lib d" "distinct (map fst (tree_watches lib d))"
  shows "\<exists>m. add_watches_recursive lib d (wdm_init, False) = (int (count_dirs lib d), m, False) \<and>
    (\<forall>k. wdm_get m k = map_of (tree_watches lib d) k)"
proof -
  have e: "wdm_abs wdm_init = Map.empty" using wd.new(2) by (simp add: fun_eq_iff)
  from add_watches_spec(1) [OF wd.new(1) assms(1), of False] obtain m where
    m: "add_watches_recursive lib d (wdm_init, False) = (int (length (tree_watches lib d)), m, False)" "wdm_ok m"
    "wdm_abs m = map_all (tree_watches lib d) Map.empty" unfolding e by blast
  have "wdm_get m k = map_of (tree_watches lib d) k" for k
    using wd.get [OF m(2), of k] map_all_distinct [OF assms(2), of Map.empty k] m(3) by (simp split: option.splits)
  with m(1) count_watches(1) [OF assms(1)] show ?thesis by auto
qed

text \<open>A library with a hidden and an unreadable directory.\<close>

definition ex_tree :: wdir where
  "ex_tree = WDir None (Inr 1) [Plain ''a.flac'', Sub ''x'' (WDir None (Inr 2) []), Sub ''.git'' (WDir None (Inr 3) []),
     Sub ''y'' (WDir (Some EACCES) (Inr 4) [])]"

lemma watches_cover_library_witness:
  "\<exists>m. add_watches_recursive ''/l'' ex_tree (wdm_init, False) = (2, m, False) \<and> wdm_get m 2 = Some ''/l/x'' \<and>
    wdm_get m 3 = None"
  using watches_cover_library [of "''/l''" ex_tree] by (auto simp: ex_tree_def skipped_child_def)

section \<open>Waiting\<close>

lemma foldl_min:
  "foldl (\<lambda>m e. if dq_deadline e < m then dq_deadline e else m) a es \<le> a \<and>
   (\<forall>e \<in> set es. foldl (\<lambda>m e. if dq_deadline e < m then dq_deadline e else m) a es \<le> dq_deadline e) \<and>
   foldl (\<lambda>m e. if dq_deadline e < m then dq_deadline e else m) a es \<in> insert a (dq_deadline ` set es)"
proof (induction es arbitrary: a)
  case (Cons e es)
  from Cons [of "if dq_deadline e < a then dq_deadline e else a"] show ?case by (auto split: if_splits)
qed simp

lemma next_deadline_in:
  assumes "dq_items q \<noteq> []" "\<forall>e \<in> set (dq_items q). dq_deadline e < LLONG_MAX"
  shows "\<exists>e \<in> set (dq_items q). dq_deadline e = dq_next_deadline_ms q"
proof -
  from assms(1) obtain e where "e \<in> set (dq_items q)" by (cases "dq_items q") auto
  with assms(2) foldl_min [of LLONG_MAX "dq_items q"] show ?thesis
    unfolding dq_next_deadline_ms_def by (metis (no_types, lifting) imageE insertE linorder_not_less)
qed

lemma sint_of_small: "0 \<le> n \<Longrightarrow> n < 2 ^ 31 \<Longrightarrow> sint (of_int n :: 32 word) = n"
  by (simp add: sint_uint uint_word_of_int take_bit_int_eq_self signed_take_bit_int_eq_self)

text \<open>
  \<open>epoll_wait\<close> came back because its timeout ran out: nothing is ready and at least \<open>timeout_ms\<close> have passed. The
  deadlines are less than \<open>INT_MAX\<close> milliseconds away.
\<close>

definition timed_out :: "wake \<Rightarrow> watch_state \<Rightarrow> bool" where
  "timed_out k st \<longleftrightarrow> wk_events k = [] \<and> 0 \<le> epoll_timeout (wt_dq st) (wk_now k) \<and>
     wk_drain_at k \<ge> wk_now k + epoll_timeout (wt_dq st) (wk_now k) \<and>
     list_all (\<lambda>e. dq_deadline e < LLONG_MAX \<and> dq_deadline e - wk_now k < 2 ^ 31) (dq_items (wt_dq st))"

lemma timed_out_due:
  assumes "timed_out k st"
  shows "\<exists>e \<in> set (dq_items (wt_dq st)). due (wk_drain_at k) e"
proof -
  let ?q = "wt_dq st" and ?next = "dq_next_deadline_ms (wt_dq st)"
  have ne: "dq_items ?q \<noteq> []"
    using assms by (auto simp: timed_out_def epoll_timeout_def dq_next_deadline_ms_def Let_def)
  have small: "\<forall>e \<in> set (dq_items ?q). dq_deadline e < LLONG_MAX \<and> dq_deadline e - wk_now k < 2 ^ 31"
    using assms by (simp add: timed_out_def list_all_iff)
  then obtain e where e: "e \<in> set (dq_items ?q)" "dq_deadline e = ?next"
    using next_deadline_in [OF ne] by blast
  with small have "?next \<noteq> LLONG_MAX" "?next - wk_now k < 2 ^ 31" by auto
  then have "epoll_timeout ?q (wk_now k) = (if ?next - wk_now k > 0 then ?next - wk_now k else 0)"
    using sint_of_small [of "?next - wk_now k"] by (simp add: epoll_timeout_def)
  with assms e show ?thesis by (intro bexI [of _ e]) (auto simp: timed_out_def split: if_splits)
qed

text \<open>What draining does to the rest of the state.\<close>

definition lock_free :: "wake \<Rightarrow> watch_state \<Rightarrow> bool" where
  "lock_free k st \<longleftrightarrow> \<not> wt_pidfile st \<or> wk_busy k = (\<lambda>d. False)"

lemma on_drain_frame:
  "wt_root (on_drain k d st) = wt_root st \<and> wt_wdm (on_drain k d st) = wt_wdm st \<and> wt_dq (on_drain k d st) = wt_dq st \<and>
   wt_periodic (on_drain k d st) = wt_periodic st \<and> wt_pidfile (on_drain k d st) = wt_pidfile st \<and>
   wt_scanned (on_drain k d st) = wt_scanned st @ (if writer_lock_free k d st then [d] else [])"
  by (simp add: on_drain_def split: prod.split)

lemma drains_frame:
  "wt_pidfile (fold (on_drain k) ds st) = wt_pidfile st \<and> wt_dq (fold (on_drain k) ds st) = wt_dq st \<and>
   wt_root (fold (on_drain k) ds st) = wt_root st \<and> wt_wdm (fold (on_drain k) ds st) = wt_wdm st \<and>
   wt_periodic (fold (on_drain k) ds st) = wt_periodic st \<and>
   wt_scanned (fold (on_drain k) ds st) = wt_scanned st @ filter (\<lambda>d. writer_lock_free k d st) ds"
proof (induction ds arbitrary: st)
  case (Cons d ds)
  have "writer_lock_free k e (on_drain k d st) = writer_lock_free k e st" for e
    using on_drain_frame [of k d st] by (simp add: writer_lock_free_def)
  with Cons [of "on_drain k d st"] on_drain_frame [of k d st] show ?case by simp
qed simp

lemma drain_queue:
  "wt_pidfile (drain_queue k st) = wt_pidfile st \<and>
   dq_items (wt_dq (drain_queue k st)) = filter (\<lambda>e. \<not> due (wk_drain_at k) e) (dq_items (wt_dq st)) \<and>
   wt_scanned (drain_queue k st) = wt_scanned st @
     filter (\<lambda>d. writer_lock_free k d st) (map dq_dir (filter (due (wk_drain_at k)) (dq_items (wt_dq st))))"
  by (simp add: drain_queue_def drain_spec drains_frame)

section \<open>A quiet period\<close>

fun quiet :: "wake list \<Rightarrow> watch_state \<Rightarrow> bool" where
  "quiet [] st = True"
| "quiet (k # ks) st = (timed_out k st \<and> lock_free k st \<and> quiet ks (drain_queue k st))"

abbreviation queued :: "watch_state \<Rightarrow> path list" where
  "queued st \<equiv> map dq_dir (dq_items (wt_dq st))"

text \<open>C31: what is queued gets scanned. When no further events arrive and the writer lock is free, every return
  of \<open>epoll_wait\<close> by timeout scans at least one queued directory, so that after at most as many
  timeouts as there are queued directories the queue is empty; every directory taken off the queue has been
  scanned exactly once, the others are still queued, and the loop goes on.\<close>

theorem quiet_watch_scans_all:
  assumes "quiet ks st"
  shows "\<exists>st'. watch_loop (map Woke ks) st = (None, st') \<and>
    length (queued st') + length ks \<le> length (queued st) \<and>
    mset (wt_scanned st') + mset (queued st') = mset (wt_scanned st) + mset (queued st)"
  using assms
proof (induction ks arbitrary: st)
  case (Cons k ks)
  from Cons.prems have t: "timed_out k st" and free: "lock_free k st" and q: "quiet ks (drain_queue k st)" by simp_all
  from t have "watch_iter (Woke k) st = (None, drain_queue k st)" by (simp add: watch_iter_def timed_out_def)
  moreover from free have "filter (\<lambda>d. writer_lock_free k d st) ds = ds" for ds
    by (auto simp: lock_free_def writer_lock_free_def)
  then have d: "wt_scanned (drain_queue k st) = wt_scanned st @ map dq_dir (filter (due (wk_drain_at k)) (dq_items (wt_dq st)))"
    "dq_items (wt_dq (drain_queue k st)) = filter (\<lambda>e. \<not> due (wk_drain_at k) e) (dq_items (wt_dq st))"
    by (simp_all add: drain_queue)
  have "length (filter (\<lambda>e. \<not> due (wk_drain_at k) e) (dq_items (wt_dq st))) < length (dq_items (wt_dq st))"
    using timed_out_due [OF t] by (auto intro: length_filter_less)
  moreover have "mset (filter (due (wk_drain_at k)) xs) + mset (filter (\<lambda>e. \<not> due (wk_drain_at k) e) xs) = mset xs" for xs
    by (simp flip: multiset_partition)
  then have "mset (map f (filter (due (wk_drain_at k)) xs)) + mset (map f (filter (\<lambda>e. \<not> due (wk_drain_at k) e) xs)) = mset (map f xs)"
    for f :: "dq_entry \<Rightarrow> path" and xs
    by (metis image_mset_union mset_map)
  ultimately show ?case using Cons.IH [OF q] d by (auto simp: add.assoc)
qed simp

definition ex_watch :: "bool \<Rightarrow> watch_state" where
  "ex_watch pid = \<lparr>wt_root = ''/l'', wt_wdm = wdm_init, wt_dq = \<lparr>dq_items = [\<lparr>dq_dir = ''/l/a'', dq_deadline = 5\<rparr>,
     \<lparr>dq_dir = ''/l/b'', dq_deadline = 1000\<rparr>], dq_debounce_ms = 5\<rparr>, wt_periodic = False, wt_pidfile = pid,
     wt_w = \<lparr>w_db = empty_db, w_fs = \<lparr>fs_nodes = [], fs_data = [], fs_next = 0, fs_faults = []\<rparr>, w_sql = [], w_txn = None\<rparr>,
     wt_scanned = []\<rparr>"

definition ex_wake :: "int \<Rightarrow> bool \<Rightarrow> wake" where
  "ex_wake t busy = \<lparr>wk_events = [], wk_now = 0, wk_drain_at = t, wk_env = scan_sample, wk_lib = (\<lambda>d. sample_library),
     wk_busy = (\<lambda>d. busy)\<rparr>"

lemma quiet_watch_scans_all_witness:
  "\<exists>st. watch_loop (map Woke [ex_wake 5 False, ex_wake 1000 False]) (ex_watch True) = (None, st) \<and> queued st = [] \<and>
    mset (wt_scanned st) = {#''/l/a'', ''/l/b''#}"
proof -
  let ?st = "drain_queue (ex_wake 5 False) (ex_watch True)"
  have "dq_items (wt_dq ?st) = [\<lparr>dq_dir = ''/l/b'', dq_deadline = 1000\<rparr>]" "wt_pidfile ?st"
    by (simp_all add: drain_queue) (simp_all add: ex_watch_def ex_wake_def)
  moreover have "sint (5 :: 32 word) = 5" "sint (1000 :: 32 word) = 1000" by simp_all
  ultimately have "quiet [ex_wake 5 False, ex_wake 1000 False] (ex_watch True)"
    by (simp add: timed_out_def epoll_timeout_def dq_next_deadline_ms_def LLONG_MAX_def lock_free_def)
       (simp add: ex_watch_def ex_wake_def)
  from quiet_watch_scans_all [OF this] show ?thesis by (auto simp: ex_watch_def)
qed

section \<open>A busy writer lock\<close>

text \<open>A busy writer lock loses events. When the deadline of the queued directories comes while another
  process holds the writer lock, the directories leave the queue although none is scanned; nothing
  else changes, so that no later wake-up scans them unless a new event queues them again (the periodic scan
  the code counts on runs only in the fallback mode).\<close>

theorem busy_drain_forgets:
  assumes "wt_pidfile st" "\<forall>d. wk_busy k d" "wk_events k = []"
  shows "watch_iter (Woke k) st = (None, st\<lparr>wt_dq := (wt_dq st)\<lparr>dq_items :=
    filter (\<lambda>e. \<not> due (wk_drain_at k) e) (dq_items (wt_dq st))\<rparr>\<rparr>)"
proof -
  from assms(1,2) have "on_drain k d st = st" for d by (simp add: on_drain_def writer_lock_free_def)
  then have "fold (on_drain k) ds st = st" for ds by (induction ds) simp_all
  with assms(3) show ?thesis by (simp add: watch_iter_def drain_queue_def drain_spec)
qed

lemma busy_drain_forgets_witness:
  "watch_iter (Woke (ex_wake 5 True)) (ex_watch True) = (None, (ex_watch True)\<lparr>wt_dq :=
    \<lparr>dq_items = [\<lparr>dq_dir = ''/l/b'', dq_deadline = 1000\<rparr>], dq_debounce_ms = 5\<rparr>\<rparr>)"
  using busy_drain_forgets [of "ex_watch True" "ex_wake 5 True"] by (simp add: ex_watch_def ex_wake_def)

section \<open>Single events\<close>

text \<open>An event of a watched directory other than the removal of its watch queues the directory.\<close>

lemma event_queues:
  assumes "wdm_get (wt_wdm st) (iv_wd e) = Some dir" "iv_mask e AND IN_IGNORED = 0"
    and "iv_mask e AND (IN_DELETE_SELF OR IN_MOVE_SELF) = 0 \<or> dir \<noteq> wt_root st"
  shows "fst (handle_event e st) = False \<and>
    dq_abs (wt_dq (snd (handle_event e st))) dir = Some (iv_now e + dq_debounce_ms (wt_dq st))"
proof -
  have "wt_dq (watch_new_dir dir e st) = wt_dq st" by (simp add: watch_new_dir_def split: prod.split)
  with assms show ?thesis by (auto simp: handle_event_def Let_def push_abs)
qed

text \<open>The deletion or the move of the library root ends the loop with an error.\<close>

lemma root_gone_aborts:
  assumes "wdm_get (wt_wdm st) (iv_wd e) = Some (wt_root st)" "iv_mask e AND (IN_DELETE_SELF OR IN_MOVE_SELF) \<noteq> 0"
    and "wk_events k = [Inotify [e # es]]"
  shows "fst (watch_iter (Woke k) st) = Some (-1)"
  using assms by (simp add: watch_iter_def handle_fd_def handle_event_def)

text \<open>
  A directory moved into the library is queued with its parent but gets no watch: only \<open>IN_CREATE\<close> registers.
\<close>

lemma moved_in_not_watched:
  assumes "iv_mask e = IN_MOVED_TO OR IN_ISDIR"
  shows "wt_wdm (snd (handle_event e st)) = wt_wdm st"
proof -
  have "iv_mask e AND IN_CREATE = 0" "iv_mask e AND IN_IGNORED = 0"
    by (simp_all add: assms IN_MOVED_TO_def IN_ISDIR_def IN_CREATE_def IN_IGNORED_def)
  then show ?thesis by (simp add: handle_event_def watch_new_dir_def Let_def split: option.split)
qed

end
