(* ===== verification/Migrate.thy ===== *)
theory Migrate
  imports RotateSafe
begin

text \<open>
  The one-time migration of a flat library into \<open>archive/\<close> (\<open>migrate.c\<close>). The copy across file systems and
  \<open>mkparents\<close> are the same code as in \<open>rotate.c\<close>, so they are its definitions. The rows are read before the first
  update: the cursor runs by hash and an update changes the path of a row already read. \<open>root\<close> is the
  answer of \<open>realpath\<close> for the library, \<open>None\<close> where it fails; the warning about remote file systems is output only.
\<close>

record migrate_state =
  mg_w :: world
  mg_planned :: int
  mg_moved :: int
  mg_already :: int
  mg_outside :: int
  mg_fallback :: int
  mg_errors :: int

definition migrate_init :: "world \<Rightarrow> migrate_state" where
  "migrate_init w = \<lparr>mg_w = w, mg_planned = 0, mg_moved = 0, mg_already = 0, mg_outside = 0, mg_fallback = 0,
     mg_errors = 0\<rparr>"

abbreviation mg_fs :: "migrate_state \<Rightarrow> fs" where "mg_fs s \<equiv> w_fs (mg_w s)"

definition mg_set_fs :: "fs \<Rightarrow> migrate_state \<Rightarrow> migrate_state" where
  "mg_set_fs f s = s\<lparr>mg_w := (mg_w s)\<lparr>w_fs := f\<rparr>\<rparr>"

definition mg_error :: "migrate_state \<Rightarrow> migrate_state" where
  "mg_error s = s\<lparr>mg_errors := mg_errors s + 1\<rparr>"

definition mg_bump_moved :: "migrate_state \<Rightarrow> migrate_state" where
  "mg_bump_moved s = s\<lparr>mg_moved := mg_moved s + 1\<rparr>"

definition compute_archive_path :: "path \<Rightarrow> path \<Rightarrow> path" where
  "compute_archive_path lib cur = lib @ ''/archive/'' @ drop (length lib + 1) cur"

datatype path_kind = Outside | Archived | InResident | Flat

definition classify_path :: "path \<Rightarrow> path \<Rightarrow> path_kind" where
  "classify_path lib cur = (case strip_prefix (lib @ [slash]) cur of
     None \<Rightarrow> Outside
   | Some rel \<Rightarrow> if strip_prefix ''archive/'' rel \<noteq> None then Archived
       else if strip_prefix ''resident/'' rel \<noteq> None then InResident else Flat)"

text \<open>The end of an iteration: the row follows the file.\<close>

definition migrate_record :: "sha \<Rightarrow> path \<Rightarrow> string \<Rightarrow> migrate_state \<Rightarrow> migrate_state" where
  "migrate_record h new_path now s = (case track_repo_update_path h new_path now (mg_w s) of
     (rc, w) \<Rightarrow> let s = s\<lparr>mg_w := w\<rparr> in if rc \<noteq> 0 then mg_error s else s)"

definition migrate_unlink :: "path \<Rightarrow> migrate_state \<Rightarrow> migrate_state" where
  "migrate_unlink cur s = (case sys_unlink cur (mg_fs s) of
     (None, f) \<Rightarrow> mg_bump_moved (mg_set_fs f s)
   | (Some e, f) \<Rightarrow> (let s = mg_set_fs f s; s = (if e \<noteq> ENOENT then mg_error s else s) in mg_bump_moved s))"

definition migrate_apply :: "path \<Rightarrow> string \<Rightarrow> sha \<Rightarrow> path \<Rightarrow> migrate_state \<Rightarrow> migrate_state" where
  "migrate_apply lib now h cur s =
     (let new_path = compute_archive_path lib cur in
      case mkparents new_path (mg_fs s) of
        (Some e, f) \<Rightarrow> mg_error (mg_set_fs f s)
      | (None, f) \<Rightarrow> (case sys_link cur new_path f of
          (None, f) \<Rightarrow> migrate_record h new_path now (migrate_unlink cur (mg_set_fs f s))
        | (Some e, f) \<Rightarrow>
            if e = EEXIST then
              (if same_inode f cur new_path
               then migrate_record h new_path now (migrate_unlink cur (mg_set_fs f s))
               else mg_error (mg_set_fs f s))
            else if e = EXDEV then
              (case copy_and_unlink cur new_path f of
                 (False, f) \<Rightarrow> mg_error (mg_set_fs f s)
               | (True, f) \<Rightarrow> (let s = mg_set_fs f s; s = mg_bump_moved (s\<lparr>mg_fallback := mg_fallback s + 1\<rparr>)
                   in migrate_record h new_path now s))
            else mg_error (mg_set_fs f s)))"

definition migrate_one :: "path \<Rightarrow> string \<Rightarrow> bool \<Rightarrow> sha \<times> path \<Rightarrow> migrate_state \<Rightarrow> migrate_state" where
  "migrate_one lib now ap = (\<lambda>(h, cur) s. case classify_path lib cur of
     Outside \<Rightarrow> s\<lparr>mg_outside := mg_outside s + 1\<rparr>
   | Flat \<Rightarrow> (let s = s\<lparr>mg_planned := mg_planned s + 1\<rparr> in if ap then migrate_apply lib now h cur s else s)
   | _ \<Rightarrow> s\<lparr>mg_already := mg_already s + 1\<rparr>)"

definition migrate_rows :: "db \<Rightarrow> (sha \<times> path) list" where
  "migrate_rows d = sort_key fst (map (\<lambda>t. (t_sha t, t_path t)) (tracks d))"

definition migrate_run :: "path option \<Rightarrow> string \<Rightarrow> bool \<Rightarrow> world \<Rightarrow> int \<times> migrate_state" where
  "migrate_run root_canon now ap w = (case root_canon of
     None \<Rightarrow> (-1, migrate_init w)
   | Some lib \<Rightarrow> if \<not> is_dir (w_fs w) lib then (-1, migrate_init w)
       else (0, fold (migrate_one lib now ap) (migrate_rows (w_db w)) (migrate_init w)))"

section \<open>No audio is lost\<close>

lemma flat_archived: "classify_path lib (compute_archive_path lib cur) = Archived"
proof -
  have "strip_prefix (lib @ [slash]) (compute_archive_path lib cur) = Some (''archive/'' @ drop (length lib + 1) cur)"
    by (simp add: compute_archive_path_def)
  then show ?thesis unfolding classify_path_def by (simp only: option.case) simp
qed

text \<open>The names the bytes of a file may have after a migration.\<close>

definition migrated_to :: "path \<Rightarrow> path \<Rightarrow> path \<Rightarrow> bool" where
  "migrated_to lib p q \<longleftrightarrow> q = p \<or> classify_path lib p = Flat \<and> q = compute_archive_path lib p"

lemma migrated_trans: "migrated_to lib p q \<Longrightarrow> migrated_to lib q r \<Longrightarrow> migrated_to lib p r"
  using flat_archived by (auto simp: migrated_to_def)

definition kept_flat :: "path \<Rightarrow> fs \<Rightarrow> fs \<Rightarrow> bool" where
  "kept_flat lib s s' \<longleftrightarrow> (\<forall>p c. fs_content s p = Some c \<longrightarrow> (\<exists>q. migrated_to lib p q \<and> fs_content s' q = Some c))"

interpretation flat: tree_order "kept_flat lib" "\<lambda>p. False" for lib
proof
  fix s s1 s2
  show "kept_flat lib s s1 \<Longrightarrow> kept_flat lib s1 s2 \<Longrightarrow> kept_flat lib s s2"
    unfolding kept_flat_def using migrated_trans by metis
  show "files_kept s s1 \<Longrightarrow> kept_flat lib s s1"
    unfolding kept_flat_def migrated_to_def using files_kept_content by blast
qed simp

lemma unlink_migrated:
  assumes "sys_unlink p s = (r, s')" "classify_path lib p = Flat"
    and "fs_content s (compute_archive_path lib p) = fs_content s p"
  shows "flat.step lib s s'"
proof -
  have "compute_archive_path lib p \<noteq> p" using assms(2) flat_archived by (metis path_kind.distinct(9))
  with assms unlink_content [OF assms(1)] have "kept_flat lib s s'"
    unfolding kept_flat_def migrated_to_def by metis
  with sys_unlink_other [OF assms(1)] show ?thesis by (simp add: flat.step_def)
qed

lemma copy_migrated:
  assumes c: "copy_and_unlink p (compute_archive_path lib p) s = (ok, s')" and f: "classify_path lib p = Flat"
  shows "flat.step lib s s'"
proof -
  let ?new = "compute_archive_path lib p"
  obtain b s1 where cp: "copy_only p ?new s = (b, s1)" by fastforce
  obtain r s2 where u: "sys_unlink p s1 = (r, s2)" by fastforce
  have 1: "flat.step lib s s1" by (rule flat.step_copy [OF cp])
  have "flat.step lib s1 s2" if "b" "fs_wf s"
  proof (rule unlink_migrated [OF u f])
    from copy_only_files [OF cp that(2)] that(1) have "fs_content s1 ?new = fs_content s p" "fs_content s p \<noteq> None"
      "files_kept s s1" by auto
    then show "fs_content s1 ?new = fs_content s1 p" using files_kept_content by fastforce
  qed
  then have "flat.step lib s s2" if "b"
    using that 1 flat.step_trans unfolding flat.step_def by blast
  with c cp u 1 show ?thesis by (auto simp: copy_and_unlink_def split: bool.splits)
qed

lemma mg_simps [simp]:
  "mg_fs (mg_set_fs f s) = f" "mg_fs (mg_error s) = mg_fs s" "mg_fs (mg_bump_moved s) = mg_fs s"
  "w_db (mg_w (mg_set_fs f s)) = w_db (mg_w s)" "w_db (mg_w (mg_error s)) = w_db (mg_w s)"
  "w_db (mg_w (mg_bump_moved s)) = w_db (mg_w s)" "mg_errors (mg_set_fs f s) = mg_errors s"
  "mg_errors (mg_error s) = mg_errors s + 1" "mg_errors (mg_bump_moved s) = mg_errors s"
  by (simp_all add: mg_set_fs_def mg_error_def mg_bump_moved_def)

lemma record_fs [simp]: "mg_fs (migrate_record h p now s) = mg_fs s"
  by (auto simp: migrate_record_def Let_def split: prod.split dest: update_path_fs)

lemma migrate_unlink_fs: "mg_fs (migrate_unlink cur s) = snd (sys_unlink cur (mg_fs s))"
  by (auto simp: migrate_unlink_def Let_def split: prod.split option.split)

lemma migrate_apply_fs:
  assumes "classify_path lib cur = Flat"
  shows "flat.step lib (mg_fs s) (mg_fs (migrate_apply lib now h cur s))"
proof -
  let ?new = "compute_archive_path lib cur"
  obtain m f1 where m: "mkparents ?new (mg_fs s) = (m, f1)" by fastforce
  obtain l f2 where l: "sys_link cur ?new f1 = (l, f2)" by fastforce
  obtain u f3 where u: "sys_unlink cur f2 = (u, f3)" by fastforce
  obtain c f4 where c: "copy_and_unlink cur ?new f2 = (c, f4)" by fastforce
  have f1: "flat.step lib (mg_fs s) f1" by (rule flat.step_mkparents [OF m])
  have f2: "flat.step lib (mg_fs s) f2" by (rule flat.step_trans [OF f1 flat.step_link [OF l]])
  have f3: "flat.step lib (mg_fs s) f3" if "fs_content f2 ?new = fs_content f2 cur"
    by (rule flat.step_trans [OF f2 unlink_migrated [OF u assms that]])
  have same: "fs_content f2 ?new = fs_content f2 cur" if "l = None"
  proof -
    from sys_link_new l that have "fs_get f2 ?new = fs_get f2 cur" by metis
    then show ?thesis by (simp add: fs_content_def fs_inode_def)
  qed
  have inode: "fs_content f2 ?new = fs_content f2 cur" if "same_inode f2 cur ?new"
    using that by (simp add: same_inode_def fs_content_def)
  have f4: "flat.step lib (mg_fs s) f4" by (rule flat.step_trans [OF f2 copy_migrated [OF c assms]])
  from m l u c f1 f2 f3 f4 same inode show ?thesis
    by (cases m; cases l; cases c) (auto simp: migrate_apply_def Let_def migrate_unlink_fs)
qed

lemma migrate_one_fs: "flat.step lib (mg_fs s) (mg_fs (migrate_one lib now ap x s))"
proof (cases x)
  case (Pair h cur)
  then show ?thesis
    using migrate_apply_fs [of lib cur "s\<lparr>mg_planned := mg_planned s + 1\<rparr>" now h]
    by (auto simp: migrate_one_def Let_def split: path_kind.split)
qed

lemma migrate_fold_fs: "flat.step lib (mg_fs s) (mg_fs (fold (migrate_one lib now ap) xs s))"
proof (induction xs arbitrary: s)
  case (Cons x xs)
  have "flat.step lib (mg_fs s) (mg_fs (migrate_one lib now ap x s))" by (rule migrate_one_fs)
  also have "flat.step lib (mg_fs (migrate_one lib now ap x s)) (mg_fs (fold (migrate_one lib now ap) xs (migrate_one lib now ap x s)))"
    by (rule Cons.IH)
  finally show ?case by simp
qed simp

text \<open>C33: the migration loses no audio. Whatever system calls and statements fail and at whatever point, the
  bytes of every file are afterwards under its name or, for a file directly in the library, under the same
  name below \<open>archive/\<close>.\<close>

theorem migrate_loses_no_audio:
  assumes "fs_wf (w_fs w)" "fs_content (w_fs w) p = Some c"
  shows "\<exists>q. (q = p \<or> classify_path lib p = Flat \<and> q = compute_archive_path lib p) \<and>
    fs_content (mg_fs (snd (migrate_run (Some lib) now ap w))) q = Some c"
proof -
  have "flat.step lib (w_fs w) (mg_fs (snd (migrate_run (Some lib) now ap w)))"
    using migrate_fold_fs [of lib "migrate_init w"] by (simp add: migrate_run_def migrate_init_def)
  with assms show ?thesis by (auto simp: flat.step_def kept_flat_def migrated_to_def)
qed

section \<open>A run without errors settles the library\<close>

lemma migrate_unlink_db: "w_db (mg_w (migrate_unlink cur s)) = w_db (mg_w s)"
  "mg_errors s \<le> mg_errors (migrate_unlink cur s)"
  by (auto simp: migrate_unlink_def Let_def split: prod.split option.split)

lemma migrate_record_db:
  "mg_errors s \<le> mg_errors (migrate_record h p now s) \<and>
   (mg_errors (migrate_record h p now s) = mg_errors s \<longrightarrow>
      update_track h (\<lambda>t. t\<lparr>t_path := p, t_last_seen := now\<rparr>) (w_db (mg_w s)) = Some (w_db (mg_w (migrate_record h p now s))))"
proof -
  obtain b w where e: "sql_exec (update_track h (\<lambda>t. t\<lparr>t_path := p, t_last_seen := now\<rparr>)) (mg_w s) = (b, w)" by fastforce
  then show ?thesis
    by (cases rule: sql_exec_cases)
       (auto simp: migrate_record_def track_repo_update_path_def e Let_def mg_error_def)
qed

definition recorded :: "sha \<Rightarrow> path \<Rightarrow> string \<Rightarrow> migrate_state \<Rightarrow> migrate_state \<Rightarrow> bool" where
  "recorded h p now s s' \<longleftrightarrow> (mg_errors s' \<le> mg_errors s \<longrightarrow> mg_errors s' = mg_errors s \<and>
     update_track h (\<lambda>t. t\<lparr>t_path := p, t_last_seen := now\<rparr>) (w_db (mg_w s)) = Some (w_db (mg_w s')))"

lemma recorded_error [simp]: "recorded h p now s (mg_error (mg_set_fs f s))"
  by (simp add: recorded_def)

lemma recorded_record:
  assumes "mg_errors s \<le> mg_errors s1" "w_db (mg_w s1) = w_db (mg_w s)"
  shows "recorded h p now s (migrate_record h p now s1)"
  using migrate_record_db [of s1 h p now] assms by (fastforce simp: recorded_def)

lemma migrate_apply_db: "recorded h (compute_archive_path lib cur) now s (migrate_apply lib now h cur s)"
proof -
  let ?new = "compute_archive_path lib cur"
  obtain m f1 where m: "mkparents ?new (mg_fs s) = (m, f1)" by fastforce
  obtain l f2 where l: "sys_link cur ?new f1 = (l, f2)" by fastforce
  obtain c f4 where c: "copy_and_unlink cur ?new f2 = (c, f4)" by fastforce
  have u: "recorded h ?new now s (migrate_record h ?new now (migrate_unlink cur (mg_set_fs f2 s)))"
    using migrate_unlink_db(1) [of cur "mg_set_fs f2 s"] migrate_unlink_db(2) [of "mg_set_fs f2 s" cur]
    by (intro recorded_record) simp_all
  have k: "recorded h ?new now s (migrate_record h ?new now
      (mg_bump_moved ((mg_set_fs f4 s)\<lparr>mg_fallback := mg_fallback (mg_set_fs f4 s) + 1\<rparr>)))"
    by (intro recorded_record) simp_all
  from m l c u k show ?thesis
    by (cases m; cases l; cases c) (simp_all add: migrate_apply_def Let_def)
qed

lemma migrate_apply_errors: "mg_errors s \<le> mg_errors (migrate_apply lib now h cur s)"
  using migrate_apply_db [of h lib cur now s] unfolding recorded_def by linarith

lemma migrate_one_errors: "mg_errors s \<le> mg_errors (migrate_one lib now ap x s)"
  using migrate_apply_errors [of "s\<lparr>mg_planned := mg_planned s + 1\<rparr>" lib now]
  by (auto simp: migrate_one_def Let_def split: prod.split path_kind.split)

lemma migrate_fold_errors: "mg_errors s \<le> mg_errors (fold (migrate_one lib now ap) xs s)"
proof (induction xs arbitrary: s)
  case (Cons x xs)
  from Cons [of "migrate_one lib now ap x s"] migrate_one_errors [of s lib now ap x] show ?case by simp
qed simp

lemma update_track_rows: "update_track h g d = Some d' \<Longrightarrow> tracks d' = map (\<lambda>t. if t_sha t = h then g t else t) (tracks d)"
  by (auto simp: update_track_def Let_def split: if_splits)

lemma migrate_one_rows:
  assumes "mg_errors (migrate_one lib now True (h, cur) s) = mg_errors s"
    and "\<forall>t \<in> set (tracks (w_db (mg_w s))). t_sha t = h \<longrightarrow> t_path t = cur"
    and "t \<in> set (tracks (w_db (mg_w (migrate_one lib now True (h, cur) s))))"
  shows "(if t_sha t = h then classify_path lib (t_path t) \<noteq> Flat else t \<in> set (tracks (w_db (mg_w s))))"
proof (cases "classify_path lib cur = Flat")
  case True
  let ?s = "s\<lparr>mg_planned := mg_planned s + 1\<rparr>"
  have s1: "migrate_one lib now True (h, cur) s = migrate_apply lib now h cur ?s"
    using True by (simp add: migrate_one_def)
  with assms(1) migrate_apply_db [of h lib cur now ?s] have
    "update_track h (\<lambda>t. t\<lparr>t_path := compute_archive_path lib cur, t_last_seen := now\<rparr>) (w_db (mg_w s)) =
      Some (w_db (mg_w (migrate_one lib now True (h, cur) s)))" by (simp add: recorded_def)
  then have "tracks (w_db (mg_w (migrate_one lib now True (h, cur) s))) = map (\<lambda>t. if t_sha t = h then
      t\<lparr>t_path := compute_archive_path lib cur, t_last_seen := now\<rparr> else t) (tracks (w_db (mg_w s)))"
    by (rule update_track_rows)
  with assms(3) show ?thesis by (auto simp: flat_archived)
next
  case False
  then have "mg_w (migrate_one lib now True (h, cur) s) = mg_w s"
    by (auto simp: migrate_one_def split: path_kind.split)
  with assms(2,3) False show ?thesis by auto
qed

lemma migrate_fold_rows:
  assumes "mg_errors (fold (migrate_one lib now True) xs s) = mg_errors s" "distinct (map fst xs)"
    and "\<forall>t \<in> set (tracks (w_db (mg_w s))). \<forall>cur. (t_sha t, cur) \<in> set xs \<longrightarrow> t_path t = cur"
    and "t \<in> set (tracks (w_db (mg_w (fold (migrate_one lib now True) xs s))))"
  shows "(if t_sha t \<in> fst ` set xs then classify_path lib (t_path t) \<noteq> Flat else t \<in> set (tracks (w_db (mg_w s))))"
  using assms
proof (induction xs arbitrary: s)
  case (Cons x xs)
  obtain h cur where x: "x = (h, cur)" by fastforce
  let ?s = "migrate_one lib now True (h, cur) s"
  have "mg_errors s \<le> mg_errors ?s" "mg_errors ?s \<le> mg_errors (fold (migrate_one lib now True) xs ?s)"
    by (rule migrate_one_errors, rule migrate_fold_errors)
  with Cons.prems(1) x have e: "mg_errors ?s = mg_errors s" "mg_errors (fold (migrate_one lib now True) xs ?s) = mg_errors ?s"
    by simp_all
  have one: "(if t_sha t = h then classify_path lib (t_path t) \<noteq> Flat else t \<in> set (tracks (w_db (mg_w s))))"
    if "t \<in> set (tracks (w_db (mg_w ?s)))" for t
    by (rule migrate_one_rows [OF e(1) _ that]) (use Cons.prems(3) x in auto)
  have "\<forall>t \<in> set (tracks (w_db (mg_w ?s))). \<forall>cur. (t_sha t, cur) \<in> set xs \<longrightarrow> t_path t = cur"
  proof (intro ballI allI impI)
    fix t c assume t: "t \<in> set (tracks (w_db (mg_w ?s)))" "(t_sha t, c) \<in> set xs"
    with Cons.prems(2) x have "t_sha t \<noteq> h" by force
    with one [OF t(1)] t(2) Cons.prems(3) show "t_path t = c" by auto
  qed
  from Cons.IH [OF e(2) _ this] Cons.prems(2,4) x one show ?case by (auto split: if_splits)
qed simp

lemma migrate_rows_set: "set (migrate_rows d) = (\<lambda>t. (t_sha t, t_path t)) ` set (tracks d)"
  by (simp add: migrate_rows_def)

lemma migrate_rows_distinct: "db_ok d \<Longrightarrow> distinct (map fst (migrate_rows d))"
proof -
  assume "db_ok d"
  then have "distinct (map t_sha (tracks d))" by (simp add: db_ok_def)
  then have "distinct (map fst (map (\<lambda>t. (t_sha t, t_path t)) (tracks d)))" by (simp add: comp_def)
  then show ?thesis unfolding migrate_rows_def distinct_map by (simp add: distinct_map)
qed

lemma migrate_idle:
  assumes "\<forall>x \<in> set xs. classify_path lib (snd x) \<noteq> Flat"
  shows "mg_w (fold (migrate_one lib now ap) xs s) = mg_w s \<and>
    mg_planned (fold (migrate_one lib now ap) xs s) = mg_planned s"
  using assms
proof (induction xs arbitrary: s)
  case (Cons x xs)
  from Cons.prems have "mg_w (migrate_one lib now ap x s) = mg_w s \<and> mg_planned (migrate_one lib now ap x s) = mg_planned s"
    by (cases x) (auto simp: migrate_one_def split: path_kind.split)
  with Cons show ?case by simp
qed simp

text \<open>C34: a migration without errors settles the library. After a run with \<open>--ap\<close> that counted no error every
  track of the database is outside the library, below \<open>archive/\<close> or below \<open>resident/\<close>; a second run, with
  whatever faults are still to come, plans nothing and changes neither the database nor a file.\<close>

theorem migrate_settles:
  assumes "db_ok (w_db w)" "migrate_run (Some lib) now True w = (0, s)" "mg_errors s = 0"
  shows "(\<forall>t. t \<in> set (tracks (w_db (mg_w s))) \<longrightarrow> classify_path lib (t_path t) \<noteq> Flat) \<and>
    (case migrate_run (Some lib) now2 ap (mg_w s) of (rc, s2) \<Rightarrow> mg_planned s2 = 0 \<and> mg_w s2 = mg_w s)"
proof -
  let ?xs = "migrate_rows (w_db w)"
  from assms(2) have s: "s = fold (migrate_one lib now True) ?xs (migrate_init w)"
    by (auto simp: migrate_run_def split: if_splits)
  have e: "mg_errors (fold (migrate_one lib now True) ?xs (migrate_init w)) = mg_errors (migrate_init w)"
    using assms(3) s by (simp add: migrate_init_def)
  have w: "w_db (mg_w (migrate_init w)) = w_db w" by (simp add: migrate_init_def)
  have uniq: "t_path t = cur" if "t \<in> set (tracks (w_db w))" "(t_sha t, cur) \<in> set ?xs" for t cur
    using that assms(1) by (auto simp: migrate_rows_set db_ok_def distinct_map dest: inj_onD)
  have flat: "classify_path lib (t_path t) \<noteq> Flat" if "t \<in> set (tracks (w_db (mg_w s)))" for t
  proof -
    from migrate_fold_rows [OF e migrate_rows_distinct [OF assms(1)], of t] that s uniq
    have r: "if t_sha t \<in> fst ` set ?xs then classify_path lib (t_path t) \<noteq> Flat else t \<in> set (tracks (w_db w))"
      unfolding w by blast
    have "t_sha t \<in> fst ` set ?xs" if "t \<in> set (tracks (w_db w))" using that by (force simp: migrate_rows_set)
    with r show ?thesis by (auto split: if_splits)
  qed
  then have "\<forall>x \<in> set (migrate_rows (w_db (mg_w s))). classify_path lib (snd x) \<noteq> Flat"
    by (auto simp: migrate_rows_set)
  from migrate_idle [OF this, of now2 ap "migrate_init (mg_w s)"] flat show ?thesis
    by (auto simp: migrate_run_def migrate_init_def)
qed

section \<open>Witnesses\<close>

definition flat_fs :: "errno option list \<Rightarrow> fs" where
  "flat_fs q = \<lparr>fs_nodes = [(''/m'', Dir), (''/m/a.flac'', Reg 0)], fs_data = [(0, ''abc'')], fs_next = 1, fs_faults = q\<rparr>"

definition flat_world :: "errno option list \<Rightarrow> world" where
  "flat_world q = \<lparr>w_db = empty_db\<lparr>tracks := [sample_track ''h'' ''/m/a.flac'']\<rparr>, w_fs = flat_fs q, w_sql = [], w_txn = None\<rparr>"

lemma flat_fs_wf: "fs_wf (flat_fs q)"
  by (auto simp: fs_wf_def fs_inode_def fs_get_def flat_fs_def split: if_splits)

lemma flat_content: "fs_content (flat_fs q) ''/m/a.flac'' = Some ''abc''"
  by (simp add: flat_fs_def fs_content_def fs_inode_def fs_get_def file_data_def)

text \<open>The link fails for crossing file systems, then the copy runs out of space.\<close>

lemma migrate_loses_no_audio_witness:
  "\<exists>q. q \<in> {''/m/a.flac'', ''/m/archive/a.flac''} \<and>
     fs_content (mg_fs (snd (migrate_run (Some ''/m'') ''now'' True (flat_world [None, Some EXDEV, None, Some ENOSPC])))) q = Some ''abc''"
  using migrate_loses_no_audio [of "flat_world [None, Some EXDEV, None, Some ENOSPC]" "''/m/a.flac''" "''abc''" "''/m''" "''now''" True]
    flat_fs_wf flat_content
  by (auto simp: flat_world_def compute_archive_path_def)

lemma flat_run: "fst (migrate_run (Some ''/m'') ''now'' True (flat_world [])) = 0"
  "mg_errors (snd (migrate_run (Some ''/m'') ''now'' True (flat_world []))) = 0"
  "mg_planned (snd (migrate_run (Some ''/m'') ''now'' True (flat_world []))) = 1"
  by code_simp+

lemma migrate_settles_witness:
  "\<exists>s s2. migrate_run (Some ''/m'') ''now'' True (flat_world []) = (0, s) \<and> mg_planned s = 1 \<and>
     migrate_run (Some ''/m'') ''later'' True (mg_w s) = (0, s2) \<and> mg_planned s2 = 0 \<and> mg_w s2 = mg_w s"
proof -
  let ?s = "snd (migrate_run (Some ''/m'') ''now'' True (flat_world []))"
  have r: "migrate_run (Some ''/m'') ''now'' True (flat_world []) = (0, ?s)" using flat_run(1) by (metis prod.collapse)
  have ok: "db_ok (w_db (flat_world []))" by (simp add: db_ok_def flat_world_def empty_db_def)
  obtain rc s2 where s2: "migrate_run (Some ''/m'') ''later'' True (mg_w ?s) = (rc, s2)" by fastforce
  have "is_dir (mg_fs ?s) ''/m''" by code_simp
  with s2 have "rc = 0" by (auto simp: migrate_run_def)
  with migrate_settles [OF ok r flat_run(2), of "''later''" True] s2 r flat_run(3) show ?thesis by auto
qed

end
