(* ===== verification/TranscodeMigrate.thy ===== *)
theory TranscodeMigrate
  imports RotateSafe
begin

text \<open>
  The two offline commands over resident files: \<open>transcode_migrate.c\<close> turns FLAC files below \<open>resident/\<close> into
  encoded copies with the original below \<open>archive/\<close>, \<open>transcode_level.c\<close> encodes copies without a gain again at the
  loudness target. The rows are read before the first update. \<open>path_with_ext\<close> and the residency
  statement are those of \<open>rotate.c\<close>, whose code is repeated in these files. Taking the lock and
  opening the database come before and are not part of the model.
\<close>

section \<open>transcode-migrate\<close>

record tm_state =
  tm_w :: world
  tm_planned :: int
  tm_migrated :: int
  tm_already :: int
  tm_errors :: int

abbreviation tm_fs :: "tm_state \<Rightarrow> fs" where "tm_fs s \<equiv> w_fs (tm_w s)"

definition tm_init :: "world \<Rightarrow> tm_state" where
  "tm_init w = \<lparr>tm_w = w, tm_planned = 0, tm_migrated = 0, tm_already = 0, tm_errors = 0\<rparr>"

definition tm_set_fs :: "fs \<Rightarrow> tm_state \<Rightarrow> tm_state" where
  "tm_set_fs f s = s\<lparr>tm_w := (tm_w s)\<lparr>w_fs := f\<rparr>\<rparr>"

definition tm_error :: "tm_state \<Rightarrow> int \<times> tm_state" where
  "tm_error s = (-1, s\<lparr>tm_errors := tm_errors s + 1\<rparr>)"

text \<open>\<open>mkparents\<close> of this file: \<open>mkdir\<close> for every prefix, any existing name will do.\<close>

fun tm_mkdirs :: "path list \<Rightarrow> fs \<Rightarrow> sysres \<times> fs" where
  "tm_mkdirs [] s = (None, s)"
| "tm_mkdirs (p # ps) s = (case sys_mkdir p s of
     (None, s) \<Rightarrow> tm_mkdirs ps s
   | (Some e, s) \<Rightarrow> if e \<noteq> EEXIST then (Some e, s) else tm_mkdirs ps s)"

definition tm_mkparents :: "path \<Rightarrow> fs \<Rightarrow> sysres \<times> fs" where
  "tm_mkparents p = tm_mkdirs [take i p. i \<leftarrow> [1..<length p], p ! i = slash]"

text \<open>\<open>strstr\<close>: what stands before the first occurrence and what follows it.\<close>

fun strstr_split :: "string \<Rightarrow> string \<Rightarrow> (string \<times> string) option" where
  "strstr_split needle [] = (if needle = [] then Some ([], []) else None)"
| "strstr_split needle (c # cs) = (case strip_prefix needle (c # cs) of
     Some rest \<Rightarrow> Some ([], rest)
   | None \<Rightarrow> map_option (\<lambda>(a, b). (c # a, b)) (strstr_split needle cs))"

definition swap_segment_simple :: "path \<Rightarrow> string \<Rightarrow> string \<Rightarrow> path option" where
  "swap_segment_simple cur from to = map_option (\<lambda>(a, b). a @ [slash] @ to @ [slash] @ b)
     (strstr_split ([slash] @ from @ [slash]) cur)"

definition upsert_residency_with_transcode :: "sha \<Rightarrow> string \<Rightarrow> path \<Rightarrow> int \<Rightarrow> string option \<Rightarrow> db \<Rightarrow> db option" where
  "upsert_residency_with_transcode h now tpath tsize tformat = upsert_residency_transcode h now tpath tsize tformat None"

text \<open>Steps 4 and 5: the rows.\<close>

definition tm_record :: "transcode_cfg \<Rightarrow> string \<Rightarrow> sha \<Rightarrow> path \<Rightarrow> path \<Rightarrow> int \<Rightarrow> tm_state \<Rightarrow> int \<times> tm_state" where
  "tm_record tc now h archive_path transcode_path tsize s = (case track_repo_update_path h archive_path now (tm_w s) of
     (rc, w) \<Rightarrow> (let s = s\<lparr>tm_w := w\<rparr> in
       if rc \<noteq> 0 then tm_error s
       else case sql_exec (upsert_residency_with_transcode h now transcode_path tsize (tc_format tc)) w of
         (ok, w) \<Rightarrow> (let s = s\<lparr>tm_w := w\<rparr> in
           if \<not> ok then tm_error s else (0, s\<lparr>tm_migrated := tm_migrated s + 1\<rparr>))))"

text \<open>Step 3: the resident file goes.\<close>

definition tm_drop :: "transcode_cfg \<Rightarrow> string \<Rightarrow> sha \<Rightarrow> path \<Rightarrow> path \<Rightarrow> path \<Rightarrow> int \<Rightarrow> tm_state \<Rightarrow> int \<times> tm_state" where
  "tm_drop tc now h cur archive_path transcode_path tsize s = (case sys_unlink cur (tm_fs s) of
     (r, f) \<Rightarrow> (let s = tm_set_fs f s in
       if r \<noteq> None \<and> r \<noteq> Some ENOENT then tm_error s
       else tm_record tc now h archive_path transcode_path tsize s))"

text \<open>Step 2: the encoded copy.\<close>

definition tm_encode ::
  "ffmpeg_env \<Rightarrow> transcode_cfg \<Rightarrow> string \<Rightarrow> sha \<Rightarrow> path \<Rightarrow> path \<Rightarrow> path \<Rightarrow> bool \<Rightarrow> tm_state \<Rightarrow> int \<times> tm_state" where
  "tm_encode F tc now h cur archive_path transcode_path present s =
     (if present then tm_drop tc now h cur archive_path transcode_path (file_size (tm_fs s) transcode_path) s
      else case tm_mkparents transcode_path (tm_fs s) of
        (Some e, f) \<Rightarrow> tm_error (tm_set_fs f s)
      | (None, f) \<Rightarrow> (case transcode_audio F cur transcode_path tc f of (trc, lvl, f) \<Rightarrow>
          if trc \<noteq> 0 then tm_error (tm_set_fs (snd (sys_unlink transcode_path f)) s)
          else if fs_get f transcode_path = None then tm_error (tm_set_fs f s)
          else tm_drop tc now h cur archive_path transcode_path (file_size f transcode_path) (tm_set_fs f s)))"

definition tm_apply ::
  "ffmpeg_env \<Rightarrow> transcode_cfg \<Rightarrow> string \<Rightarrow> sha \<Rightarrow> path \<Rightarrow> path \<Rightarrow> path \<Rightarrow> tm_state \<Rightarrow> int \<times> tm_state" where
  "tm_apply F tc now h cur archive_path transcode_path s =
     (let present = is_reg (tm_fs s) transcode_path;
          next_step = tm_encode F tc now h cur archive_path transcode_path present
      in if is_reg (tm_fs s) archive_path then next_step s
         else case tm_mkparents archive_path (tm_fs s) of
           (Some e, f) \<Rightarrow> tm_error (tm_set_fs f s)
         | (None, f) \<Rightarrow> (case sys_link cur archive_path f of
             (None, f) \<Rightarrow> next_step (tm_set_fs f s)
           | (Some e, f) \<Rightarrow>
               if e = EEXIST \<and> same_inode f cur archive_path then next_step (tm_set_fs f s)
               else tm_error (tm_set_fs f s)))"

text \<open>The location of the row is not looked at.\<close>

definition tm_migrate_one ::
  "ffmpeg_env \<Rightarrow> transcode_cfg \<Rightarrow> bool \<Rightarrow> string \<Rightarrow> sha \<Rightarrow> path \<Rightarrow> tm_state \<Rightarrow> int \<times> tm_state" where
  "tm_migrate_one F tc doit now h cur s = (case swap_segment_simple cur ''resident'' ''archive'' of
     None \<Rightarrow> tm_error s
   | Some archive_path \<Rightarrow> (case transcode_dst_ext tc of
       None \<Rightarrow> tm_error s
     | Some ext \<Rightarrow> (let transcode_path = path_with_ext cur ext in
         if is_reg (tm_fs s) archive_path \<and> is_reg (tm_fs s) transcode_path
         then (0, s\<lparr>tm_already := tm_already s + 1\<rparr>)
         else (let s = s\<lparr>tm_planned := tm_planned s + 1\<rparr> in
           if \<not> doit then (0, s) else tm_apply F tc now h cur archive_path transcode_path s))))"

text \<open>\<open>LIKE '%/resident/%'\<close> ignores the case of ASCII letters.\<close>

definition tm_rows :: "db \<Rightarrow> (sha \<times> path) list" where
  "tm_rows d = sort_key fst (map (\<lambda>t. (t_sha t, t_path t))
     (filter (\<lambda>t. strstr_split ''/resident/'' (map to_lower (t_path t)) \<noteq> None) (tracks d)))"

definition tm_cfg :: "string option \<Rightarrow> int \<Rightarrow> nocturne_config \<Rightarrow> transcode_cfg" where
  "tm_cfg arg_format arg_bitrate cfg = \<lparr>tc_enabled = True,
     tc_format = Some (case arg_format of Some f \<Rightarrow> f | None \<Rightarrow>
       (case c_transcode_format cfg of Some f \<Rightarrow> f | None \<Rightarrow> ''opus'')),
     tc_bitrate = (if arg_bitrate > 0 then arg_bitrate
       else if c_transcode_bitrate cfg > 0 then c_transcode_bitrate cfg else 128),
     tc_level = 0\<rparr>"

definition transcode_migrate_cmd ::
  "ffmpeg_env \<Rightarrow> nocturne_config \<Rightarrow> string option \<Rightarrow> int \<Rightarrow> bool \<Rightarrow> string \<Rightarrow> world \<Rightarrow> int \<times> tm_state" where
  "transcode_migrate_cmd F cfg arg_format arg_bitrate doit now w =
     (let tc = tm_cfg arg_format arg_bitrate cfg;
          s = fold (\<lambda>(h, cur) s. snd (tm_migrate_one F tc doit now h cur s)) (tm_rows (w_db w)) (tm_init w)
      in (if tm_errors s > 0 then 1 else 0, s))"

section \<open>transcode-level\<close>

record level_state =
  lv_w :: world
  lv_planned :: int
  lv_levelled :: int
  lv_missing :: int
  lv_mismatch :: int
  lv_errors :: int

abbreviation lv_fs :: "level_state \<Rightarrow> fs" where "lv_fs s \<equiv> w_fs (lv_w s)"

definition lv_init :: "world \<Rightarrow> level_state" where
  "lv_init w = \<lparr>lv_w = w, lv_planned = 0, lv_levelled = 0, lv_missing = 0, lv_mismatch = 0, lv_errors = 0\<rparr>"

definition lv_set_fs :: "fs \<Rightarrow> level_state \<Rightarrow> level_state" where
  "lv_set_fs f s = s\<lparr>lv_w := (lv_w s)\<lparr>w_fs := f\<rparr>\<rparr>"

definition lv_error :: "level_state \<Rightarrow> level_state" where
  "lv_error s = s\<lparr>lv_errors := lv_errors s + 1\<rparr>"

definition TMP_DIR_NAME :: string where "TMP_DIR_NAME = ''.transcode-level-tmp''"

definition prepare_tmp_dir :: "path \<Rightarrow> fs \<Rightarrow> bool \<times> fs" where
  "prepare_tmp_dir dir s = (case sys_mkdir dir s of (r, s) \<Rightarrow>
     if r \<noteq> None \<and> r \<noteq> Some EEXIST then (False, s)
     else if \<not> is_dir s dir then (False, s)
     else (True, fold (\<lambda>name s. if dot_name name then s else snd (sys_unlink (take 4095 (dir @ [slash] @ name)) s)) (fs_entries s dir) s))"

definition temp_path_for :: "path \<Rightarrow> sha \<Rightarrow> path \<Rightarrow> path" where
  "temp_path_for tmpdir h dst =
     (let base = (case split_last slash dst of None \<Rightarrow> dst | Some (d, b) \<Rightarrow> b)
      in tmpdir @ [slash] @ h @ (case split_last CHR ''.'' base of None \<Rightarrow> [] | Some (st, e) \<Rightarrow> CHR ''.'' # e))"

text \<open>\<open>record\<close>: a gain that is not a number is stored as 0, a loudness that is not as \<open>NULL\<close>.\<close>

definition level_record :: "sha \<Rightarrow> int \<Rightarrow> transcode_result \<Rightarrow> db \<Rightarrow> db option" where
  "level_record h sz res d = Some (d\<lparr>residency_state := map (\<lambda>r. if rs_sha r = h
     then r\<lparr>rs_tsize := Some sz, rs_gain := Some (if tr_gain_db res = FNaN then Fin 0 else tr_gain_db res),
            rs_lufs := no_nan (tr_source_lufs res)\<rparr>
     else r) (residency_state d)\<rparr>)"

definition level_replace ::
  "ffmpeg_env \<Rightarrow> transcode_cfg \<Rightarrow> sha \<Rightarrow> path \<Rightarrow> path \<Rightarrow> path \<Rightarrow> level_state \<Rightarrow> level_state" where
  "level_replace F tc h src dst tmp s = (case transcode_audio F src tmp tc (lv_fs s) of (rc, res, f) \<Rightarrow>
     if rc \<noteq> 0 then lv_error (lv_set_fs (snd (sys_unlink tmp f)) s)
     else if fs_get f tmp = None then lv_error (lv_set_fs (snd (sys_unlink tmp f)) s)
     else (let sz = file_size f tmp in case sys_rename tmp dst f of
         (Some e, f) \<Rightarrow> lv_error (lv_set_fs (snd (sys_unlink tmp f)) s)
       | (None, f) \<Rightarrow> (let s = lv_set_fs f s in case sql_exec (level_record h sz res) (lv_w s) of
           (ok, w) \<Rightarrow> (let s = s\<lparr>lv_w := w\<rparr> in if \<not> ok then lv_error s else s\<lparr>lv_levelled := lv_levelled s + 1\<rparr>))))"

definition level_one ::
  "ffmpeg_env \<Rightarrow> transcode_cfg \<Rightarrow> bool \<Rightarrow> path \<Rightarrow> sha \<times> path \<times> path \<times> string option \<Rightarrow> level_state \<Rightarrow> level_state" where
  "level_one F tc doit tmpdir = (\<lambda>(h, src, dst, fmt) s.
     (let s = s\<lparr>lv_planned := lv_planned s + 1\<rparr>
      in if fmt = None \<or> fmt \<noteq> tc_format tc then s\<lparr>lv_mismatch := lv_mismatch s + 1\<rparr>
         else if fs_get (lv_fs s) src = None then s\<lparr>lv_missing := lv_missing s + 1\<rparr>
         else if \<not> doit then s
         else level_replace F tc h src dst (temp_path_for tmpdir h dst) s))"

definition level_rows :: "db \<Rightarrow> (sha \<times> path \<times> path \<times> string option) list" where
  "level_rows d = sort_key fst [(rs_sha r, t_path t, p, rs_tformat r).
     r \<leftarrow> residency_state d, rs_loc r = Resident \<and> rs_gain r = None,
     p \<leftarrow> (case rs_tpath r of None \<Rightarrow> [] | Some p \<Rightarrow> [p]),
     t \<leftarrow> filter (\<lambda>t. t_sha t = rs_sha r) (tracks d)]"

definition level_cfg :: "nocturne_config \<Rightarrow> transcode_cfg" where
  "level_cfg cfg = \<lparr>tc_enabled = True,
     tc_format = Some (case c_transcode_format cfg of Some f \<Rightarrow> f | None \<Rightarrow> ''opus''),
     tc_bitrate = (if c_transcode_bitrate cfg > 0 then c_transcode_bitrate cfg else 128),
     tc_level = c_transcode_level cfg\<rparr>"

definition transcode_level_cmd :: "ffmpeg_env \<Rightarrow> nocturne_config \<Rightarrow> bool \<Rightarrow> world \<Rightarrow> int \<times> level_state" where
  "transcode_level_cmd F cfg doit w =
     (if c_transcode_level cfg = 0 then (64, lv_init w)
      else case c_library_root cfg of
        None \<Rightarrow> (3, lv_init w)
      | Some lib \<Rightarrow>
          (let tmpdir = take 4095 (lib @ [slash] @ TMP_DIR_NAME);
               (ok, f) = (if doit then prepare_tmp_dir tmpdir (w_fs w) else (True, w_fs w));
               s = lv_set_fs f (lv_init w)
           in if \<not> ok then (1, s)
              else (let s = fold (level_one F (level_cfg cfg) doit tmpdir) (level_rows (w_db w)) s
                    in (if lv_errors s > 0 then 1 else 0, s))))"

section \<open>What both commands keep\<close>

text \<open>Every file outside \<open>L\<close> keeps its bytes.\<close>

definition kept_but :: "(path \<Rightarrow> bool) \<Rightarrow> fs \<Rightarrow> fs \<Rightarrow> bool" where
  "kept_but L s s' \<longleftrightarrow> (\<forall>p c. fs_content s p = Some c \<and> \<not> L p \<longrightarrow> fs_content s' p = Some c)"

interpretation spare: tree_order "kept_but L" L for L
proof
  fix s s1 s2 p r
  show "kept_but L s s1 \<Longrightarrow> kept_but L s1 s2 \<Longrightarrow> kept_but L s s2" by (simp add: kept_but_def)
  show "files_kept s s1 \<Longrightarrow> kept_but L s s1"
    unfolding kept_but_def using files_kept_content by blast
  show "L p \<Longrightarrow> sys_unlink p s = (r, s1) \<Longrightarrow> kept_but L s s1"
    unfolding kept_but_def using unlink_content by metis
qed

lemma spare_encode:
  assumes "transcode_audio F src dst tc s = (rc, lvl, s')" "encoder_ok F" "L dst"
  shows "spare.step L s s'"
proof (cases "codec_for_format (tc_format tc)")
  case None
  with assms(1) show ?thesis by (simp add: transcode_audio_def)
next
  case (Some codec)
  define kbps where "kbps = (if tc_bitrate tc > 0 then tc_bitrate tc else 128)"
  obtain g l where gl: "level_track F tc src s = (g, l)" by fastforce
  obtain e where e: "fe_encode F (transcode_argv src dst codec (tc_format tc = Some ''opus'') kbps (volume_arg g)) s = (e, s')"
    using assms(1) Some gl by (auto simp: transcode_audio_def kbps_def Let_def split: prod.splits)
  show ?thesis
  proof (cases "fs_wf s")
    case True
    note ok = encoder_okD [OF assms(2) e True, unfolded last_argv]
    from ok(2) assms(3) have "kept_but L s s'" unfolding kept_but_def by (metis option.distinct(1))
    with ok(1) show ?thesis by (simp add: spare.step_def)
  qed (simp add: spare.step_def)
qed

lemma spare_tm_mkdirs: "tm_mkdirs ps s = (r, s') \<Longrightarrow> spare.step L s s'"
proof (induction ps arbitrary: s)
  case (Cons p ps)
  obtain x s1 where m: "sys_mkdir p s = (x, s1)" by fastforce
  have "files_kept s s1 \<and> (fs_wf s \<longrightarrow> fs_wf s1)"
    using sys_mkdir_files [OF m] wf_inode_same by (metis files_kept_def)
  then have 1: "spare.step L s s1" by (auto intro: spare.stepI)
  from Cons.prems m Cons.IH [of s1] spare.step_trans [OF 1] 1 show ?case
    by (auto split: option.splits if_splits)
qed simp

section \<open>transcode-migrate keeps the audio\<close>

lemma tm_simps [simp]:
  "tm_fs (tm_set_fs f s) = f" "tm_error s = (-1, s\<lparr>tm_errors := tm_errors s + 1\<rparr>)"
  by (simp_all add: tm_set_fs_def tm_error_def)

lemma tm_drop_fs: "tm_fs (snd (tm_drop tc now h cur arc tp n s)) = snd (sys_unlink cur (tm_fs s))"
proof -
  obtain r f where u: "sys_unlink cur (tm_fs s) = (r, f)" by fastforce
  have "tm_fs (snd (tm_record tc now h arc tp n s)) = tm_fs s" for s
  proof -
    obtain rc w where a: "track_repo_update_path h arc now (tm_w s) = (rc, w)" by fastforce
    obtain b w2 where b: "sql_exec (upsert_residency_with_transcode h now tp n (tc_format tc)) w = (b, w2)" by fastforce
    from update_path_fs [OF a] sql_exec_fs [OF b] a b show ?thesis by (simp add: tm_record_def Let_def)
  qed
  with u show ?thesis by (simp add: tm_drop_def Let_def)
qed

lemma tm_encode_fs:
  assumes "encoder_ok F"
  shows "\<exists>f. spare.step (\<lambda>q. q = tp \<and> \<not> here) (tm_fs s) f \<and>
    (tm_fs (snd (tm_encode F tc now h cur arc tp here s)) = f \<or>
     tm_fs (snd (tm_encode F tc now h cur arc tp here s)) = snd (sys_unlink cur f))"
proof (cases here)
  case True
  then show ?thesis by (intro exI [of _ "tm_fs s"]) (simp add: tm_encode_def tm_drop_fs)
next
  case False
  let ?L = "\<lambda>q. q = tp \<and> \<not> here"
  obtain m f1 where m: "tm_mkparents tp (tm_fs s) = (m, f1)" by fastforce
  obtain rc lvl f2 where e: "transcode_audio F cur tp tc f1 = (rc, lvl, f2)" by (metis surj_pair)
  obtain u f3 where u: "sys_unlink tp f2 = (u, f3)" by fastforce
  have f1: "spare.step ?L (tm_fs s) f1" using m spare_tm_mkdirs by (simp add: tm_mkparents_def)
  have f2: "spare.step ?L (tm_fs s) f2" by (rule spare.step_trans [OF f1 spare_encode [OF e assms]]) (simp add: False)
  have f3: "spare.step ?L (tm_fs s) f3" by (rule spare.step_trans [OF f2 spare.step_unlink [OF _ u]]) (simp add: False)
  show ?thesis
  proof (cases "m = None \<and> rc = 0 \<and> fs_get f2 tp \<noteq> None")
    case True
    with False m e f2 show ?thesis by (intro exI [of _ f2]) (simp add: tm_encode_def tm_drop_fs)
  next
    case not_done: False
    show ?thesis
    proof (cases m)
      case (Some x)
      with False m f1 show ?thesis by (intro exI [of _ f1]) (simp add: tm_encode_def)
    next
      case None
      with False not_done m e u f2 f3 show ?thesis
        by (cases "rc = 0") (auto simp: tm_encode_def)
    qed
  qed
qed

lemma tm_apply_fs:
  assumes "encoder_ok F" "fs_content (tm_fs s) cur = Some c \<longrightarrow> fs_content (tm_fs s) arc \<in> {None, Some c}" "fs_wf (tm_fs s)" "arc \<noteq> tp"
  shows "\<exists>f. spare.step (\<lambda>q. q = tp \<and> \<not> is_reg (tm_fs s) tp) (tm_fs s) f \<and>
    (tm_fs (snd (tm_apply F tc now h cur arc tp s)) = f \<or>
     tm_fs (snd (tm_apply F tc now h cur arc tp s)) = snd (sys_unlink cur f) \<and>
       (fs_content (tm_fs s) cur = Some c \<longrightarrow> fs_content f arc = Some c))"
proof -
  let ?L = "\<lambda>q. q = tp \<and> \<not> is_reg (tm_fs s) tp"
  let ?e = "\<lambda>s'. tm_fs (snd (tm_encode F tc now h cur arc tp (is_reg (tm_fs s) tp) s'))"
  have enc: "\<exists>f. spare.step ?L (tm_fs s) f \<and> (?e s' = f \<or> ?e s' = snd (sys_unlink cur f) \<and>
      (fs_content (tm_fs s) cur = Some c \<longrightarrow> fs_content f arc = Some c))"
    if st: "spare.step ?L (tm_fs s) (tm_fs s')" and c: "fs_content (tm_fs s) cur = Some c \<longrightarrow> fs_content (tm_fs s') arc = Some c" for s'
  proof -
    from tm_encode_fs [OF assms(1), of tp "is_reg (tm_fs s) tp" s' tc now h cur arc] obtain f where
      f: "spare.step ?L (tm_fs s') f" "?e s' = f \<or> ?e s' = snd (sys_unlink cur f)" by blast
    have "fs_content f arc = Some c" if "fs_content (tm_fs s) cur = Some c"
      using f(1) c that st assms(3,4) by (auto simp: spare.step_def kept_but_def)
    with f spare.step_trans [OF st f(1)] show ?thesis by blast
  qed
  show ?thesis
  proof (cases "is_reg (tm_fs s) arc")
    case True
    then have "fs_content (tm_fs s) arc \<noteq> None" by (auto simp: is_reg_def fs_content_def fs_inode_def split: option.splits node.splits)
    with assms(2) have "fs_content (tm_fs s) cur = Some c \<longrightarrow> fs_content (tm_fs s) arc = Some c" by auto
    from enc [OF spare.step_refl this] True show ?thesis by (simp add: tm_apply_def Let_def)
  next
    case False
    obtain m f1 where m: "tm_mkparents arc (tm_fs s) = (m, f1)" by fastforce
    obtain l f2 where l: "sys_link cur arc f1 = (l, f2)" by fastforce
    have f1: "spare.step ?L (tm_fs s) f1" using m spare_tm_mkdirs by (simp add: tm_mkparents_def)
    have f2: "spare.step ?L (tm_fs s) f2" by (rule spare.step_trans [OF f1 spare.step_link [OF l]])
    have same: "fs_content f2 arc = fs_content f2 cur" if "l = None \<or> same_inode f2 cur arc"
    proof (cases "l = None")
      case True
      with sys_link_new l have "fs_get f2 arc = fs_get f2 cur" by metis
      then show ?thesis by (simp add: fs_content_def fs_inode_def)
    next
      case False
      with that show ?thesis by (simp add: same_inode_def fs_content_def)
    qed
    have cur: "fs_content f2 cur = Some c" if "fs_content (tm_fs s) cur = Some c"
    proof -
      have "\<not> ?L cur" using that by (auto simp: is_reg_def fs_content_def fs_inode_def split: option.splits node.splits)
      with f2 that assms(3) show ?thesis unfolding spare.step_def kept_but_def by blast
    qed
    show ?thesis
    proof (cases "m = None \<and> (l = None \<or> l = Some EEXIST \<and> same_inode f2 cur arc)")
      case True
      with same cur have "fs_content (tm_fs s) cur = Some c \<longrightarrow> fs_content (tm_fs (tm_set_fs f2 s)) arc = Some c" by auto
      from enc [OF _ this] f2 False True m l show ?thesis by (auto simp: tm_apply_def Let_def)
    next
      case no: False
      show ?thesis
      proof (cases m)
        case (Some x)
        with False m f1 show ?thesis by (intro exI [of _ f1]) (simp add: tm_apply_def Let_def)
      next
        case None
        with no False m l f2 show ?thesis by (intro exI [of _ f2]) (auto simp: tm_apply_def Let_def split: option.split)
      qed
    qed
  qed
qed

lemma strstr_split_Some: "strstr_split n s = Some (a, b) \<Longrightarrow> s = a @ n @ b"
proof (induction s arbitrary: a)
  case (Cons c cs)
  show ?case
  proof (cases "strip_prefix n (c # cs)")
    case None
    with Cons obtain a' where "a = c # a'" "strstr_split n cs = Some (a', b)" by auto
    with Cons.IH show ?thesis by simp
  next
    case (Some r)
    with Cons.prems show ?thesis by simp
  qed
qed (simp split: if_splits)

lemma archive_twin:
  assumes "swap_segment_simple cur ''resident'' ''archive'' = Some arc"
  shows "arc \<noteq> cur \<and> arc \<noteq> path_with_ext cur ext"
proof -
  from assms obtain a b where ab: "strstr_split ([slash] @ ''resident'' @ [slash]) cur = Some (a, b)" "arc = a @ ''/archive/'' @ b"
    by (auto simp: swap_segment_simple_def)
  from strstr_split_Some [OF ab(1)] have cur: "cur = (a @ ''/resident'') @ slash # b" by simp
  with path_with_ext_append [of "a @ ''/resident''" b ext] obtain t where "path_with_ext cur ext = a @ ''/resident/'' @ t" by auto
  with ab(2) cur show ?thesis by simp
qed

text \<open>C35: one step of transcode-migrate loses no audio, as long as the archive twin of the file is absent or a copy
  of it. Whatever system calls, statements or the encoder fail, the bytes of every file are afterwards under
  its name or, for the file the step is about, under its twin below \<open>archive/\<close>. The encoder changes only its output.\<close>

theorem transcode_migrate_keeps_audio:
  assumes "fs_wf (tm_fs s)" "encoder_ok F" "fs_content (tm_fs s) p = Some c"
    and "\<forall>arc. swap_segment_simple cur ''resident'' ''archive'' = Some arc \<longrightarrow>
      fs_content (tm_fs s) arc \<in> {None, fs_content (tm_fs s) cur}"
  shows "fs_content (tm_fs (snd (tm_migrate_one F tc doit now h cur s))) p = Some c \<or>
    p = cur \<and> (\<exists>arc. swap_segment_simple cur ''resident'' ''archive'' = Some arc \<and>
      fs_content (tm_fs (snd (tm_migrate_one F tc doit now h cur s))) arc = Some c)"
proof -
  let ?s' = "snd (tm_migrate_one F tc doit now h cur s)"
  show ?thesis
  proof (cases "tm_fs ?s' = tm_fs s")
    case True
    with assms(3) show ?thesis by simp
  next
    case False
    then obtain arc ext where a: "swap_segment_simple cur ''resident'' ''archive'' = Some arc" "transcode_dst_ext tc = Some ext"
      "?s' = snd (tm_apply F tc now h cur arc (path_with_ext cur ext) (s\<lparr>tm_planned := tm_planned s + 1\<rparr>))"
      by (auto simp: tm_migrate_one_def Let_def split: option.splits if_splits)
    let ?tp = "path_with_ext cur ext"
    note tw = archive_twin [OF a(1)]
    obtain f where f: "spare.step (\<lambda>q. q = ?tp \<and> \<not> is_reg (tm_fs s) ?tp) (tm_fs s) f"
      "tm_fs ?s' = f \<or> tm_fs ?s' = snd (sys_unlink cur f) \<and> (fs_content (tm_fs s) cur = Some c \<longrightarrow> fs_content f arc = Some c)"
      using tm_apply_fs [OF assms(2), of "s\<lparr>tm_planned := tm_planned s + 1\<rparr>" cur c arc ?tp tc now h] assms(1,4) a tw by auto
    have p: "fs_content f p = Some c"
    proof -
      have "\<not> (p = ?tp \<and> \<not> is_reg (tm_fs s) ?tp)" using assms(3) by (auto simp: is_reg_def fs_content_def)
      with f(1) assms(1,3) show ?thesis unfolding spare.step_def kept_but_def by blast
    qed
    obtain r f' where u: "sys_unlink cur f = (r, f')" by fastforce
    from f(2) show ?thesis
    proof
      assume "tm_fs ?s' = f"
      with p show ?thesis by simp
    next
      assume g: "tm_fs ?s' = snd (sys_unlink cur f) \<and> (fs_content (tm_fs s) cur = Some c \<longrightarrow> fs_content f arc = Some c)"
      show ?thesis
      proof (cases "p = cur")
        case True
        with g assms(3) have "fs_content f arc = Some c" by simp
        with unlink_content [OF u] tw g u True a(1) show ?thesis by auto
      next
        case False
        with unlink_content [OF u False] p g u show ?thesis by simp
      qed
    qed
  qed
qed

definition clash_fs :: fs where
  "clash_fs = \<lparr>fs_nodes = [(''/m'', Dir), (''/m/archive'', Dir), (''/m/archive/a.flac'', Reg 0), (''/m/resident'', Dir),
     (''/m/resident/a.flac'', Reg 1)], fs_data = [(0, ''old''), (1, ''new'')], fs_next = 2, fs_faults = []\<rparr>"

definition clash_world :: world where
  "clash_world = \<lparr>w_db = empty_db\<lparr>tracks := [sample_track ''h'' ''/m/resident/a.flac'']\<rparr>, w_fs = clash_fs, w_sql = [], w_txn = None\<rparr>"

definition opus_cfg :: transcode_cfg where
  "opus_cfg = \<lparr>tc_enabled = True, tc_format = Some ''opus'', tc_bitrate = 128, tc_level = 0\<rparr>"

lemma clash_wf: "fs_wf clash_fs"
  by (auto simp: fs_wf_def fs_inode_def fs_get_def clash_fs_def split: if_splits)

definition clash_end :: "int \<times> tm_state" where
  "clash_end = tm_migrate_one touch_env opus_cfg True ''now'' ''h'' ''/m/resident/a.flac'' (tm_init clash_world)"

lemma clash_end_view:
  "fst clash_end = 0" "tm_errors (snd clash_end) = 0" "tm_migrated (snd clash_end) = 1"
  "map t_path (tracks (w_db (tm_w (snd clash_end)))) = [''/m/archive/a.flac'']"
  "fs_nodes (tm_fs (snd clash_end)) = [(''/m'', Dir), (''/m/archive'', Dir), (''/m/archive/a.flac'', Reg 0), (''/m/resident'', Dir),
     (''/m/resident/a.opus'', Reg 2)]"
  "fs_data (tm_fs (snd clash_end)) = [(0, ''old''), (1, ''new''), (2, [])]"
  by code_simp+

lemma clash_run: "transcode_migrate_cmd touch_env config_default None 0 True ''now'' clash_world = (0, snd clash_end)"
proof -
  have "tm_rows (w_db clash_world) = [(''h'', ''/m/resident/a.flac'')]" by code_simp
  moreover have "tm_cfg None 0 config_default = opus_cfg" by (simp add: tm_cfg_def config_default_def opus_cfg_def)
  ultimately show ?thesis using clash_end_view(2) by (simp add: transcode_migrate_cmd_def clash_end_def)
qed

lemma clash_content: "fs_content clash_fs ''/m/resident/a.flac'' = Some ''new''" "fs_content clash_fs ''/m/archive/a.flac'' = Some ''old''"
  by (simp_all add: clash_fs_def fs_content_def fs_inode_def fs_get_def file_data_def)

text \<open>Injected faults that do not report an existing name as missing, also after the encoder has run.\<close>

definition no_false_enoent :: "fs \<Rightarrow> bool" where
  "no_false_enoent f \<longleftrightarrow> Some ENOENT \<notin> set (fs_faults f)"

definition encoder_keeps_faults :: "ffmpeg_env \<Rightarrow> bool" where
  "encoder_keeps_faults F \<longleftrightarrow> (\<forall>argv f e f'. fe_encode F argv f = (e, f') \<and> no_false_enoent f \<longrightarrow> no_false_enoent f')"

lemma tm_mkdirs_faults: "tm_mkdirs ps f = (r, f') \<Longrightarrow> no_false_enoent f \<Longrightarrow> no_false_enoent f'"
proof (induction ps arbitrary: f)
  case (Cons p ps)
  obtain x f1 where m: "sys_mkdir p f = (x, f1)" by fastforce
  then have "no_false_enoent f1" using Cons.prems(2)
    by (auto simp: sys_mkdir_def injected_def no_false_enoent_def put_node_def split: list.splits option.splits if_splits)
  with Cons.IH [of f1] Cons.prems(1) m show ?case by (auto split: option.splits if_splits)
qed simp

lemma transcode_faults:
  assumes "transcode_audio F src dst tc f = (rc, lvl, f')" "encoder_keeps_faults F" "no_false_enoent f"
  shows "no_false_enoent f'"
  using assms unfolding encoder_keeps_faults_def
  by (auto simp: transcode_audio_def Let_def split: option.splits prod.splits)

lemma unlink_present:
  assumes "sys_unlink p f = (r, f')" "no_false_enoent f" "fs_content f p = Some c" "r \<in> {None, Some ENOENT}"
  shows "fs_content f' p = None"
  using assms by (auto simp: sys_unlink_def injected_def no_false_enoent_def fs_content_def fs_inode_def del_node_def
      fs_get_def delete_conv split: list.splits option.splits node.splits)

lemma tm_record_done:
  assumes "tm_record tc now h arc tp n s = (rc, s')" "tm_migrated s' = tm_migrated s + 1"
  shows "rc = 0" "tm_fs s' = tm_fs s" "tm_errors s' = tm_errors s" "\<forall>t \<in> set (tracks (w_db (tm_w s'))). t_sha t = h \<longrightarrow> t_path t = arc"
proof -
  obtain r1 w1 where a: "track_repo_update_path h arc now (tm_w s) = (r1, w1)" by fastforce
  obtain b w2 where b: "sql_exec (upsert_residency_with_transcode h now tp n (tc_format tc)) w1 = (b, w2)" by fastforce
  from assms a b have ok: "r1 = 0" "b" "rc = 0" "s' = s\<lparr>tm_w := w2, tm_migrated := tm_migrated s + 1\<rparr>"
    by (auto simp: tm_record_def Let_def split: if_splits)
  then show "rc = 0" "tm_errors s' = tm_errors s" by simp_all
  show "tm_fs s' = tm_fs s" using ok update_path_fs [OF a] sql_exec_fs [OF b] by simp
  have "\<forall>t \<in> set (tracks (w_db w1)). t_sha t = h \<longrightarrow> t_path t = arc"
  proof -
    obtain b1 where u: "sql_exec (update_track h (\<lambda>t. t\<lparr>t_path := arc, t_last_seen := now\<rparr>)) (tm_w s) = (b1, w1)" and b1: b1
      using a ok(1) by (auto simp: track_repo_update_path_def split: prod.splits if_splits)
    define ts where "ts = map (\<lambda>t. if t_sha t = h then t\<lparr>t_path := arc, t_last_seen := now\<rparr> else t) (tracks (w_db (tm_w s)))"
    from u b1 have "update_track h (\<lambda>t. t\<lparr>t_path := arc, t_last_seen := now\<rparr>) (w_db (tm_w s)) = Some (w_db w1)"
      by (cases rule: sql_exec_cases) auto
    then have "w_db w1 = (w_db (tm_w s))\<lparr>tracks := ts\<rparr>"
      unfolding update_track_def Let_def ts_def [symmetric] by (simp split: if_splits)
    then have w1: "tracks (w_db w1) = ts" by simp
    have "t_path t = arc" if "t \<in> set ts" "t_sha t = h" for t
    proof -
      from that(1) obtain x where x: "t = (if t_sha x = h then x\<lparr>t_path := arc, t_last_seen := now\<rparr> else x)"
        unfolding ts_def by (elim imageE set_map [THEN equalityD1, THEN subsetD, THEN imageE])
      with that(2) show ?thesis by (cases "t_sha x = h") simp_all
    qed
    then show ?thesis unfolding w1 by blast
  qed
  moreover have "tracks (w_db w2) = tracks (w_db w1)"
    using b by (cases rule: sql_exec_cases)
      (auto simp: upsert_residency_with_transcode_def upsert_residency_transcode_def put_residency_def Let_def split: if_splits)
  ultimately show "\<forall>t \<in> set (tracks (w_db (tm_w s'))). t_sha t = h \<longrightarrow> t_path t = arc" using ok(4) by simp
qed

text \<open>C36: what a step of transcode-migrate does when a file already stands at the archive twin. Whatever the file there
  holds (it need not be the same inode, or the same audio), and whatever calls and statements fail: if the step
  counts a migration, it reports success, the resident file is gone, the file at the twin is as it was, the row of the
  track now names it, and every file but the resident one and the encoded copy keeps its bytes. So a resident file whose
  bytes differ from those of the twin is at neither name any more. The hypotheses: the encoder changes only its output, and no
  call reports a file that is there as missing.\<close>

theorem transcode_migrate_destroys:
  assumes "fs_wf (tm_fs s)" "encoder_ok F" "encoder_keeps_faults F" "no_false_enoent (tm_fs s)"
    and arc: "swap_segment_simple cur ''resident'' ''archive'' = Some arc" and ext: "transcode_dst_ext tc = Some ext"
    and cur: "fs_content (tm_fs s) cur = Some c" and twin: "fs_content (tm_fs s) arc = Some x"
    and run: "tm_migrate_one F tc doit now h cur s = (rc, s')" "tm_migrated s' = tm_migrated s + 1"
  shows "rc = 0 \<and> tm_errors s' = tm_errors s \<and> fs_content (tm_fs s') cur = None \<and> fs_content (tm_fs s') arc = Some x \<and>
    (\<forall>t \<in> set (tracks (w_db (tm_w s'))). t_sha t = h \<longrightarrow> t_path t = arc) \<and>
    (\<forall>q b. q \<notin> {cur, path_with_ext cur ext} \<and> fs_content (tm_fs s) q = Some b \<longrightarrow> fs_content (tm_fs s') q = Some b)"
proof -
  let ?tp = "path_with_ext cur ext" and ?s = "s\<lparr>tm_planned := tm_planned s + 1\<rparr>"
  have reg: "is_reg (tm_fs s) arc" "is_reg (tm_fs s) cur"
    using twin cur by (auto simp: is_reg_def fs_content_def fs_inode_def split: option.splits node.splits)
  have "\<not> is_reg (tm_fs s) ?tp" using run arc ext reg by (auto simp: tm_migrate_one_def Let_def)
  then have new: "cur \<noteq> ?tp" "tm_encode F tc now h cur arc ?tp False ?s = (rc, s')"
    using run arc ext reg by (auto simp: tm_migrate_one_def tm_apply_def Let_def split: if_splits)
  obtain m f1 where m: "tm_mkparents ?tp (tm_fs s) = (m, f1)" by fastforce
  obtain trc lvl f where e: "transcode_audio F cur ?tp tc f1 = (trc, lvl, f)" by (metis surj_pair)
  have drop: "tm_drop tc now h cur arc ?tp (file_size f ?tp) (tm_set_fs f ?s) = (rc, s')"
    using new(2) m e run(2) by (auto simp: tm_encode_def tm_set_fs_def split: option.splits if_splits)
  obtain r f' where u: "sys_unlink cur f = (r, f')" by fastforce
  have rec: "tm_record tc now h arc ?tp (file_size f ?tp) (tm_set_fs f' (tm_set_fs f ?s)) = (rc, s')" and r: "r \<in> {None, Some ENOENT}"
    using drop u run(2) by (auto simp: tm_drop_def Let_def tm_set_fs_def split: if_splits)
  note recorded = tm_record_done [OF rec]
  have "spare.step (\<lambda>q. q = ?tp) (tm_fs s) f1" using m spare_tm_mkdirs by (simp add: tm_mkparents_def)
  then have st: "spare.step (\<lambda>q. q = ?tp) (tm_fs s) f" using spare_encode [OF e assms(2)] by (rule spare.step_trans) simp
  have kept: "fs_content f q = Some b" if "q \<noteq> ?tp" "fs_content (tm_fs s) q = Some b" for q b
    using st that assms(1) by (auto simp: spare.step_def kept_but_def)
  have "no_false_enoent f1" using m tm_mkdirs_faults assms(4) unfolding tm_mkparents_def by blast
  from unlink_present [OF u transcode_faults [OF e assms(3) this] kept [OF new(1) cur] r]
  have gone: "fs_content f' cur = None" .
  have rest: "fs_content f' q = Some b" if "q \<notin> {cur, ?tp}" "fs_content (tm_fs s) q = Some b" for q b
    using that kept [of q b] unlink_content [OF u, of q] by simp
  have "fs_content f' arc = Some x" using rest [OF _ twin] archive_twin [OF arc, of ext] by simp
  with gone rest recorded run(2) show ?thesis by (simp add: tm_set_fs_def)
qed

lemma touch_env_faults: "encoder_keeps_faults touch_env"
proof -
  have "no_false_enoent f'" if "sys_create_excl p f = (r, f')" "no_false_enoent f" for p f r f'
    using that unfolding sys_create_excl_def injected_def no_false_enoent_def put_node_def
    by (cases "fs_faults f") (auto split: option.splits if_splits)
  then show ?thesis
    by (auto simp: encoder_keeps_faults_def touch_env_def touch_encoder_def split: prod.splits option.splits)
qed

text \<open>In this run the bytes of the resident file are nowhere any more.\<close>

lemma transcode_migrate_destroys_witness:
  "\<exists>s. transcode_migrate_cmd touch_env config_default None 0 True ''now'' clash_world = (0, s) \<and>
     fs_content (w_fs clash_world) ''/m/resident/a.flac'' = Some ''new'' \<and> fs_content (tm_fs s) ''/m/resident/a.flac'' = None \<and>
     fs_content (tm_fs s) ''/m/archive/a.flac'' = Some ''old'' \<and> (\<forall>p. fs_content (tm_fs s) p \<noteq> Some ''new'')"
proof -
  have fs: "tm_fs (tm_init clash_world) = clash_fs" "tm_migrated (tm_init clash_world) = 0" "w_fs clash_world = clash_fs"
    by (simp_all add: tm_init_def clash_world_def)
  have p: "swap_segment_simple ''/m/resident/a.flac'' ''resident'' ''archive'' = Some ''/m/archive/a.flac''"
    "transcode_dst_ext opus_cfg = Some ''.opus''" by code_simp+
  have "tm_migrate_one touch_env opus_cfg True ''now'' ''h'' ''/m/resident/a.flac'' (tm_init clash_world) = (0, snd clash_end)"
    using clash_end_view(1) by (simp add: clash_end_def prod_eq_iff)
  from transcode_migrate_destroys [OF _ touch_env_ok touch_env_faults _ p _ _ this] clash_end_view(3) clash_content clash_wf fs
  have "fs_content (tm_fs (snd clash_end)) ''/m/resident/a.flac'' = None \<and> fs_content (tm_fs (snd clash_end)) ''/m/archive/a.flac'' = Some ''old''"
    by (simp add: no_false_enoent_def clash_fs_def)
  moreover have "fs_content (tm_fs (snd clash_end)) p \<noteq> Some ''new''" for p
    by (auto simp: fs_content_def fs_inode_def fs_get_def file_data_def clash_end_view)
  ultimately show ?thesis using clash_run clash_content(1) fs(3) by auto
qed

text \<open>The encoder has run, the unlink of the resident file fails.\<close>

definition failing_state :: tm_state where
  "failing_state = tm_init \<lparr>w_db = empty_db\<lparr>tracks := [sample_track ''h'' ''/m/resident/b.flac'']\<rparr>,
     w_fs = \<lparr>fs_nodes = [(''/m'', Dir), (''/m/resident'', Dir), (''/m/resident/b.flac'', Reg 0)], fs_data = [(0, ''abc'')],
       fs_next = 1, fs_faults = replicate 8 None @ [Some EIO]\<rparr>, w_sql = [], w_txn = None\<rparr>"

lemma failing_facts:
  "swap_segment_simple ''/m/resident/b.flac'' ''resident'' ''archive'' = Some ''/m/archive/b.flac''"
  "fs_content (tm_fs failing_state) ''/m/archive/b.flac'' = None"
  "fs_content (tm_fs failing_state) ''/m/resident/b.flac'' = Some ''abc''"
  by code_simp+

lemma failing_wf: "fs_wf (tm_fs failing_state)"
  by (auto simp: fs_wf_def fs_inode_def fs_get_def failing_state_def tm_init_def split: if_splits)

lemma transcode_migrate_keeps_audio_witness:
  "\<exists>q. q \<in> {''/m/resident/b.flac'', ''/m/archive/b.flac''} \<and> fs_content (tm_fs (snd (tm_migrate_one touch_env opus_cfg True ''now'' ''h''
     ''/m/resident/b.flac'' failing_state))) q = Some ''abc''"
proof -
  have "\<forall>arc. swap_segment_simple ''/m/resident/b.flac'' ''resident'' ''archive'' = Some arc \<longrightarrow>
      fs_content (tm_fs failing_state) arc \<in> {None, fs_content (tm_fs failing_state) ''/m/resident/b.flac''}"
    unfolding failing_facts(1) using failing_facts(2) by blast
  from transcode_migrate_keeps_audio [OF failing_wf touch_env_ok failing_facts(3) this, of opus_cfg True "''now''" "''h''"]
  show ?thesis unfolding failing_facts(1) by blast
qed

section \<open>transcode-level replaces copies only\<close>

lemma spare_rename:
  assumes "sys_rename a b s = (r, s')" "L a" "L b"
  shows "spare.step L s s'"
  using assms(1)
proof (cases rule: sys_rename_cases)
  case (fail e)
  then show ?thesis by (simp add: spare.step_same)
next
  case (same n)
  then show ?thesis by (simp add: spare.step_same)
next
  case (ok s0 n)
  have get: "fs_get s' q = (if q = a then None else if q = b then Some n else fs_get s q)" for q
    using ok by (simp add: get_del_node get_put_node same_tree_get)
  have d: "file_data s' = file_data s" "fs_next s' = fs_next s"
    using ok(2) by (simp_all add: ok(6) del_node_def put_node_def fun_eq_iff file_data_def same_tree_def)
  have "fs_wf s'" if "fs_wf s"
    unfolding fs_wf_def
  proof (intro allI impI)
    fix q i assume "fs_inode s' q = Some i"
    then have "fs_inode s a = Some i \<or> fs_inode s q = Some i"
      using ok(3) by (auto simp: fs_inode_def get split: if_splits)
    with that d show "i < fs_next s'" by (auto simp: fs_wf_def)
  qed
  moreover have "kept_but L s s'"
    using assms(2,3) d by (auto simp: kept_but_def fs_content_def fs_inode_def get)
  ultimately show ?thesis by (simp add: spare.step_def)
qed

lemma lv_simps [simp]: "lv_fs (lv_set_fs f s) = f" "lv_fs (lv_error s) = lv_fs s"
  by (simp_all add: lv_set_fs_def lv_error_def)

lemma level_replace_step:
  assumes "encoder_ok F" "L tmp" "L dst"
  shows "spare.step L (lv_fs s) (lv_fs (level_replace F tc h src dst tmp s))"
proof -
  obtain rc res f1 where e: "transcode_audio F src tmp tc (lv_fs s) = (rc, res, f1)" by (metis surj_pair)
  obtain u f2 where u: "sys_unlink tmp f1 = (u, f2)" by fastforce
  obtain r f3 where r: "sys_rename tmp dst f1 = (r, f3)" by fastforce
  obtain u' f4 where u': "sys_unlink tmp f3 = (u', f4)" by fastforce
  have f1: "spare.step L (lv_fs s) f1" by (rule spare_encode [where L = L and dst = tmp, OF e assms(1,2)])
  have f2: "spare.step L (lv_fs s) f2" by (rule spare.step_trans [OF f1 spare.step_unlink [where L = L, OF assms(2) u]])
  have f3: "spare.step L (lv_fs s) f3" by (rule spare.step_trans [OF f1 spare_rename [OF r assms(2,3)]])
  have f4: "spare.step L (lv_fs s) f4" by (rule spare.step_trans [OF f3 spare.step_unlink [where L = L, OF assms(2) u']])
  obtain b w where q: "sql_exec (level_record h (file_size f1 tmp) res) (lv_w (lv_set_fs f3 s)) = (b, w)" by fastforce
  from sql_exec_fs [OF q] have "w_fs w = f3" by simp
  with e u r u' q f2 f3 f4 show ?thesis
    by (cases r) (auto simp: level_replace_def Let_def)
qed

definition level_target :: "path \<Rightarrow> (sha \<times> path \<times> path \<times> string option) list \<Rightarrow> path \<Rightarrow> bool" where
  "level_target tmpdir rows q \<longleftrightarrow> (\<exists>t. q = tmpdir @ [slash] @ t) \<or> (\<exists>h src fmt. (h, src, q, fmt) \<in> set rows)"

lemma level_one_step:
  assumes "encoder_ok F" "x \<in> set rows"
  shows "spare.step (level_target tmpdir rows) (lv_fs s) (lv_fs (level_one F tc doit tmpdir x s))"
proof -
  obtain h src dst fmt where x: "x = (h, src, dst, fmt)" by (metis surj_pair)
  have "level_target tmpdir rows (temp_path_for tmpdir h dst)" "level_target tmpdir rows dst"
    using assms(2) x by (auto simp: level_target_def temp_path_for_def Let_def)
  with level_replace_step [OF assms(1) this, of "s\<lparr>lv_planned := lv_planned s + 1\<rparr>" tc h src] x show ?thesis
    by (simp add: level_one_def Let_def)
qed

lemma prepare_step:
  assumes "prepare_tmp_dir dir s = (b, s')" "length dir < 4095" "\<And>t. L (dir @ [slash] @ t)"
  shows "spare.step L s s'"
proof -
  obtain r s1 where m: "sys_mkdir dir s = (r, s1)" by fastforce
  have "files_kept s s1 \<and> (fs_wf s \<longrightarrow> fs_wf s1)"
    using sys_mkdir_files [OF m] wf_inode_same by (metis files_kept_def)
  then have 1: "spare.step L s s1" by (auto intro: spare.stepI)
  have l: "L (take 4095 (dir @ [slash] @ name))" for name
    using assms(3) [of "take (4095 - Suc (length dir)) name"] assms(2) by (simp add: take_Cons')
  have "spare.step L s1 (fold (\<lambda>name s. if dot_name name then s else snd (sys_unlink (take 4095 (dir @ [slash] @ name)) s)) xs s1)" for xs
  proof (rule spare.step_fold)
    fix name s
    show "spare.step L s (if dot_name name then s else snd (sys_unlink (take 4095 (dir @ [slash] @ name)) s))"
      using spare.step_unlink [where L = L and s = s, OF l [of name]] by (cases "sys_unlink (take 4095 (dir @ [slash] @ name)) s") simp
  qed
  with assms(1) m spare.step_trans [OF 1] 1 show ?thesis
    by (auto simp: prepare_tmp_dir_def split: if_splits)
qed

text \<open>Transcode-level touches nothing but the copies it replaces. Whatever system calls, statements or the
  encoder fail, every file that is neither in the temporary directory nor the copy of a selected row keeps
  its bytes: the masters below \<open>archive/\<close> in particular, and the copies of all other tracks.\<close>

theorem transcode_level_keeps_rest:
  assumes "fs_wf (w_fs w)" "encoder_ok F" "c_library_root cfg = Some lib" "length lib < 4000"
    and "fs_content (w_fs w) p = Some c"
    and "\<not> level_target (lib @ [slash] @ TMP_DIR_NAME) (level_rows (w_db w)) p"
  shows "fs_content (lv_fs (snd (transcode_level_cmd F cfg doit w))) p = Some c"
proof -
  let ?tmp = "lib @ [slash] @ TMP_DIR_NAME" and ?rows = "level_rows (w_db w)"
  let ?L = "level_target ?tmp ?rows"
  have tmp: "take 4095 ?tmp = ?tmp" "length ?tmp < 4095" using assms(4) by (simp_all add: TMP_DIR_NAME_def)
  have fold: "spare.step ?L (lv_fs s) (lv_fs (fold (level_one F (level_cfg cfg) doit ?tmp) xs s))" if "set xs \<subseteq> set ?rows" for xs s
    using that
  proof (induction xs arbitrary: s)
    case (Cons x xs)
    from Cons.prems have "spare.step ?L (lv_fs s) (lv_fs (level_one F (level_cfg cfg) doit ?tmp x s))"
      by (intro level_one_step [OF assms(2)]) simp
    with Cons show ?case using spare.step_trans by fastforce
  qed simp
  obtain b f where p: "(if doit then prepare_tmp_dir ?tmp (w_fs w) else (True, w_fs w)) = (b, f)" by fastforce
  have "spare.step ?L (w_fs w) f"
  proof (cases doit)
    case True
    with p have "prepare_tmp_dir ?tmp (w_fs w) = (b, f)" by simp
    then show ?thesis by (rule prepare_step) (use tmp in \<open>auto simp: level_target_def\<close>)
  qed (use p in simp)
  moreover from this fold [of ?rows "lv_set_fs f (lv_init w)"]
  have "spare.step ?L (w_fs w) (lv_fs (fold (level_one F (level_cfg cfg) doit ?tmp) ?rows (lv_set_fs f (lv_init w))))"
    using spare.step_trans by fastforce
  ultimately have "spare.step ?L (w_fs w) (lv_fs (snd (transcode_level_cmd F cfg doit w)))"
    using p tmp(1) assms(3) by (auto simp: transcode_level_cmd_def Let_def lv_init_def)
  with assms(1,5,6) show ?thesis by (simp add: spare.step_def kept_but_def)
qed

definition level_world :: world where
  "level_world = \<lparr>w_db = empty_db\<lparr>tracks := [sample_track ''h'' ''/m/archive/a.flac''],
     residency_state := [\<lparr>rs_sha = ''h'', rs_loc = Resident, rs_updated = [], rs_tpath = Some ''/m/resident/a.opus'', rs_tsize = Some 3,
       rs_tformat = Some ''opus'', rs_gain = None, rs_lufs = None\<rparr>]\<rparr>, w_fs = clash_fs, w_sql = [], w_txn = None\<rparr>"

lemma transcode_level_keeps_rest_witness:
  "fs_content (lv_fs (snd (transcode_level_cmd touch_env (config_default\<lparr>c_library_root := Some ''/m'', c_transcode_level := -18\<rparr>)
     True level_world))) ''/m/archive/a.flac'' = Some ''old''"
proof -
  have rows: "level_rows (w_db level_world) = [(''h'', ''/m/archive/a.flac'', ''/m/resident/a.opus'', Some ''opus'')]" by code_simp
  have fs: "w_fs level_world = clash_fs" by (simp add: level_world_def)
  have "\<not> level_target (''/m'' @ [slash] @ TMP_DIR_NAME) (level_rows (w_db level_world)) ''/m/archive/a.flac''"
    unfolding rows by (simp add: level_target_def TMP_DIR_NAME_def)
  moreover have "fs_content clash_fs ''/m/archive/a.flac'' = Some ''old''" by code_simp
  ultimately show ?thesis
    by (intro transcode_level_keeps_rest [where lib = "''/m''"]) (simp_all add: fs clash_wf touch_env_ok)
qed

end
