(* ===== verification/Catalog.thy ===== *)
theory Catalog
  imports Ingest Emit AtomicIo Diff
begin

text \<open>
  The catalog and the published files: \<open>catalog.c\<close> (the JSON tree of the tracks and its import) and \<open>publish.c\<close>
  (catalog and manifest written to the shared directory). The JSON library is a parameter: its parser, its two
  renderings (one of them as the pieces it hands to the stream), and which byte strings \<open>json_string\<close> accepts:
  it refuses those that are not UTF-8, and setting or appending a refused value does nothing. Where several
  scans have the same time SQLite may return any of their roots; here it is the first.
\<close>

record catalog_env =
  ce_loads :: "string \<Rightarrow> json option"
  ce_dumps :: "json \<Rightarrow> string"
  ce_dumpf :: "json \<Rightarrow> string list"
  ce_utf8 :: "string \<Rightarrow> bool"
  ce_now :: string

text \<open>\<open>JSON_SORT_KEYS\<close>.\<close>

fun json_sorted :: "json \<Rightarrow> json" where
  "json_sorted (JObject fs) = JObject (sort_key fst (map (\<lambda>(k, v). (k, json_sorted v)) fs))"
| "json_sorted (JArray xs) = JArray (map json_sorted xs)"
| "json_sorted j = j"

section \<open>Emit\<close>

definition latest :: "scan_meta_row \<Rightarrow> scan_meta_row option \<Rightarrow> scan_meta_row option" where
  "latest r m = (case m of None \<Rightarrow> Some r | Some x \<Rightarrow> if sm_last x < sm_last r then Some r else Some x)"

definition load_library_root :: "db \<Rightarrow> path option" where
  "load_library_root d = map_option sm_root (fold latest (scan_meta d) None)"

definition json_str :: "catalog_env \<Rightarrow> string \<Rightarrow> json option" where
  "json_str E s = (if ce_utf8 E s then Some (JString s) else None)"

text \<open>\<open>json_object_set_new\<close> for different keys in turn, and \<open>json_array_append_new\<close>.\<close>

definition set_fields :: "(string \<times> json option) list \<Rightarrow> json" where
  "set_fields kvs = JObject [(k, j). (k, v) \<leftarrow> kvs, j \<leftarrow> (case v of None \<Rightarrow> [] | Some j \<Rightarrow> [j])]"

definition append_all :: "json option list \<Rightarrow> json" where
  "append_all vs = JArray [j. v \<leftarrow> vs, j \<leftarrow> (case v of None \<Rightarrow> [] | Some j \<Rightarrow> [j])]"

definition try_parse_json_str_array :: "catalog_env \<Rightarrow> string \<Rightarrow> json list option" where
  "try_parse_json_str_array E s = (if take 1 s \<noteq> ''['' then None else case ce_loads E s of
     Some (JArray xs) \<Rightarrow> Some xs | _ \<Rightarrow> None)"

definition as_json_array :: "catalog_env \<Rightarrow> string option \<Rightarrow> json" where
  "as_json_array E so = (case so of None \<Rightarrow> JArray [] | Some s \<Rightarrow>
     if s = [] then JArray [] else case try_parse_json_str_array E s of
       Some xs \<Rightarrow> JArray xs
     | None \<Rightarrow> append_all [json_str E s])"

definition has_number :: "string \<Rightarrow> bool" where
  "has_number s \<longleftrightarrow> takeWhile digit (snd (take_sign (dropWhile isspace s))) \<noteq> []"

definition as_json_track_int :: "string option \<Rightarrow> json" where
  "as_json_track_int so = (case so of None \<Rightarrow> JNull | Some s \<Rightarrow>
     if \<not> has_number s then JNull else JInteger (atoll s))"

text \<open>\<open>strncmp\<close> looks at no boundary after the prefix.\<close>

definition make_relative :: "path \<Rightarrow> path option \<Rightarrow> path" where
  "make_relative p prefix = (case prefix of None \<Rightarrow> p | Some r \<Rightarrow>
     if r = [] then p else case strip_prefix r p of None \<Rightarrow> p | Some t \<Rightarrow> dropWhile (\<lambda>c. c = slash) t)"

definition str_or_null :: "catalog_env \<Rightarrow> string option \<Rightarrow> json option" where
  "str_or_null E so = (case so of None \<Rightarrow> Some JNull | Some s \<Rightarrow> json_str E s)"

definition catalog_track :: "catalog_env \<Rightarrow> path option \<Rightarrow> track \<times> residency option \<Rightarrow> json" where
  "catalog_track E lib = (\<lambda>(t, r).
     (let tpath = Option.bind r rs_tpath;
          emit_path = (case tpath of Some p \<Rightarrow> p | None \<Rightarrow> t_path t);
          emit_size = (if tpath = None then t_size t else (case Option.bind r rs_tsize of None \<Rightarrow> 0 | Some n \<Rightarrow> n));
          emit_fmt = (if tpath = None then t_format t else Option.bind r rs_tformat)
      in set_fields [(''id'', json_str E (t_sha t)), (''path'', json_str E (make_relative emit_path lib)),
           (''title'', str_or_null E (t_title t)), (''artist'', Some (as_json_array E (t_artist t))),
           (''album'', str_or_null E (t_album t)), (''album_artist'', Some (as_json_array E (t_album_artist t))),
           (''track'', Some (as_json_track_int (t_track_number t))), (''disc'', Some (as_json_track_int (t_disc_number t))),
           (''year'', Some (as_json_track_int (t_year t))), (''genre'', Some (as_json_array E (t_genre t))),
           (''duration_ms'', Some (case t_duration_ms t of None \<Rightarrow> JNull | Some n \<Rightarrow> JInteger n)),
           (''size_bytes'', Some (JInteger emit_size)), (''format'', str_or_null E emit_fmt),
           (''mtime_ns'', Some (JInteger (t_mtime_ns t))), (''date_added'', json_str E (t_date_added t))]))"

definition catalog_rows :: "db \<Rightarrow> (track \<times> residency option) list" where
  "catalog_rows d = map (\<lambda>t. (t, find_residency (t_sha t) d)) (sort_key t_sha (tracks d))"

definition catalog_tree :: "catalog_env \<Rightarrow> db \<Rightarrow> json" where
  "catalog_tree E d = set_fields [(''v'', Some (JInteger 1)), (''generated_at'', json_str E (ce_now E)),
     (''tracks'', Some (JArray (map (catalog_track E (load_library_root d)) (catalog_rows d))))]"

text \<open>\<open>json_dumpf\<close> with sorted keys: it stops at the first piece the stream does not take.\<close>

fun put_pieces :: "nat \<Rightarrow> string list \<Rightarrow> atomic_writer \<Rightarrow> fs \<Rightarrow> bool \<times> atomic_writer \<times> fs" where
  "put_pieces cap [] w s = (True, w, s)"
| "put_pieces cap (p # ps) w s = (case stream_put cap p w s of
     (True, w, s) \<Rightarrow> put_pieces cap ps w s
   | (False, w, s) \<Rightarrow> (False, w, s))"

definition json_dumpf :: "catalog_env \<Rightarrow> nat \<Rightarrow> json \<Rightarrow> atomic_writer \<Rightarrow> fs \<Rightarrow> bool \<times> atomic_writer \<times> fs" where
  "json_dumpf E cap j = put_pieces cap (ce_dumpf E (json_sorted j))"

definition catalog_emit :: "catalog_env \<Rightarrow> nat \<Rightarrow> db \<Rightarrow> atomic_writer \<Rightarrow> fs \<Rightarrow> bool \<times> atomic_writer \<times> fs" where
  "catalog_emit E cap d = json_dumpf E cap (catalog_tree E d)"

section \<open>Import\<close>

definition json_str_or_null :: "json \<Rightarrow> string \<Rightarrow> string option" where
  "json_str_or_null j k = get_string j k"

definition array_to_storage :: "catalog_env \<Rightarrow> json option \<Rightarrow> string option" where
  "array_to_storage E a = (case a of
     Some (JArray xs) \<Rightarrow>
       (case xs of [] \<Rightarrow> None | [x] \<Rightarrow> (case x of JString s \<Rightarrow> Some s | _ \<Rightarrow> None) | _ \<Rightarrow> Some (ce_dumps E (JArray xs)))
   | _ \<Rightarrow> None)"

text \<open>The numbers go through a buffer of 16 bytes, the path through one of 4096.\<close>

definition int_to_storage :: "json \<Rightarrow> string \<Rightarrow> string option" where
  "int_to_storage j k = map_option (\<lambda>n. take 15 (show_int n)) (get_int j k)"

definition import_path :: "path option \<Rightarrow> path \<Rightarrow> path" where
  "import_path lib rel = take 4095 (case lib of
     Some r \<Rightarrow> if take 1 r = [slash] then r @ [slash] @ rel else rel | None \<Rightarrow> rel)"

definition import_row :: "catalog_env \<Rightarrow> path option \<Rightarrow> json \<Rightarrow> string \<Rightarrow> path \<Rightarrow> string \<Rightarrow> track_row" where
  "import_row E lib j h rel added =
     \<lparr>r_sha = Some h, r_path = Some (import_path lib rel),
      r_mtime_ns = (case get_int j ''mtime_ns'' of None \<Rightarrow> 0 | Some n \<Rightarrow> n),
      r_size = (case get_int j ''size_bytes'' of None \<Rightarrow> 0 | Some n \<Rightarrow> n),
      r_format = json_str_or_null j ''format'', r_title = json_str_or_null j ''title'',
      r_artist = array_to_storage E (json_object_get j ''artist''), r_album = json_str_or_null j ''album'',
      r_album_artist = array_to_storage E (json_object_get j ''album_artist''),
      r_track_number = int_to_storage j ''track'', r_disc_number = int_to_storage j ''disc'',
      r_year = int_to_storage j ''year'', r_genre = array_to_storage E (json_object_get j ''genre''),
      r_duration_ms = (case get_int j ''duration_ms'' of None \<Rightarrow> -1 | Some n \<Rightarrow> n),
      r_tags_status = Some ''ok'', r_tag_warning = None,
      r_date_added = Some added, r_last_seen = added\<rparr>"

text \<open>Without a date the seen mark is \<open>NULL\<close>, which the schema refuses: the statement fails.\<close>

definition import_one :: "catalog_env \<Rightarrow> path option \<Rightarrow> json \<Rightarrow> int \<times> world \<Rightarrow> int \<times> world" where
  "import_one E lib j = (\<lambda>(n, w). case j of
     JObject fs \<Rightarrow> (case (json_str_or_null j ''id'', json_str_or_null j ''path'') of
         (Some h, Some rel) \<Rightarrow> (case json_str_or_null j ''date_added'' of
             None \<Rightarrow> (n, snd (sql_exec (\<lambda>d. None) w))
           | Some added \<Rightarrow> (case track_repo_upsert (import_row E lib j h rel added) w of
               (rc, w) \<Rightarrow> (if rc = 0 then n + 1 else n, w)))
       | _ \<Rightarrow> (n, w))
   | _ \<Rightarrow> (n, w))"

definition catalog_import :: "catalog_env \<Rightarrow> string \<Rightarrow> world \<Rightarrow> int \<times> world" where
  "catalog_import E text w = (case ce_loads E text of
     None \<Rightarrow> (-1, w)
   | Some j \<Rightarrow> if get_int j ''v'' \<noteq> Some 1 then (-1, w)
       else case json_object_get j ''tracks'' of
         Some (JArray xs) \<Rightarrow> fold (import_one E (load_library_root (w_db w))) xs (0, w)
       | _ \<Rightarrow> (-1, w))"

section \<open>Publish\<close>

definition meta_long :: "db \<Rightarrow> string \<Rightarrow> int \<Rightarrow> int" where
  "meta_long d k fallback = (case find_row fst k (manifest_meta d) of None \<Rightarrow> fallback | Some kv \<Rightarrow> atoll (snd kv))"

text \<open>\<open>strtok\<close> skips empty tokens.\<close>

definition strtok_csv :: "string \<Rightarrow> string list" where
  "strtok_csv csv = filter (\<lambda>t. t \<noteq> []) (csv_split csv)"

definition manifest_entry :: "catalog_env \<Rightarrow> manifest_row \<Rightarrow> json" where
  "manifest_entry E r = set_fields [(''id'', json_str E (mf_sha r)),
     (''buckets'', Some (append_all (map (json_str E) (strtok_csv (mf_buckets r)))))]"

definition load_manifest_tree :: "catalog_env \<Rightarrow> db \<Rightarrow> json option" where
  "load_manifest_tree E d = (if manifest_current d = [] then None
     else Some (set_fields [(''v'', Some (JInteger 1)), (''generated_at'', json_str E (ce_now E)),
       (''cap_bytes'', Some (JInteger (meta_long d ''cap_bytes'' 0))),
       (''used_bytes'', Some (JInteger (meta_long d ''used_bytes'' 0))),
       (''resident'', Some (JArray (map (manifest_entry E) (sort_key mf_sha (manifest_current d)))))]))"

text \<open>One file: opened, filled by \<open>emit\<close>, committed or aborted.\<close>

definition publish_file :: "nat \<Rightarrow> (atomic_writer \<Rightarrow> fs \<Rightarrow> bool \<times> atomic_writer \<times> fs) \<Rightarrow> path \<Rightarrow> fs \<Rightarrow> bool \<times> fs" where
  "publish_file pid emit p s = (case atomic_writer_open pid p s of
     (None, s) \<Rightarrow> (False, s)
   | (Some w, s) \<Rightarrow> (case emit w s of
       (False, w, s) \<Rightarrow> (False, atomic_writer_abort w s)
     | (True, w, s) \<Rightarrow> (case atomic_writer_commit w s of (r, s) \<Rightarrow> (r = None, s))))"

definition publish_run :: "catalog_env \<Rightarrow> nat \<Rightarrow> nat \<Rightarrow> db \<Rightarrow> path \<Rightarrow> fs \<Rightarrow> int \<times> fs" where
  "publish_run E pid cap d out_dir s = (case paths_mkdir_p out_dir s of
     (Some e, s) \<Rightarrow> (-1, s)
   | (None, s) \<Rightarrow> (case load_manifest_tree E d of
       None \<Rightarrow> (-1, s)
     | Some m \<Rightarrow>
         (case publish_file pid (catalog_emit E cap d) (take 4095 (out_dir @ ''/catalog.json'')) s of
            (False, s) \<Rightarrow> (-1, s)
          | (True, s) \<Rightarrow> (case publish_file pid (json_dumpf E cap m) (take 4095 (out_dir @ ''/manifest.json'')) s of
              (ok, s) \<Rightarrow> (if ok then 0 else -1, s)))))"

end
