(* ===== verification/CatalogProps.thy ===== *)
theory CatalogProps
  imports Catalog RotateFs
begin

text \<open>
  What the catalogue keeps: the import of a catalogue gives an explicit normal form of every row, and rows in
  a portable form come back in every field.
\<close>

section \<open>Reading a built object\<close>

lemma map_of_filter: "map_of xs k = (case filter (\<lambda>x. fst x = k) xs of [] \<Rightarrow> None | x # _ \<Rightarrow> Some (snd x))"
  by (induction xs) (auto split: list.splits)

lemma map_of_sort: "map_of (sort_key fst xs) k = map_of xs k"
  unfolding map_of_filter [of "sort_key fst xs"] map_of_filter [of xs] sort_key_stable ..

lemma get_sorted: "json_object_get (json_sorted j) k = map_option json_sorted (json_object_get j k)"
  by (cases j) (simp_all add: map_of_sort map_of_map)

lemma get_fields [simp]:
  "json_object_get (set_fields []) k = None"
  "json_object_get (set_fields ((k', v) # kvs)) k =
     (if k' = k \<and> v \<noteq> None then v else json_object_get (set_fields kvs) k)"
  by (auto simp: set_fields_def split: option.split)

section \<open>Portable rows\<close>

definition plain_ok :: "catalog_env \<Rightarrow> string option \<Rightarrow> bool" where
  "plain_ok E so = (case so of None \<Rightarrow> True | Some s \<Rightarrow> ce_utf8 E s)"

text \<open>A list column: absent, a bare value, or the rendering of an array of at least two strings.\<close>

definition list_ok :: "catalog_env \<Rightarrow> string option \<Rightarrow> bool" where
  "list_ok E so \<longleftrightarrow> so = None \<or>
     (\<exists>s. so = Some s \<and> s \<noteq> [] \<and> ce_utf8 E s \<and> try_parse_json_str_array E s = None) \<or>
     (\<exists>s x y xs. so = Some s \<and> s \<noteq> [] \<and> try_parse_json_str_array E s = Some (map JString (x # y # xs)) \<and>
        ce_dumps E (JArray (map JString (x # y # xs))) = s)"

definition number_ok :: "string option \<Rightarrow> bool" where
  "number_ok so \<longleftrightarrow> so = None \<or>
     (\<exists>n. so = Some (show_int n) \<and> - (2 ^ 63) \<le> n \<and> n < 2 ^ 63 \<and> length (show_int n) \<le> 15)"

definition portable :: "catalog_env \<Rightarrow> db \<Rightarrow> path \<Rightarrow> track \<Rightarrow> bool" where
  "portable E d lib t \<longleftrightarrow>
     (\<exists>rel. t_path t = lib @ [slash] @ rel \<and> take 1 rel \<noteq> [slash] \<and> ce_utf8 E rel) \<and> length (t_path t) \<le> 4095 \<and>
     Option.bind (find_residency (t_sha t) d) rs_tpath = None \<and>
     ce_utf8 E (t_sha t) \<and> ce_utf8 E (t_date_added t) \<and>
     plain_ok E (t_title t) \<and> plain_ok E (t_album t) \<and> plain_ok E (t_format t) \<and>
     list_ok E (t_artist t) \<and> list_ok E (t_album_artist t) \<and> list_ok E (t_genre t) \<and>
     number_ok (t_track_number t) \<and> number_ok (t_disc_number t) \<and> number_ok (t_year t) \<and>
     (\<forall>n. t_duration_ms t = Some n \<longrightarrow> 0 \<le> n) \<and>
     t_tags_status t = ''ok'' \<and> t_tag_warning t = None \<and> t_last_seen t = t_date_added t"

section \<open>The normal form\<close>

text \<open>What the catalogue and its import make of a column: a text that is not UTF-8 is lost, an array of one string
  becomes that string, an empty array nothing, a number is what \<open>atoll\<close> reads of it (\<open>5/12\<close> becomes \<open>5\<close>).\<close>

definition norm_str :: "catalog_env \<Rightarrow> string option \<Rightarrow> string option" where
  "norm_str E so = Option.bind so (\<lambda>s. if ce_utf8 E s then Some s else None)"

definition norm_list :: "catalog_env \<Rightarrow> string option \<Rightarrow> string option" where
  "norm_list E so = Option.bind so (\<lambda>s. if s = [] then None else case try_parse_json_str_array E s of
     None \<Rightarrow> if ce_utf8 E s then Some s else None
   | Some [] \<Rightarrow> None
   | Some [x] \<Rightarrow> (case x of JString v \<Rightarrow> Some v | _ \<Rightarrow> None)
   | Some xs \<Rightarrow> Some (ce_dumps E (JArray (map json_sorted xs))))"

definition norm_number :: "string option \<Rightarrow> string option" where
  "norm_number so = Option.bind so (\<lambda>s. if has_number s then Some (take 15 (show_int (atoll s))) else None)"

text \<open>The path a row is published under, and the row that its catalogue entry is imported as.\<close>

definition published_path :: "db \<Rightarrow> path option \<Rightarrow> track \<Rightarrow> path" where
  "published_path d lib t = make_relative
     (case Option.bind (find_residency (t_sha t) d) rs_tpath of Some p \<Rightarrow> p | None \<Rightarrow> t_path t) lib"

definition importable :: "catalog_env \<Rightarrow> db \<Rightarrow> path option \<Rightarrow> track \<Rightarrow> bool" where
  "importable E d lib t \<longleftrightarrow> ce_utf8 E (t_sha t) \<and> ce_utf8 E (published_path d lib t) \<and> ce_utf8 E (t_date_added t)"

definition catalog_norm :: "catalog_env \<Rightarrow> db \<Rightarrow> path option \<Rightarrow> track \<Rightarrow> track" where
  "catalog_norm E d lib t = (let r = find_residency (t_sha t) d; tpath = Option.bind r rs_tpath in
     \<lparr>t_sha = t_sha t, t_path = import_path lib (published_path d lib t), t_mtime_ns = t_mtime_ns t,
      t_size = (if tpath = None then t_size t else (case Option.bind r rs_tsize of None \<Rightarrow> 0 | Some n \<Rightarrow> n)),
      t_format = norm_str E (if tpath = None then t_format t else Option.bind r rs_tformat),
      t_title = norm_str E (t_title t), t_artist = norm_list E (t_artist t), t_album = norm_str E (t_album t),
      t_album_artist = norm_list E (t_album_artist t), t_track_number = norm_number (t_track_number t),
      t_disc_number = norm_number (t_disc_number t), t_year = norm_number (t_year t), t_genre = norm_list E (t_genre t),
      t_duration_ms = Option.bind (t_duration_ms t) (\<lambda>n. if n < 0 then None else Some n),
      t_tags_status = ''ok'', t_tag_warning = None, t_date_added = t_date_added t, t_last_seen = t_date_added t\<rparr>)"

lemma digits_start: "takeWhile digit (show_nat n) \<noteq> []"
  using show_nat_digits [of n] by (cases "show_nat n") auto

lemma number_fixed:
  assumes "number_ok so" shows "norm_number so = so"
proof (cases so)
  case (Some s)
  with assms obtain n where s: "s = show_int n" and n: "- (2 ^ 63) \<le> n" "n < 2 ^ 63" "length (show_int n) \<le> 15"
    by (auto simp: number_ok_def)
  have "has_number (show_int n)"
    using show_int_start [of n "[]"] digits_start by (simp add: has_number_def)
  moreover have "atoll (show_int n) = n" using atoll_show_int [OF n(1,2), of "[]"] by simp
  ultimately show ?thesis using Some s n(3) by (simp add: norm_number_def)
qed (simp add: norm_number_def)

lemma list_fixed: "list_ok E so \<Longrightarrow> norm_list E so = so"
  by (auto simp: list_ok_def norm_list_def comp_def)

lemma str_fixed: "plain_ok E so \<Longrightarrow> norm_str E so = so"
  by (simp add: plain_ok_def norm_str_def split: option.splits)

lemma portable_published:
  assumes "portable E d lib t" "take 1 lib = [slash]"
  shows "import_path (Some lib) (published_path d (Some lib) t) = t_path t" "ce_utf8 E (published_path d (Some lib) t)"
proof -
  obtain rel where rel: "t_path t = lib @ [slash] @ rel" "take 1 rel \<noteq> [slash]" "ce_utf8 E rel"
    using assms(1) by (auto simp: portable_def)
  have res: "Option.bind (find_residency (t_sha t) d) rs_tpath = None" and len: "length (t_path t) \<le> 4095"
    using assms(1) by (simp_all add: portable_def)
  have "lib \<noteq> []" using assms(2) by auto
  moreover have "dropWhile (\<lambda>c. c = slash) (slash # rel) = rel" using rel(2) by (cases rel) auto
  ultimately have "published_path d (Some lib) t = rel"
    using res rel(1) by (simp add: published_path_def make_relative_def strip_prefix_append)
  with assms(2) len rel(1,3) show "import_path (Some lib) (published_path d (Some lib) t) = t_path t"
    "ce_utf8 E (published_path d (Some lib) t)" by (simp_all add: import_path_def)
qed

lemma portable_fixed:
  assumes "portable E d lib t" "take 1 lib = [slash]"
  shows "importable E d (Some lib) t" "catalog_norm E d (Some lib) t = t"
proof -
  note p = portable_published [OF assms]
  show "importable E d (Some lib) t" using p assms(1) by (simp add: importable_def portable_def)
  have "Option.bind (t_duration_ms t) (\<lambda>n. if n < 0 then None else Some n) = t_duration_ms t"
    using assms(1) by (cases "t_duration_ms t") (auto simp: portable_def)
  then show "catalog_norm E d (Some lib) t = t"
    using assms(1) p by (simp add: catalog_norm_def Let_def portable_def number_fixed list_fixed str_fixed)
qed

section \<open>The import gives the normal form\<close>

lemma list_back: "array_to_storage E (Some (json_sorted (as_json_array E so))) = norm_list E so"
proof (cases so)
  case (Some s)
  show ?thesis
  proof (cases "try_parse_json_str_array E s")
    case None
    with Some show ?thesis
      by (simp add: as_json_array_def array_to_storage_def append_all_def json_str_def norm_list_def)
  next
    case p: (Some xs)
    have one: "(case json_sorted x of JString v \<Rightarrow> Some v | _ \<Rightarrow> None) = (case x of JString v \<Rightarrow> Some v | _ \<Rightarrow> None)" for x
      by (cases x) simp_all
    from p Some one show ?thesis
      by (cases xs rule: remdups_adj.cases) (simp_all add: as_json_array_def array_to_storage_def norm_list_def)
  qed
qed (simp add: as_json_array_def array_to_storage_def norm_list_def)

lemma number_back: "json_object_get j k = Some (as_json_track_int so) \<Longrightarrow> int_to_storage (json_sorted j) k = norm_number so"
  by (simp add: int_to_storage_def get_int_def get_sorted as_json_track_int_def norm_number_def split: option.split)

lemma str_back: "json_object_get j k = str_or_null E so \<Longrightarrow> json_str_or_null (json_sorted j) k = norm_str E so"
  by (simp add: norm_str_def str_or_null_def json_str_def json_str_or_null_def get_string_def get_sorted split: option.splits)

lemma string_back: "json_object_get j k = json_str E s \<Longrightarrow>
    json_str_or_null (json_sorted j) k = (if ce_utf8 E s then Some s else None)"
  by (simp add: json_str_or_null_def json_str_def get_string_def get_sorted)

lemma int_back: "json_object_get j k = Some (JInteger n) \<Longrightarrow> get_int (json_sorted j) k = Some n"
  by (simp add: get_int_def get_sorted)

lemma duration_back: "json_object_get j k = Some (case so of None \<Rightarrow> JNull | Some n \<Rightarrow> JInteger n) \<Longrightarrow> get_int (json_sorted j) k = so"
  by (simp add: get_int_def get_sorted split: option.split)

text \<open>What the emitted object of a row holds.\<close>

lemma track_fields:
  fixes E d lib t
  defines "r \<equiv> find_residency (t_sha t) d"
  defines "j \<equiv> catalog_track E lib (t, r)"
  shows "json_object_get j ''id'' = json_str E (t_sha t)" "json_object_get j ''path'' = json_str E (published_path d lib t)"
    "json_object_get j ''title'' = str_or_null E (t_title t)" "json_object_get j ''artist'' = Some (as_json_array E (t_artist t))"
    "json_object_get j ''album'' = str_or_null E (t_album t)"
    "json_object_get j ''album_artist'' = Some (as_json_array E (t_album_artist t))"
    "json_object_get j ''track'' = Some (as_json_track_int (t_track_number t))"
    "json_object_get j ''disc'' = Some (as_json_track_int (t_disc_number t))"
    "json_object_get j ''year'' = Some (as_json_track_int (t_year t))"
    "json_object_get j ''genre'' = Some (as_json_array E (t_genre t))"
    "json_object_get j ''duration_ms'' = Some (case t_duration_ms t of None \<Rightarrow> JNull | Some n \<Rightarrow> JInteger n)"
    "json_object_get j ''size_bytes'' = Some (JInteger
       (if Option.bind r rs_tpath = None then t_size t else (case Option.bind r rs_tsize of None \<Rightarrow> 0 | Some n \<Rightarrow> n)))"
    "json_object_get j ''format'' = str_or_null E (if Option.bind r rs_tpath = None then t_format t else Option.bind r rs_tformat)"
    "json_object_get j ''mtime_ns'' = Some (JInteger (t_mtime_ns t))"
    "json_object_get j ''date_added'' = json_str E (t_date_added t)"
  by (simp_all add: j_def catalog_track_def Let_def published_path_def r_def json_str_def str_or_null_def split: option.split)

lemma bind_import_row:
  "bind_row (import_row E lib (json_sorted (catalog_track E lib (t, find_residency (t_sha t) d)))
    (t_sha t) (published_path d lib t) (t_date_added t)) = catalog_norm E d lib t"
proof -
  let ?j = "catalog_track E lib (t, find_residency (t_sha t) d)"
  note F = track_fields [of E lib t d]
  have lists: "array_to_storage E (json_object_get (json_sorted ?j) ''artist'') = norm_list E (t_artist t)"
    "array_to_storage E (json_object_get (json_sorted ?j) ''album_artist'') = norm_list E (t_album_artist t)"
    "array_to_storage E (json_object_get (json_sorted ?j) ''genre'') = norm_list E (t_genre t)"
    by (simp_all only: get_sorted F(4,6,10) option.map list_back)
  note rest = F(7-9) [THEN number_back] F(3,5,13) [THEN str_back] F(12,14) [THEN int_back] F(11) [THEN duration_back]
  show ?thesis
    by (simp add: bind_row_def import_row_def catalog_norm_def Let_def lists rest split: option.split)
qed

lemma import_one_back:
  assumes "w_sql w = []" "t_sha t \<notin> track_shas (w_db w)"
    and "importable E d lib t \<Longrightarrow> t_path (catalog_norm E d lib t) \<notin> t_path ` set (tracks (w_db w))"
  shows "import_one E lib (json_sorted (catalog_track E lib (t, find_residency (t_sha t) d))) (n, w) =
    (if importable E d lib t then (n + 1, w\<lparr>w_db := (w_db w)\<lparr>tracks := tracks (w_db w) @ [catalog_norm E d lib t]\<rparr>\<rparr>) else (n, w))"
proof -
  let ?j = "catalog_track E lib (t, find_residency (t_sha t) d)"
  note F = track_fields [of E lib t d]
  let ?r = "import_row E lib (json_sorted ?j) (t_sha t) (published_path d lib t) (t_date_added t)"
  have obj: "\<exists>fs. json_sorted ?j = JObject fs" by (simp add: catalog_track_def set_fields_def Let_def)
  have rs: "r_sha ?r = Some (t_sha t)" "r_path ?r \<noteq> None" by (simp_all add: import_row_def)
  have sha: "t_sha (catalog_norm E d lib t) = t_sha t" by (simp add: catalog_norm_def Let_def)
  have "find_track (t_sha t) (w_db w) = None"
    using assms(2) by (simp add: find_track_def find_row_None track_shas_def)
  then have "track_repo_upsert ?r w = (0, w\<lparr>w_db := (w_db w)\<lparr>tracks := tracks (w_db w) @ [catalog_norm E d lib t]\<rparr>\<rparr>)"
    if "importable E d lib t"
    using assms rs that sha
    by (simp add: track_repo_upsert_def track_repo_lookup_by_sha256_def track_repo_insert_def bind_import_row sql_exec_quiet insert_track_def)
  with obj assms(1) F(1,2,15) [THEN string_back] show ?thesis
    by (auto simp: import_one_def importable_def sql_exec_quiet)
qed

lemma norm_sha: "t_sha (catalog_norm E d lib t) = t_sha t"
  by (simp add: catalog_norm_def Let_def)

lemma import_fold_back:
  assumes "w_sql w = []" "set (map t_sha ts) \<inter> track_shas (w_db w) = {}" "distinct (map t_sha ts)"
    and "distinct (map t_path (tracks (w_db w) @ map (catalog_norm E d lib) (filter (importable E d lib) ts)))"
  shows "fold (import_one E lib) (map (\<lambda>t. json_sorted (catalog_track E lib (t, find_residency (t_sha t) d))) ts) (n, w) =
    (n + int (length (filter (importable E d lib) ts)),
     w\<lparr>w_db := (w_db w)\<lparr>tracks := tracks (w_db w) @ map (catalog_norm E d lib) (filter (importable E d lib) ts)\<rparr>\<rparr>)"
  using assms
proof (induction ts arbitrary: n w)
  case (Cons t ts)
  let ?one = "import_one E lib (json_sorted (catalog_track E lib (t, find_residency (t_sha t) d))) (n, w)"
  have one: "?one = (if importable E d lib t
      then (n + 1, w\<lparr>w_db := (w_db w)\<lparr>tracks := tracks (w_db w) @ [catalog_norm E d lib t]\<rparr>\<rparr>) else (n, w))"
    using Cons.prems by (intro import_one_back) auto
  show ?case
  proof (cases "importable E d lib t")
    case True
    let ?w = "w\<lparr>w_db := (w_db w)\<lparr>tracks := tracks (w_db w) @ [catalog_norm E d lib t]\<rparr>\<rparr>"
    have "set (map t_sha ts) \<inter> track_shas (w_db ?w) = {}"
      using Cons.prems(2,3) by (auto simp: track_shas_def norm_sha)
    with Cons.IH [of ?w "n + 1"] Cons.prems one True show ?thesis by simp
  next
    case False
    with Cons.IH [of w n] Cons.prems one show ?thesis by simp
  qed
qed simp

text \<open>C37: the catalogue carries the tracks in a normal form. For a database that keeps its keys, the text of its
  catalogue, imported into a database with the same scan marks and no tracks, adds exactly one row for every
  track whose identity, published path and date are UTF-8, and counts them: the row of \<open>catalog_norm\<close>, with the path
  (and size and format) of the encoded copy where there is one, list columns and numbers normalised, texts that are
  not UTF-8 dropped, the status ok, no warning, and the date of adding as the last seen mark. A track in portable form
  (below the scanned root, no encoded copy, lists bare or of two strings and more, numbers without a total,
  status ok, seen when added, all text UTF-8) comes back in every field. The JSON library is assumed to read back
  the text it wrote, and no two normal forms to have the same path.\<close>

theorem catalog_roundtrip:
  fixes E d
  defines "lib \<equiv> load_library_root d"
  assumes "db_ok d" "distinct (map (\<lambda>t. t_path (catalog_norm E d lib t)) (filter (importable E d lib) (tracks d)))"
    and "ce_loads E (concat (ce_dumpf E (json_sorted (catalog_tree E d)))) = Some (json_sorted (catalog_tree E d))"
    and "tracks (w_db w) = []" "scan_meta (w_db w) = scan_meta d" "w_sql w = []"
  shows "catalog_import E (concat (ce_dumpf E (json_sorted (catalog_tree E d)))) w =
      (int (length (filter (importable E d lib) (tracks d))), w\<lparr>w_db := (w_db w)\<lparr>tracks :=
        map (catalog_norm E d lib) (filter (importable E d lib) (sort_key t_sha (tracks d)))\<rparr>\<rparr>) \<and>
    (\<forall>r t. lib = Some r \<and> take 1 r = [slash] \<and> portable E d r t \<longrightarrow> importable E d lib t \<and> catalog_norm E d lib t = t)"
proof -
  let ?ts = "sort_key t_sha (tracks d)" and ?j = "catalog_tree E d"
  have v: "get_int (json_sorted ?j) ''v'' = Some 1" by (simp add: int_back catalog_tree_def)
  have ts: "json_object_get (json_sorted ?j) ''tracks'' =
      Some (JArray (map (\<lambda>t. json_sorted (catalog_track E lib (t, find_residency (t_sha t) d))) ?ts))"
    by (simp add: get_sorted catalog_tree_def catalog_rows_def lib_def comp_def)
  have sha: "distinct (map t_sha ?ts)" using assms(2) by (auto simp: db_ok_def distinct_map)
  have srt: "filter (importable E d lib) ?ts = sort_key t_sha (filter (importable E d lib) (tracks d))"
    by (simp add: filter_sort)
  have "distinct (map t_path (map (catalog_norm E d lib) (filter (importable E d lib) ?ts)))"
    using assms(3) unfolding srt by (auto simp: distinct_map comp_def)
  with import_fold_back [of w ?ts E d lib 0] assms(5,7) sha
  have "fold (import_one E lib) (map (\<lambda>t. json_sorted (catalog_track E lib (t, find_residency (t_sha t) d))) ?ts) (0, w) =
    (int (length (filter (importable E d lib) (tracks d))),
     w\<lparr>w_db := (w_db w)\<lparr>tracks := map (catalog_norm E d lib) (filter (importable E d lib) ?ts)\<rparr>\<rparr>)"
    by (simp add: track_shas_def srt)
  moreover have "load_library_root (w_db w) = lib" using assms(6) by (simp add: load_library_root_def lib_def)
  moreover have "importable E d (Some r) t \<and> catalog_norm E d (Some r) t = t" if "take 1 r = [slash]" "portable E d r t" for r t
    using portable_fixed [OF that(2,1)] by simp
  ultimately show ?thesis using assms(4) v ts by (auto simp: catalog_import_def)
qed

section \<open>Witnesses\<close>

definition duet :: track where
  "duet = \<lparr>t_sha = ''b'', t_path = ''/m/b.flac'', t_mtime_ns = 7, t_size = 3, t_format = Some ''flac'', t_title = Some ''T'',
     t_artist = Some ''[A,B]'', t_album = None, t_album_artist = Some ''A'', t_track_number = Some (show_int 5), t_disc_number = None,
     t_year = None, t_genre = None, t_duration_ms = Some 2000, t_tags_status = ''ok'', t_tag_warning = None,
     t_date_added = ''d'', t_last_seen = ''d''\<rparr>"

definition solo :: track where
  "solo = duet\<lparr>t_sha := ''a'', t_path := ''/m/a.flac'', t_artist := Some ''[C]'', t_track_number := Some ''5/12'',
     t_tags_status := ''incomplete'', t_tag_warning := Some ''x'', t_last_seen := ''e''\<rparr>"

definition two_db :: db where
  "two_db = empty_db\<lparr>tracks := [duet, solo], scan_meta := [\<lparr>sm_root = ''/m'', sm_last = ''d'', sm_seen = 2, sm_added = 2, sm_updated = 0, sm_removed = 0\<rparr>]\<rparr>"

definition array_loads :: "string \<Rightarrow> json option" where
  "array_loads s = (if s = ''[A,B]'' then Some (JArray [JString ''A'', JString ''B''])
     else if s = ''[C]'' then Some (JArray [JString ''C'']) else None)"

definition array_env :: "(string \<Rightarrow> json option) \<Rightarrow> catalog_env" where
  "array_env f = \<lparr>ce_loads = f, ce_dumps = (\<lambda>j. ''[A,B]''), ce_dumpf = (\<lambda>j. [''T'']), ce_utf8 = (\<lambda>s. True), ce_now = ''now''\<rparr>"

definition text_env :: catalog_env where
  "text_env = array_env (\<lambda>s. if s = ''T'' then Some (json_sorted (catalog_tree (array_env array_loads) two_db)) else array_loads s)"

lemma text_norm:
  "catalog_norm text_env two_db (Some ''/m'') duet = duet"
  "catalog_norm text_env two_db (Some ''/m'') solo = solo\<lparr>t_artist := Some ''C'', t_track_number := Some ''5'',
     t_tags_status := ''ok'', t_tag_warning := None, t_last_seen := ''d''\<rparr>"
  "importable text_env two_db (Some ''/m'') t"
proof -
  have n: "norm_number (Some (show_int 5)) = Some (show_int 5)" "norm_number None = None" "norm_number (Some ''5/12'') = Some ''5''"
    by code_simp+
  have l: "norm_list text_env (Some ''[A,B]'') = Some ''[A,B]''" "norm_list text_env (Some ''[C]'') = Some ''C''"
    "norm_list text_env (Some ''A'') = Some ''A''" "norm_list text_env None = None"
    by (simp_all add: norm_list_def try_parse_json_str_array_def text_env_def array_env_def array_loads_def)
  have s: "norm_str text_env so = so" for so by (simp add: norm_str_def text_env_def array_env_def split: option.split)
  have "import_path (Some ''/m'') (make_relative (''/m/'' @ [c] @ ''.flac'') (Some ''/m'')) = ''/m/'' @ [c] @ ''.flac''" if "c \<noteq> slash" for c
    using that by (simp add: import_path_def make_relative_def)
  from this [of "CHR ''a''"] this [of "CHR ''b''"] n l s
  show "catalog_norm text_env two_db (Some ''/m'') duet = duet"
    "catalog_norm text_env two_db (Some ''/m'') solo = solo\<lparr>t_artist := Some ''C'', t_track_number := Some ''5'',
       t_tags_status := ''ok'', t_tag_warning := None, t_last_seen := ''d''\<rparr>"
    by (simp_all add: catalog_norm_def Let_def published_path_def duet_def solo_def two_db_def empty_db_def find_residency_def)
  show "importable text_env two_db (Some ''/m'') t" by (simp add: importable_def text_env_def array_env_def)
qed

text \<open>The array of one artist, the total of the track number, the warning and the later seen mark do not come back.\<close>

lemma catalog_roundtrip_witness:
  "catalog_import text_env ''T'' \<lparr>w_db = two_db\<lparr>tracks := []\<rparr>, w_fs = \<lparr>fs_nodes = [], fs_data = [], fs_next = 0, fs_faults = []\<rparr>,
     w_sql = [], w_txn = None\<rparr> =
   (2, \<lparr>w_db = two_db\<lparr>tracks := [solo\<lparr>t_artist := Some ''C'', t_track_number := Some ''5'', t_tags_status := ''ok'',
       t_tag_warning := None, t_last_seen := ''d''\<rparr>, duet]\<rparr>, w_fs = \<lparr>fs_nodes = [], fs_data = [], fs_next = 0, fs_faults = []\<rparr>,
     w_sql = [], w_txn = None\<rparr>)"
proof -
  let ?w = "\<lparr>w_db = two_db\<lparr>tracks := []\<rparr>, w_fs = \<lparr>fs_nodes = [], fs_data = [], fs_next = 0, fs_faults = []\<rparr>,
     w_sql = [], w_txn = None\<rparr>"
  have ok: "db_ok two_db" by (simp add: db_ok_def two_db_def empty_db_def track_shas_def duet_def solo_def)
  have lib: "load_library_root two_db = Some ''/m''" by (simp add: load_library_root_def latest_def two_db_def)
  have dump: "concat (ce_dumpf text_env j) = ''T''" for j by (simp add: text_env_def array_env_def)
  have tree: "ce_loads text_env ''T'' = Some (json_sorted (catalog_tree text_env two_db))"
  proof -
    have "try_parse_json_str_array text_env s = try_parse_json_str_array (array_env array_loads) s" for s
      by (auto simp: try_parse_json_str_array_def text_env_def array_env_def)
    then have "as_json_array text_env = as_json_array (array_env array_loads)" "json_str text_env = json_str (array_env array_loads)"
      "str_or_null text_env = str_or_null (array_env array_loads)" "ce_now text_env = ce_now (array_env array_loads)"
      by (simp_all add: fun_eq_iff as_json_array_def json_str_def str_or_null_def text_env_def array_env_def split: option.split)
    then have "catalog_tree text_env two_db = catalog_tree (array_env array_loads) two_db"
      by (simp only: catalog_tree_def catalog_track_def)
    then show ?thesis by (simp add: text_env_def array_env_def)
  qed
  have sort: "sort_key t_sha (tracks two_db) = [solo, duet]" "tracks two_db = [duet, solo]"
    by (simp_all add: two_db_def duet_def solo_def)
  have paths: "distinct (map (\<lambda>t. t_path (catalog_norm text_env two_db (load_library_root two_db) t))
      (filter (importable text_env two_db (load_library_root two_db)) (tracks two_db)))"
    unfolding lib sort(2) by (simp add: text_norm) (simp add: duet_def solo_def)
  have all: "filter (importable text_env two_db (Some ''/m'')) ts = ts" for ts by (simp add: text_norm(3))
  have "tracks (w_db ?w) = []" "scan_meta (w_db ?w) = scan_meta two_db" "w_sql ?w = []" by simp_all
  from catalog_roundtrip [OF ok paths _ this, unfolded dump, OF tree, THEN conjunct1, unfolded lib sort(1) all]
  have "catalog_import text_env ''T'' ?w = (int (length (tracks two_db)), ?w\<lparr>w_db := (w_db ?w)\<lparr>tracks :=
      map (catalog_norm text_env two_db (Some ''/m'')) [solo, duet]\<rparr>\<rparr>)" .
  then show ?thesis by (simp add: text_norm(1,2) sort(2))
qed

end
