(* ===== verification/PublishProps.thy ===== *)
theory PublishProps
  imports CatalogProps
begin

text \<open>
  What a publication writes: each of the two files is replaced as a whole or not at all, a missing manifest
  leaves both alone, and without failing calls both are the renderings of the database.
\<close>

section \<open>Steps that touch only some paths\<close>

definition untouched :: "path set \<Rightarrow> fs \<Rightarrow> fs \<Rightarrow> bool" where
  "untouched P s s' \<longleftrightarrow> fs_wf s' \<and> (fs_faults s = [] \<longrightarrow> fs_faults s' = []) \<and>
     (\<forall>q. q \<notin> P \<longrightarrow> fs_inode s' q = fs_inode s q \<and> fs_content s' q = fs_content s q \<and>
        (fs_get s' q = Some Special \<longrightarrow> fs_get s q = Some Special) \<and> (private_file q s \<longrightarrow> private_file q s'))"

lemma untouched_trans: "untouched P s s1 \<Longrightarrow> untouched P s1 s2 \<Longrightarrow> untouched P s s2"
  by (auto simp: untouched_def)

lemma untouched_mono: "untouched P s s' \<Longrightarrow> P \<subseteq> Q \<Longrightarrow> untouched Q s s'"
  by (auto simp: untouched_def)

lemma untouched_wf: "untouched P s s' \<Longrightarrow> fs_wf s'"
  by (simp add: untouched_def)

lemma untouched_others:
  assumes "others t s s'" "\<And>q. q \<noteq> t \<Longrightarrow> fs_get s' q = Some Special \<Longrightarrow> fs_get s q = Some Special"
    "fs_faults s = [] \<Longrightarrow> fs_faults s' = []" "\<And>q i. fs_inode s' t = Some i \<Longrightarrow> fs_inode s q = Some i \<Longrightarrow> fs_inode s t = Some i"
  shows "untouched {t} s s'"
proof -
  have "private_file q s'" if "q \<noteq> t" "private_file q s" for q
    unfolding private_file_def
  proof (intro allI impI)
    fix i x assume "fs_inode s' q = Some i" "x \<noteq> q"
    with that assms(1) have i: "fs_inode s q = Some i" "\<forall>y. y \<noteq> q \<longrightarrow> fs_inode s y \<noteq> Some i"
      by (simp_all add: others_def private_file_def)
    show "fs_inode s' x \<noteq> Some i"
    proof (cases "x = t")
      case True
      with i that(1) assms(4) show ?thesis by metis
    next
      case False
      with i \<open>x \<noteq> q\<close> assms(1) show ?thesis by (simp add: others_def)
    qed
  qed
  with assms(1-3) show ?thesis by (simp add: untouched_def others_def)
qed

lemma quiet_call: "injected call s = (r, s') \<Longrightarrow> fs_faults s = [] \<Longrightarrow> call s = (r, s')"
  by (simp add: injected_def)

lemma fsync_untouched: "fs_wf s \<Longrightarrow> sys_fsync s = (r, s') \<Longrightarrow> untouched P s s' \<and> file_data s' = file_data s \<and> fs_inode s' = fs_inode s"
  using sys_fsync_same [of s r s'] by (auto simp: untouched_def same_tree_get same_tree_wf private_same same_tree_data
      sys_fsync_def injected_def)

lemma unlink_untouched:
  assumes "fs_wf s" "sys_unlink t s = (r, s')" shows "untouched {t} s s'"
proof (rule untouched_others [OF unlink_others [OF assms]])
  note U = sys_unlink_other [OF assms(2)]
  show "fs_get s q = Some Special" if "q \<noteq> t" "fs_get s' q = Some Special" for q using U that by simp
  show "fs_inode s t = Some i" if "fs_inode s' t = Some i" for i using U that by (auto simp: fs_inode_def)
  show "fs_faults s' = []" if "fs_faults s = []"
    using quiet_call [OF assms(2) [unfolded sys_unlink_def] that] that
    by (auto simp: del_node_def split: option.splits node.splits if_splits)
qed

lemma write_untouched:
  assumes "fs_wf s" "private_file t s" "sys_write t bs s = (r, s')" shows "untouched {t} s s'"
proof (rule untouched_others)
  note W = write_others [OF assms]
  show "others t s s'" using W by simp
  show "fs_get s q = Some Special" if "q \<noteq> t" "fs_get s' q = Some Special" for q
    using assms(3) that(2) by (auto simp: sys_write_def same_tree_get data_upd elim!: injected_cases split: option.splits)
  show "fs_inode s t = Some i" if "fs_inode s' t = Some i" for i using W that by simp
  show "fs_faults s' = []" if "fs_faults s = []" using sys_write_faults(1) [OF assms(3)] that by simp
qed

lemma create_untouched:
  assumes "fs_wf s" "private_file t s" "fs_get s t \<noteq> Some Special" "sys_create_trunc t s = (r, s')"
  shows "untouched {t} s s'"
proof (rule untouched_others)
  show "others t s s'" using create_trunc_others [OF assms] by simp
  show "fs_get s q = Some Special" if "q \<noteq> t" "fs_get s' q = Some Special" for q
    using assms(4) that
    by (auto simp: sys_create_trunc_def same_tree_get data_upd fresh_file_def [symmetric] get_fresh
        elim!: injected_cases split: option.splits node.splits if_splits)
  show "fs_inode s t = Some i" if i: "fs_inode s' t = Some i" "fs_inode s q = Some i" for q i
    using assms(4) [unfolded sys_create_trunc_def]
  proof (cases rule: injected_cases)
    case (fault e)
    with i show ?thesis by (simp add: same_tree_get)
  next
    case (run s0)
    have "fs_next s0 = fs_next s" using run(1) by (simp add: same_tree_def)
    then have "fs_inode s0 q \<noteq> Some (fs_next s0)" using assms(1) run(1) by (auto simp: fs_wf_def same_tree_get)
    with run i show ?thesis
      by (auto simp: same_tree_get data_upd fresh_file_def [symmetric] inode_fresh split: option.splits node.splits if_splits)
  qed
  show "fs_faults s' = []" if "fs_faults s = []"
    using quiet_call [OF assms(4) [unfolded sys_create_trunc_def] that] that
    by (auto simp: put_node_def split: option.splits node.splits if_splits)
qed

lemma rename_quiet: "sys_rename t p s = (r, s') \<Longrightarrow> fs_faults s = [] \<Longrightarrow> fs_faults s' = []"
  by (auto simp: sys_rename_def injected_def put_node_def del_node_def split: option.splits node.splits if_splits)

lemma same_untouched: "fs_wf s \<Longrightarrow> same_tree s s' \<Longrightarrow> (fs_faults s = [] \<Longrightarrow> fs_faults s' = []) \<Longrightarrow> untouched P s s'"
  by (simp add: untouched_def same_tree_get same_tree_wf private_same)

lemma rename_untouched:
  assumes "fs_wf s" "t \<noteq> p" "sys_rename t p s = (r, s')"
  shows "untouched {t, p} s s'"
  using assms(3)
proof (cases rule: sys_rename_cases)
  case (fail e)
  with assms(1) rename_quiet [OF assms(3)] show ?thesis by (intro same_untouched)
next
  case (same n)
  with assms(1) rename_quiet [OF assms(3)] show ?thesis by (intro same_untouched)
next
  case (ok s0 n)
  note faults = rename_quiet [OF assms(3)]
  have get: "fs_get s' q = (if q = t then None else if q = p then Some n else fs_get s q)" for q
    using ok by (simp add: get_put_node get_del_node same_tree_get)
  then have inode: "fs_inode s' q = (if q = t then None else if q = p then fs_inode s t else fs_inode s q)" for q
    using ok(3) by (simp add: fs_inode_def)
  have data: "file_data s' = file_data s" "fs_next s' = fs_next s"
    using same_tree_data [OF ok(2)] ok(2) unfolding ok(6)
    by (simp_all add: file_data_def fun_eq_iff put_node_def del_node_def same_tree_def)
  have "fs_wf s'"
    unfolding fs_wf_def data
  proof (intro allI impI)
    fix q i assume "fs_inode s' q = Some i"
    then have "fs_inode s t = Some i \<or> fs_inode s q = Some i" by (simp add: inode split: if_splits)
    with assms(1) show "i < fs_next s" unfolding fs_wf_def by blast
  qed
  moreover have "fs_content s' q = fs_content s q" if "q \<notin> {t, p}" for q
    using that by (simp add: fs_content_def inode data)
  moreover have "private_file q s'" if "q \<notin> {t, p}" "private_file q s" for q
    unfolding private_file_def
  proof (intro allI impI)
    fix i x assume i: "fs_inode s' q = Some i" "x \<noteq> q"
    with that have "fs_inode s q = Some i" by (simp add: inode)
    with that i(2) have "\<forall>y. y \<noteq> q \<longrightarrow> fs_inode s y \<noteq> Some i" by (simp add: private_file_def)
    with that i(2) show "fs_inode s' x \<noteq> Some i" by (auto simp: inode)
  qed
  ultimately show ?thesis using faults by (simp add: untouched_def inode get)
qed

lemma mkdirs_quiet: "mkdir_each ps s = (r, s') \<Longrightarrow> fs_faults s = [] \<Longrightarrow> fs_faults s' = []"
proof (induction ps arbitrary: s)
  case (Cons p ps)
  obtain x s1 where m: "sys_mkdir p s = (x, s1)" by fastforce
  with Cons.prems(2) have "fs_faults s1 = []" by (auto simp: sys_mkdir_def injected_def put_node_def split: if_splits)
  with Cons m show ?case by (auto split: option.splits if_splits)
qed simp

lemma parent_untouched:
  assumes "fs_wf s" "aio_ensure_parent_dir p s = (r, s')" shows "untouched {} s s'"
proof -
  have o: "fs_inode s' q = fs_inode s q" "fs_content s' q = fs_content s q" for q
    using parent_others [OF assms, of "CHR ''x'' # q"] by (simp_all add: others_def)
  moreover have "fs_wf s'" using parent_others [OF assms, of "[]"] by (simp add: others_def)
  moreover have "fs_faults s' = []" if "fs_faults s = []"
    using assms(2) that mkdirs_quiet
    by (auto simp: aio_ensure_parent_dir_def mkparents_def paths_mkdir_p_def split: if_splits option.splits prod.splits)
  ultimately show ?thesis using parent_special [OF assms(2)] by (simp add: untouched_def private_file_def)
qed

section \<open>One published file\<close>

lemma put_kept:
  assumes "fs_wf s" "private_file (aw_tmp w) s" "stream_put cap bs w s = (ok, w', s')"
  shows "untouched {aw_tmp w} s s' \<and> private_file (aw_tmp w) s' \<and> fs_inode s' (aw_tmp w) = fs_inode s (aw_tmp w) \<and>
    aw_tmp w' = aw_tmp w \<and> aw_final w' = aw_final w \<and>
    (\<forall>i. fs_inode s (aw_tmp w) = Some i \<longrightarrow> ok \<longrightarrow> file_data s' i @ aw_buf w' = file_data s i @ aw_buf w @ bs)"
proof (cases "length (aw_buf w @ bs) \<le> cap")
  case True
  then have "w' = w\<lparr>aw_buf := aw_buf w @ bs\<rparr>" "s' = s" using assms(3) by (auto simp: stream_put_def)
  with assms(1,2) show ?thesis by (simp add: untouched_def)
next
  case False
  obtain r s1 where w: "sys_write (aw_tmp w) (aw_buf w @ bs) s = (r, s1)" by fastforce
  with False assms(3) have e: "ok = (r = None)" "w' = w\<lparr>aw_buf := []\<rparr>" "s' = s1" by (auto simp: stream_put_def)
  from write_others [OF assms(1,2) w] write_untouched [OF assms(1,2) w] show ?thesis by (simp add: e)
qed

lemma pieces_kept:
  assumes "fs_wf s" "private_file (aw_tmp w) s" "put_pieces cap ps w s = (ok, w', s')"
  shows "untouched {aw_tmp w} s s' \<and> private_file (aw_tmp w) s' \<and> fs_inode s' (aw_tmp w) = fs_inode s (aw_tmp w) \<and>
    aw_tmp w' = aw_tmp w \<and> aw_final w' = aw_final w \<and>
    (\<forall>i. fs_inode s (aw_tmp w) = Some i \<longrightarrow> ok \<longrightarrow> file_data s' i @ aw_buf w' = file_data s i @ aw_buf w @ concat ps)"
  using assms
proof (induction ps arbitrary: w s)
  case Nil
  then show ?case by (auto simp: untouched_def)
next
  case (Cons p ps)
  obtain b w1 s1 where 1: "stream_put cap p w s = (b, w1, s1)" by (metis prod_cases3)
  note K = put_kept [OF Cons.prems(1,2) 1]
  show ?case
  proof (cases b)
    case False
    with Cons.prems(3) 1 have "ok = False" "w' = w1" "s' = s1" by auto
    with K show ?thesis by simp
  next
    case True
    with Cons.prems(3) 1 have r: "put_pieces cap ps w1 s1 = (ok, w', s')" by simp
    have t: "aw_tmp w1 = aw_tmp w" "aw_final w1 = aw_final w" using K by simp_all
    have "fs_wf s1" "private_file (aw_tmp w1) s1" using K untouched_wf unfolding t by blast+
    from Cons.IH [OF this r] K True show ?thesis by (auto simp: t intro: untouched_trans)
  qed
qed

text \<open>The write-out before a commit or an abort.\<close>

definition flushed :: "atomic_writer \<Rightarrow> fs \<Rightarrow> fs" where
  "flushed w s = (if aw_buf w = [] then s else snd (sys_write (aw_tmp w) (aw_buf w) s))"

lemma flushed_kept:
  assumes "fs_wf s" "private_file (aw_tmp w) s"
  shows "untouched {aw_tmp w} s (flushed w s) \<and> fs_inode (flushed w s) (aw_tmp w) = fs_inode s (aw_tmp w) \<and>
    (\<forall>i. fs_inode s (aw_tmp w) = Some i \<longrightarrow> fs_faults s = [] \<longrightarrow> file_data (flushed w s) i = file_data s i @ aw_buf w)"
proof (cases "aw_buf w = []")
  case True
  with assms show ?thesis by (simp add: flushed_def untouched_def)
next
  case False
  obtain r s1 where w: "sys_write (aw_tmp w) (aw_buf w) s = (r, s1)" by fastforce
  then have f: "flushed w s = s1" using False by (simp add: flushed_def)
  have "r = None" if "fs_faults s = []" "fs_inode s (aw_tmp w) = Some i" for i
    using w that by (auto simp: sys_write_def injected_def)
  with write_others [OF assms w] write_untouched [OF assms w] show ?thesis unfolding f by auto
qed

lemma commit_kept:
  assumes "fs_wf s" "private_file (aw_tmp w) s" "aw_tmp w \<noteq> aw_final w" "fs_inode s (aw_tmp w) = Some i"
    and "atomic_writer_commit w s = (r, s')"
  shows "untouched {aw_tmp w, aw_final w} s s' \<and> (r \<noteq> None \<longrightarrow> fs_content s' (aw_final w) = fs_content s (aw_final w)) \<and>
    (r = None \<longrightarrow> fs_faults s = [] \<longrightarrow> fs_content s' (aw_final w) = Some (file_data s i @ aw_buf w))"
proof -
  let ?t = "aw_tmp w" and ?p = "aw_final w" and ?s1 = "flushed w s"
  note F = flushed_kept [OF assms(1,2)]
  then have wf1: "fs_wf ?s1" using untouched_wf by blast
  obtain r2 s2 where 2: "sys_fsync ?s1 = (r2, s2)" by fastforce
  note S = fsync_untouched [OF wf1 2]
  have u2: "untouched {?t} s s2" using F S untouched_trans by blast
  note wf2 = untouched_wf [OF u2]
  obtain r3 s3 where 3: "sys_rename ?t ?p s2 = (r3, s3)" by fastforce
  note R = rename_untouched [OF wf2 assms(3) 3]
  have def: "atomic_writer_commit w s = (case (r2, s2) of (Some e, s) \<Rightarrow> (Some e, snd (sys_unlink ?t s))
      | (None, s) \<Rightarrow> (case sys_rename ?t ?p s of (Some e, s) \<Rightarrow> (Some e, snd (sys_unlink ?t s))
         | (None, s) \<Rightarrow> (None, fsync_parent_dir ?p s)))"
    by (simp add: atomic_writer_commit_def flushed_def [symmetric] 2)
  have undone: "untouched {?t} s s4 \<Longrightarrow> untouched {?t, ?p} s (snd (sys_unlink ?t s4)) \<and>
      fs_content (snd (sys_unlink ?t s4)) ?p = fs_content s ?p" for s4
  proof -
    assume u: "untouched {?t} s s4"
    obtain x s5 where x: "sys_unlink ?t s4 = (x, s5)" by fastforce
    from untouched_trans [OF u unlink_untouched [OF untouched_wf [OF u] x]] x assms(3) show ?thesis
      by (auto simp: untouched_mono) (simp add: untouched_def)
  qed
  show ?thesis
  proof (cases r2)
    case (Some e)
    with assms(5) def undone [OF u2] show ?thesis by auto
  next
    case None
    show ?thesis
    proof (cases r3)
      case (Some e)
      with 3 have same: "same_tree s2 s3" by (auto elim: sys_rename_cases)
      have "untouched {?t} s s3"
        by (rule untouched_trans [OF u2 same_untouched [OF wf2 same]]) (rule rename_quiet [OF 3])
      from undone [OF this] assms(5) def None Some 3 show ?thesis by auto
    next
      case ok: None
      then have e: "r = None" "s' = fsync_parent_dir ?p s3" using assms(5) def None 3 by auto
      have i2: "fs_inode s2 ?t = Some i" using F S assms(4) by simp
      have u3: "untouched {?t, ?p} s s3" by (rule untouched_trans [OF untouched_mono [OF u2] R]) simp
      obtain x s4 where x: "sys_fsync s3 = (x, s4)" by fastforce
      note S4 = fsync_untouched [OF untouched_wf [OF u3] x, of "{?t, ?p}"]
      have s': "untouched {?t, ?p} s s'" "fs_content s' ?p = fs_content s3 ?p"
        using u3 untouched_trans [OF u3] S4 x by (auto simp: e(2) fsync_parent_dir_def fs_content_def)
      have "private_file ?t s2"
        using F S assms(2) i2 u2 unfolding private_file_def untouched_def by (metis singletonD)
      from rename_replaced [OF wf2 others_same [OF wf2] i2 this assms(3)] 3 ok
      have "fs_content s3 ?p = Some (file_data s2 i)" by (auto simp: replaced_def)
      with F S assms(4) s' e(1) show ?thesis by simp
    qed
  qed
qed

lemma publish_file_kept:
  assumes wf: "fs_wf s" and priv: "private_file (make_tmp_path pid p) s" and sp: "fs_get s (make_tmp_path pid p) \<noteq> Some Special"
    and run: "publish_file pid (put_pieces cap ps) p s = (ok, s')"
  shows "untouched {make_tmp_path pid p, p} s s' \<and> (\<not> ok \<longrightarrow> fs_content s' p = fs_content s p) \<and>
    (ok \<longrightarrow> fs_faults s = [] \<longrightarrow> fs_content s' p = Some (concat ps))"
proof -
  let ?t = "make_tmp_path pid p" and ?w = "\<lparr>aw_final = p, aw_tmp = make_tmp_path pid p, aw_buf = []\<rparr>"
  have early: "?thesis" if "ok = False" "untouched {?t} s s'"
    using that tmp_neq [of pid p] untouched_mono [OF that(2), of "{?t, p}"] by (auto simp: untouched_def)
  obtain r1 s1 where 1: "aio_ensure_parent_dir p s = (r1, s1)" by fastforce
  have u1: "untouched {?t} s s1" by (rule untouched_mono [OF parent_untouched [OF wf 1]]) simp
  have priv1: "private_file ?t s1" using parent_others [OF wf 1] priv by simp
  have sp1: "fs_get s1 ?t \<noteq> Some Special" using parent_special [OF 1] sp by blast
  obtain r2 s2 where 2: "sys_create_trunc ?t s1 = (r2, s2)" by fastforce
  note wf1 = untouched_wf [OF u1]
  have u2: "untouched {?t} s s2" by (rule untouched_trans [OF u1 create_untouched [OF wf1 priv1 sp1 2]])
  note C = create_trunc_others [OF wf1 priv1 sp1 2] and wf2 = untouched_wf [OF u2]
  have op: "atomic_writer_open pid p s = (if r1 \<noteq> None then (None, s1) else if r2 \<noteq> None then (None, s2) else (Some ?w, s2))"
    by (simp add: atomic_writer_open_def 1 2 split: option.split)
  show ?thesis
  proof (cases "r1 = None \<and> r2 = None")
    case False
    with run op u1 u2 show ?thesis by (intro early) (auto simp: publish_file_def split: if_splits)
  next
    case True
    then obtain i where i: "fs_inode s2 ?t = Some i" "file_data s2 i = []" using C by blast
    obtain b w s3 where 3: "put_pieces cap ps ?w s2 = (b, w, s3)" by (metis prod_cases3)
    have "private_file (aw_tmp ?w) s2" using C by simp
    note K = pieces_kept [OF wf2 this 3]
    then have w: "aw_tmp w = ?t" "aw_final w = p" by simp_all
    have u3: "untouched {?t} s s3" using K untouched_trans [OF u2] by simp
    note wf3 = untouched_wf [OF u3]
    have p3: "private_file (aw_tmp w) s3" using K w by simp
    show ?thesis
    proof (cases b)
      case False
      obtain x s4 where x: "sys_unlink ?t (flushed w s3) = (x, s4)" by fastforce
      have uf: "untouched {?t} s3 (flushed w s3)" using flushed_kept [OF wf3 p3] w by simp
      have "untouched {?t} s s4"
        by (rule untouched_trans [OF untouched_trans [OF u3 uf] unlink_untouched [OF untouched_wf [OF uf] x]])
      moreover have "ok = False" "s' = s4"
        using run op True 3 False x w by (auto simp: publish_file_def atomic_writer_abort_def flushed_def [symmetric])
      ultimately show ?thesis by (intro early) simp_all
    next
      case b: True
      obtain r s4 where c: "atomic_writer_commit w s3 = (r, s4)" by fastforce
      have e: "ok = (r = None)" "s' = s4" using run op True 3 b c by (auto simp: publish_file_def)
      have i3: "fs_inode s3 (aw_tmp w) = Some i" "file_data s3 i @ aw_buf w = concat ps" using K i w b by auto
      have tp: "aw_tmp w \<noteq> aw_final w" using w tmp_neq by simp
      note M = commit_kept [OF wf3 p3 tp i3(1) c]
      have "untouched {?t, p} s s'" unfolding e
        by (rule untouched_trans [OF untouched_mono [OF u3]]) (use M w in simp_all)
      moreover have "fs_content s3 p = fs_content s p" "fs_faults s = [] \<longrightarrow> fs_faults s3 = []"
        using u3 tmp_neq [of pid p] by (auto simp: untouched_def)
      ultimately show ?thesis using M e i3(2) w by auto
    qed
  qed
qed

lemma mkdir_untouched:
  assumes "fs_wf s" "length d \<le> 4000" "paths_mkdir_p d s = (r, s')" shows "untouched {} s s'"
proof (cases "d = []")
  case True
  with assms show ?thesis by (simp add: paths_mkdir_p_def untouched_def)
next
  case False
  have "split_last slash (d @ slash # ''x'') = Some (d, ''x'')" by (rule split_last_append) simp
  with False assms(2,3) have "aio_ensure_parent_dir (d @ slash # ''x'') s = (r, s')"
    by (simp add: aio_ensure_parent_dir_def mkparents_def)
  from parent_untouched [OF assms(1) this] show ?thesis .
qed

text \<open>C38: a publication replaces whole files. Whatever calls fail, \<open>publish_run\<close> touches no file but
  \<open>catalog.json\<close>, \<open>manifest.json\<close> and their temporary files; without a manifest in the database it fails and
  changes no file; when it reports an error the published manifest is the old one; and a run that succeeds
  with no failing call leaves exactly the rendered catalogue and the rendered manifest.\<close>

theorem publish_exact:
  assumes "fs_wf s" "length out_dir \<le> 4000"
    and "cat = out_dir @ ''/catalog.json''" "man = out_dir @ ''/manifest.json''"
    and "private_file (make_tmp_path pid cat) s" "fs_get s (make_tmp_path pid cat) \<noteq> Some Special"
    and "private_file (make_tmp_path pid man) s" "fs_get s (make_tmp_path pid man) \<noteq> Some Special"
    and "publish_run E pid cap d out_dir s = (rc, s')"
  shows "(\<forall>q. q \<notin> {cat, man, make_tmp_path pid cat, make_tmp_path pid man} \<longrightarrow> fs_content s' q = fs_content s q) \<and>
    (manifest_current d = [] \<longrightarrow> rc \<noteq> 0 \<and> (\<forall>q. fs_content s' q = fs_content s q)) \<and>
    (rc \<noteq> 0 \<longrightarrow> fs_content s' man = fs_content s man) \<and>
    (rc = 0 \<and> fs_faults s = [] \<longrightarrow>
       fs_content s' cat = Some (concat (ce_dumpf E (json_sorted (catalog_tree E d)))) \<and>
       (\<exists>m. load_manifest_tree E d = Some m \<and> fs_content s' man = Some (concat (ce_dumpf E (json_sorted m)))))"
proof -
  let ?tc = "make_tmp_path pid cat" and ?tm = "make_tmp_path pid man"
  have names: "cat \<noteq> man" "?tc \<noteq> man" "?tm \<noteq> cat" "?tc \<noteq> ?tm" "?tc \<noteq> cat" "?tm \<noteq> man"
    by (simp_all add: assms(3,4) make_tmp_path_def)
  have fit: "take 4095 cat = cat" "take 4095 man = man" using assms(2) by (simp_all add: assms(3,4))
  obtain r1 s1 where 1: "paths_mkdir_p out_dir s = (r1, s1)" by fastforce
  note u1 = mkdir_untouched [OF assms(1,2) 1]
  have same1: "fs_content s1 q = fs_content s q" for q using u1 by (simp add: untouched_def)
  show ?thesis
  proof (cases "r1 \<noteq> None \<or> load_manifest_tree E d = None")
    case True
    with assms(9) 1 have "rc = -1" "s' = s1" by (cases r1; auto simp: publish_run_def)+
    with same1 show ?thesis by simp
  next
    case False
    then obtain m where m: "r1 = None" "load_manifest_tree E d = Some m" by auto
    then have rows: "manifest_current d \<noteq> []" by (auto simp: load_manifest_tree_def)
    obtain b2 s2 where 2: "publish_file pid (put_pieces cap (ce_dumpf E (json_sorted (catalog_tree E d)))) cat s1 = (b2, s2)" by fastforce
    have c1: "private_file ?tc s1" "fs_get s1 ?tc \<noteq> Some Special" "private_file ?tm s1" "fs_get s1 ?tm \<noteq> Some Special"
      using u1 assms(5-8) by (auto simp: untouched_def)
    note C = publish_file_kept [OF untouched_wf [OF u1] c1(1,2) 2]
    then have u2: "untouched {?tc, cat} s s2" using untouched_trans [OF untouched_mono [OF u1]] by blast
    have same2: "q \<notin> {?tc, cat} \<Longrightarrow> fs_content s2 q = fs_content s q" for q using u2 by (simp add: untouched_def)
    have run: "publish_run E pid cap d out_dir s = (if \<not> b2 then (-1, s2)
        else case publish_file pid (put_pieces cap (ce_dumpf E (json_sorted m))) man s2 of (ok, s) \<Rightarrow> (if ok then 0 else -1, s))"
      using 1 2 m fit assms(3,4) by (simp add: publish_run_def catalog_emit_def [abs_def] json_dumpf_def [abs_def])
    show ?thesis
    proof (cases b2)
      case False
      with run assms(9) have "rc = -1" "s' = s2" by simp_all
      with same2 rows names show ?thesis by auto
    next
      case True
      obtain b3 s3 where 3: "publish_file pid (put_pieces cap (ce_dumpf E (json_sorted m))) man s2 = (b3, s3)" by fastforce
      have c2: "private_file ?tm s2" "fs_get s2 ?tm \<noteq> Some Special"
        using u2 assms(7,8) names by (auto simp: untouched_def)
      note M = publish_file_kept [OF untouched_wf [OF u2] c2 3]
      have same3: "q \<notin> {?tm, man} \<Longrightarrow> fs_content s3 q = fs_content s2 q" for q using M by (simp add: untouched_def)
      have e: "rc = (if b3 then 0 else -1)" "s' = s3" using run True 3 assms(9) by auto
      have quiet: "fs_faults s = [] \<Longrightarrow> fs_faults s1 = [] \<and> fs_faults s2 = []" using u1 u2 by (simp add: untouched_def)
      show ?thesis
      proof (intro conjI)
        show "\<forall>q. q \<notin> {cat, man, ?tc, ?tm} \<longrightarrow> fs_content s' q = fs_content s q" using same2 same3 e by simp
        show "manifest_current d = [] \<longrightarrow> rc \<noteq> 0 \<and> (\<forall>q. fs_content s' q = fs_content s q)" using rows by simp
        show "rc \<noteq> 0 \<longrightarrow> fs_content s' man = fs_content s man" using M e same2 [of man] names by auto
        show "rc = 0 \<and> fs_faults s = [] \<longrightarrow>
            fs_content s' cat = Some (concat (ce_dumpf E (json_sorted (catalog_tree E d)))) \<and>
            (\<exists>m. load_manifest_tree E d = Some m \<and> fs_content s' man = Some (concat (ce_dumpf E (json_sorted m))))"
          using C M e True quiet m(2) same3 [of cat] names by (auto split: if_splits)
      qed
    qed
  qed
qed

section \<open>Witness\<close>

definition pub_fs :: fs where
  "pub_fs = \<lparr>fs_nodes = [(''/m'', Dir), (''/m/catalog.json'', Reg 0), (''/m/a'', Reg 1)], fs_data = [(0, ''old''), (1, ''x'')],
     fs_next = 2, fs_faults = []\<rparr>"

definition pub_db :: db where
  "pub_db = two_db\<lparr>manifest_current := [\<lparr>mf_sha = ''a'', mf_buckets = ''pinned'', mf_size = 3\<rparr>]\<rparr>"

lemma pub_tmp: "make_tmp_path 7 ''/m/catalog.json'' = ''/m/catalog.json.tmp.7''"
  "make_tmp_path 7 ''/m/manifest.json'' = ''/m/manifest.json.tmp.7''"
  by code_simp+

lemma publish_exact_witness:
  "\<exists>s'. publish_run (array_env (\<lambda>s. None)) 7 1 pub_db ''/m'' pub_fs = (0, s') \<and>
     fs_content s' ''/m/catalog.json'' = Some ''T'' \<and> fs_content s' ''/m/manifest.json'' = Some ''T'' \<and>
     fs_content s' ''/m/a'' = fs_content pub_fs ''/m/a''"
proof -
  obtain rc s' where run: "publish_run (array_env (\<lambda>s. None)) 7 1 pub_db ''/m'' pub_fs = (rc, s')" by fastforce
  have "fst (publish_run (array_env (\<lambda>s. None)) 7 1 pub_db ''/m'' pub_fs) = 0" by code_simp
  with run have rc: "rc = 0" by simp
  have wf: "fs_wf pub_fs" by (auto simp: fs_wf_def fs_inode_def fs_get_def pub_fs_def split: if_splits)
  have free: "fs_get pub_fs ''/m/catalog.json.tmp.7'' = None" "fs_get pub_fs ''/m/manifest.json.tmp.7'' = None"
    by (simp_all add: fs_get_def pub_fs_def)
  then have priv: "private_file ''/m/catalog.json.tmp.7'' pub_fs" "private_file ''/m/manifest.json.tmp.7'' pub_fs"
    by (simp_all add: private_file_def fs_inode_def)
  have e: "fs_faults pub_fs = []" "ce_dumpf (array_env f) j = [''T'']" for f j by (simp_all add: pub_fs_def array_env_def)
  from publish_exact [OF wf _ refl refl _ _ _ _ run] free priv rc pub_tmp
  have "fs_content s' ''/m/a'' = fs_content pub_fs ''/m/a''" "fs_content s' ''/m/catalog.json'' = Some ''T''"
    "fs_content s' ''/m/manifest.json'' = Some ''T''" by (simp_all add: e)
  with run rc show ?thesis by simp
qed

end
