(* ===== verification/Report.thy ===== *)
theory Report
  imports Check Walker Float64
begin

text \<open>
  The reporter of the tag checker (\<open>tagcheck/report.c\<close>): the counters, the text lines that are written as
  files are added, and the two closing documents. The output stream is the text written to it.
\<close>

section \<open>State\<close>

record snapshot =
  sn_path :: path
  sn_format :: audio_format
  sn_any_fail :: bool
  sn_any_flag :: bool
  sn_read_failed :: bool
  sn_issues :: "check_issue list"

datatype report_format = REPORT_FORMAT_TEXT | REPORT_FORMAT_JSON

record report_summary =
  rp_format :: report_format
  rp_out :: string
  rp_seen :: nat
  rp_passed :: nat
  rp_flagged_only :: nat
  rp_failed :: nat
  rp_open_failed :: nat
  rp_missing :: "canonical_field \<Rightarrow> nat"
  rp_records :: "snapshot list"

definition report_summary_init :: "report_format \<Rightarrow> report_summary" where
  "report_summary_init f = \<lparr>rp_format = f, rp_out = [], rp_seen = 0, rp_passed = 0, rp_flagged_only = 0, rp_failed = 0,
     rp_open_failed = 0, rp_missing = (\<lambda>f. 0), rp_records = []\<rparr>"

primrec fmt_id :: "audio_format \<Rightarrow> string" where
  "fmt_id FmtMp3 = ''mp3''"
| "fmt_id FmtFlac = ''flac''"
| "fmt_id FmtOpus = ''opus''"
| "fmt_id FmtOggVorbis = ''ogg''"
| "fmt_id FmtMp4 = ''mp4''"
| "fmt_id FmtUnknown = ''unknown''"

primrec severity_id :: "check_severity \<Rightarrow> string" where
  "severity_id CHECK_FAIL = ''fail''"
| "severity_id CHECK_FLAG = ''flag''"
| "severity_id CHECK_OK = ''ok''"

section \<open>Adding a file\<close>

text \<open>The dash is U+2014 in UTF-8.\<close>

definition text_issue :: "check_issue \<Rightarrow> string" where
  "text_issue i = ''  '' @ (case ci_severity i of CHECK_FAIL \<Rightarrow> ''FAIL'' | CHECK_FLAG \<Rightarrow> ''FLAG'' | CHECK_OK \<Rightarrow> ''OK'') @
     '': '' @ ci_code i @ [CHR 0x20, CHR 0xE2, CHR 0x80, CHR 0x94, CHR 0x20] @ ci_detail i @ [nl]"

definition text_emit_record :: "tag_record \<Rightarrow> check_result \<Rightarrow> string" where
  "text_emit_record rec cr = tr_path rec @ [nl] @ concat (map text_issue (cr_issues cr))"

definition json_snapshot :: "tag_record \<Rightarrow> check_result \<Rightarrow> snapshot" where
  "json_snapshot rec cr = \<lparr>sn_path = tr_path rec, sn_format = tr_format rec, sn_any_fail = cr_any_fail cr,
     sn_any_flag = cr_any_flag cr, sn_read_failed = cr_failed cr, sn_issues = cr_issues cr\<rparr>"

definition count_missing :: "check_issue \<Rightarrow> (canonical_field \<Rightarrow> nat) \<Rightarrow> (canonical_field \<Rightarrow> nat)" where
  "count_missing i m = (if ci_severity i = CHECK_FAIL \<and> ci_code i = ''missing_field'' \<and> ci_field i \<noteq> FIELD_COUNT
     then m(ci_field i := m (ci_field i) + 1) else m)"

definition report_add :: "tag_record \<Rightarrow> check_result \<Rightarrow> report_summary \<Rightarrow> report_summary" where
  "report_add rec cr s =
     (let s = s\<lparr>rp_seen := rp_seen s + 1\<rparr>;
          s = (if cr_any_fail cr \<or> cr_failed cr then s\<lparr>rp_failed := rp_failed s + 1\<rparr>
               else if cr_any_flag cr then s\<lparr>rp_flagged_only := rp_flagged_only s + 1\<rparr>
               else s\<lparr>rp_passed := rp_passed s + 1\<rparr>);
          s = (if cr_failed cr then s\<lparr>rp_open_failed := rp_open_failed s + 1\<rparr> else s);
          s = s\<lparr>rp_missing := fold count_missing (cr_issues cr) (rp_missing s)\<rparr>
      in case rp_format s of
           REPORT_FORMAT_TEXT \<Rightarrow>
             (if cr_any_fail cr \<or> cr_any_flag cr \<or> cr_failed cr then s\<lparr>rp_out := rp_out s @ text_emit_record rec cr\<rparr> else s)
         | REPORT_FORMAT_JSON \<Rightarrow> s\<lparr>rp_records := rp_records s @ [json_snapshot rec cr]\<rparr>)"

section \<open>The closing text\<close>

text \<open>\<open>%.1f\<close> of a number that is not negative: the exact value rounded to the nearest tenth, ties to even.\<close>

definition show_tenths :: "double \<Rightarrow> string" where
  "show_tenths x = (let n = nat (rhe (x * 10)) in show_nat (n div 10) @ ''.'' @ show_nat (n mod 10))"

definition pass_percentage :: "report_summary \<Rightarrow> double" where
  "pass_percentage s = (if rp_seen s > 0
     then ddiv (dmul 100 (of_ll (int (rp_passed s)))) (of_ll (int (rp_seen s))) else 0)"

definition emit_text_footer :: "report_summary \<Rightarrow> walk_stats \<Rightarrow> string" where
  "emit_text_footer s ws =
     ''----'' @ [nl] @
     ''Walked: '' @ show_nat (ws_files_seen_total ws) @ '' files in '' @ show_nat (ws_dirs_visited ws) @
     '' dirs (skipped '' @ show_nat (ws_skipped_non_audio ws) @ '' non-audio, '' @ show_nat (ws_skipped_dotfiles ws) @
     '' dotfiles)'' @ [nl] @
     ''Passed: '' @ show_nat (rp_passed s) @ '' ('' @ show_tenths (pass_percentage s) @ ''%)'' @ [nl] @
     ''Flagged (advisory, multi-value): '' @ show_nat (rp_flagged_only s) @ [nl] @
     ''Failed (canonical schema): '' @ show_nat (rp_failed s) @ [nl] @
     concat (map (\<lambda>f. if rp_missing s f > 0
       then ''  missing '' @ canonical_field_name f @ '': '' @ show_nat (rp_missing s f) @ [nl] else []) canonical_fields) @
     (if rp_open_failed s > 0 then ''  taglib open failed: '' @ show_nat (rp_open_failed s) @ [nl] else [])"

section \<open>The closing JSON document\<close>

text \<open>How many bytes follow the lead byte of a UTF-8 sequence; \<open>None\<close> for a byte that leads none.\<close>

definition utf8_extra :: "nat \<Rightarrow> nat option" where
  "utf8_extra c = (if 0xC0 \<le> c \<and> c < 0xE0 then Some 1 else if 0xE0 \<le> c \<and> c < 0xF0 then Some 2
     else if 0xF0 \<le> c \<and> c < 0xF8 then Some 3 else None)"

definition continuation :: "char \<Rightarrow> bool" where
  "continuation c \<longleftrightarrow> 0x80 \<le> (of_char c :: nat) \<and> (of_char c :: nat) < 0xC0"

definition short_escape :: "char \<Rightarrow> string option" where
  "short_escape c =
     (if c = CHR 0x22 then Some [CHR 0x5C, CHR 0x22] else if c = CHR 0x5C then Some [CHR 0x5C, CHR 0x5C]
      else if c = CHR 0x0A then Some [CHR 0x5C, CHR ''n''] else if c = CHR 0x0D then Some [CHR 0x5C, CHR ''r'']
      else if c = CHR 0x09 then Some [CHR 0x5C, CHR ''t''] else if c = CHR 0x08 then Some [CHR 0x5C, CHR ''b'']
      else if c = CHR 0x0C then Some [CHR 0x5C, CHR ''f''] else None)"

text \<open>The replacement is written for the byte that starts a broken sequence, and reading goes on after that byte.\<close>

fun json_escape :: "string \<Rightarrow> string" where
  "json_escape [] = []"
| "json_escape (c # cs) = (case short_escape c of
     Some e \<Rightarrow> e @ json_escape cs
   | None \<Rightarrow>
       (let n = of_char c :: nat in
        if n < 0x20 then [CHR 0x5C, CHR ''u''] @ hex4 n @ json_escape cs
        else if n < 0x80 then c # json_escape cs
        else case utf8_extra n of
          None \<Rightarrow> [CHR 0x5C] @ ''ufffd'' @ json_escape cs
        | Some k \<Rightarrow>
            if length cs < k \<or> \<not> list_all continuation (take k cs) then [CHR 0x5C] @ ''ufffd'' @ json_escape cs
            else c # take k cs @ json_escape (drop k cs)))"

definition quoted :: "string \<Rightarrow> string" where
  "quoted s = [CHR 0x22] @ s @ [CHR 0x22]"

definition json_key :: "string \<Rightarrow> string" where
  "json_key k = quoted k @ '': ''"

definition json_count :: "string \<Rightarrow> string \<Rightarrow> nat \<Rightarrow> string \<Rightarrow> string" where
  "json_count indent k n sep = indent @ json_key k @ show_nat n @ sep @ [nl]"

definition json_bool :: "bool \<Rightarrow> string" where
  "json_bool b = (if b then ''true'' else ''false'')"

definition json_field_name :: "canonical_field \<Rightarrow> string" where
  "json_field_name f = (if f = FIELD_COUNT then ''null'' else quoted (canonical_field_name f))"

definition json_issue :: "check_issue \<Rightarrow> string" where
  "json_issue i = [nl] @ ''        { '' @ json_key ''severity'' @ quoted (severity_id (ci_severity i)) @ '', '' @
     json_key ''code'' @ quoted (json_escape (ci_code i)) @ '', '' @
     json_key ''field'' @ json_field_name (ci_field i) @ '', '' @
     json_key ''detail'' @ quoted (json_escape (ci_detail i)) @ '' }''"

definition json_track_doc :: "snapshot \<Rightarrow> string" where
  "json_track_doc t =
     ''    {'' @ [nl] @
     ''      '' @ json_key ''path'' @ quoted (json_escape (sn_path t)) @ '','' @ [nl] @
     ''      '' @ json_key ''format'' @ quoted (fmt_id (sn_format t)) @ '','' @ [nl] @
     ''      '' @ json_key ''any_fail'' @ json_bool (sn_any_fail t) @ '','' @ [nl] @
     ''      '' @ json_key ''any_flag'' @ json_bool (sn_any_flag t) @ '','' @ [nl] @
     ''      '' @ json_key ''tag_read_failed'' @ json_bool (sn_read_failed t) @ '','' @ [nl] @
     ''      '' @ json_key ''issues'' @ ''['' @ join '','' (map json_issue (sn_issues t)) @
     (if sn_issues t = [] then [] else [nl] @ ''      '') @ '']'' @ [nl]"

definition emit_json :: "report_summary \<Rightarrow> walk_stats \<Rightarrow> string" where
  "emit_json s ws =
     ''{'' @ [nl] @
     ''  '' @ json_key ''summary'' @ ''{'' @ [nl] @
     json_count ''    '' ''files_seen'' (rp_seen s) '','' @
     json_count ''    '' ''files_passed'' (rp_passed s) '','' @
     json_count ''    '' ''files_flagged_only'' (rp_flagged_only s) '','' @
     json_count ''    '' ''files_failed'' (rp_failed s) '','' @
     json_count ''    '' ''files_taglib_open_failed'' (rp_open_failed s) '','' @
     ''    '' @ json_key ''per_field_missing'' @ ''{'' @ [nl] @
     concat (map (\<lambda>f. json_count ''      '' (canonical_field_name f) (rp_missing s f) (if f = FIELD_GENRE then [] else '',''))
       canonical_fields) @
     ''    }'' @ [nl] @ ''  },'' @ [nl] @
     ''  '' @ json_key ''walk'' @ ''{'' @ [nl] @
     json_count ''    '' ''dirs_visited'' (ws_dirs_visited ws) '','' @
     json_count ''    '' ''files_seen_total'' (ws_files_seen_total ws) '','' @
     json_count ''    '' ''audio_files_seen'' (ws_audio_files_seen ws) '','' @
     json_count ''    '' ''skipped_non_audio'' (ws_skipped_non_audio ws) '','' @
     json_count ''    '' ''skipped_dotfiles'' (ws_skipped_dotfiles ws) '','' @
     json_count ''    '' ''skipped_symlinks_outside_root'' (ws_skipped_symlinks ws) '','' @
     json_count ''    '' ''taglib_open_failures'' (ws_open_failures ws) [] @
     ''  },'' @ [nl] @
     ''  '' @ json_key ''tracks'' @ ''['' @ [nl] @
     concat (map (\<lambda>t. json_track_doc t @ ''    },'' @ [nl]) (butlast (rp_records s))) @
     (if rp_records s = [] then [] else json_track_doc (last (rp_records s)) @ ''    }'' @ [nl]) @
     ''  ]'' @ [nl] @ ''}'' @ [nl]"

definition report_emit :: "walk_stats \<Rightarrow> report_summary \<Rightarrow> report_summary" where
  "report_emit ws s = s\<lparr>rp_out := rp_out s @
     (case rp_format s of REPORT_FORMAT_TEXT \<Rightarrow> emit_text_footer s ws | REPORT_FORMAT_JSON \<Rightarrow> emit_json s ws)\<rparr>"

section \<open>An escaped string ends at its closing quote\<close>

fun utf8_ok :: "string \<Rightarrow> bool" where
  "utf8_ok [] = True"
| "utf8_ok (c # cs) = (let n = of_char c :: nat in
     if n < 0x80 then utf8_ok cs
     else case utf8_extra n of None \<Rightarrow> False
     | Some k \<Rightarrow> k \<le> length cs \<and> list_all continuation (take k cs) \<and> utf8_ok (drop k cs))"

lemma read_plain: "\<forall>c \<in> set xs. c \<noteq> CHR 0x22 \<and> c \<noteq> CHR 0x5C \<Longrightarrow>
    read_chars (xs @ r) = map_option (map_prod ((@) xs) id) (read_chars r)"
proof (induction xs)
  case Nil
  show ?case by (cases "read_chars r") (auto simp: map_prod_def)
next
  case (Cons c xs)
  then show ?case by (cases "read_chars r") (auto simp: map_prod_def split: prod.split)
qed

lemma high_plain: "0x80 \<le> (of_char c :: nat) \<Longrightarrow> c \<noteq> CHR 0x22 \<and> c \<noteq> CHR 0x5C"
  by auto

text \<open>Whatever bytes a path or a tag holds, the reader stops at the quote after its escaped text; valid UTF-8
  without backspace and form feed (which the reader does not know) is read back.\<close>

lemma json_escape_contained:
  "\<exists>x. read_chars (json_escape s @ CHR 0x22 # rest) = Some (x, rest) \<and>
     (utf8_ok s \<and> CHR 0x08 \<notin> set s \<and> CHR 0x0C \<notin> set s \<longrightarrow> x = s)"
proof (induction s rule: json_escape.induct)
  case (2 c cs)
  show ?case
  proof (cases "short_escape c")
    case (Some e)
    with 2(6) obtain x where "read_chars (json_escape cs @ CHR 0x22 # rest) = Some (x, rest)"
      "utf8_ok cs \<and> CHR 0x08 \<notin> set cs \<and> CHR 0x0C \<notin> set cs \<longrightarrow> x = cs" by blast
    then show ?thesis using Some
      by (auto simp: short_escape_def split: if_splits)
  next
    case None
    let ?n = "of_char c :: nat"
    have plain: "c \<noteq> CHR 0x22" "c \<noteq> CHR 0x5C" using None by (auto simp: short_escape_def split: if_splits)
    consider (ctl) "?n < 0x20" | (ascii) "0x20 \<le> ?n" "?n < 0x80" | (none) "0x80 \<le> ?n" "utf8_extra ?n = None"
      | (multi) k where "0x80 \<le> ?n" "utf8_extra ?n = Some k" by (meson not_less option.exhaust)
    then show ?thesis
    proof cases
      case ctl
      then have "c < CHR 0x20" by (simp add: less_char_def)
      then obtain h3 h2 h1 h0 where h: "hex4 ?n = [h3, h2, h1, h0]"
        "char_of (((unhex h3 * 16 + unhex h2) * 16 + unhex h1) * 16 + unhex h0) = c" by (rule control_char)
      from 2(1) [OF None refl ctl] obtain x where "read_chars (json_escape cs @ CHR 0x22 # rest) = Some (x, rest)"
        "utf8_ok cs \<and> CHR 0x08 \<notin> set cs \<and> CHR 0x0C \<notin> set cs \<longrightarrow> x = cs" by blast
      then show ?thesis using None ctl h by auto
    next
      case ascii
      with 2(2) [OF None refl] obtain x where "read_chars (json_escape cs @ CHR 0x22 # rest) = Some (x, rest)"
        "utf8_ok cs \<and> CHR 0x08 \<notin> set cs \<and> CHR 0x0C \<notin> set cs \<longrightarrow> x = cs" by auto
      then show ?thesis using None ascii plain by auto
    next
      case none
      with 2(3) [OF None refl] obtain x where "read_chars (json_escape cs @ CHR 0x22 # rest) = Some (x, rest)" by auto
      then show ?thesis using None none by auto
    next
      case (multi k)
      show ?thesis
      proof (cases "length cs < k \<or> \<not> list_all continuation (take k cs)")
        case True
        with 2(4) [OF None refl] multi obtain x where "read_chars (json_escape cs @ CHR 0x22 # rest) = Some (x, rest)" by auto
        then show ?thesis using None multi True by auto
      next
        case False
        with 2(5) [OF None refl] multi obtain x where x: "read_chars (json_escape (drop k cs) @ CHR 0x22 # rest) = Some (x, rest)"
          "utf8_ok (drop k cs) \<and> CHR 0x08 \<notin> set (drop k cs) \<and> CHR 0x0C \<notin> set (drop k cs) \<longrightarrow> x = drop k cs" by auto
        have "\<forall>d \<in> set (take k cs). d \<noteq> CHR 0x22 \<and> d \<noteq> CHR 0x5C"
          using False high_plain by (auto simp: list_all_iff continuation_def)
        then have "read_chars (take k cs @ json_escape (drop k cs) @ CHR 0x22 # rest) = Some (take k cs @ x, rest)"
          by (simp only: read_plain x(1)) simp
        then have "read_chars (json_escape (c # cs) @ CHR 0x22 # rest) = Some (c # take k cs @ x, rest)"
          using None multi False plain by (simp add: not_less)
        moreover have "c # take k cs @ x = c # cs" if "utf8_ok (c # cs)" "CHR 0x08 \<notin> set (c # cs)" "CHR 0x0C \<notin> set (c # cs)"
          using that x(2) multi in_set_dropD [of _ k cs] by (auto simp: not_less)
        ultimately show ?thesis by blast
      qed
    qed
  qed
qed simp

end
