(* ===== verification/Quarantine.thy ===== *)
theory Quarantine
  imports Report Download
begin

unbundle bit_operations_syntax

text \<open>
  The tag checker's quarantine (\<open>tagcheck/quarantine.c\<close>) and its run (\<open>tagcheck/main.c\<close> after the options are
  parsed). \<open>qe_real\<close> answers \<open>realpath\<close>, \<open>qe_flock\<close> the lock on the log, \<open>qe_rand\<close> the values \<open>rand\<close> gives while a
  target is resolved. The log is line-buffered: each line is one write, whose result is not looked at. \<open>lstat\<close>
  fails only for a name that is not there.
\<close>

section \<open>State\<close>

record quarantine_env =
  qe_real :: "path \<Rightarrow> path option"
  qe_flock :: bool
  qe_iso :: string
  qe_time :: int
  qe_rand :: "path \<Rightarrow> nat \<Rightarrow> nat"

record quarantine_ctx =
  qc_library_root :: path
  qc_quarantine_root :: path
  qc_dry_run :: bool
  qc_log :: "path option"
  qc_moved :: nat
  qc_failed :: nat
  qc_fs :: fs

definition quarantine_create_dir :: "path \<Rightarrow> fs \<Rightarrow> int \<times> fs" where
  "quarantine_create_dir p s = (if p = [] then (1, s) else case sys_mkdir p s of
     (None, s) \<Rightarrow> (0, s)
   | (Some e, s) \<Rightarrow> if e = EEXIST then (if is_dir s p then 0 else 1, s) else (1, s))"

text \<open>One line of the log.\<close>

definition log_line :: "string \<Rightarrow> quarantine_ctx \<Rightarrow> quarantine_ctx" where
  "log_line line q = (case qc_log q of None \<Rightarrow> q
   | Some p \<Rightarrow> q\<lparr>qc_fs := snd (sys_write p (line @ [nl]) (qc_fs q))\<rparr>)"

definition inside :: "path \<Rightarrow> path \<Rightarrow> bool" where
  "inside lib p \<longleftrightarrow> take (length lib) p = lib \<and> (length p = length lib \<or> length lib < length p \<and> p ! length lib = slash)"

definition quarantine_init :: "quarantine_env \<Rightarrow> path \<Rightarrow> path \<Rightarrow> bool \<Rightarrow> fs \<Rightarrow> quarantine_ctx option \<times> fs" where
  "quarantine_init E library_path quarantine_path dry s = (case qe_real E library_path of
     None \<Rightarrow> (None, s)
   | Some lib_real \<Rightarrow> (case qe_real E quarantine_path of
       None \<Rightarrow> (None, s)
     | Some quar_real \<Rightarrow>
         if lib_real = quar_real \<or> inside lib_real quar_real then (None, s)
         else (let q = \<lparr>qc_library_root = lib_real, qc_quarantine_root = quar_real, qc_dry_run = dry, qc_log = None,
                    qc_moved = 0, qc_failed = 0, qc_fs = s\<rparr>;
                   log_path = quar_real @ ''/quarantine.log''
               in if dry then (Some q, s)
                  else case sys_open_append log_path s of
                    (Some e, s) \<Rightarrow> (None, s)
                  | (None, s) \<Rightarrow> if \<not> qe_flock E then (None, s)
                      else (let q = log_line (''# nocturne-tagcheck quarantine session start: '' @ qe_iso E)
                                      (q\<lparr>qc_log := Some log_path, qc_fs := s\<rparr>)
                            in (Some q, qc_fs q)))))"

definition quarantine_should_move :: "check_result \<Rightarrow> bool" where
  "quarantine_should_move cr \<longleftrightarrow> cr_any_fail cr \<or> cr_failed cr"

section \<open>One move\<close>

text \<open>\<open>mkdir\<close> for every directory above the target; any existing name will do.\<close>

fun mkdir_any :: "path list \<Rightarrow> fs \<Rightarrow> bool \<times> fs" where
  "mkdir_any [] s = (True, s)"
| "mkdir_any (p # ps) s = (case sys_mkdir p s of
     (None, s) \<Rightarrow> mkdir_any ps s
   | (Some e, s) \<Rightarrow> if e \<noteq> EEXIST then (False, s) else mkdir_any ps s)"

definition dir_name :: "path \<Rightarrow> path" where
  "dir_name p = (case split_last slash p of None \<Rightarrow> ''.'' | Some (d, b) \<Rightarrow> if d = [] then [slash] else d)"

definition mkdir_p_for_file :: "path \<Rightarrow> fs \<Rightarrow> bool \<times> fs" where
  "mkdir_p_for_file target = (let d = dir_name target in
     mkdir_any ([take i d. i \<leftarrow> [(if take 1 d = [slash] then 1 else 0)..<length d], d ! i = slash \<and> i > 0] @ [d]))"

text \<open>The code already stands in the list: a match bounded by its ends or commas.\<close>

definition has_code :: "string \<Rightarrow> string \<Rightarrow> bool" where
  "has_code buf code = list_ex (\<lambda>i. take (length code) (drop i buf) = code \<and> (i = 0 \<or> buf ! (i - 1) = CHR '','') \<and>
     (i + length code = length buf \<or> i + length code < length buf \<and> buf ! (i + length code) = CHR '',''))
     [0..<Suc (length buf)]"

definition add_reason :: "check_issue \<Rightarrow> string \<Rightarrow> string" where
  "add_reason i buf = (if ci_severity i \<noteq> CHECK_FAIL then buf
     else if buf \<noteq> [] \<and> has_code buf (take 127 (ci_code i)) then buf
     else buf @ (if buf \<noteq> [] then '','' else []) @ ci_code i)"

definition reasons_join :: "check_result \<Rightarrow> string" where
  "reasons_join cr = fold add_reason (cr_issues cr) []"

definition compute_target :: "path \<Rightarrow> path \<Rightarrow> path \<Rightarrow> (path \<times> path) option" where
  "compute_target src lib quar = (if \<not> inside lib src then None
     else (let rel = dropWhile (\<lambda>c. c = slash) (drop (length lib) src)
           in if rel = [] then None else Some (quar @ [slash] @ rel, rel)))"

definition candidate :: "quarantine_env \<Rightarrow> path \<Rightarrow> nat \<Rightarrow> path" where
  "candidate E target attempt = target @ ''.dup-'' @ show_int (qe_time E) @
     (if attempt = 0 then [] else ''-'' @ hex4 ((qe_rand E target attempt XOR attempt) mod 65536))"

definition resolve_collision :: "quarantine_env \<Rightarrow> path \<Rightarrow> fs \<Rightarrow> path option" where
  "resolve_collision E target s = (if fs_get s target = None then Some target
     else find (\<lambda>c. fs_get s c = None) (map (candidate E target) [0..<16]))"

definition fail_move :: "fs \<Rightarrow> quarantine_ctx \<Rightarrow> int \<times> quarantine_ctx" where
  "fail_move s q = (1, q\<lparr>qc_fs := s, qc_failed := qc_failed q + 1\<rparr>)"

definition log_move :: "quarantine_env \<Rightarrow> path \<Rightarrow> path \<Rightarrow> string \<Rightarrow> quarantine_ctx \<Rightarrow> quarantine_ctx" where
  "log_move E rel target reasons q =
     (let tgt_rel = (case strip_prefix (qc_quarantine_root q @ [slash]) target of None \<Rightarrow> target | Some r \<Rightarrow> r)
      in log_line (qe_iso E @ [CHR 0x09] @ rel @ [CHR 0x09] @ tgt_rel @ [CHR 0x09] @ reasons) q)"

definition quarantine_move :: "quarantine_env \<Rightarrow> tag_record \<Rightarrow> check_result \<Rightarrow> quarantine_ctx \<Rightarrow> int \<times> quarantine_ctx" where
  "quarantine_move E rec cr q = (case compute_target (tr_path rec) (qc_library_root q) (qc_quarantine_root q) of
     None \<Rightarrow> fail_move (qc_fs q) q
   | Some (target, rel) \<Rightarrow>
       if qc_dry_run q then (0, q\<lparr>qc_moved := qc_moved q + 1\<rparr>)
       else case mkdir_p_for_file target (qc_fs q) of
         (False, s) \<Rightarrow> fail_move s q
       | (True, s) \<Rightarrow> (case resolve_collision E target s of
           None \<Rightarrow> fail_move s q
         | Some final \<Rightarrow> (case sys_rename (tr_path rec) final s of
             (Some e, s) \<Rightarrow> fail_move s q
           | (None, s) \<Rightarrow> (let q = log_move E rel final (reasons_join cr) (q\<lparr>qc_fs := s\<rparr>)
                          in (0, q\<lparr>qc_moved := qc_moved q + 1\<rparr>)))))"

definition quarantine_close :: "quarantine_env \<Rightarrow> quarantine_ctx \<Rightarrow> quarantine_ctx" where
  "quarantine_close E q = (log_line (''# nocturne-tagcheck quarantine session end: '' @ qe_iso E @ ''; moved='' @
     show_nat (qc_moved q) @ '', failed='' @ show_nat (qc_failed q)) q)\<lparr>qc_log := None\<rparr>"

section \<open>The run\<close>

record cli_opts =
  co_library_path :: path
  co_quarantine_path :: path
  co_json :: bool
  co_quarantine :: bool
  co_dry_run :: bool
  co_init_quarantine :: bool

type_synonym main_ctx = "report_summary \<times> quarantine_ctx option"

definition on_file_check :: "quarantine_env \<Rightarrow> tag_record \<Rightarrow> main_ctx \<Rightarrow> walk_result \<times> main_ctx" where
  "on_file_check E rec = (\<lambda>(s, qo).
     (let cr = check_canonical rec; s = report_add rec cr s
      in (WALK_CONTINUE, s, case qo of None \<Rightarrow> None
           | Some q \<Rightarrow> if quarantine_should_move cr then Some (snd (quarantine_move E rec cr q)) else Some q)))"

definition TAGCHECK_EXIT_OK :: int where "TAGCHECK_EXIT_OK = 0"
definition TAGCHECK_EXIT_FAILED_TRACKS :: int where "TAGCHECK_EXIT_FAILED_TRACKS = 1"
definition TAGCHECK_EXIT_QUARANTINED :: int where "TAGCHECK_EXIT_QUARANTINED = 2"
definition TAGCHECK_EXIT_ERROR :: int where "TAGCHECK_EXIT_ERROR = 3"

text \<open>From the set-up of the report on; \<open>lib\<close> and \<open>tags\<close> are what the walk finds.\<close>

definition tagcheck_run ::
  "quarantine_env \<Rightarrow> library \<Rightarrow> (path \<Rightarrow> tag_record) \<Rightarrow> cli_opts \<Rightarrow> fs \<Rightarrow> int \<times> report_summary \<times> fs" where
  "tagcheck_run E lib tags opts s =
     (let summary = report_summary_init (if co_json opts then REPORT_FORMAT_JSON else REPORT_FORMAT_TEXT);
          (active, qo, s) = (if co_quarantine opts
             then (case quarantine_init E (co_library_path opts) (co_quarantine_path opts) (co_dry_run opts) s of
                     (qo, s) \<Rightarrow> (qo \<noteq> None, qo, s))
             else (True, None, s))
      in if \<not> active then (TAGCHECK_EXIT_ERROR, summary, s)
         else case walker_walk lib tags (on_file_check E) (summary, qo) of (wr, (summary, qo), ws) \<Rightarrow>
           (let summary = (if wr \<noteq> 0 then summary else report_emit ws summary);
                code = (if wr \<noteq> 0 then TAGCHECK_EXIT_ERROR
                        else if (case qo of None \<Rightarrow> False | Some q \<Rightarrow> qc_moved q > 0) then TAGCHECK_EXIT_QUARANTINED
                        else if rp_failed summary > 0 then TAGCHECK_EXIT_FAILED_TRACKS else TAGCHECK_EXIT_OK)
            in (code, summary, case qo of None \<Rightarrow> s | Some q \<Rightarrow> qc_fs (quarantine_close E q))))"

definition tagcheck_main ::
  "quarantine_env \<Rightarrow> library \<Rightarrow> (path \<Rightarrow> tag_record) \<Rightarrow> cli_opts \<Rightarrow> fs \<Rightarrow> int \<times> fs" where
  "tagcheck_main E lib tags opts s =
     (let (rc, s) = (if co_init_quarantine opts then quarantine_create_dir (co_quarantine_path opts) s else (0, s))
      in if rc \<noteq> 0 then (TAGCHECK_EXIT_ERROR, s)
         else if co_init_quarantine opts \<and> \<not> co_quarantine opts then (TAGCHECK_EXIT_OK, s)
         else if co_dry_run opts \<and> \<not> co_quarantine opts then (TAGCHECK_EXIT_ERROR, s)
         else case tagcheck_run E lib tags opts s of (code, summary, s) \<Rightarrow> (code, s))"

end
