(* ===== verification/QuarantineProps.thy ===== *)
theory QuarantineProps
  imports Quarantine
begin

text \<open>
  The tag checker's promises: no run of the quarantine loses or alters a file, a file that passes the schema
  is never moved, and a report without quarantine counts exactly what the checker finds.
\<close>

section \<open>Steps of a quarantine run\<close>

text \<open>From \<open>s\<close> to \<open>s'\<close> every name keeps its inode, or has the property \<open>P\<close> and its inode a new name in \<open>U\<close>;
  only the log's bytes change.\<close>

definition qstep :: "(path \<Rightarrow> bool) \<Rightarrow> (path \<Rightarrow> bool) \<Rightarrow> path \<Rightarrow> fs \<Rightarrow> fs \<Rightarrow> bool" where
  "qstep P U lg s s' \<longleftrightarrow> fs_inode s' lg = fs_inode s lg \<and> (fs_get s lg \<noteq> None \<longrightarrow> fs_get s' lg \<noteq> None) \<and>
     (\<forall>p i. fs_inode s p = Some i \<longrightarrow> (\<exists>q. (q = p \<or> P p \<and> U q) \<and> fs_inode s' q = Some i)) \<and>
     (\<forall>i. fs_inode s lg \<noteq> Some i \<longrightarrow> file_data s' i = file_data s i)"

lemma qstep_refl [simp]: "qstep P U lg s s"
  by (auto simp: qstep_def)

lemma qstep_trans:
  assumes "qstep P U lg s s1" "qstep P U lg s1 s2" shows "qstep P U lg s s2"
proof -
  have "\<exists>q. (q = p \<or> P p \<and> U q) \<and> fs_inode s2 q = Some i" if i: "fs_inode s p = Some i" for p i
  proof -
    from assms(1) i obtain q where q: "q = p \<or> P p \<and> U q" "fs_inode s1 q = Some i"
      unfolding qstep_def by blast
    from assms(2) q(2) obtain r where r: "r = q \<or> P q \<and> U r" "fs_inode s2 r = Some i" unfolding qstep_def by blast
    from q(1) r show ?thesis by blast
  qed
  with assms show ?thesis by (simp add: qstep_def)
qed

lemma qstep_same: "same_tree s s' \<Longrightarrow> qstep P U lg s s'"
  by (auto simp: qstep_def same_tree_get same_tree_data)

lemma qstep_mkdir:
  assumes "sys_mkdir p s = (r, s')" shows "qstep P U lg s s'"
  using assms
proof (cases rule: sys_mkdir_cases)
  case (ok s0)
  then have "fs_inode s p = None" by (simp add: fs_inode_def)
  then have "fs_inode s' = fs_inode s" using ok(2) by (auto simp: ok(4) fun_eq_iff inode_put_node same_tree_get)
  moreover have "file_data s' = file_data s" using same_tree_data [OF ok(2)] by (simp add: ok(4))
  moreover have "fs_get s lg \<noteq> None \<longrightarrow> fs_get s' lg \<noteq> None" using same_tree_get(1) [OF ok(2)] by (simp add: ok(4) get_put_node)
  ultimately show ?thesis by (auto simp: qstep_def)
qed (rule qstep_same)

lemma qstep_mkdirs: "mkdir_any ps s = (b, s') \<Longrightarrow> qstep P U lg s s'"
proof (induction ps arbitrary: s)
  case (Cons p ps)
  obtain r s1 where m: "sys_mkdir p s = (r, s1)" by fastforce
  note M = qstep_mkdir [OF m, of P U lg]
  show ?case
  proof (cases "r = None \<or> r = Some EEXIST")
    case True
    with Cons.prems m have "mkdir_any ps s1 = (b, s')" by (auto split: if_splits)
    from qstep_trans [OF M Cons.IH [OF this]] show ?thesis .
  next
    case False
    with Cons.prems m have "s' = s1" by (auto split: if_splits)
    with M show ?thesis by simp
  qed
qed simp

lemma qstep_write:
  assumes "sys_write lg bs s = (r, s')" shows "qstep P U lg s s'"
proof (cases "fs_inode s lg")
  case None
  with assms have "same_tree s s'" by (auto simp: sys_write_def same_tree_get elim!: injected_cases)
  then show ?thesis by (rule qstep_same)
next
  case (Some i)
  from assms Some show ?thesis
  proof (cases rule: sys_write_cases)
    case (fail e)
    then show ?thesis by (intro qstep_same)
  next
    case (ok s0)
    then have "fs_inode s' = fs_inode s" "fs_get s' = fs_get s" by (simp_all add: data_upd same_tree_get)
    moreover have "file_data s' j = file_data s j" if "j \<noteq> i" for j
      using that same_tree_data [OF ok(2)] by (simp add: ok(3) file_data_upd)
    ultimately show ?thesis using Some by (auto simp: qstep_def)
  qed
qed

lemma qstep_rename:
  assumes "sys_rename src final s = (r, s')" "P src" "U final" "src \<noteq> lg" "final \<noteq> lg" "fs_get s final = None"
  shows "qstep P U lg s s'"
  using assms(1)
proof (cases rule: sys_rename_cases)
  case (ok s0 n)
  have inode: "fs_inode s' q = (if q = src then None else if q = final then fs_inode s src else fs_inode s q)" for q
    using ok(3) by (simp add: ok(6) inode_del_node inode_put_node same_tree_get [OF ok(2)]) (simp add: fs_inode_def)
  have data: "file_data s' = file_data s" using same_tree_data [OF ok(2)] by (simp add: ok(6))
  have get: "fs_get s lg \<noteq> None \<longrightarrow> fs_get s' lg \<noteq> None"
    using assms(4) same_tree_get(1) [OF ok(2)] by (simp add: ok(6) get_put_node get_del_node)
  have free: "fs_inode s final = None" using assms(6) by (simp add: fs_inode_def)
  have "\<exists>q. (q = p \<or> P p \<and> U q) \<and> fs_inode s' q = Some i" if i: "fs_inode s p = Some i" for p i
  proof (cases "p = src")
    case True
    with i inode ok(5) assms(2,3) show ?thesis by (intro exI [of _ final]) simp
  next
    case False
    with i inode free show ?thesis by (intro exI [of _ p]) auto
  qed
  with inode data get assms(4,5) show ?thesis by (simp add: qstep_def)
qed (auto intro: qstep_same)

text \<open>What a run may move: failing files the target of which can be computed.\<close>

definition movable :: "path \<Rightarrow> path \<Rightarrow> (path \<Rightarrow> bool) \<Rightarrow> path \<Rightarrow> bool" where
  "movable lib quar P p \<longleftrightarrow> P p \<and> compute_target p lib quar \<noteq> None"

definition below :: "path \<Rightarrow> path \<Rightarrow> bool" where
  "below quar q \<longleftrightarrow> (\<exists>t. q = quar @ [slash] @ t)"

definition log_of :: "path \<Rightarrow> path" where
  "log_of quar = quar @ ''/quarantine.log''"

lemma log_not_movable:
  assumes "lib \<noteq> quar" "\<not> inside lib quar" shows "\<not> movable lib quar P (log_of quar)"
proof
  assume m: "movable lib quar P (log_of quar)"
  then have ins: "inside lib (log_of quar)" and rel: "dropWhile (\<lambda>c. c = slash) (drop (length lib) (log_of quar)) \<noteq> []"
    by (auto simp: movable_def compute_target_def Let_def split: if_splits)
  from rel have "length lib < length (log_of quar)" by (metis drop_all dropWhile.simps(1) not_less)
  with ins have n: "take (length lib) (log_of quar) = lib" "log_of quar ! length lib = slash" by (auto simp: inside_def)
  consider "length lib < length quar" | "length lib = length quar" | "length quar < length lib" by linarith
  then show False
  proof cases
    case 1
    with n assms(2) show False by (simp add: log_of_def inside_def nth_append)
  next
    case 2
    with n assms(1) show False by (simp add: log_of_def)
  next
    case 3
    let ?k = "length lib - length quar - 1"
    from 3 n(2) \<open>length lib < length (log_of quar)\<close>
    have "''quarantine.log'' ! ?k = slash" "?k < length ''quarantine.log''" by (auto simp: log_of_def nth_append nth_Cons')
    then have "slash \<in> set ''quarantine.log''" using nth_mem by metis
    then show False by simp
  qed
qed

section \<open>One move\<close>

lemma candidate_below: "below quar target \<Longrightarrow> below quar (candidate E target n)"
  by (auto simp: below_def candidate_def)

lemma resolved:
  assumes "resolve_collision E target s = Some final" "below quar target"
  shows "below quar final \<and> fs_get s final = None"
proof (cases "fs_get s target = None")
  case True
  with assms show ?thesis by (simp add: resolve_collision_def)
next
  case False
  with assms(1) have f: "find (\<lambda>c. fs_get s c = None) (map (candidate E target) [0..<16]) = Some final"
    by (simp add: resolve_collision_def)
  then have "fs_get s final = None" "final \<in> set (map (candidate E target) [0..<16])" by (auto simp: find_Some_iff)
  moreover from this(2) obtain n where "final = candidate E target n" by (auto simp del: upt_Suc)
  ultimately show ?thesis using candidate_below [OF assms(2)] by simp
qed

definition log_opened :: "quarantine_ctx \<Rightarrow> bool" where
  "log_opened q \<longleftrightarrow> (if qc_dry_run q then qc_log q = None
     else qc_log q = Some (log_of (qc_quarantine_root q)) \<and> fs_get (qc_fs q) (log_of (qc_quarantine_root q)) \<noteq> None)"

definition same_roots :: "quarantine_ctx \<Rightarrow> quarantine_ctx \<Rightarrow> bool" where
  "same_roots q q' \<longleftrightarrow> qc_library_root q' = qc_library_root q \<and> qc_quarantine_root q' = qc_quarantine_root q \<and>
     qc_dry_run q' = qc_dry_run q \<and> qc_log q' = qc_log q"

lemma target_below: "compute_target src lib quar = Some (target, rel) \<Longrightarrow> below quar target"
  by (auto simp: compute_target_def below_def Let_def split: if_splits)

lemma log_line_kept:
  assumes "log_opened q"
  shows "same_roots q (log_line l q) \<and> qc_moved (log_line l q) = qc_moved q \<and> qc_failed (log_line l q) = qc_failed q \<and>
    qstep P U (log_of (qc_quarantine_root q)) (qc_fs q) (qc_fs (log_line l q))"
proof (cases "qc_log q")
  case None
  then show ?thesis by (simp add: log_line_def same_roots_def)
next
  case (Some p)
  then have p: "p = log_of (qc_quarantine_root q)" using assms by (auto simp: log_opened_def split: if_splits)
  obtain r s where "sys_write p (l @ [nl]) (qc_fs q) = (r, s)" by fastforce
  with qstep_write [OF this [unfolded p]] Some p show ?thesis by (simp add: log_line_def same_roots_def)
qed

lemma log_opened_step:
  "log_opened q \<Longrightarrow> same_roots q q' \<Longrightarrow> qstep P U (log_of (qc_quarantine_root q)) (qc_fs q) (qc_fs q') \<Longrightarrow> log_opened q'"
  by (auto simp: log_opened_def same_roots_def qstep_def split: if_splits)

lemma move_kept:
  assumes "log_opened q" "qc_library_root q \<noteq> qc_quarantine_root q" "\<not> inside (qc_library_root q) (qc_quarantine_root q)"
    and "P (tr_path rec)" "quarantine_move E rec cr q = (c, q')"
  shows "same_roots q q' \<and> qstep (movable (qc_library_root q) (qc_quarantine_root q) P) (below (qc_quarantine_root q))
    (log_of (qc_quarantine_root q)) (qc_fs q) (qc_fs q')"
proof (cases "compute_target (tr_path rec) (qc_library_root q) (qc_quarantine_root q)")
  case None
  with assms(5) show ?thesis by (auto simp: quarantine_move_def fail_move_def same_roots_def)
next
  case (Some tr)
  then obtain target rel where t: "compute_target (tr_path rec) (qc_library_root q) (qc_quarantine_root q) = Some (target, rel)"
    by (cases tr) simp
  show ?thesis
  proof (cases "qc_dry_run q")
    case True
    with assms(5) t show ?thesis by (auto simp: quarantine_move_def same_roots_def)
  next
    case False
    let ?S = "qstep (movable (qc_library_root q) (qc_quarantine_root q) P) (below (qc_quarantine_root q)) (log_of (qc_quarantine_root q))"
    obtain b s1 where m: "mkdir_p_for_file target (qc_fs q) = (b, s1)" by fastforce
    then have 1: "?S (qc_fs q) s1" by (auto simp: mkdir_p_for_file_def Let_def intro: qstep_mkdirs)
    have fails: ?thesis if "quarantine_move E rec cr q = fail_move s q" "?S (qc_fs q) s" for s
      using that assms(5) by (auto simp: fail_move_def same_roots_def)
    show ?thesis
    proof (cases "b \<and> resolve_collision E target s1 \<noteq> None")
      case False
      with 1 m t \<open>\<not> qc_dry_run q\<close> show ?thesis by (intro fails [of s1]) (auto simp: quarantine_move_def split: bool.split)
    next
      case True
      then obtain final where f: "resolve_collision E target s1 = Some final" by auto
      note R = resolved [OF f target_below [OF t]]
      obtain x s2 where n: "sys_rename (tr_path rec) final s1 = (x, s2)" by fastforce
      have gl: "fs_get s1 (log_of (qc_quarantine_root q)) \<noteq> None"
        using 1 assms(1) False by (simp add: qstep_def log_opened_def)
      have mv: "movable (qc_library_root q) (qc_quarantine_root q) P (tr_path rec)" using assms(4) t by (simp add: movable_def)
      then have src: "tr_path rec \<noteq> log_of (qc_quarantine_root q)" using log_not_movable [OF assms(2,3)] by metis
      have fin: "final \<noteq> log_of (qc_quarantine_root q)" using R gl by auto
      have "?S s1 s2" by (rule qstep_rename [OF n]) (use mv src fin R in simp_all)
      with 1 have 2: "?S (qc_fs q) s2" by (rule qstep_trans)
      show ?thesis
      proof (cases x)
        case (Some e)
        with 2 m t n f True False show ?thesis by (intro fails [of s2]) (auto simp: quarantine_move_def)
      next
        case None
        let ?q = "q\<lparr>qc_fs := s2\<rparr>"
        have o: "log_opened ?q" using log_opened_step [OF assms(1), of ?q] 2 by (simp add: same_roots_def)
        obtain l where l: "log_move E rel final (reasons_join cr) ?q = log_line l ?q" by (simp add: log_move_def Let_def)
        have "q' = (log_line l ?q)\<lparr>qc_moved := qc_moved (log_line l ?q) + 1\<rparr>"
          using assms(5) m t n f True False None l by (auto simp: quarantine_move_def Let_def)
        with log_line_kept [OF o, of l] qstep_trans [OF 2] show ?thesis by (auto simp: same_roots_def)
      qed
    qed
  qed
qed

section \<open>A whole run\<close>

lemma open_kept:
  assumes "fs_wf s" "sys_open_append lg s = (r, s1)"
  shows "(r = None \<longrightarrow> fs_get s1 lg \<noteq> None) \<and> (\<forall>p i. fs_inode s p = Some i \<longrightarrow> fs_inode s1 p = Some i \<and>
    file_data s1 i = file_data s i \<and> (fs_inode s lg \<noteq> Some i \<longrightarrow> fs_inode s1 lg \<noteq> Some i))"
  using assms(2) [unfolded sys_open_append_def]
proof (cases rule: injected_cases)
  case (fault e)
  then show ?thesis by (simp add: same_tree_get same_tree_data)
next
  case (run s0)
  consider (same) "s1 = s0" "r = None \<longrightarrow> fs_get s0 lg \<noteq> None" | (new) "r = None" "s1 = fresh_file lg s0" "fs_get s0 lg = None"
    using run(2) by (cases "fs_get s0 lg") (auto split: node.splits if_splits)
  then show ?thesis
  proof cases
    case same
    with run(1) show ?thesis by (auto simp: same_tree_get same_tree_data)
  next
    case e: new
    note n = e(3)
    have next0: "fs_next s0 = fs_next s" using run(1) by (simp add: same_tree_def)
    have "fs_inode s1 p = Some i \<and> file_data s1 i = file_data s i \<and> fs_inode s1 lg \<noteq> Some i" if i: "fs_inode s p = Some i" for p i
    proof -
      have "i < fs_next s" using assms(1) i unfolding fs_wf_def by blast
      moreover have "fs_inode s0 p = Some i" using i run(1) by (simp add: same_tree_get)
      moreover from this n have "p \<noteq> lg" by (auto simp: fs_inode_def)
      ultimately show ?thesis using same_tree_data [OF run(1)] next0 by (simp add: e inode_fresh data_fresh)
    qed
    with e show ?thesis by (simp add: get_fresh)
  qed
qed

definition ready :: "path \<Rightarrow> fs \<Rightarrow> quarantine_ctx \<Rightarrow> bool" where
  "ready quar s q \<longleftrightarrow> log_opened q \<and> qc_quarantine_root q = quar \<and> qc_library_root q \<noteq> quar \<and> \<not> inside (qc_library_root q) quar \<and>
     qc_moved q = 0 \<and> (qc_dry_run q \<longrightarrow> qc_fs q = s) \<and>
     (\<forall>p i. fs_inode s p = Some i \<longrightarrow> fs_inode s (log_of quar) \<noteq> Some i \<longrightarrow>
        fs_inode (qc_fs q) p = Some i \<and> file_data (qc_fs q) i = file_data s i \<and> fs_inode (qc_fs q) (log_of quar) \<noteq> Some i)"

lemma init_ready:
  assumes "fs_wf s" "qe_real E qp = Some quar" "quarantine_init E lp qp dry s = (qo, s1)"
  shows "(\<forall>p. fs_content s p \<noteq> None \<longrightarrow> fs_content s1 p = fs_content s p \<or> fs_inode s p = fs_inode s (log_of quar)) \<and>
    (dry \<longrightarrow> s1 = s) \<and> (\<forall>q. qo = Some q \<longrightarrow> ready quar s q \<and> qc_fs q = s1 \<and> qc_dry_run q = dry)"
proof -
  consider (refused) "qo = None" "s1 = s"
    | (opened) lib where "qe_real E lp = Some lib" "lib \<noteq> quar" "\<not> inside lib quar"
    using assms(2,3) by (cases "qe_real E lp") (auto simp: quarantine_init_def split: if_splits)
  then show ?thesis
  proof cases
    case refused
    then show ?thesis by simp
  next
    case (opened lib)
    let ?q = "\<lparr>qc_library_root = lib, qc_quarantine_root = quar, qc_dry_run = dry, qc_log = None, qc_moved = 0, qc_failed = 0, qc_fs = s\<rparr>"
    show ?thesis
    proof (cases dry)
      case True
      with opened assms(2,3) have "qo = Some ?q" "s1 = s" by (auto simp: quarantine_init_def)
      with opened True show ?thesis by (simp add: ready_def log_opened_def)
    next
      case False
      obtain r s0 where o: "sys_open_append (log_of quar) s = (r, s0)" by fastforce
      note O = open_kept [OF assms(1) o]
      have early: ?thesis if "qo = None" "s1 = s0"
        using that O False by (auto simp: fs_content_def split: option.split)
      show ?thesis
      proof (cases "r = None \<and> qe_flock E")
        case False
        with opened assms(2,3) \<open>\<not> dry\<close> o show ?thesis
          by (intro early) (auto simp: quarantine_init_def log_of_def split: option.splits if_splits)
      next
        case True
        let ?q1 = "?q\<lparr>qc_log := Some (log_of quar), qc_fs := s0\<rparr>"
        obtain l where q: "qo = Some (log_line l ?q1)" "s1 = qc_fs (log_line l ?q1)"
          using opened assms(2,3) \<open>\<not> dry\<close> o True by (auto simp: quarantine_init_def log_of_def Let_def)
        have lo: "log_opened ?q1" using O True \<open>\<not> dry\<close> by (simp add: log_opened_def)
        have K: "same_roots ?q1 (log_line l ?q1)" "qc_moved (log_line l ?q1) = 0"
          "qstep (\<lambda>p. False) (\<lambda>p. False) (log_of quar) s0 (qc_fs (log_line l ?q1))"
          using log_line_kept [OF lo, of l "\<lambda>p. False" "\<lambda>p. False"] by simp_all
        have lo2: "log_opened (log_line l ?q1)" using log_opened_step [OF lo K(1)] K(3) by simp
        have kept: "fs_inode s1 p = Some i \<and> file_data s1 i = file_data s i \<and> fs_inode s1 (log_of quar) \<noteq> Some i"
          if "fs_inode s p = Some i" "fs_inode s (log_of quar) \<noteq> Some i" for p i
          using that O K(3) unfolding q(2) qstep_def by auto
        then have "ready quar s (log_line l ?q1)"
          using lo2 K opened \<open>\<not> dry\<close> q(2) by (simp add: ready_def same_roots_def)
        moreover have "fs_content s1 p = fs_content s p \<or> fs_inode s p = fs_inode s (log_of quar)" if "fs_content s p \<noteq> None" for p
          using that kept by (cases "fs_inode s p") (auto simp: fs_content_def)
        ultimately show ?thesis using q K \<open>\<not> dry\<close> by (simp add: same_roots_def)
      qed
    qed
  qed
qed

text \<open>The walk is a fold over the files: the callback never stops it.\<close>

definition check_step :: "quarantine_env \<Rightarrow> (path \<Rightarrow> tag_record) \<Rightarrow> path \<Rightarrow> main_ctx \<Rightarrow> main_ctx" where
  "check_step E tags p c = snd (on_file_check E (tags p) c)"

lemma visit_check: "visit (\<lambda>p. on_file_check E (tags p)) ps c = (WALK_CONTINUE, fold (check_step E tags) ps c)"
proof (induction ps arbitrary: c)
  case (Cons p ps)
  have "on_file_check E (tags p) c = (WALK_CONTINUE, check_step E tags p c)"
    by (cases c) (simp add: check_step_def on_file_check_def Let_def)
  with Cons show ?case by simp
qed simp

lemma walk_check:
  assumes "walker_walk lib tags (on_file_check E) c = (wr, c', ws)"
  shows "c' = (if wr = 0 then fold (check_step E tags) (library_files lib) c else c)"
  using walker_walk_visits [of lib tags "on_file_check E" c c' ws] walker_walk_ok [OF assms] assms
  by (auto simp: visit_check)

definition failing :: "library \<Rightarrow> (path \<Rightarrow> tag_record) \<Rightarrow> path \<Rightarrow> bool" where
  "failing lib tags p \<longleftrightarrow> (\<exists>f \<in> set (library_files lib). tr_path (tags f) = p \<and> cr_any_fail (check_canonical (tags f)))"

lemma should_move_iff: "quarantine_should_move (check_canonical rec) \<longleftrightarrow> cr_any_fail (check_canonical rec)"
proof -
  have "cr_failed (fold (check_heuristic rec) fs (fold (check_presence rec) gs (check_format rec r))) = cr_failed r" for fs gs r
  proof -
    have 1: "cr_failed (check_format rec r) = cr_failed r" by (simp add: check_format_def)
    have 2: "cr_failed (fold (check_presence rec) gs r) = cr_failed r" for r
      by (induction gs arbitrary: r) (simp_all add: check_presence_def split: option.split)
    have 3: "cr_failed (fold (check_heuristic rec) fs r) = cr_failed r" for r
      by (induction fs arbitrary: r) (simp_all add: check_heuristic_def split: option.split)
    show ?thesis by (simp add: 1 2 3)
  qed
  from this [of "[FIELD_ARTIST, FIELD_GENRE]" canonical_fields
      "\<lparr>cr_failed = False, cr_any_fail = False, cr_any_flag = False, cr_issues = []\<rparr>"]
  show ?thesis by (auto simp: quarantine_should_move_def check_canonical_def Let_def)
qed

definition sound :: "quarantine_ctx \<Rightarrow> bool" where
  "sound q \<longleftrightarrow> log_opened q \<and> qc_library_root q \<noteq> qc_quarantine_root q \<and> \<not> inside (qc_library_root q) (qc_quarantine_root q)"

definition run_step :: "(path \<Rightarrow> bool) \<Rightarrow> quarantine_ctx \<Rightarrow> quarantine_ctx \<Rightarrow> bool" where
  "run_step P q q' \<longleftrightarrow> same_roots q q' \<and> sound q' \<and> (qc_dry_run q \<longrightarrow> qc_fs q' = qc_fs q) \<and>
     qstep (movable (qc_library_root q) (qc_quarantine_root q) P) (below (qc_quarantine_root q))
       (log_of (qc_quarantine_root q)) (qc_fs q) (qc_fs q')"

lemma run_step_trans: "run_step P q q1 \<Longrightarrow> run_step P q1 q2 \<Longrightarrow> run_step P q q2"
  by (auto simp: run_step_def same_roots_def intro: qstep_trans)

lemma run_step_refl: "sound q \<Longrightarrow> run_step P q q"
  by (simp add: run_step_def same_roots_def)

lemma move_run_step:
  assumes "sound q" "P (tr_path rec)" shows "run_step P q (snd (quarantine_move E rec cr q))"
proof -
  obtain c q' where m: "quarantine_move E rec cr q = (c, q')" by fastforce
  have K: "same_roots q q'" "qstep (movable (qc_library_root q) (qc_quarantine_root q) P) (below (qc_quarantine_root q))
      (log_of (qc_quarantine_root q)) (qc_fs q) (qc_fs q')"
    using move_kept [where P = P, OF _ _ _ assms(2) m] assms(1) by (simp_all add: sound_def)
  have "log_opened q'" using log_opened_step [OF _ K] assms(1) by (simp add: sound_def)
  moreover have "qc_fs q' = qc_fs q" if "qc_dry_run q"
    using m that by (auto simp: quarantine_move_def fail_move_def split: option.splits)
  ultimately show ?thesis using K assms(1) m by (simp add: run_step_def sound_def same_roots_def)
qed

lemma fold_run_step:
  assumes "sound q" "set ps \<subseteq> set (library_files lib)" "fold (check_step E tags) ps (sm, Some q) = (sm', qo)"
  shows "\<exists>q'. qo = Some q' \<and> run_step (failing lib tags) q q'"
  using assms
proof (induction ps arbitrary: sm q)
  case Nil
  from Nil(3) have "qo = Some q" by simp
  with run_step_refl [OF Nil(1)] show ?case by blast
next
  case (Cons p ps)
  let ?cr = "check_canonical (tags p)"
  obtain sm1 q1 where 1: "check_step E tags p (sm, Some q) = (sm1, Some q1)"
    "q1 = (if quarantine_should_move ?cr then snd (quarantine_move E (tags p) ?cr q) else q)"
    by (simp add: check_step_def on_file_check_def Let_def)
  have r1: "run_step (failing lib tags) q q1"
  proof (cases "quarantine_should_move ?cr")
    case True
    then have "failing lib tags (tr_path (tags p))" using Cons.prems(2) by (auto simp: failing_def should_move_iff)
    with move_run_step [OF Cons.prems(1)] True 1(2) show ?thesis by simp
  next
    case False
    with run_step_refl [OF Cons.prems(1)] 1(2) show ?thesis by simp
  qed
  then have "sound q1" by (simp add: run_step_def)
  from Cons.IH [OF this, of sm1] Cons.prems(2,3) 1(1) obtain q' where "qo = Some q'" "run_step (failing lib tags) q1 q'" by auto
  with run_step_trans [OF r1] show ?case by blast
qed

text \<open>C39: the quarantine loses nothing. Whatever system calls fail, a run of the checker with \<open>--quarantine\<close> keeps
  the content of every file (the log apart): it is still at its path, or the file failed the canonical schema
  and its content stands under a name below the quarantine directory. So files that pass stay where they are,
  nothing is overwritten, and a dry run changes nothing at all.\<close>

theorem quarantine_loses_nothing:
  assumes "fs_wf s" "co_quarantine opts" "qe_real E (co_quarantine_path opts) = Some quar"
    and "fs_content s p = Some c" "fs_inode s p \<noteq> fs_inode s (quar @ ''/quarantine.log'')"
    and "tagcheck_run E lib tags opts s = (code, sm, s')"
  shows "(\<exists>q. (q = p \<or> (\<exists>f \<in> set (library_files lib). tr_path (tags f) = p \<and> cr_any_fail (check_canonical (tags f))) \<and>
      (\<exists>t. q = quar @ [slash] @ t)) \<and> fs_content s' q = Some c) \<and> (co_dry_run opts \<longrightarrow> s' = s)"
proof -
  let ?sm = "report_summary_init (if co_json opts then REPORT_FORMAT_JSON else REPORT_FORMAT_TEXT)"
  obtain i where i: "fs_inode s p = Some i" "file_data s i = c" using assms(4) by (auto simp: fs_content_def split: option.splits)
  obtain qo s1 where init: "quarantine_init E (co_library_path opts) (co_quarantine_path opts) (co_dry_run opts) s = (qo, s1)" by fastforce
  note I = init_ready [OF assms(1,3) init]
  show ?thesis
  proof (cases qo)
    case None
    with assms(2,6) init have "s' = s1" by (simp add: tagcheck_run_def)
    moreover have "fs_content s1 p = Some c" using I assms(4,5) by (auto simp: log_of_def)
    ultimately show ?thesis using I by blast
  next
    case (Some q)
    with I have R: "ready quar s q" "qc_dry_run q = co_dry_run opts" by auto
    then have sound: "sound q" and quar: "qc_quarantine_root q = quar" by (auto simp: ready_def sound_def)
    obtain wr c' ws where w: "walker_walk lib tags (on_file_check E) (?sm, Some q) = (wr, c', ws)" by (metis prod_cases3)
    obtain sm2 q2o where c2: "c' = (sm2, q2o)" by fastforce
    have "\<exists>q2. q2o = Some q2 \<and> run_step (failing lib tags) q q2"
      using walk_check [OF w] fold_run_step [OF sound, of "library_files lib" lib E tags ?sm sm2 q2o] run_step_refl [OF sound] c2
      by (auto split: if_splits)
    then obtain q2 where q2: "q2o = Some q2" "run_step (failing lib tags) q q2" by blast
    have s': "s' = qc_fs (quarantine_close E q2)"
      using assms(2,6) init Some w c2 q2(1) by (simp add: tagcheck_run_def Let_def)
    have roots: "qc_quarantine_root q2 = quar" "qc_dry_run q2 = qc_dry_run q" "qc_log q2 = qc_log q" "log_opened q2"
      using q2(2) quar by (simp_all add: run_step_def same_roots_def sound_def)
    let ?L = "movable (qc_library_root q) quar (failing lib tags)"
    have st: "qstep ?L (below quar) (log_of quar) (qc_fs q) s'"
      using log_line_kept [OF roots(4)] qstep_trans q2(2) quar roots(1)
      by (auto simp: s' quarantine_close_def run_step_def)
    have k: "fs_inode (qc_fs q) p = Some i" "file_data (qc_fs q) i = c" "fs_inode (qc_fs q) (log_of quar) \<noteq> Some i"
      using R(1) i assms(5) unfolding ready_def log_of_def by auto
    from st k obtain r where r: "r = p \<or> ?L p \<and> below quar r" "fs_inode s' r = Some i" "file_data s' i = c"
      unfolding qstep_def by metis
    have "s' = s" if "co_dry_run opts"
    proof -
      have "qc_log q2 = None" using roots(2-4) R(2) that by (simp add: log_opened_def)
      then show ?thesis using R that q2(2) by (simp add: s' quarantine_close_def log_line_def run_step_def ready_def)
    qed
    with r show ?thesis by (auto simp: fs_content_def movable_def failing_def below_def)
  qed
qed

section \<open>What the report counts\<close>

definition miss_of :: "canonical_field \<Rightarrow> check_issue \<Rightarrow> bool" where
  "miss_of k i \<longleftrightarrow> ci_severity i = CHECK_FAIL \<and> ci_code i = ''missing_field'' \<and> ci_field i = k"

definition misses :: "canonical_field \<Rightarrow> check_result \<Rightarrow> nat" where
  "misses k r = length (filter (miss_of k) (cr_issues r))"

lemma misses_push: "misses k (issues_push sv f c d r) = misses k r + (if sv = CHECK_FAIL \<and> c = ''missing_field'' \<and> f = k then 1 else 0)"
  by (auto simp: misses_def miss_of_def)

lemma misses_format: "misses k (check_format rec r) = misses k r"
  by (simp add: check_format_def misses_push)

lemma misses_heuristic: "misses k (check_heuristic rec f r) = misses k r"
  by (simp add: check_heuristic_def misses_push split: option.split)

definition lacks :: "tag_record \<Rightarrow> canonical_field \<Rightarrow> bool" where
  "lacks rec k \<longleftrightarrow> (case field_lookup rec k of None \<Rightarrow> False | Some tf \<Rightarrow> absent tf)"

lemma misses_presence: "misses k (check_presence rec f r) = misses k r + (if f = k \<and> lacks rec k then 1 else 0)"
  by (auto simp: check_presence_def misses_push lacks_def split: option.split)

lemma misses_canonical: "misses k (check_canonical rec) = (if \<not> tr_failed rec \<and> lacks rec k then 1 else 0)"
proof -
  have 0: "misses k \<lparr>cr_failed = b, cr_any_fail = c, cr_any_flag = d, cr_issues = []\<rparr> = 0" for b c d by (simp add: misses_def)
  have "misses k (fold (check_presence rec) canonical_fields r) = misses k r + (if lacks rec k then 1 else 0)" for r
    by (cases k) (simp_all add: canonical_fields_def misses_presence lacks_def)
  with 0 show ?thesis by (simp add: check_canonical_def Let_def misses_push misses_heuristic misses_format)
qed

lemma fold_count_missing: "k \<noteq> FIELD_COUNT \<Longrightarrow> fold count_missing is m k = m k + length (filter (miss_of k) is)"
  by (induction "is" arbitrary: m) (auto simp: count_missing_def miss_of_def)

definition bad :: "(path \<Rightarrow> tag_record) \<Rightarrow> path \<Rightarrow> bool" where
  "bad tags f \<longleftrightarrow> cr_any_fail (check_canonical (tags f))"

lemma failed_bad: "cr_any_fail (check_canonical rec) \<or> cr_failed (check_canonical rec) \<longleftrightarrow> cr_any_fail (check_canonical rec)"
  using should_move_iff by (simp add: quarantine_should_move_def)

lemma report_add_counts:
  fixes rec :: tag_record
  assumes r: "r = check_canonical rec"
  shows "rp_seen (report_add rec r s) = rp_seen s + 1"
    "rp_failed (report_add rec r s) = rp_failed s + (if cr_any_fail r then 1 else 0)"
    "rp_passed (report_add rec r s) + rp_flagged_only (report_add rec r s) =
       rp_passed s + rp_flagged_only s + (if cr_any_fail r then 0 else 1)"
    "k \<noteq> FIELD_COUNT \<Longrightarrow> rp_missing (report_add rec r s) k = rp_missing s k + (if \<not> tr_failed rec \<and> lacks rec k then 1 else 0)"
proof -
  have f: "cr_any_fail r \<or> cr_failed r \<longleftrightarrow> cr_any_fail r" using failed_bad r by simp
  show "rp_seen (report_add rec r s) = rp_seen s + 1"
    "rp_failed (report_add rec r s) = rp_failed s + (if cr_any_fail r then 1 else 0)"
    "rp_passed (report_add rec r s) + rp_flagged_only (report_add rec r s) =
       rp_passed s + rp_flagged_only s + (if cr_any_fail r then 0 else 1)"
    unfolding report_add_def Let_def f by (simp_all split: report_format.split)
  have "rp_missing (report_add rec r s) = fold count_missing (cr_issues r) (rp_missing s)"
    unfolding report_add_def Let_def by (simp split: report_format.split)
  with misses_canonical [of k rec] show "rp_missing (report_add rec r s) k =
      rp_missing s k + (if \<not> tr_failed rec \<and> lacks rec k then 1 else 0)" if "k \<noteq> FIELD_COUNT"
    using that by (simp add: fold_count_missing misses_def r)
qed

lemma fold_counts:
  assumes "fold (check_step E tags) fs (s, None) = (s', qo)"
  shows "qo = None \<and> rp_seen s' = rp_seen s + length fs \<and> rp_failed s' = rp_failed s + length (filter (bad tags) fs) \<and>
    rp_passed s' + rp_flagged_only s' = rp_passed s + rp_flagged_only s + length (filter (\<lambda>f. \<not> bad tags f) fs) \<and>
    (\<forall>k. k \<noteq> FIELD_COUNT \<longrightarrow> rp_missing s' k = rp_missing s k + length (filter (\<lambda>f. \<not> tr_failed (tags f) \<and> lacks (tags f) k) fs))"
  using assms
proof (induction fs arbitrary: s)
  case (Cons f fs)
  have "check_step E tags f (s, None) = (report_add (tags f) (check_canonical (tags f)) s, None)"
    by (simp add: check_step_def on_file_check_def Let_def)
  with Cons.prems have "fold (check_step E tags) fs (report_add (tags f) (check_canonical (tags f)) s, None) = (s', qo)" by simp
  from Cons.IH [OF this] report_add_counts [OF refl, where rec = "tags f" and s = s] show ?case by (simp add: bad_def)
qed simp

text \<open>C40: a report counts what the checker finds. Without \<open>--quarantine\<close> the run changes no file; when the walk
  succeeds, every audio file of the library is counted once, as passed, flagged or failed, the failed ones are
  exactly those the canonical schema rejects, each field's counter is the number of readable files that lack
  it, and the exit code is 0 exactly when no file fails and 1 otherwise.\<close>

theorem tagcheck_counts_exactly:
  assumes "\<not> co_quarantine opts" "tagcheck_run E lib tags opts s = (code, sm, s')" "code \<noteq> TAGCHECK_EXIT_ERROR"
  shows "s' = s \<and> rp_seen sm = length (library_files lib) \<and> rp_passed sm + rp_flagged_only sm + rp_failed sm = rp_seen sm \<and>
    rp_failed sm = length (filter (\<lambda>f. cr_any_fail (check_canonical (tags f))) (library_files lib)) \<and>
    (\<forall>k. k \<noteq> FIELD_COUNT \<longrightarrow> rp_missing sm k = length (filter (\<lambda>f. \<not> tr_failed (tags f) \<and>
       (case field_lookup (tags f) k of None \<Rightarrow> False | Some tf \<Rightarrow> absent tf)) (library_files lib))) \<and>
    code = (if \<exists>f \<in> set (library_files lib). cr_any_fail (check_canonical (tags f))
      then TAGCHECK_EXIT_FAILED_TRACKS else TAGCHECK_EXIT_OK)"
proof -
  let ?sm = "report_summary_init (if co_json opts then REPORT_FORMAT_JSON else REPORT_FORMAT_TEXT)"
  let ?fs = "library_files lib"
  obtain wr c' ws where w: "walker_walk lib tags (on_file_check E) (?sm, None) = (wr, c', ws)" by (metis prod_cases3)
  obtain sm2 qo where c: "c' = (sm2, qo)" by fastforce
  have wr: "wr = 0" using assms w c by (auto simp: tagcheck_run_def Let_def split: if_splits)
  with walk_check [OF w] c have f: "fold (check_step E tags) ?fs (?sm, None) = (sm2, qo)" by simp
  note F = fold_counts [OF f]
  then have e: "sm = report_emit ws sm2" "s' = s"
    "code = (if rp_failed sm2 > 0 then TAGCHECK_EXIT_FAILED_TRACKS else TAGCHECK_EXIT_OK)"
    using assms(1,2) w c wr by (simp_all add: tagcheck_run_def Let_def report_emit_def)
  have z: "rp_seen ?sm = 0" "rp_failed ?sm = 0" "rp_passed ?sm = 0" "rp_flagged_only ?sm = 0" "rp_missing ?sm k = 0" for k
    by (simp_all add: report_summary_init_def)
  have sum: "length (filter (bad tags) ?fs) + length (filter (\<lambda>f. \<not> bad tags f) ?fs) = length ?fs"
    by (rule sum_length_filter_compl)
  have r: "rp_seen sm = rp_seen sm2" "rp_failed sm = rp_failed sm2" "rp_passed sm = rp_passed sm2"
    "rp_flagged_only sm = rp_flagged_only sm2" "rp_missing sm = rp_missing sm2"
    by (simp_all add: e report_emit_def)
  have "(rp_failed sm2 > 0) = (\<exists>f \<in> set ?fs. cr_any_fail (check_canonical (tags f)))"
    using F z by (auto simp: bad_def [abs_def] filter_empty_conv)
  with F z sum e(2,3) show ?thesis by (simp add: r bad_def [abs_def] lacks_def)
qed

section \<open>Witnesses\<close>

definition tag_env :: quarantine_env where
  "tag_env = \<lparr>qe_real = Some, qe_flock = True, qe_iso = ''now'', qe_time = 7, qe_rand = (\<lambda>p n. 0)\<rparr>"

definition untagged :: library where
  "untagged = \<lparr>lb_real = Some ''/l'', lb_isdir = True, lb_fts = Some [FtsF ''a.mp3'']\<rparr>"

definition tag_fs :: "errno option list \<Rightarrow> fs" where
  "tag_fs q = \<lparr>fs_nodes = [(''/l'', Dir), (''/q'', Dir), (''/l/a.mp3'', Reg 0), (''/q/a.mp3'', Reg 1)],
     fs_data = [(0, ''abc''), (1, ''old'')], fs_next = 2, fs_faults = q\<rparr>"

definition quarantine_opts :: "bool \<Rightarrow> cli_opts" where
  "quarantine_opts q = \<lparr>co_library_path = ''/l'', co_quarantine_path = ''/q'', co_json = True, co_quarantine = q,
     co_dry_run = False, co_init_quarantine = False\<rparr>"

text \<open>A name is taken in the quarantine already; both files survive.\<close>

lemma quarantine_loses_nothing_witness:
  "\<exists>q r. (q = ''/l/a.mp3'' \<or> (\<exists>t. q = ''/q/'' @ t)) \<and> (r = ''/q/a.mp3'' \<or> (\<exists>t. r = ''/q/'' @ t)) \<and>
     fs_content (snd (snd (tagcheck_run tag_env untagged tag_record_new (quarantine_opts True) (tag_fs [])))) q = Some ''abc'' \<and>
     fs_content (snd (snd (tagcheck_run tag_env untagged tag_record_new (quarantine_opts True) (tag_fs [])))) r = Some ''old''"
proof -
  obtain code sm s' where run: "tagcheck_run tag_env untagged tag_record_new (quarantine_opts True) (tag_fs []) = (code, sm, s')"
    by (metis prod_cases3)
  have wf: "fs_wf (tag_fs [])" by (auto simp: fs_wf_def fs_inode_def fs_get_def tag_fs_def split: if_splits)
  have o: "co_quarantine (quarantine_opts True)" "qe_real tag_env (co_quarantine_path (quarantine_opts True)) = Some ''/q''"
    by (simp_all add: quarantine_opts_def tag_env_def)
  have i: "fs_content (tag_fs []) ''/l/a.mp3'' = Some ''abc''" "fs_content (tag_fs []) ''/q/a.mp3'' = Some ''old''"
    "fs_inode (tag_fs []) ''/l/a.mp3'' \<noteq> fs_inode (tag_fs []) (''/q'' @ ''/quarantine.log'')"
    "fs_inode (tag_fs []) ''/q/a.mp3'' \<noteq> fs_inode (tag_fs []) (''/q'' @ ''/quarantine.log'')"
    by (simp_all add: fs_content_def fs_inode_def fs_get_def tag_fs_def file_data_def)
  from quarantine_loses_nothing [OF wf o i(1,3) run] quarantine_loses_nothing [OF wf o i(2,4) run]
  show ?thesis by (auto simp: run)
qed

lemma tagcheck_counts_exactly_witness:
  "\<exists>sm. tagcheck_run tag_env untagged tag_record_new (quarantine_opts False) (tag_fs []) = (TAGCHECK_EXIT_FAILED_TRACKS, sm, tag_fs []) \<and>
     rp_failed sm = 1 \<and> rp_missing sm FIELD_GENRE = 1"
proof -
  obtain code sm s' where run: "tagcheck_run tag_env untagged tag_record_new (quarantine_opts False) (tag_fs []) = (code, sm, s')"
    by (metis prod_cases3)
  have "fst (tagcheck_run tag_env untagged tag_record_new (quarantine_opts False) (tag_fs [])) \<noteq> TAGCHECK_EXIT_ERROR" by code_simp
  with run have c: "code \<noteq> TAGCHECK_EXIT_ERROR" by simp
  have f: "library_files untagged = [''/l/a.mp3'']" by code_simp
  have b: "cr_any_fail (check_canonical (tag_record_new ''/l/a.mp3''))" by code_simp
  have g: "\<not> tr_failed (tag_record_new ''/l/a.mp3'')" "field_lookup (tag_record_new ''/l/a.mp3'') FIELD_GENRE = Some no_field"
    "absent (tr_genre (tag_record_new ''/l/a.mp3''))" by (simp_all add: tag_record_new_def no_field_def absent_def)
  from tagcheck_counts_exactly [OF _ run c] have
    "s' = tag_fs []" "rp_failed sm = 1" "rp_missing sm FIELD_GENRE = 1" "code = TAGCHECK_EXIT_FAILED_TRACKS"
    by (simp_all add: quarantine_opts_def f b g)
  with run show ?thesis by simp
qed

end
