(* ===== verification/Spec2Isabelle.thy ===== *)
theory Spec2Isabelle
  imports IngestProps DiffProps RotateProps Lock AtomicIo Download WatchProps Migrate TranscodeMigrate PublishProps QuarantineProps
begin

text \<open>
  Verification of the \<open>nocturned\<close> daemon (\<open>src/src/nocturned/\<close>), of the tag checker it links
  (\<open>src/src/tagcheck/\<close>) and of the hash it vendors (\<open>src/vendor/sha256/\<close>). The daemon keeps an index of a music
  library in SQLite, decides which tracks the phone should hold, moves or encodes them into the directory
  Syncthing shares, and applies the events the phone writes back. Definitions carry the names of the C
  functions they translate; where one C function is cut into several definitions, each names the step.

  \<^bold>\<open>How the parts interact.\<close> The watcher (or a cycle) runs the scan, which walks the library, reads tags, checks
  and hashes each file and reconciles the \<open>tracks\<close> table. The ingester reads the phone's JSONL files into plays,
  likes, pins and actions; the download dispatcher reads its download requests. The resolver computes the
  manifest from the database and the configuration, the diff shows what it would change, rotate makes the
  resident directory follow it, publish writes the catalogue and the manifest for the phone. Writers exclude one
  another by the lock file; files the phone reads are replaced by the atomic writer. All of them work on a
  \<open>world\<close>: the database, the file system, the schedule of failing statements and the open transaction.

  \<^bold>\<open>Foundations.\<close> \<open>Prelude\<close>: C strings as byte lists, \<open>errno\<close>. \<open>Fs\<close>, \<open>FsFacts\<close>: a POSIX file system (paths to
  inodes, inodes to bytes), and the directory helpers of \<open>paths.c\<close>; every call that changes the tree consumes one
  entry of the schedule \<open>fs_faults\<close> and may fail by it, so a theorem for every schedule covers every error path
  and every crash. \<open>Database\<close>: the tables of \<open>schema/*.sql\<close> with their keys, cascades and the trigger of schema 8,
  statements that fail by the schedule \<open>w_sql\<close>, and the transactions of \<open>db.c\<close>. \<open>Float64\<close>: the double arithmetic
  the code uses, rounded as IEEE 754 says. \<open>Emit\<close>: \<open>printf\<close> of integers, \<open>atoll\<close>, the JSON string writer.

  \<^bold>\<open>From the library to the index.\<close> \<open>Sha256\<close> (\<open>sha256.c\<close>): the streaming context computes the standard's function
  for every cut of the input. \<open>Hash\<close> (\<open>hash.c\<close>): the identity of a track is the hash of its audio payload, so a
  rewritten ID3 tag keeps it. \<open>Tags\<close>, \<open>Check\<close>, \<open>Walker\<close> (\<open>tagcheck/\<close>): tag extraction over what TagLib answers,
  the canonical schema check, the \<open>fts\<close> walk. \<open>Scan\<close>, \<open>ScanProps\<close> (\<open>scan.c\<close>): the callback, the sweep, the
  transaction; a successful scan leaves exactly the rows of the audio files found, a second one over distinct,
  indexable files changes nothing but the seen marks and the record of the scan, a failed one leaves the database
  file as it was. \<open>TrackRepo\<close> (\<open>track_repo.c\<close>): the
  statements on \<open>tracks\<close>. \<open>WdMap\<close>, \<open>Watch\<close>, \<open>WatchProps\<close> (\<open>watch.c\<close>): the open-addressing table of watch
  descriptors refines a map, the debounce queue refines a map of deadlines, registration covers the tree, and
  a quiet period scans everything that was queued.

  \<^bold>\<open>From the phone.\<close> \<open>Jsonl\<close> (\<open>jsonl.c\<close>): the line reader refines a function of the unread bytes for every read
  schedule. \<open>Actions\<close> (\<open>actions.c\<close>): unsync and delete everywhere. \<open>Ingest\<close>, \<open>IngestSpec\<close>, \<open>Lww\<close>, \<open>IngestProps\<close>
  (\<open>ingest.c\<close>): the handlers, the file loop, the run; \<open>ingest_spec\<close> is the reference semantics of a file. The
  locale \<open>db_inv\<close> lists what an invariant of the database must satisfy to survive every handler, and is interpreted
  for the schema constraints, the offsets and the absence of deleted tracks; \<open>lww_table\<close> is the contract of a
  last-writer-wins table, interpreted for likes and pins. \<open>Download\<close> (\<open>download.c\<close>): each request is run
  exactly once as long as its outcome is not on record.

  \<^bold>\<open>Deciding.\<close> \<open>Config\<close> (\<open>config.c\<close>): the TOML subset; every loaded configuration is in the ranges the
  parser enforces and keeps the built-in buckets in front. \<open>Resolver\<close>,
  \<open>ResolverProps\<close> (\<open>resolver.c\<close>): buckets, admission under the cap with hysteresis, determinism under every row
  order SQLite may return as long as no limit without an order cuts (and an example where one does). \<open>Diff\<close>, \<open>DiffProps\<close> (\<open>diff.c\<close>, the writers of \<open>resolver.c\<close> and \<open>resolve_cmd.c\<close>): the JSON
  text determines the manifest, the stored manifest excludes unsynced and blacklisted tracks, the merge is the
  set difference, and a manifest just written differs from its copy by exactly what the write leaves out.

  \<^bold>\<open>Moving files.\<close> \<open>Transcode\<close> (\<open>transcode.c\<close>, \<open>loudness.c\<close>): the command line and the gain. \<open>Rotate\<close>, \<open>RotateFs\<close>,
  \<open>RotateSafe\<close>, \<open>RotateProps\<close> (\<open>rotate.c\<close>): the run in both modes. The locale \<open>tree_order\<close> is the contract between
  single calls and the loops over them (a preorder on trees that the calls respect is respected by the loops);
  it is interpreted for the order ``no audio is lost'' of move mode, for ``no file outside \<open>resident/\<close> changes'' of
  transcode mode, and again in \<open>Migrate\<close> (\<open>migrate.c\<close>) and \<open>TranscodeMigrate\<close> (\<open>transcode_migrate.c\<close>,
  \<open>transcode_level.c\<close>). The locale \<open>residency_step\<close> is the contract of one track's move in the run.

  \<^bold>\<open>Sharing.\<close> \<open>Lock\<close> (\<open>lock.c\<close>): a step relation with one step for each system call of any number of processes,
  mutual exclusion as long as no lock file is unlinked, and the schedule that breaks it with \<open>lock_release\<close>.
  \<open>AtomicIo\<close> (\<open>atomic_io.c\<close>): a buffer write leaves the old file or the new one. \<open>Catalog\<close>, \<open>CatalogProps\<close>,
  \<open>PublishProps\<close> (\<open>catalog.c\<close>, \<open>publish.c\<close>): the import of a catalogue gives a normal form of every row, and portable rows come back whole; a
  publication replaces whole files.

  \<^bold>\<open>The tag checker.\<close> \<open>Report\<close> (\<open>tagcheck/report.c\<close>): the counters and both renderings; an escaped
  string of the JSON document reads back as one string whatever the tags hold. \<open>Quarantine\<close>,
  \<open>QuarantineProps\<close> (\<open>tagcheck/quarantine.c\<close>, \<open>main.c\<close>): the moves and the run; a quarantine loses and overwrites
  nothing and takes only files that fail the schema, and a report counts exactly what the checker finds.

  \<^bold>\<open>Loops and bounds.\<close> Loops over lists are \<open>fun\<close> or \<open>fold\<close>. The readers that may meet any number of interrupted
  or failing reads (\<open>ingest_loop\<close>, \<open>each_line\<close>) are partial functions into \<open>option\<close>, and their return is a theorem;
  \<open>write_loop\<close> and the reader's inner loops have measures. \<open>prune_dir\<close> and \<open>remove_orphans_in\<close> recurse with the
  depth of the tree (\<open>tree_depth\<close>) as fuel, which no descent can use up. The probe loops of the descriptor table
  take as many steps as it has slots, and an invariant shows an empty slot is met before. Machine integers are
  words in \<open>Sha256\<close>, \<open>Hash\<close> and the hash of \<open>WdMap\<close>; elsewhere 64-bit values are \<open>int\<close> and the saturation
  of \<open>strtoll\<close> is written out. Path buffers are cut at their size as \<open>snprintf\<close> does.

  \<^bold>\<open>Parameters.\<close> Libraries are parameters: jansson's parser and renderings, TagLib's answers, \<open>ffmpeg\<close> and
  \<open>flacget\<close> as functions from their command to an exit status and the bytes they leave, \<open>realpath\<close>, \<open>fts\<close>, the kernel's answers to
  \<open>inotify\<close>, the clock. Theorems that need a law of one (a JSON text reads back) have it as a hypothesis, and
  their witness instantiates it.

  \<^bold>\<open>Not modelled.\<close> Memory allocation (it never fails) and freeing; output to the terminal and the logs; the SQL text and
  the query planner (a statement is its effect on the tables, reads do not fail); the pragmas and the WAL of the
  handle, and \<open>migrations.c\<close>, which creates the schema; symbolic links; read errors of a copy across file systems
  (\<open>copy_only\<close>); shell metacharacters in the name of the shared directory, which \<open>glob\<close> would expand
  (\<open>glob_match\<close> takes it literally and matches no directories). The command front ends (\<open>main.c\<close>, \<open>cli.c\<close>,
  \<open>*_cmd.c\<close>) only parse options, take the lock and call what is modelled. \<open>syncthing_api.c\<close> is HTTP over \<open>libcurl\<close>,
  \<open>sync_config.c\<close> an XML text of a fixed shape; \<open>doctor.c\<close>, \<open>diskcheck.c\<close> and \<open>why_cmd.c\<close> print what their queries
  return. \<open>discover.c\<close> fills the table of weekly picks; the resolver that reads it is modelled, the picker is
  not. The phone application (Kotlin) and the scripts are another program.
\<close>

end
